(* ===== verification/Prelude.thy ===== *)
theory Prelude
  imports Main "HOL-Library.Word"
begin

unbundle bit_operations_syntax

text \<open>
  Shared vocabulary of the development: the machine types of \<^verbatim>\<open>student-distrib/types.h\<close>,
  memory as functions from addresses to bytes, the two loop shapes that the C sources use
  again and again (scan forward while a condition holds; copy a run of bytes), and the
  collections of simplification rules the component theories extend.
\<close>

section \<open>Machine types\<close>

text \<open>
  \<^verbatim>\<open>int32_t\<close> and \<^verbatim>\<open>uint32_t\<close> are the same 32-bit words; a signed reading is written
  \<open>sint\<close>, \<open><s\<close> or \<open>\<le>s\<close> where the C operator is signed. Bytes are 8-bit words whether the
  source spells them \<^verbatim>\<open>int8_t\<close>, \<^verbatim>\<open>uint8_t\<close> or \<^verbatim>\<open>char\<close>.
\<close>

type_synonym u8 = "8 word"
type_synonym u16 = "16 word"
type_synonym u32 = "32 word"
type_synonym s32 = "32 word"

text \<open>
  An array of bytes reached through a pointer is the function of its index; nothing stops
  an index from leaving the object, exactly as in C, so that staying inside is a theorem
  about the code and not a property of the type. \<open>mem\<close> is the flat 32-bit address space.
\<close>

type_synonym bytes = "nat \<Rightarrow> u8"
type_synonym mem = "u32 \<Rightarrow> u8"

named_theorems loop_simps \<open>closed forms of the source's loops\<close>
named_theorems frame_simps \<open>what an operation leaves unchanged\<close>
named_theorems inv_intros \<open>operations that keep a component's invariant\<close>

abbreviation NUL :: u8 where "NUL \<equiv> 0"
abbreviation SPACE :: u8 where "SPACE \<equiv> 32"
abbreviation NEWLINE :: u8 where "NEWLINE \<equiv> 10"

text \<open>\<^verbatim>\<open>-1\<close> as an \<^verbatim>\<open>int32_t\<close>: the failure code of most operations.\<close>

abbreviation FAIL :: s32 where "FAIL \<equiv> - 1"

lemma unat_u32_less: "unat (w :: u32) < 4294967296"
  using unsigned_less [where 'a = nat, of w] by simp

lemma unat_u8_less: "unat (w :: u8) < 256"
  using unsigned_less [where 'a = nat, of w] by simp

lemma bit_255: "bit (255 :: int) i \<longleftrightarrow> i < 8"
proof -
  have "(255 :: int) = mask 8" by (simp add: mask_eq_exp_minus_1)
  then show ?thesis by (simp only: bit_mask_iff) auto
qed

text \<open>A 16-bit register is written as its low and its high byte.\<close>

lemma u16_halves:
  "256 * unat (ucast (drop_bit 8 p AND 0xFF) :: u8) + unat (ucast (p AND 0xFF) :: u8) = unat (p :: u16)"
proof -
  have m: "(0xFF :: u16) = mask 8" by (simp add: mask_eq_exp_minus_1)
  have "unat (ucast (p AND 0xFF) :: u8) = unat p mod 256"
    unfolding m by (simp add: unsigned_ucast_eq take_bit_eq_mod unat_mod flip: take_bit_eq_mask)
  moreover have "unat (ucast (drop_bit 8 p AND 0xFF) :: u8) = unat p div 256"
    using unsigned_less [where 'a = nat, of p] unfolding m
    by (simp add: unsigned_ucast_eq take_bit_eq_mod unat_drop_bit_eq drop_bit_eq_div unat_mod unat_div
        flip: take_bit_eq_mask)
  ultimately show ?thesis by simp
qed

lemma uint_of_int_u16: "0 \<le> z \<Longrightarrow> z < 65536 \<Longrightarrow> uint (of_int z :: u16) = z"
  by (simp add: unsigned_of_int take_bit_int_eq_self)

section \<open>Strings and byte runs\<close>

definition byte_of_char :: "char \<Rightarrow> u8" where
  "byte_of_char c = of_char c"

text \<open>A C string literal, its terminator and (as zero bytes) what follows it.\<close>

definition cstr :: "string \<Rightarrow> bytes" where
  "cstr s i = (if i < length s then byte_of_char (s ! i) else NUL)"

definition bytes_of :: "u8 list \<Rightarrow> bytes" where
  "bytes_of xs i = (if i < length xs then xs ! i else NUL)"

definition run_of :: "bytes \<Rightarrow> nat \<Rightarrow> nat \<Rightarrow> u8 list" where
  "run_of b off n = map (\<lambda>i. b (off + i)) [0..<n]"

text \<open>\<open>is_cstring b n\<close>: the NUL-terminated string at \<open>b\<close> has length \<open>n\<close>.\<close>

definition is_cstring :: "bytes \<Rightarrow> nat \<Rightarrow> bool" where
  "is_cstring b n \<longleftrightarrow> (\<forall>i\<in>{0..<n}. b i \<noteq> NUL) \<and> b n = NUL"

lemma length_run_of [simp]: "length (run_of b off n) = n"
  by (simp add: run_of_def)

lemma nth_run_of [simp]: "i < n \<Longrightarrow> run_of b off n ! i = b (off + i)"
  by (simp add: run_of_def)

lemma run_of_0 [simp]: "run_of b off 0 = []"
  by (simp add: run_of_def)

lemma run_of_Suc: "run_of b off (Suc n) = b off # run_of b (Suc off) n"
  by (rule nth_equalityI) (auto simp: nth_Cons split: nat.split)

lemma run_of_append: "run_of b off (m + n) = run_of b off m @ run_of b (off + m) n"
  by (rule nth_equalityI) (auto simp: nth_append)

lemma run_of_eq_iff: "run_of b off n = xs \<longleftrightarrow> length xs = n \<and> (\<forall>i<n. b (off + i) = xs ! i)"
  by (auto simp: list_eq_iff_nth_eq)

lemma run_of_bytes_of [simp]: "run_of (bytes_of xs) 0 (length xs) = xs"
  by (rule nth_equalityI) (auto simp: bytes_of_def)

lemma is_cstring_unique: "is_cstring b m \<Longrightarrow> is_cstring b n \<Longrightarrow> m = n"
  unfolding is_cstring_def by (metis atLeastLessThan_iff linorder_neqE_nat zero_le)

section \<open>Scanning loops\<close>

text \<open>
  \<^verbatim>\<open>while (P(i) && i < max) i++\<close>, with \<open>k\<close> the number of further iterations the bound
  allows. (Where the source tests \<open>P\<close> before the bound it only reads one byte more.)
\<close>

fun scan :: "(nat \<Rightarrow> bool) \<Rightarrow> nat \<Rightarrow> nat \<Rightarrow> nat" where
  "scan P i 0 = i"
| "scan P i (Suc k) = (if P i then scan P (Suc i) k else i)"

lemma scan_bounds: "i \<le> scan P i k" "scan P i k \<le> i + k"
  by (induction P i k rule: scan.induct) auto

lemma scan_prefix: "i \<le> j \<Longrightarrow> j < scan P i k \<Longrightarrow> P j"
proof (induction P i k rule: scan.induct)
  case (2 P i k)
  then show ?case by (cases "i = j") (auto split: if_splits)
qed simp

lemma scan_stop: "scan P i k < i + k \<Longrightarrow> \<not> P (scan P i k)"
  by (induction P i k rule: scan.induct) (auto split: if_splits)

lemma scan_unique:
  assumes "i \<le> n" "n \<le> i + k" "\<And>j. i \<le> j \<Longrightarrow> j < n \<Longrightarrow> P j" "n = i + k \<or> \<not> P n"
  shows "scan P i k = n"
proof (rule antisym)
  show "scan P i k \<le> n"
    using assms(2,4) scan_bounds(2) [of P i k] scan_prefix [of i n P k] assms(1)
    by (metis not_le_imp_less)
  show "n \<le> scan P i k"
    using assms(2,3) scan_bounds(1) [of i P k] scan_stop [of P i k]
    by (metis less_le_trans not_le_imp_less)
qed

lemma scan_takeWhile: "scan P i k = i + length (takeWhile P [i..<i + k])"
  by (induction P i k rule: scan.induct) (auto simp: upt_rec)

section \<open>Copying and filling loops\<close>

text \<open>\<^verbatim>\<open>for (j = 0; j < n; j++) dst[d + j] = src[s + j]\<close>\<close>

fun copy_run :: "bytes \<Rightarrow> nat \<Rightarrow> bytes \<Rightarrow> nat \<Rightarrow> nat \<Rightarrow> bytes" where
  "copy_run dst d src s 0 = dst"
| "copy_run dst d src s (Suc n) = copy_run (dst(d := src s)) (Suc d) src (Suc s) n"

lemma copy_run_eq [loop_simps]:
  "copy_run dst d src s n = (\<lambda>i. if d \<le> i \<and> i < d + n then src (s + (i - d)) else dst i)"
proof (induction n arbitrary: dst d s)
  case (Suc n)
  show ?case
    by (rule ext) (auto simp: Suc.IH Suc_le_eq Suc_diff_Suc simp flip: add_Suc_right
        intro!: arg_cong [of _ _ src])
qed (auto simp: fun_eq_iff)

text \<open>\<^verbatim>\<open>for (; i < i + n; i++) dst[i] = v\<close>\<close>

fun fill_run :: "bytes \<Rightarrow> nat \<Rightarrow> u8 \<Rightarrow> nat \<Rightarrow> bytes" where
  "fill_run dst d v 0 = dst"
| "fill_run dst d v (Suc n) = fill_run (dst(d := v)) (Suc d) v n"

lemma fill_run_eq [loop_simps]:
  "fill_run dst d v n = (\<lambda>i. if d \<le> i \<and> i < d + n then v else dst i)"
proof (induction n arbitrary: dst d)
  case (Suc n)
  show ?case by (rule ext) (auto simp: Suc.IH)
qed (auto simp: fun_eq_iff)

section \<open>The flat address space\<close>

text \<open>A pointer turns the address space into the byte array it points to, and back.\<close>

definition view :: "mem \<Rightarrow> u32 \<Rightarrow> bytes" where
  "view m p = (\<lambda>i. m (p + of_nat i))"

definition unview :: "u32 \<Rightarrow> bytes \<Rightarrow> mem" where
  "unview p b = (\<lambda>a. b (unat (a - p)))"

lemma unview_view [simp]: "unview p (view m p) = m"
  by (simp add: unview_def view_def fun_eq_iff)

lemma view_unview: "i < 2 ^ 32 \<Longrightarrow> view (unview p b) p i = b i"
  by (simp add: unview_def view_def unat_of_nat)

text \<open>The 32-bit little-endian value at an address, and storing one.\<close>

definition le32 :: "u8 \<Rightarrow> u8 \<Rightarrow> u8 \<Rightarrow> u8 \<Rightarrow> u32" where
  "le32 b0 b1 b2 b3 =
     ucast b0 OR push_bit 8 (ucast b1) OR push_bit 16 (ucast b2) OR push_bit 24 (ucast b3)"

definition u32_at :: "bytes \<Rightarrow> nat \<Rightarrow> u32" where
  "u32_at b i = le32 (b i) (b (i + 1)) (b (i + 2)) (b (i + 3))"

definition byte_n :: "nat \<Rightarrow> u32 \<Rightarrow> u8" where
  "byte_n k w = ucast (drop_bit (8 * k) w)"

definition put32 :: "mem \<Rightarrow> u32 \<Rightarrow> u32 \<Rightarrow> mem" where
  "put32 m p w = m(p := byte_n 0 w, p + 1 := byte_n 1 w, p + 2 := byte_n 2 w, p + 3 := byte_n 3 w)"

lemma le32_byte_n: "le32 (byte_n 0 w) (byte_n 1 w) (byte_n 2 w) (byte_n 3 w) = w"
proof (rule bit_word_eqI)
  fix n assume n: "n < LENGTH(32)"
  consider "n < 8" | "8 \<le> n" "n < 16" | "16 \<le> n" "n < 24" | "24 \<le> n" "n < 32"
    using n by fastforce
  then show "bit (le32 (byte_n 0 w) (byte_n 1 w) (byte_n 2 w) (byte_n 3 w)) n = bit w n"
    by cases (auto simp: le32_def byte_n_def bit_simps)
qed

lemma byte_n_le32:
  "byte_n 0 (le32 a b c d) = a" "byte_n 1 (le32 a b c d) = b"
  "byte_n 2 (le32 a b c d) = c" "byte_n 3 (le32 a b c d) = d"
  by (rule bit_word_eqI, auto simp: byte_n_def le32_def bit_simps dest: bit_imp_le_length)+

lemma u32_at_put32: "u32_at (view (put32 m p w) p) 0 = w"
proof -
  have d: "p + 1 \<noteq> p" "p + 2 \<noteq> p" "p + 3 \<noteq> p" "p + 2 \<noteq> p + 1" "p + 3 \<noteq> p + 1" "p + 3 \<noteq> p + 2"
    by simp_all
  show ?thesis
    using d le32_byte_n [of w] by (simp add: u32_at_def view_def put32_def)
qed

end
