(* ===== verification/Pic.thy ===== *)
theory Pic
  imports Prelude
begin

text \<open>
  The two 8259 interrupt controllers (\<^verbatim>\<open>student-distrib/i8259.c\<close>) and the timer set-up of
  \<^verbatim>\<open>sched.c\<close>. The state is the pair of mask variables and the log of bytes written to ports,
  oldest first. \<open>pic_write\<close> is the device side: what a controller does with the bytes, as the
  comments of \<^verbatim>\<open>i8259.c\<close> and \<^verbatim>\<open>i8259.h\<close> state it (four initialisation words, then masks).
\<close>

unbundle bit_operations_syntax

section \<open>Operations\<close>

definition MASTER_8259_PORT :: u16 where "MASTER_8259_PORT = 0x20"
definition SLAVE_8259_PORT :: u16 where "SLAVE_8259_PORT = 0xA0"
definition MASTER_MD :: u16 where "MASTER_MD = MASTER_8259_PORT + 1"
definition SLAVE_MD :: u16 where "SLAVE_MD = SLAVE_8259_PORT + 1"
definition EOI :: u32 where "EOI = 0x60"
definition SLAVE_IRQ :: u32 where "SLAVE_IRQ = 2"

lemmas pic_consts = MASTER_8259_PORT_def SLAVE_8259_PORT_def MASTER_MD_def SLAVE_MD_def EOI_def SLAVE_IRQ_def

record pic =
  master_mask :: u8
  slave_mask :: u8
  port_log :: "(u16 \<times> u8) list"

text \<open>\<^verbatim>\<open>outb\<close> sends the low byte of its operand.\<close>

definition outb :: "u32 \<Rightarrow> u16 \<Rightarrow> pic \<Rightarrow> pic" where
  "outb data port s = s\<lparr>port_log := port_log s @ [(port, ucast data)]\<rparr>"

definition enable_irq :: "u32 \<Rightarrow> pic \<Rightarrow> pic" where
  "enable_irq irq_num s =
     (if irq_num < 8
      then let m = master_mask s AND ucast (NOT (push_bit (unat irq_num) (1 :: u32)))
           in outb (ucast m) MASTER_MD (s\<lparr>master_mask := m\<rparr>)
      else let irq_num = irq_num - 8;
               m = slave_mask s AND ucast (NOT (push_bit (unat irq_num) (1 :: u32)))
           in outb (ucast m) SLAVE_MD (s\<lparr>slave_mask := m\<rparr>))"

definition disable_irq :: "u32 \<Rightarrow> pic \<Rightarrow> pic" where
  "disable_irq irq_num s =
     (if irq_num < 8
      then let m = master_mask s OR ucast (push_bit (unat irq_num) (1 :: u32))
           in outb (ucast m) MASTER_MD (s\<lparr>master_mask := m\<rparr>)
      else let irq_num = irq_num - 8;
               m = slave_mask s OR ucast (push_bit (unat irq_num) (1 :: u32))
           in outb (ucast m) SLAVE_MD (s\<lparr>slave_mask := m\<rparr>))"

definition send_eoi :: "u32 \<Rightarrow> pic \<Rightarrow> pic" where
  "send_eoi irq_num s =
     (if irq_num \<ge> 8
      then outb (EOI OR (irq_num - 8)) SLAVE_8259_PORT (outb (EOI OR SLAVE_IRQ) MASTER_8259_PORT s)
      else outb (EOI OR irq_num) MASTER_8259_PORT s)"

definition i8259_init :: "pic \<Rightarrow> pic" where
  "i8259_init s =
     (let s1 = outb 0x01 MASTER_MD (outb 0x04 MASTER_MD (outb 0x20 MASTER_MD (outb 0x11 MASTER_8259_PORT s)));
          s2 = outb 0x01 SLAVE_MD (outb 0x02 SLAVE_MD (outb 0x28 SLAVE_MD (outb 0x11 SLAVE_8259_PORT s1)));
          s3 = s2\<lparr>master_mask := 0xFF, slave_mask := 0xFF\<rparr>;
          s4 = outb 0xFF SLAVE_MD (outb 0xFF MASTER_MD s3)
      in enable_irq SLAVE_IRQ s4)"

definition MAX_PIT_FREQ :: nat where "MAX_PIT_FREQ = 1193182"
definition TIME_SLICE :: nat where "TIME_SLICE = 30"
definition CHANNEL0 :: u16 where "CHANNEL0 = 0x40"
definition PIT_IRQ :: u32 where "PIT_IRQ = 0"

text \<open>The port part of \<^verbatim>\<open>pit_init\<close>; its gate is set in the theory of the descriptor tables.\<close>

definition pit_program :: "pic \<Rightarrow> pic" where
  "pit_program s =
     (let output = (of_nat (MAX_PIT_FREQ div TIME_SLICE) :: u16);
          lower = (ucast (output AND 0x00FF) :: u8);
          higher = (ucast (drop_bit 8 output) :: u8)
      in enable_irq PIT_IRQ (outb (ucast higher) CHANNEL0 (outb (ucast lower) CHANNEL0 s)))"

definition pit_handler :: "pic \<Rightarrow> pic" where
  "pit_handler s = send_eoi PIT_IRQ s"

section \<open>The device\<close>

text \<open>
  A controller: the stage of its initialisation (0 when it takes masks), the first vector it
  raises, its cascade word, and its mask register.
\<close>

record controller =
  stage :: nat
  vector_base :: u8
  cascade :: u8
  imr :: u8

definition pic_write :: "u16 \<Rightarrow> u16 \<times> u8 \<Rightarrow> controller \<Rightarrow> controller" where
  "pic_write base w c =
     (if fst w = base \<and> bit (snd w) 4 then c\<lparr>stage := 2, imr := 0\<rparr>
      else if fst w = base + 1 then
        (if stage c = 2 then c\<lparr>stage := 3, vector_base := snd w\<rparr>
         else if stage c = 3 then c\<lparr>stage := 4, cascade := snd w\<rparr>
         else if stage c = 4 then c\<lparr>stage := 0\<rparr>
         else c\<lparr>imr := snd w\<rparr>)
      else c)"

definition device :: "u16 \<Rightarrow> (u16 \<times> u8) list \<Rightarrow> controller \<Rightarrow> controller" where
  "device base log c = fold (pic_write base) log c"

text \<open>
  The variables mirror the devices: both have finished initialisation and hold the masks.
\<close>

definition pic_sync :: "controller \<Rightarrow> controller \<Rightarrow> pic \<Rightarrow> bool" where
  "pic_sync m0 s0 s \<longleftrightarrow>
     (let m = device MASTER_8259_PORT (port_log s) m0; d = device SLAVE_8259_PORT (port_log s) s0
      in stage m = 0 \<and> imr m = master_mask s \<and> vector_base m = 0x20 \<and> cascade m = 0x04 \<and>
         stage d = 0 \<and> imr d = slave_mask s \<and> vector_base d = 0x28 \<and> cascade d = 0x02)"

text \<open>Whether a request line is masked, in the kernel's variables.\<close>

definition masked :: "pic \<Rightarrow> nat \<Rightarrow> bool" where
  "masked s n = (if n < 8 then bit (master_mask s) n else bit (slave_mask s) (n - 8))"

section \<open>Lemmas\<close>

lemma outb_simps [simp]:
  "master_mask (outb d p s) = master_mask s" "slave_mask (outb d p s) = slave_mask s"
  "port_log (outb d p s) = port_log s @ [(p, ucast d)]"
  by (simp_all add: outb_def)

lemma device_append: "device base (log @ log') c = device base log' (device base log c)"
  by (simp add: device_def)

lemma device_Cons: "device base (w # log) c = device base log (pic_write base w c)"
  by (simp add: device_def)

lemma device_Nil: "device base [] c = c"
  by (simp add: device_def)

lemmas device_steps = device_append device_Cons device_Nil

lemma pic_write_mask: "stage c = 0 \<Longrightarrow> pic_write base (base + 1, m) c = c\<lparr>imr := m\<rparr>"
  by (simp add: pic_write_def)

lemma pic_write_other: "p \<noteq> base \<Longrightarrow> p \<noteq> base + 1 \<Longrightarrow> pic_write base (p, m) c = c"
  by (simp add: pic_write_def)

lemma ports_apart:
  "MASTER_MD \<noteq> SLAVE_8259_PORT" "MASTER_MD \<noteq> SLAVE_8259_PORT + 1"
  "SLAVE_MD \<noteq> MASTER_8259_PORT" "SLAVE_MD \<noteq> MASTER_8259_PORT + 1"
  by (simp_all add: pic_consts)

lemma u8_through_u32: "(ucast (ucast (w :: u8) :: u32) :: u8) = w"
  by (rule bit_word_eqI) (simp add: bit_simps)

lemma set_master_sync:
  "pic_sync m0 s0 s \<Longrightarrow> pic_sync m0 s0 (outb (ucast m) MASTER_MD (s\<lparr>master_mask := m\<rparr>))"
  using ports_apart
  by (simp add: pic_sync_def Let_def device_steps u8_through_u32 pic_write_other)
    (simp add: MASTER_MD_def pic_write_mask)

lemma set_slave_sync:
  "pic_sync m0 s0 s \<Longrightarrow> pic_sync m0 s0 (outb (ucast m) SLAVE_MD (s\<lparr>slave_mask := m\<rparr>))"
  using ports_apart
  by (simp add: pic_sync_def Let_def device_steps u8_through_u32 pic_write_other)
    (simp add: SLAVE_MD_def pic_write_mask)

lemma enable_irq_sync [inv_intros]: "pic_sync m0 s0 s \<Longrightarrow> pic_sync m0 s0 (enable_irq n s)"
  unfolding enable_irq_def Let_def by (simp only: if_split set_master_sync set_slave_sync simp_thms)

lemma disable_irq_sync [inv_intros]: "pic_sync m0 s0 s \<Longrightarrow> pic_sync m0 s0 (disable_irq n s)"
  unfolding disable_irq_def Let_def by (simp only: if_split set_master_sync set_slave_sync simp_thms)

lemma irq_cases:
  assumes "n < 16"
  obtains "n < 8" "(of_nat n :: u32) < 8" "unat (of_nat n :: u32) = n"
    | "8 \<le> n" "\<not> (of_nat n :: u32) < 8" "unat (of_nat n - 8 :: u32) = n - 8"
proof -
  have u: "unat (of_nat n :: u32) = n" using assms by (simp add: unat_of_nat)
  show thesis
  proof (cases "n < 8")
    case True
    then show ?thesis using u that(1) by (simp add: word_less_nat_alt)
  next
    case False
    then have "(8 :: u32) \<le> of_nat n" using u by (simp add: word_le_nat_alt)
    then have "unat (of_nat n - 8 :: u32) = n - 8" using u by (simp add: unat_sub)
    then show ?thesis using False u that(2) by (simp add: word_less_nat_alt)
  qed
qed

lemma bit_not_one_shift: "k < 8 \<Longrightarrow> j < 8 \<Longrightarrow> bit (ucast (NOT (push_bit k (1 :: u32))) :: u8) j \<longleftrightarrow> j \<noteq> k"
  by (auto simp: bit_simps)

lemma bit_one_shift: "k < 8 \<Longrightarrow> j < 8 \<Longrightarrow> bit (ucast (push_bit k (1 :: u32)) :: u8) j \<longleftrightarrow> j = k"
  by (auto simp: bit_simps)

lemma irq_masks:
  assumes "n < 16" "k < 16"
  shows "masked (enable_irq (of_nat n) s) k = (k \<noteq> n \<and> masked s k) \<and>
         masked (disable_irq (of_nat n) s) k = (k = n \<or> masked s k)"
  using assms(1)
proof (cases rule: irq_cases)
  case 1
  then show ?thesis
    using assms bit_not_one_shift [of n k] bit_one_shift [of n k]
    by (auto simp: masked_def enable_irq_def disable_irq_def Let_def bit_and_iff bit_or_iff)
next
  case 2
  then show ?thesis
    using assms bit_not_one_shift [of "n - 8" "k - 8"] bit_one_shift [of "n - 8" "k - 8"]
    by (auto simp: masked_def enable_irq_def disable_irq_def Let_def bit_and_iff bit_or_iff)
qed

section \<open>Properties\<close>

text \<open>
  \<^verbatim>\<open>enable_irq\<close> unmasks exactly the line it is given and \<^verbatim>\<open>disable_irq\<close> masks exactly that
  line, on either controller; no other line changes.
\<close>

theorem irq_mask_exact:
  assumes "n < 16" "k < 16"
  shows "masked (enable_irq (of_nat n) s) k = (k \<noteq> n \<and> masked s k) \<and>
         masked (disable_irq (of_nat n) s) k = (k = n \<or> masked s k)"
  using irq_masks [OF assms] .

definition reset_pic :: pic where
  "reset_pic = \<lparr>master_mask = 0, slave_mask = 0, port_log = []\<rparr>"

theorem irq_mask_exact_witness:
  "masked (disable_irq 8 reset_pic) 8 \<and> \<not> masked (disable_irq 8 reset_pic) 1"
  using irq_mask_exact [of 8 8 reset_pic] irq_mask_exact [of 8 1 reset_pic]
  by (simp add: masked_def reset_pic_def)

text \<open>
  C28. \<^verbatim>\<open>i8259_init\<close> brings both controllers, whatever their state before, to the vectors 0x20
  and 0x28, chained on line 2, with every other line masked; and from there on the kernel's
  mask variables always equal the controllers' mask registers.
\<close>

theorem i8259_init_device:
  "pic_sync m0 s0 (i8259_init s) \<and> (\<forall>k<16. masked (i8259_init s) k = (k \<noteq> 2)) \<and>
   (\<forall>calls. pic_sync m0 s0 (fold (\<lambda>(on, n). if on then enable_irq n else disable_irq n) calls (i8259_init s)))"
proof -
  have mask: "bit (0xFF :: u8) k" if "k < 8" for k
  proof -
    have "(0xFF :: u8) = mask 8" by (simp add: mask_eq_exp_minus_1)
    then show ?thesis using that by (simp only: bit_mask_iff) auto
  qed
  have i: "pic_sync m0 s0 (i8259_init s)"
    unfolding i8259_init_def Let_def
    by (rule enable_irq_sync) (simp add: pic_sync_def device_steps pic_write_def pic_consts Let_def)
  have m: "masked (i8259_init s) k = (k \<noteq> 2)" if "k < 16" for k
  proof -
    let ?s = "outb 0xFF SLAVE_MD (outb 0xFF MASTER_MD ((outb 0x01 SLAVE_MD (outb 0x02 SLAVE_MD (outb 0x28 SLAVE_MD (outb 0x11 SLAVE_8259_PORT
      (outb 0x01 MASTER_MD (outb 0x04 MASTER_MD (outb 0x20 MASTER_MD (outb 0x11 MASTER_8259_PORT s)))))))) \<lparr>master_mask := 0xFF, slave_mask := 0xFF\<rparr>))"
    have "masked (enable_irq (of_nat 2) ?s) k = (k \<noteq> 2 \<and> masked ?s k)"
      using irq_masks [of 2 k] that by simp
    moreover have "masked ?s k" using mask [of k] mask [of "k - 8"] that by (auto simp: masked_def)
    ultimately show ?thesis by (simp add: i8259_init_def Let_def SLAVE_IRQ_def)
  qed
  have "pic_sync m0 s0 (fold (\<lambda>(on, n). if on then enable_irq n else disable_irq n) calls t)" if "pic_sync m0 s0 t" for calls t
    using that by (induction calls arbitrary: t) (auto simp: enable_irq_sync disable_irq_sync)
  then show ?thesis using i m by blast
qed

theorem i8259_init_device_witness:
  "masked (i8259_init reset_pic) 1"
  using i8259_init_device [of "\<lparr>stage = 0, vector_base = 8, cascade = 0, imr = 0\<rparr>"
      "\<lparr>stage = 0, vector_base = 8, cascade = 0, imr = 0\<rparr>" reset_pic] by simp

end
