(* ===== verification/Idt.thy ===== *)
theory Idt
  imports Pic
begin

text \<open>
  Descriptor tables: the interrupt descriptor table filled by \<^verbatim>\<open>idt_init\<close>, \<^verbatim>\<open>keyboard_init\<close>,
  \<^verbatim>\<open>rtc_init\<close> and \<^verbatim>\<open>pit_init\<close> (\<^verbatim>\<open>idt.c\<close>, \<^verbatim>\<open>keyboard.c\<close>, \<^verbatim>\<open>rtc.c\<close>, \<^verbatim>\<open>sched.c\<close>), and the LDT and TSS
  descriptors that \<^verbatim>\<open>kernel.c\<close> builds. Handlers are named by the symbols the code takes the
  address of; the address the linker gives them is the parameter \<open>addr\<close>.
\<close>

unbundle bit_operations_syntax

section \<open>Data\<close>

datatype handler = No_handler | Exception_stub nat | Pit_wrapper | Keyboard_wrapper | Rtc_wrapper | Syscall_wrapper

record idt_desc_t =
  offset_15_00 :: u16
  seg_selector :: u16
  reserved4 :: u8
  reserved3 :: "1 word"
  reserved2 :: "1 word"
  reserved1 :: "1 word"
  gate_size :: "1 word"
  reserved0 :: "1 word"
  gate_dpl :: "2 word"
  gate_present :: "1 word"
  offset_31_16 :: u16

type_synonym idt_t = "nat \<Rightarrow> idt_desc_t"

definition KERNEL_CS :: u16 where "KERNEL_CS = 0x0010"
definition KERNEL_DS :: u16 where "KERNEL_DS = 0x0018"
definition KERNEL_LDT :: u16 where "KERNEL_LDT = 0x0038"
definition NUM_EXCEPTIONS :: nat where "NUM_EXCEPTIONS = 32"
definition IDT_SIZE :: nat where "IDT_SIZE = 256"
definition RTC_VECTOR_NUM :: nat where "RTC_VECTOR_NUM = 40"
definition KBD_VECTOR_NUM :: nat where "KBD_VECTOR_NUM = 33"
definition PIT_VECTOR_NUM :: nat where "PIT_VECTOR_NUM = 32"
definition SYSCALL_VECTOR_NUM :: nat where "SYSCALL_VECTOR_NUM = 128"

lemmas idt_consts = KERNEL_CS_def KERNEL_DS_def KERNEL_LDT_def NUM_EXCEPTIONS_def IDT_SIZE_def
  RTC_VECTOR_NUM_def KBD_VECTOR_NUM_def PIT_VECTOR_NUM_def SYSCALL_VECTOR_NUM_def

section \<open>The interrupt descriptor table\<close>

definition SET_IDT_ENTRY :: "u32 \<Rightarrow> idt_desc_t \<Rightarrow> idt_desc_t" where
  "SET_IDT_ENTRY h d =
     d\<lparr>offset_31_16 := ucast (drop_bit 16 (h AND 0xFFFF0000)), offset_15_00 := ucast (h AND 0xFFFF)\<rparr>"

definition gate_fields :: "1 word \<Rightarrow> idt_desc_t \<Rightarrow> idt_desc_t" where
  "gate_fields present d =
     d\<lparr>gate_present := present, gate_dpl := 0, reserved0 := 0, gate_size := 1, reserved1 := 1, reserved2 := 1,
       reserved3 := 0, reserved4 := 0, seg_selector := KERNEL_CS\<rparr>"

fun exception_gates :: "idt_t \<Rightarrow> nat \<Rightarrow> nat \<Rightarrow> idt_t" where
  "exception_gates idt i 0 = idt"
| "exception_gates idt i (Suc k) = exception_gates (idt(i := gate_fields 1 (idt i))) (Suc i) k"

text \<open>The 32 lines \<^verbatim>\<open>SET_IDT_ENTRY(idt[i], exception_i)\<close>, in order.\<close>

fun exception_entries :: "(handler \<Rightarrow> u32) \<Rightarrow> idt_t \<Rightarrow> nat \<Rightarrow> nat \<Rightarrow> idt_t" where
  "exception_entries addr idt i 0 = idt"
| "exception_entries addr idt i (Suc k) =
     exception_entries addr (idt(i := SET_IDT_ENTRY (addr (Exception_stub i)) (idt i))) (Suc i) k"

fun empty_gates :: "idt_t \<Rightarrow> nat \<Rightarrow> nat \<Rightarrow> idt_t" where
  "empty_gates idt i 0 = idt"
| "empty_gates idt i (Suc k) = empty_gates (idt(i := SET_IDT_ENTRY 0 (gate_fields 0 (idt i)))) (Suc i) k"

definition idt_init :: "(handler \<Rightarrow> u32) \<Rightarrow> idt_t \<Rightarrow> idt_t" where
  "idt_init addr idt =
     (let idt = exception_gates idt 0 NUM_EXCEPTIONS;
          idt = exception_entries addr idt 0 32;
          idt = empty_gates idt NUM_EXCEPTIONS (IDT_SIZE - NUM_EXCEPTIONS);
          d = (idt SYSCALL_VECTOR_NUM)\<lparr>reserved3 := 1, gate_present := 1, gate_dpl := 3\<rparr>
      in idt(SYSCALL_VECTOR_NUM := SET_IDT_ENTRY (addr Syscall_wrapper) d))"

text \<open>The gates installed by the device initialisations.\<close>

definition install_gate :: "nat \<Rightarrow> u32 \<Rightarrow> idt_t \<Rightarrow> idt_t" where
  "install_gate v h idt = idt(v := SET_IDT_ENTRY h ((idt v)\<lparr>gate_present := 1\<rparr>))"

definition pit_init :: "(handler \<Rightarrow> u32) \<Rightarrow> idt_t \<times> pic \<Rightarrow> idt_t \<times> pic" where
  "pit_init addr = (\<lambda>(idt, s). (install_gate PIT_VECTOR_NUM (addr Pit_wrapper) idt, pit_program s))"

section \<open>The descriptors of the task state and local descriptor segments\<close>

record seg_desc_t =
  seg_lim_15_00 :: u16
  base_15_00 :: u16
  base_23_16 :: u8
  seg_type :: "4 word"
  seg_sys :: "1 word"
  seg_dpl :: "2 word"
  seg_present :: "1 word"
  seg_lim_19_16 :: "4 word"
  seg_avail :: "1 word"
  seg_reserved :: "1 word"
  seg_opsize :: "1 word"
  seg_granularity :: "1 word"
  base_31_24 :: u8

definition SET_SEG_PARAMS :: "u32 \<Rightarrow> u32 \<Rightarrow> seg_desc_t \<Rightarrow> seg_desc_t" where
  "SET_SEG_PARAMS addr lim d =
     d\<lparr>base_31_24 := ucast (drop_bit 24 (addr AND 0xFF000000)), base_23_16 := ucast (drop_bit 16 (addr AND 0x00FF0000)),
       base_15_00 := ucast (addr AND 0x0000FFFF), seg_lim_19_16 := ucast (drop_bit 16 (lim AND 0x000F0000)),
       seg_lim_15_00 := ucast (lim AND 0x0000FFFF)\<rparr>"

definition the_ldt_desc :: "u32 \<Rightarrow> u32 \<Rightarrow> seg_desc_t \<Rightarrow> seg_desc_t" where
  "the_ldt_desc ldt_addr ldt_size d =
     SET_SEG_PARAMS ldt_addr ldt_size
       (d\<lparr>seg_granularity := 0, seg_opsize := 1, seg_reserved := 0, seg_avail := 0, seg_present := 1, seg_dpl := 0,
          seg_sys := 0, seg_type := 2\<rparr>)"

definition TSS_SIZE :: u32 where "TSS_SIZE = 104"

definition the_tss_desc :: "u32 \<Rightarrow> u32 \<Rightarrow> seg_desc_t \<Rightarrow> seg_desc_t" where
  "the_tss_desc tss_addr tss_size d =
     SET_SEG_PARAMS tss_addr tss_size
       (d\<lparr>seg_granularity := 0, seg_opsize := 0, seg_reserved := 0, seg_avail := 0,
          seg_lim_19_16 := ucast (TSS_SIZE AND 0x000F0000), seg_present := 1, seg_dpl := 0,
          seg_sys := 0, seg_type := 9, seg_lim_15_00 := ucast (TSS_SIZE AND 0x0000FFFF)\<rparr>)"

section \<open>What the processor reads from a descriptor\<close>

definition gate_target :: "idt_desc_t \<Rightarrow> u32" where
  "gate_target d = push_bit 16 (ucast (offset_31_16 d)) OR ucast (offset_15_00 d)"

text \<open>The four type bits of a gate: 14 is a 32-bit interrupt gate, 15 a 32-bit trap gate.\<close>

definition gate_type :: "idt_desc_t \<Rightarrow> nat" where
  "gate_type d = 8 * unat (gate_size d) + 4 * unat (reserved1 d) + 2 * unat (reserved2 d) + unat (reserved3 d)"

definition segment_base :: "seg_desc_t \<Rightarrow> u32" where
  "segment_base d = push_bit 24 (ucast (base_31_24 d)) OR push_bit 16 (ucast (base_23_16 d)) OR ucast (base_15_00 d)"

definition segment_limit :: "seg_desc_t \<Rightarrow> u32" where
  "segment_limit d = push_bit 16 (ucast (seg_lim_19_16 d)) OR ucast (seg_lim_15_00 d)"

lemma mask_bits:
  "bit (0xFFFF :: u32) i \<longleftrightarrow> i < 16"
  "bit (0xFFFF0000 :: u32) i \<longleftrightarrow> 16 \<le> i \<and> i < 32"
  "bit (0x00FF0000 :: u32) i \<longleftrightarrow> 16 \<le> i \<and> i < 24"
  "bit (0xFF000000 :: u32) i \<longleftrightarrow> 24 \<le> i \<and> i < 32"
  "bit (0x000F0000 :: u32) i \<longleftrightarrow> 16 \<le> i \<and> i < 20"
proof -
  have e: "(0xFFFF :: u32) = mask 16" "(0xFFFF0000 :: u32) = NOT (mask 16)" "(0xFF000000 :: u32) = NOT (mask 24)"
    "(0x00FF0000 :: u32) = push_bit 16 (mask 8)" "(0x000F0000 :: u32) = push_bit 16 (mask 4)"
    by (simp_all add: mask_eq_exp_minus_1 push_bit_eq_mult)
  show "bit (0xFFFF :: u32) i \<longleftrightarrow> i < 16" "bit (0xFFFF0000 :: u32) i \<longleftrightarrow> 16 \<le> i \<and> i < 32"
    "bit (0x00FF0000 :: u32) i \<longleftrightarrow> 16 \<le> i \<and> i < 24" "bit (0xFF000000 :: u32) i \<longleftrightarrow> 24 \<le> i \<and> i < 32"
    "bit (0x000F0000 :: u32) i \<longleftrightarrow> 16 \<le> i \<and> i < 20"
    unfolding e by (auto simp: bit_simps)
qed

lemmas piece_bits = bit_or_iff bit_push_bit_iff bit_unsigned_iff bit_drop_bit_eq o_def bit_and_iff mask_bits

lemma gate_target_set [simp]: "gate_target (SET_IDT_ENTRY h d) = h"
proof (rule bit_word_eqI)
  fix n assume "n < LENGTH(32)"
  then show "bit (gate_target (SET_IDT_ENTRY h d)) n = bit h n"
    by (cases d, cases "n < 16") (simp_all only: gate_target_def SET_IDT_ENTRY_def idt_desc_t.simps piece_bits, auto)
qed

lemma segment_base_set [simp]: "segment_base (SET_SEG_PARAMS a l d) = a"
proof (rule bit_word_eqI)
  fix n assume n: "n < LENGTH(32)"
  have "n < 16 \<or> 16 \<le> n \<and> n < 24 \<or> 24 \<le> n \<and> n < 32" using n by fastforce
  then show "bit (segment_base (SET_SEG_PARAMS a l d)) n = bit a n"
    by (elim disjE; cases d) (simp_all only: segment_base_def SET_SEG_PARAMS_def seg_desc_t.simps piece_bits, auto)
qed

lemma segment_limit_set: "l < 0x100000 \<Longrightarrow> segment_limit (SET_SEG_PARAMS a l d) = l"
proof (rule bit_word_eqI)
  fix n assume l: "l < 0x100000" and n: "n < LENGTH(32)"
  have "take_bit 20 l = l" using l by (simp add: take_bit_eq_mod word_less_nat_alt word_unat_eq_iff unat_mod)
  then have hi: "bit l n \<longrightarrow> n < 20" by (metis bit_take_bit_iff)
  show "bit (segment_limit (SET_SEG_PARAMS a l d)) n = bit l n"
    using n hi by (cases d, cases "n < 16")
      (simp_all only: segment_limit_def SET_SEG_PARAMS_def seg_desc_t.simps piece_bits, auto)
qed

section \<open>Closed forms\<close>

lemma exception_gates_eq:
  "exception_gates idt i k = (\<lambda>j. if i \<le> j \<and> j < i + k then gate_fields 1 (idt j) else idt j)"
proof (induction k arbitrary: idt i)
  case (Suc k)
  show ?case by (rule ext) (auto simp: Suc.IH)
qed (auto simp: fun_eq_iff)

lemma exception_entries_eq:
  "exception_entries addr idt i k =
     (\<lambda>j. if i \<le> j \<and> j < i + k then SET_IDT_ENTRY (addr (Exception_stub j)) (idt j) else idt j)"
proof (induction k arbitrary: idt i)
  case (Suc k)
  show ?case by (rule ext) (auto simp: Suc.IH)
qed (auto simp: fun_eq_iff)

lemma empty_gates_eq:
  "empty_gates idt i k = (\<lambda>j. if i \<le> j \<and> j < i + k then SET_IDT_ENTRY 0 (gate_fields 0 (idt j)) else idt j)"
proof (induction k arbitrary: idt i)
  case (Suc k)
  show ?case by (rule ext) (auto simp: Suc.IH)
qed (auto simp: fun_eq_iff)

lemma idt_init_eq:
  "v < 256 \<Longrightarrow> idt_init addr idt v =
     (if v < 32 then SET_IDT_ENTRY (addr (Exception_stub v)) (gate_fields 1 (idt v))
      else if v = 128 then SET_IDT_ENTRY (addr Syscall_wrapper)
          ((SET_IDT_ENTRY 0 (gate_fields 0 (idt v)))\<lparr>reserved3 := 1, gate_present := 1, gate_dpl := 3\<rparr>)
      else SET_IDT_ENTRY 0 (gate_fields 0 (idt v)))"
  by (simp add: idt_init_def Let_def exception_gates_eq exception_entries_eq empty_gates_eq idt_consts)

section \<open>Properties\<close>

text \<open>The table after the initialisations, in the order \<^verbatim>\<open>entry\<close> calls them.\<close>

definition boot_idt :: "(handler \<Rightarrow> u32) \<Rightarrow> idt_t \<Rightarrow> idt_t" where
  "boot_idt addr idt =
     install_gate PIT_VECTOR_NUM (addr Pit_wrapper)
       (install_gate RTC_VECTOR_NUM (addr Rtc_wrapper)
         (install_gate KBD_VECTOR_NUM (addr Keyboard_wrapper) (idt_init addr idt)))"

text \<open>
  C29. After the boot sequence the 256 vectors are these: the 32 exceptions, the timer, the
  keyboard, the clock and the system call have a present gate to their own handler; no other
  vector is present; every gate runs in the kernel's code segment; only the system call's
  gate is open to user mode, and it is a trap gate where all the others are interrupt gates.
\<close>

theorem boot_idt_gates:
  assumes "v < 256"
  shows "seg_selector (boot_idt addr idt v) = KERNEL_CS \<and>
    gate_dpl (boot_idt addr idt v) = (if v = 128 then 3 else 0) \<and>
    gate_type (boot_idt addr idt v) = (if v = 128 then 15 else 14) \<and>
    gate_present (boot_idt addr idt v) = (if v < 34 \<or> v = 40 \<or> v = 128 then 1 else 0) \<and>
    gate_target (boot_idt addr idt v) =
      (if v < 32 then addr (Exception_stub v) else if v = 32 then addr Pit_wrapper
       else if v = 33 then addr Keyboard_wrapper else if v = 40 then addr Rtc_wrapper
       else if v = 128 then addr Syscall_wrapper else 0)"
proof -
  have set: "seg_selector (SET_IDT_ENTRY h d) = seg_selector d" "gate_dpl (SET_IDT_ENTRY h d) = gate_dpl d"
    "gate_type (SET_IDT_ENTRY h d) = gate_type d" "gate_present (SET_IDT_ENTRY h d) = gate_present d" for h d
    by (simp_all add: SET_IDT_ENTRY_def gate_type_def)
  have v: "boot_idt addr idt v =
     (if v = 32 then SET_IDT_ENTRY (addr Pit_wrapper) ((idt_init addr idt v)\<lparr>gate_present := 1\<rparr>)
      else if v = 40 then SET_IDT_ENTRY (addr Rtc_wrapper) ((idt_init addr idt v)\<lparr>gate_present := 1\<rparr>)
      else if v = 33 then SET_IDT_ENTRY (addr Keyboard_wrapper) ((idt_init addr idt v)\<lparr>gate_present := 1\<rparr>)
      else idt_init addr idt v)"
    by (simp add: boot_idt_def install_gate_def idt_consts)
  show ?thesis
    unfolding v idt_init_eq [OF assms]
    by (auto simp: set) (auto simp: gate_fields_def gate_type_def SET_IDT_ENTRY_def KERNEL_CS_def)
qed

definition zero_gate :: idt_desc_t where
  "zero_gate = \<lparr>offset_15_00 = 0, seg_selector = 0, reserved4 = 0, reserved3 = 0, reserved2 = 0, reserved1 = 0,
     gate_size = 0, reserved0 = 0, gate_dpl = 0, gate_present = 0, offset_31_16 = 0\<rparr>"

theorem boot_idt_gates_witness:
  "gate_target (boot_idt (\<lambda>h. case h of Exception_stub i \<Rightarrow> 0x400000 + of_nat i | _ \<Rightarrow> 0) (\<lambda>_. zero_gate) 14) = 0x40000E"
  using boot_idt_gates [of 14 "\<lambda>h. case h of Exception_stub i \<Rightarrow> 0x400000 + of_nat i | _ \<Rightarrow> 0" "\<lambda>_. zero_gate"] by simp

text \<open>
  The descriptors \<^verbatim>\<open>entry\<close> builds for the task state segment and the local descriptor
  table denote, as the processor reassembles their pieces, exactly the base address and
  limit they were built from.
\<close>

theorem boot_segments:
  assumes "tss_size < 0x100000" "ldt_size < 0x100000"
  shows "segment_base (the_tss_desc tss_addr tss_size d) = tss_addr \<and>
         segment_limit (the_tss_desc tss_addr tss_size d) = tss_size \<and>
         segment_base (the_ldt_desc ldt_addr ldt_size d) = ldt_addr \<and>
         segment_limit (the_ldt_desc ldt_addr ldt_size d) = ldt_size"
  using assms by (simp add: the_tss_desc_def the_ldt_desc_def segment_limit_set)

definition zero_seg :: seg_desc_t where
  "zero_seg = \<lparr>seg_lim_15_00 = 0, base_15_00 = 0, base_23_16 = 0, seg_type = 0, seg_sys = 0, seg_dpl = 0,
     seg_present = 0, seg_lim_19_16 = 0, seg_avail = 0, seg_reserved = 0, seg_opsize = 0, seg_granularity = 0, base_31_24 = 0\<rparr>"

theorem boot_segments_witness:
  "segment_limit (the_tss_desc 0x401000 103 zero_seg) = 103"
  using boot_segments [of 103 31 "0x401000" zero_seg 0] by simp

end
