(* ===== verification/Modes.thy ===== *)
theory Modes
  imports Idt
begin

text \<open>
  The processor's side of the kernel: the segment table of \<^verbatim>\<open>x86_desc.S\<close>, the start sequence of
  \<^verbatim>\<open>boot.S\<close> and the assembly of \<^verbatim>\<open>wrapper.S\<close>, which enters programs and surrounds the handlers. The
  instructions that change the privilege level are modelled as the processor's manual
  describes them. The results are that a program is entered in ring 3 with interrupts
  enabled, and that interrupts and system calls give the interrupted code its registers back.
\<close>

unbundle bit_operations_syntax

section \<open>The segment table\<close>

type_synonym u64 = "64 word"

text \<open>The eight quads at \<^verbatim>\<open>gdt\<close>; those of the task state and of the local table are filled in by \<^verbatim>\<open>entry\<close>.\<close>

definition gdt_quads :: "u64 list" where
  "gdt_quads = [0, 0, 0x00CF9A000000FFFF, 0x00CF92000000FFFF, 0x00CFFA000000FFFF, 0x00CFF2000000FFFF, 0, 0]"

text \<open>The bit fields of \<^verbatim>\<open>seg_desc_t\<close>, from the lowest on.\<close>

definition seg_of_quad :: "u64 \<Rightarrow> seg_desc_t" where
  "seg_of_quad q =
     \<lparr>seg_lim_15_00 = ucast q, base_15_00 = ucast (drop_bit 16 q), base_23_16 = ucast (drop_bit 32 q), seg_type = ucast (drop_bit 40 q),
      seg_sys = ucast (drop_bit 44 q), seg_dpl = ucast (drop_bit 45 q), seg_present = ucast (drop_bit 47 q), seg_lim_19_16 = ucast (drop_bit 48 q),
      seg_avail = ucast (drop_bit 52 q), seg_reserved = ucast (drop_bit 53 q), seg_opsize = ucast (drop_bit 54 q),
      seg_granularity = ucast (drop_bit 55 q), base_31_24 = ucast (drop_bit 56 q)\<rparr>"

definition gdt :: "seg_desc_t \<Rightarrow> seg_desc_t \<Rightarrow> seg_desc_t list" where
  "gdt tss ldt = (map seg_of_quad gdt_quads)[6 := tss, 7 := ldt]"

definition USER_CS :: u16 where "USER_CS = 0x0023"
definition USER_DS :: u16 where "USER_DS = 0x002B"

section \<open>The processor\<close>

record cpu =
  r_eax :: u32
  r_ebx :: u32
  r_ecx :: u32
  r_edx :: u32
  r_esi :: u32
  r_edi :: u32
  r_ebp :: u32
  r_esp :: u32
  r_eip :: u32
  r_eflags :: u32
  r_cs :: u16
  r_ss :: u16
  r_ds :: u16
  r_es :: u16
  r_fs :: u16
  r_gs :: u16
  r_gdt :: "seg_desc_t list"
  words :: "u32 \<Rightarrow> u32"

definition IF :: u32 where "IF = 0x200"

text \<open>The stack holds 32-bit words, at multiples of four.\<close>

definition push :: "u32 \<Rightarrow> cpu \<Rightarrow> cpu" where
  "push w c = c\<lparr>r_esp := r_esp c - 4, words := (words c)(r_esp c - 4 := w)\<rparr>"

definition pop :: "cpu \<Rightarrow> u32 \<times> cpu" where
  "pop c = (words c (r_esp c), c\<lparr>r_esp := r_esp c + 4\<rparr>)"

definition cpl :: "cpu \<Rightarrow> nat" where "cpl c = unat (r_cs c AND 3)"

text \<open>What a selector stands for: the null descriptor and the local table are not used.\<close>

definition descriptor :: "seg_desc_t list \<Rightarrow> u16 \<Rightarrow> seg_desc_t option" where
  "descriptor g sel =
     (let i = unat (drop_bit 3 sel) in if bit sel 2 \<or> i = 0 \<or> length g \<le> i then None else Some (g ! i))"

definition is_code :: "seg_desc_t \<Rightarrow> bool" where
  "is_code d \<longleftrightarrow> seg_sys d = 1 \<and> seg_present d = 1 \<and> bit (seg_type d) 3"

definition is_data :: "seg_desc_t \<Rightarrow> bool" where
  "is_data d \<longleftrightarrow> seg_sys d = 1 \<and> seg_present d = 1 \<and> \<not> bit (seg_type d) 3 \<and> bit (seg_type d) 1"

text \<open>Loading the four data segment registers, or the stack segment, with a data selector; \<open>None\<close> is a fault.\<close>

definition load_data :: "u16 \<Rightarrow> cpu \<Rightarrow> cpu option" where
  "load_data sel c =
     (case descriptor (r_gdt c) sel of
        None \<Rightarrow> None
      | Some d \<Rightarrow> if is_data d \<and> max (cpl c) (unat (sel AND 3)) \<le> unat (seg_dpl d)
                  then Some (c\<lparr>r_ds := sel, r_es := sel, r_fs := sel, r_gs := sel\<rparr>) else None)"

definition load_stack :: "u16 \<Rightarrow> cpu \<Rightarrow> cpu option" where
  "load_stack sel c =
     (case descriptor (r_gdt c) sel of
        None \<Rightarrow> None
      | Some d \<Rightarrow> if is_data d \<and> unat (sel AND 3) = cpl c \<and> unat (seg_dpl d) = cpl c then Some (c\<lparr>r_ss := sel\<rparr>) else None)"

text \<open>Loading the code segment for privilege level \<open>l\<close>.\<close>

definition load_code :: "u16 \<Rightarrow> cpu \<Rightarrow> cpu option" where
  "load_code sel c =
     (case descriptor (r_gdt c) sel of
        None \<Rightarrow> None
      | Some d \<Rightarrow> if is_code d \<and> unat (sel AND 3) = unat (seg_dpl d) then Some (c\<lparr>r_cs := sel\<rparr>) else None)"

text \<open>
  The return from an interrupt, to the same or to an outer level, where data segments of an
  inner level are taken away.
\<close>

definition outer_data :: "cpu \<Rightarrow> u16 \<Rightarrow> u16" where
  "outer_data c sel =
     (case descriptor (r_gdt c) sel of None \<Rightarrow> sel | Some d \<Rightarrow> if is_data d \<and> unat (seg_dpl d) < cpl c then 0 else sel)"

definition iret :: "cpu \<Rightarrow> cpu option" where
  "iret c =
     (let (eip, c1) = pop c; (cs, c2) = pop c1; (fl, c3) = pop c2
      in Option.bind (load_code (ucast cs) (c3\<lparr>r_eip := eip, r_eflags := fl\<rparr>)) (\<lambda>c4.
           if cpl c4 = cpl c then Some c4
           else if cpl c4 < cpl c then None
           else let (esp, c5) = pop c4; (ss, c6) = pop c5 in load_stack (ucast ss) (c6\<lparr>r_esp := esp, r_ds := outer_data c6 (r_ds c6), r_es := outer_data c6 (r_es c6),
                  r_fs := outer_data c6 (r_fs c6), r_gs := outer_data c6 (r_gs c6)\<rparr>)))"

text \<open>
  An interrupt through a gate: by an instruction of the program (\<open>soft\<close>), for which the gate's
  level counts, or by a device. From an outer level the stack of the task state is taken.
\<close>

definition interrupt_gate :: "idt_desc_t \<Rightarrow> bool \<Rightarrow> u16 \<Rightarrow> u32 \<Rightarrow> cpu \<Rightarrow> cpu option" where
  "interrupt_gate g soft ss0 esp0 c =
     (if gate_present g = 0 \<or> gate_type g \<noteq> 14 \<and> gate_type g \<noteq> 15 \<or> soft \<and> unat (gate_dpl g) < cpl c then None
      else Option.bind (load_code (seg_selector g) c) (\<lambda>c1.
             if cpl c < cpl c1 then None
             else Option.bind
                    (if cpl c1 < cpl c
                     then Option.bind (load_stack ss0 (c1\<lparr>r_esp := esp0\<rparr>)) (\<lambda>c2. Some (push (r_esp c) (push (ucast (r_ss c)) c2)))
                     else Some c1) (\<lambda>c3.
                  let c4 = push (r_eip c) (push (ucast (r_cs c)) (push (r_eflags c) c3))
                  in Some (c4\<lparr>r_eip := gate_target g, r_eflags := (if gate_type g = 14 then r_eflags c AND NOT IF else r_eflags c)\<rparr>))))"

section \<open>boot.S\<close>

text \<open>From \<^verbatim>\<open>start\<close> to the call of \<^verbatim>\<open>entry\<close>; \<open>ra\<close> is the address of the loop after the call.\<close>

definition boot_start :: "seg_desc_t list \<Rightarrow> u32 \<Rightarrow> u32 \<Rightarrow> cpu \<Rightarrow> cpu option" where
  "boot_start g entry_addr ra c =
     (let c = c\<lparr>r_eflags := r_eflags c AND NOT IF, r_gdt := g\<rparr>
      in Option.bind (load_code KERNEL_CS c) (\<lambda>c.
         let c = c\<lparr>r_esp := 0x800000, r_ecx := (r_ecx c AND 0xFFFF0000) OR ucast KERNEL_DS\<rparr>
         in Option.bind (load_stack KERNEL_DS c) (\<lambda>c.
            Option.bind (load_data KERNEL_DS c) (\<lambda>c.
            let c = push (r_eax c) (push (r_ebx c) c) in Some ((push ra c)\<lparr>r_eip := entry_addr\<rparr>)))))"

section \<open>wrapper.S\<close>

definition user_context_switch :: "cpu \<Rightarrow> cpu option" where
  "user_context_switch c =
     (let c = c\<lparr>r_eflags := r_eflags c AND NOT IF\<rparr>;
          c = c\<lparr>r_edx := words c (r_esp c + 4), r_eax := 0x2B\<rparr>
      in Option.bind (load_data (ucast (r_eax c)) c) (\<lambda>c.
         let c = push 0x083FFFFC (push 0x2B c);
             (ebx, c) = pop (push (r_eflags c) c);
             c = c\<lparr>r_ebx := ebx OR 0x200\<rparr>
         in iret (push (r_edx c) (push 0x23 (push (r_ebx c) c)))))"

text \<open>\<^verbatim>\<open>pushal\<close> and \<^verbatim>\<open>popal\<close>.\<close>

definition pushal :: "cpu \<Rightarrow> cpu" where
  "pushal c = push (r_edi c) (push (r_esi c) (push (r_ebp c) (push (r_esp c) (push (r_ebx c) (push (r_edx c) (push (r_ecx c) (push (r_eax c) c)))))))"

definition popal :: "cpu \<Rightarrow> cpu" where
  "popal c =
     (let (w, c) = pop c; c = c\<lparr>r_edi := w\<rparr>; (w, c) = pop c; c = c\<lparr>r_esi := w\<rparr>; (w, c) = pop c; c = c\<lparr>r_ebp := w\<rparr>;
          (w, c) = pop c; (w, c) = pop c; c = c\<lparr>r_ebx := w\<rparr>; (w, c) = pop c; c = c\<lparr>r_edx := w\<rparr>;
          (w, c) = pop c; c = c\<lparr>r_ecx := w\<rparr>; (w, c) = pop c
      in c\<lparr>r_eax := w\<rparr>)"

text \<open>The wrappers of the keyboard, the clock and the timer; \<open>f\<close> is the compiled handler, \<open>ra\<close> the address after the call.\<close>

definition irq_wrapper :: "(cpu \<Rightarrow> cpu) \<Rightarrow> u32 \<Rightarrow> cpu \<Rightarrow> cpu option" where
  "irq_wrapper f ra c = iret (popal (f (push ra (pushal c))))"

text \<open>
  The wrapper of the system calls; \<open>dispatch i\<close> is the compiled function at place \<open>i\<close> of the
  table. The comparisons are unsigned.
\<close>

definition save_and_push :: "cpu \<Rightarrow> cpu" where
  "save_and_push c = push (r_ebx c) (push (r_ecx c) (push (r_edx c)
     (push (r_ebx c) (push (r_ecx c) (push (r_edx c) (push (r_esi c) (push (r_edi c) c)))))))"

definition sys_ret :: "cpu \<Rightarrow> cpu option" where
  "sys_ret c =
     (let (w, c) = pop c; c = c\<lparr>r_ebx := w\<rparr>; (w, c) = pop c; c = c\<lparr>r_ecx := w\<rparr>; (w, c) = pop c; c = c\<lparr>r_edx := w\<rparr>;
          (w, c) = pop c; c = c\<lparr>r_ebx := w\<rparr>; (w, c) = pop c; c = c\<lparr>r_ecx := w\<rparr>; (w, c) = pop c; c = c\<lparr>r_edx := w\<rparr>;
          (w, c) = pop c; c = c\<lparr>r_esi := w\<rparr>; (w, c) = pop c; c = c\<lparr>r_edi := w\<rparr>
      in iret c)"

definition syscall_handler_wrapper :: "(nat \<Rightarrow> cpu \<Rightarrow> cpu) \<Rightarrow> u32 \<Rightarrow> cpu \<Rightarrow> cpu option" where
  "syscall_handler_wrapper dispatch ra c =
     (let c = save_and_push c
      in if r_eax c \<ge> 10 \<or> r_eax c \<le> 0 then sys_ret (c\<lparr>r_eax := - 1\<rparr>)
         else sys_ret (dispatch (unat (r_eax c)) (push ra c)))"

section \<open>The table as the processor reads it\<close>

text \<open>Segmentation is not used: the four segments are flat and differ in kind and level only.\<close>

lemma gdt_descriptors:
  "descriptor (gdt tss ldt) KERNEL_CS = Some (seg_of_quad 0x00CF9A000000FFFF)" "descriptor (gdt tss ldt) KERNEL_DS = Some (seg_of_quad 0x00CF92000000FFFF)"
  "descriptor (gdt tss ldt) USER_CS = Some (seg_of_quad 0x00CFFA000000FFFF)" "descriptor (gdt tss ldt) USER_DS = Some (seg_of_quad 0x00CFF2000000FFFF)"
  by (simp_all add: descriptor_def gdt_def gdt_quads_def idt_consts USER_CS_def USER_DS_def Let_def)

lemma gdt_kinds:
  "is_code (seg_of_quad 0x00CF9A000000FFFF)" "is_data (seg_of_quad 0x00CF92000000FFFF)" "is_code (seg_of_quad 0x00CFFA000000FFFF)"
  "is_data (seg_of_quad 0x00CFF2000000FFFF)" "unat (seg_dpl (seg_of_quad 0x00CF9A000000FFFF)) = 0" "unat (seg_dpl (seg_of_quad 0x00CF92000000FFFF)) = 0"
  "unat (seg_dpl (seg_of_quad 0x00CFFA000000FFFF)) = 3" "unat (seg_dpl (seg_of_quad 0x00CFF2000000FFFF)) = 3"
  by (simp_all add: is_code_def is_data_def seg_of_quad_def)

lemma selector_levels: "KERNEL_CS AND 3 = 0" "KERNEL_DS AND 3 = 0" "USER_CS AND 3 = 3" "USER_DS AND 3 = 3"
  by (simp_all add: idt_consts USER_CS_def USER_DS_def)

section \<open>What is on the stack\<close>

fun holds :: "(u32 \<Rightarrow> u32) \<Rightarrow> u32 \<Rightarrow> u32 list \<Rightarrow> bool" where
  "holds m a [] \<longleftrightarrow> True"
| "holds m a (w # ws) \<longleftrightarrow> m a = w \<and> holds m (a + 4) ws"

abbreviation "stk c ws \<equiv> holds (words c) (r_esp c) ws"

lemma holds_append: "holds m a (xs @ ys) \<longleftrightarrow> holds m a xs \<and> holds m (a + 4 * of_nat (length xs)) ys"
  by (induction xs arbitrary: a) (auto simp: algebra_simps)

lemma holds_upd:
  assumes "unat (b - a) + 4 * length ws < 2 ^ 32" "b \<noteq> a" "holds m b ws"
  shows "holds (m(a := w)) b ws"
  using assms
proof (induction ws arbitrary: b)
  case (Cons x ws)
  have "b + 4 - a = (b - a) + 4" by simp
  then have "unat (b + 4 - a) = unat (b - a) + 4" using Cons.prems(1) by (simp only:) (simp add: unat_word_ariths)
  then have "unat (b + 4 - a) + 4 * length ws < 2 ^ 32" "b + 4 \<noteq> a" using Cons.prems(1) by auto
  then show ?case using Cons by simp
qed simp

lemma push_fields [simp]:
  "r_eax (push w c) = r_eax c" "r_ebx (push w c) = r_ebx c" "r_ecx (push w c) = r_ecx c" "r_edx (push w c) = r_edx c"
  "r_esi (push w c) = r_esi c" "r_edi (push w c) = r_edi c" "r_ebp (push w c) = r_ebp c" "r_eip (push w c) = r_eip c"
  "r_eflags (push w c) = r_eflags c" "r_cs (push w c) = r_cs c" "r_ss (push w c) = r_ss c" "r_ds (push w c) = r_ds c"
  "r_es (push w c) = r_es c" "r_fs (push w c) = r_fs c" "r_gs (push w c) = r_gs c" "r_gdt (push w c) = r_gdt c" "r_esp (push w c) = r_esp c - 4"
  by (simp_all add: push_def)

lemma stk_push: "stk c ws \<Longrightarrow> length ws < 1000 \<Longrightarrow> stk (push w c) (w # ws)"
  using holds_upd [of "r_esp c" "r_esp c - 4" ws "words c" w] by (simp add: push_def)

lemma pushes:
  "\<exists>m. foldr push ws c = c\<lparr>r_esp := r_esp c - 4 * of_nat (length ws), words := m\<rparr> \<and>
     (\<forall>xs. stk c xs \<longrightarrow> length ws + length xs < 1000 \<longrightarrow> holds m (r_esp c - 4 * of_nat (length ws)) (ws @ xs))"
proof (induction ws)
  case Nil
  then show ?case by (intro exI [of _ "words c"]) simp
next
  case (Cons w ws)
  then obtain m where m: "foldr push ws c = c\<lparr>r_esp := r_esp c - 4 * of_nat (length ws), words := m\<rparr>"
    "\<And>xs. stk c xs \<Longrightarrow> length ws + length xs < 1000 \<Longrightarrow> holds m (r_esp c - 4 * of_nat (length ws)) (ws @ xs)" by blast
  let ?c = "push w (foldr push ws c)"
  have esp: "r_esp ?c = r_esp c - 4 * of_nat (length (w # ws))" by (simp add: m(1) algebra_simps)
  have "stk ?c (w # ws @ xs)" if "stk c xs" "length (w # ws) + length xs < 1000" for xs
    using m(2) [OF that(1)] that(2) by (intro stk_push) (simp_all add: m(1))
  moreover have "?c = c\<lparr>r_esp := r_esp c - 4 * of_nat (length (w # ws)), words := words ?c\<rparr>"
    by (simp add: push_def m(1) algebra_simps)
  ultimately show ?case unfolding esp by (intro exI [of _ "words ?c"]) simp
qed

lemma pop_stk: "stk c (w # ws) \<Longrightarrow> pop c = (w, c\<lparr>r_esp := r_esp c + 4\<rparr>)"
  by (simp add: pop_def)

section \<open>Returning from an interrupt\<close>

lemma cpl_simps [simp]: "r_cs c = KERNEL_CS \<Longrightarrow> cpl c = 0" "r_cs c = USER_CS \<Longrightarrow> cpl c = 3"
  by (simp_all add: cpl_def selector_levels)

lemma selectors_back [simp]: "ucast (ucast KERNEL_CS :: u32) = KERNEL_CS" "ucast (ucast USER_CS :: u32) = USER_CS" "ucast (ucast USER_DS :: u32) = USER_DS"
  by (simp_all add: idt_consts USER_CS_def USER_DS_def)

lemma loads:
  assumes "r_gdt c = gdt t l"
  shows "load_code KERNEL_CS c = Some (c\<lparr>r_cs := KERNEL_CS\<rparr>)" "load_code USER_CS c = Some (c\<lparr>r_cs := USER_CS\<rparr>)"
    "r_cs c = USER_CS \<Longrightarrow> load_stack USER_DS c = Some (c\<lparr>r_ss := USER_DS\<rparr>)" "r_cs c = KERNEL_CS \<Longrightarrow> load_stack KERNEL_DS c = Some (c\<lparr>r_ss := KERNEL_DS\<rparr>)"
    "r_cs c = KERNEL_CS \<Longrightarrow> load_data USER_DS c = Some (c\<lparr>r_ds := USER_DS, r_es := USER_DS, r_fs := USER_DS, r_gs := USER_DS\<rparr>)"
    "r_cs c = KERNEL_CS \<Longrightarrow> load_data KERNEL_DS c = Some (c\<lparr>r_ds := KERNEL_DS, r_es := KERNEL_DS, r_fs := KERNEL_DS, r_gs := KERNEL_DS\<rparr>)"
    "r_cs c = USER_CS \<Longrightarrow> outer_data c USER_DS = USER_DS"
  using assms by (simp_all add: load_code_def load_stack_def load_data_def outer_data_def gdt_descriptors gdt_kinds selector_levels)

text \<open>Code of ring 3, with its own data segments.\<close>

definition user_mode :: "cpu \<Rightarrow> bool" where
  "user_mode c \<longleftrightarrow> r_cs c = USER_CS \<and> r_ss c = USER_DS \<and> r_ds c = USER_DS \<and> r_es c = USER_DS \<and> r_fs c = USER_DS \<and> r_gs c = USER_DS"

lemma iret_user:
  assumes "r_gdt c = gdt t l" "r_cs c = KERNEL_CS" "stk c [eip, ucast USER_CS, fl, esp, ucast USER_DS]"
    and "r_ds c = USER_DS" "r_es c = USER_DS" "r_fs c = USER_DS" "r_gs c = USER_DS"
  shows "iret c = Some (c\<lparr>r_eip := eip, r_eflags := fl, r_cs := USER_CS, r_esp := esp, r_ss := USER_DS\<rparr>)"
  using assms by (simp add: iret_def pop_def loads Let_def)

lemma iret_kernel:
  assumes "r_gdt c = gdt t l" "r_cs c = KERNEL_CS" "stk c [eip, ucast KERNEL_CS, fl]"
  shows "iret c = Some (c\<lparr>r_eip := eip, r_eflags := fl, r_esp := r_esp c + 12\<rparr>)"
  using assms by (simp add: iret_def pop_def loads Let_def)

section \<open>Entering the kernel\<close>

definition gate_to :: "idt_desc_t \<Rightarrow> u32 \<Rightarrow> bool" where
  "gate_to g h \<longleftrightarrow> gate_present g = 1 \<and> gate_type g \<in> {14, 15} \<and> seg_selector g = KERNEL_CS \<and> gate_target g = h"

abbreviation "gate_flags g fl \<equiv> (if gate_type g = 14 then fl AND NOT IF else fl)"

lemma interrupt_user:
  assumes "r_gdt c = gdt t l" "user_mode c" "gate_to g h" "soft \<longrightarrow> gate_dpl g = 3"
  obtains m where "interrupt_gate g soft KERNEL_DS esp0 c =
      Some (c\<lparr>r_cs := KERNEL_CS, r_ss := KERNEL_DS, r_esp := esp0 - 20, r_eip := h, r_eflags := gate_flags g (r_eflags c), words := m\<rparr>)"
    "holds m (esp0 - 20) [r_eip c, ucast USER_CS, r_eflags c, r_esp c, ucast USER_DS]"
proof -
  let ?k = "c\<lparr>r_cs := KERNEL_CS, r_esp := esp0, r_ss := KERNEL_DS\<rparr>" and ?fr = "[r_eip c, ucast USER_CS, r_eflags c, r_esp c, ucast USER_DS]"
  obtain m where m: "foldr push ?fr ?k = ?k\<lparr>r_esp := r_esp ?k - 4 * of_nat (length ?fr), words := m\<rparr>"
    "\<And>xs. stk ?k xs \<Longrightarrow> length ?fr + length xs < 1000 \<Longrightarrow> holds m (r_esp ?k - 4 * of_nat (length ?fr)) (?fr @ xs)"
    using pushes [of ?fr ?k] by blast
  have "interrupt_gate g soft KERNEL_DS esp0 c = Some ((foldr push ?fr ?k)\<lparr>r_eip := h, r_eflags := gate_flags g (r_eflags c)\<rparr>)"
  proof -
    have ld: "load_code KERNEL_CS c = Some (c\<lparr>r_cs := KERNEL_CS\<rparr>)"
      "load_stack KERNEL_DS (c\<lparr>r_cs := KERNEL_CS, r_esp := esp0\<rparr>) = Some (c\<lparr>r_cs := KERNEL_CS, r_esp := esp0, r_ss := KERNEL_DS\<rparr>)"
      using assms(1) by (simp_all add: loads)
    have cs: "r_cs c = USER_CS" "r_ss c = USER_DS" "cpl c = 3" "cpl (c\<lparr>r_cs := KERNEL_CS\<rparr>) = 0" using assms(2) by (simp_all add: user_mode_def)
    have ok: "\<not> (gate_present g = 0 \<or> gate_type g \<noteq> 14 \<and> gate_type g \<noteq> 15 \<or> soft \<and> unat (gate_dpl g) < cpl c)" "seg_selector g = KERNEL_CS" "gate_target g = h"
      using assms(3,4) cs(3) by (auto simp: gate_to_def)
    show ?thesis using ok(1) unfolding interrupt_gate_def ok(2,3) ld(1) cs bind.simps Let_def by (simp add: ld(2))
  qed
  then show thesis using that [of m] m(2) [of "[]"] unfolding m(1) by simp
qed

lemma interrupt_kernel:
  assumes "r_gdt c = gdt t l" "r_cs c = KERNEL_CS" "gate_to g h"
  obtains m where "interrupt_gate g False KERNEL_DS esp0 c =
      Some (c\<lparr>r_esp := r_esp c - 12, r_eip := h, r_eflags := gate_flags g (r_eflags c), words := m\<rparr>)"
    "\<And>xs. stk c xs \<Longrightarrow> length xs < 900 \<Longrightarrow> holds m (r_esp c - 12) ([r_eip c, ucast KERNEL_CS, r_eflags c] @ xs)"
proof -
  let ?fr = "[r_eip c, ucast KERNEL_CS, r_eflags c]"
  obtain m where m: "foldr push ?fr c = c\<lparr>r_esp := r_esp c - 4 * of_nat (length ?fr), words := m\<rparr>"
    "\<And>xs. stk c xs \<Longrightarrow> length ?fr + length xs < 1000 \<Longrightarrow> holds m (r_esp c - 4 * of_nat (length ?fr)) (?fr @ xs)"
    using pushes [of ?fr c] by blast
  have cs: "c\<lparr>r_cs := KERNEL_CS\<rparr> = c" using assms(2) by simp
  have "interrupt_gate g False KERNEL_DS esp0 c = Some ((foldr push ?fr c)\<lparr>r_eip := h, r_eflags := gate_flags g (r_eflags c)\<rparr>)"
    using assms by (auto simp: interrupt_gate_def gate_to_def loads cs)
  then show thesis using that [of m] m(2) unfolding m(1) by simp
qed

text \<open>
  What the compiler promises of a C function that is called with \<open>n\<close> words of arguments: it
  returns with the stack pointer behind the return address, leaves the segments, the frame
  pointer and the caller's part of the stack alone.
\<close>

definition cdecl :: "nat \<Rightarrow> (cpu \<Rightarrow> cpu) \<Rightarrow> bool" where
  "cdecl n f \<longleftrightarrow> (\<forall>c. r_esp (f c) = r_esp c + 4 \<and> r_ebp (f c) = r_ebp c \<and> r_cs (f c) = r_cs c \<and> r_ss (f c) = r_ss c \<and> r_ds (f c) = r_ds c \<and>
     r_es (f c) = r_es c \<and> r_fs (f c) = r_fs c \<and> r_gs (f c) = r_gs c \<and> r_gdt (f c) = r_gdt c \<and>
     (\<forall>ws. length ws < 1000 \<longrightarrow> holds (words c) (r_esp c + 4 * of_nat (Suc n)) ws \<longrightarrow> holds (words (f c)) (r_esp c + 4 * of_nat (Suc n)) ws))"

section \<open>The wrappers\<close>

lemma sys_ret_pops:
  assumes "stk c ([p1, p2, p3, ebx, ecx, edx, esi, edi] @ ws)"
  shows "sys_ret c = iret (c\<lparr>r_ebx := ebx, r_ecx := ecx, r_edx := edx, r_esi := esi, r_esp := r_esp c + 32, r_edi := edi\<rparr>)"
  using assms by (simp add: sys_ret_def pop_def Let_def add.assoc)

lemma popal_pops:
  assumes "stk c ([edi, esi, ebp, esp, ebx, edx, ecx, eax] @ ws)"
  shows "popal c = c\<lparr>r_edi := edi, r_esi := esi, r_ebp := ebp, r_ebx := ebx, r_edx := edx, r_ecx := ecx, r_eax := eax, r_esp := r_esp c + 32\<rparr>"
  using assms by (simp add: popal_def pop_def Let_def add.assoc)

lemma cdecl_call:
  assumes "cdecl n f" "stk c (args @ ws)" "length args = n" "length (args @ ws) < 900"
  obtains as where "length as = n" "stk (f (push ra c)) (as @ ws)" "r_esp (f (push ra c)) = r_esp c" "r_ebp (f (push ra c)) = r_ebp c"
    "r_cs (f (push ra c)) = r_cs c" "r_ss (f (push ra c)) = r_ss c" "r_ds (f (push ra c)) = r_ds c" "r_es (f (push ra c)) = r_es c"
    "r_fs (f (push ra c)) = r_fs c" "r_gs (f (push ra c)) = r_gs c" "r_gdt (f (push ra c)) = r_gdt c"
proof -
  let ?c = "push ra c" and ?a = "r_esp c + 4 * of_nat n"
  let ?as = "map (\<lambda>i. words (f ?c) (r_esp c + 4 * of_nat i)) [0..<n]"
  have any: "holds m a (map (\<lambda>i. m (a + 4 * of_nat i)) [0..<j])" for m a j
    by (induction j) (simp_all add: holds_append)
  have "stk ?c (ra # args @ ws)" using assms(2,4) by (intro stk_push) simp_all
  then have "holds (words ?c) ?a ws" using assms(3) by (simp add: holds_append)
  moreover have a: "r_esp ?c + 4 * of_nat (Suc n) = ?a" by (simp add: algebra_simps)
  moreover have "length ws < 1000" using assms(4) by simp
  moreover have "\<forall>ws. length ws < 1000 \<longrightarrow> holds (words ?c) (r_esp ?c + 4 * of_nat (Suc n)) ws \<longrightarrow> holds (words (f ?c)) (r_esp ?c + 4 * of_nat (Suc n)) ws"
    using assms(1) unfolding cdecl_def by blast
  ultimately have "holds (words (f ?c)) ?a ws" unfolding a by blast
  moreover have esp: "r_esp (f ?c) = r_esp c" using assms(1) by (simp add: cdecl_def)
  ultimately have "stk (f ?c) (?as @ ws)" using any [of "words (f ?c)" "r_esp c" n] by (simp add: holds_append)
  then show thesis using that [of ?as] esp assms(1) by (simp add: cdecl_def)
qed

text \<open>The frame that an interrupt from ring 3 leaves, and a kernel state from which the program can be resumed.\<close>

abbreviation "user_frame c \<equiv> [r_eip c, ucast USER_CS, r_eflags c, r_esp c, ucast USER_DS]"

definition resumable :: "cpu \<Rightarrow> cpu \<Rightarrow> bool" where
  "resumable c k \<longleftrightarrow> r_gdt k = r_gdt c \<and> r_cs k = KERNEL_CS \<and> r_ebp k = r_ebp c \<and> r_ds k = USER_DS \<and> r_es k = USER_DS \<and> r_fs k = USER_DS \<and> r_gs k = USER_DS"

lemma sys_ret_resumes:
  assumes "r_gdt c = gdt t l" "user_mode c" "resumable c k" "length ps = 3"
    and "stk k (ps @ [r_ebx c, r_ecx c, r_edx c, r_esi c, r_edi c] @ user_frame c)"
  shows "sys_ret k = Some (c\<lparr>r_eax := r_eax k, words := words k\<rparr>)"
proof -
  obtain p1 p2 p3 where ps: "ps = [p1, p2, p3]" using assms(4) by (auto simp: length_Suc_conv numeral_3_eq_3)
  let ?k = "k\<lparr>r_ebx := r_ebx c, r_ecx := r_ecx c, r_edx := r_edx c, r_esi := r_esi c, r_esp := r_esp k + 32, r_edi := r_edi c\<rparr>"
  have "sys_ret k = iret ?k" by (rule sys_ret_pops [where ws = "user_frame c"]) (use assms(5) in \<open>simp add: ps\<close>)
  also have "\<dots> = Some (?k\<lparr>r_eip := r_eip c, r_eflags := r_eflags c, r_cs := USER_CS, r_esp := r_esp c, r_ss := USER_DS\<rparr>)"
    by (rule iret_user [of _ t l]) (use assms in \<open>simp_all add: ps resumable_def add.assoc\<close>)
  also have "\<dots> = Some (c\<lparr>r_eax := r_eax k, words := words k\<rparr>)"
    using assms(2,3) by (auto simp: resumable_def user_mode_def intro!: cpu.equality)
  finally show ?thesis .
qed

lemma irq_body:
  assumes "cdecl 0 f" "length ws < 800" "stk k ws"
  shows "popal (f (push ra (pushal k))) = k\<lparr>r_eip := r_eip (f (push ra (pushal k))), r_eflags := r_eflags (f (push ra (pushal k))), words := words (f (push ra (pushal k)))\<rparr>"
    "holds (words (f (push ra (pushal k)))) (r_esp k) ws"
proof -
  let ?regs = "[r_edi k, r_esi k, r_ebp k, r_esp k, r_ebx k, r_edx k, r_ecx k, r_eax k]" and ?p = "pushal k" and ?k = "f (push ra (pushal k))"
  have pushal: "?p = foldr push ?regs k" "stk ?p (?regs @ ws)" "r_esp ?p = r_esp k - 32"
  proof -
    have esp: "r_esp (push w c) = r_esp c - 4" for w c by simp
    show p: "?p = foldr push ?regs k" by (simp add: pushal_def)
    show "r_esp ?p = r_esp k - 32" by (simp add: pushal_def)
    show "stk ?p (?regs @ ws)" unfolding pushal_def using assms(2,3) by (simp only: append.simps, intro stk_push) simp_all
  qed
  have segs: "r_cs ?p = r_cs k" "r_ss ?p = r_ss k" "r_ds ?p = r_ds k" "r_es ?p = r_es k" "r_fs ?p = r_fs k" "r_gs ?p = r_gs k" "r_gdt ?p = r_gdt k"
    by (simp_all add: pushal_def)
  obtain qs where qs: "length qs = 0" "stk ?k (qs @ ?regs @ ws)" "r_esp ?k = r_esp ?p" "r_cs ?k = r_cs ?p" "r_ss ?k = r_ss ?p" "r_ds ?k = r_ds ?p"
    "r_es ?k = r_es ?p" "r_fs ?k = r_fs ?p" "r_gs ?k = r_gs ?p" "r_gdt ?k = r_gdt ?p"
    by (rule cdecl_call [OF assms(1), of ?p "[]" "?regs @ ws" ra]) (use pushal(2) assms(2) in simp_all)
  then have k: "stk ?k (?regs @ ws)" by simp
  then have "holds (words ?k) (r_esp ?k + 4 * of_nat (length ?regs)) ws" unfolding holds_append by blast
  then show "holds (words ?k) (r_esp k) ws" using qs(3) pushal(3) by simp
  show "popal ?k = k\<lparr>r_eip := r_eip ?k, r_eflags := r_eflags ?k, words := words ?k\<rparr>"
    unfolding popal_pops [OF k] by (rule cpu.equality) (use qs pushal(3) segs in simp_all)
qed

lemma device_gate:
  assumes "v \<in> {32, 33, 40}"
  shows "\<exists>h. gate_to (boot_idt addr idt v) h" "gate_type (boot_idt addr idt v) = 14"
  using assms by (auto simp: gate_to_def boot_idt_def install_gate_def idt_init_eq idt_consts gate_type_def gate_fields_def SET_IDT_ENTRY_def)

lemma syscall_gate: "gate_to (boot_idt addr idt 128) (addr Syscall_wrapper)" "gate_dpl (boot_idt addr idt 128) = 3" "gate_type (boot_idt addr idt 128) = 15"
  by (simp_all add: gate_to_def boot_idt_def install_gate_def idt_init_eq idt_consts gate_type_def gate_fields_def) 
    (simp_all add: SET_IDT_ENTRY_def gate_fields_def gate_type_def)

lemma irq_from_user:
  assumes "r_gdt c = gdt t l" "user_mode c" "gate_to g h" "gate_type g = 14" "cdecl 0 f"
  shows "\<exists>k m. interrupt_gate g False KERNEL_DS esp0 c = Some k \<and> cpl k = 0 \<and> r_eflags k AND IF = 0 \<and> irq_wrapper f ra k = Some (c\<lparr>words := m\<rparr>)"
proof -
  have off: "(r_eflags c AND NOT IF) AND IF = 0" by (simp add: bit_eq_iff bit_simps)
  obtain w where k: "interrupt_gate g False KERNEL_DS esp0 c =
      Some (c\<lparr>r_cs := KERNEL_CS, r_ss := KERNEL_DS, r_esp := esp0 - 20, r_eip := h, r_eflags := r_eflags c AND NOT IF, words := w\<rparr>)"
    "holds w (esp0 - 20) (user_frame c)"
    using interrupt_user [OF assms(1) assms(2) assms(3), of False esp0] by (simp add: assms(4)) blast
  define k where "k = c\<lparr>r_cs := KERNEL_CS, r_ss := KERNEL_DS, r_esp := esp0 - 20, r_eip := h, r_eflags := r_eflags c AND NOT IF, words := w\<rparr>"
  let ?k = "f (push ra (pushal k))"
  have "stk k (user_frame c)" using k(2) by (simp add: k_def)
  note body = irq_body [OF assms(5) _ this, of ra, simplified]
  have "irq_wrapper f ra k = iret (k\<lparr>r_eip := r_eip ?k, r_eflags := r_eflags ?k, words := words ?k\<rparr>)" by (simp only: irq_wrapper_def body(1))
  also have "\<dots> = Some (k\<lparr>r_eip := r_eip ?k, r_eflags := r_eflags ?k, words := words ?k\<rparr>
      \<lparr>r_eip := r_eip c, r_eflags := r_eflags c, r_cs := USER_CS, r_esp := r_esp c, r_ss := USER_DS\<rparr>)"
    by (rule iret_user [of _ t l]) (use body(2) assms(2) assms(1) in \<open>simp_all add: user_mode_def k_def\<close>)
  also have "\<dots> = Some (c\<lparr>words := words ?k\<rparr>)" using assms(2) by (auto simp: user_mode_def k_def intro!: cpu.equality)
  finally show ?thesis using k(1) off unfolding k_def [symmetric]
    by (intro exI [of _ k] exI [of _ "words ?k"]) (simp add: k_def user_mode_def idt_consts USER_CS_def)
qed

lemma irq_from_kernel:
  assumes "r_gdt c = gdt t l" "r_cs c = KERNEL_CS" "gate_to g h" "gate_type g = 14" "cdecl 0 f"
  shows "\<exists>k m. interrupt_gate g False KERNEL_DS esp0 c = Some k \<and> cpl k = 0 \<and> r_eflags k AND IF = 0 \<and> irq_wrapper f ra k = Some (c\<lparr>words := m\<rparr>) \<and>
    (\<forall>ws. length ws < 700 \<longrightarrow> stk c ws \<longrightarrow> holds m (r_esp c) ws)"
proof -
  have off: "(r_eflags c AND NOT IF) AND IF = 0" by (simp add: bit_eq_iff bit_simps)
  obtain w where k: "interrupt_gate g False KERNEL_DS esp0 c =
      Some (c\<lparr>r_esp := r_esp c - 12, r_eip := h, r_eflags := r_eflags c AND NOT IF, words := w\<rparr>)"
    "\<And>xs. stk c xs \<Longrightarrow> length xs < 900 \<Longrightarrow> holds w (r_esp c - 12) ([r_eip c, ucast KERNEL_CS, r_eflags c] @ xs)"
    using interrupt_kernel [OF assms(1) assms(2) assms(3), of esp0] by (simp add: assms(4)) blast
  define k where "k = c\<lparr>r_esp := r_esp c - 12, r_eip := h, r_eflags := r_eflags c AND NOT IF, words := w\<rparr>"
  let ?k = "f (push ra (pushal k))" and ?fr = "[r_eip c, ucast KERNEL_CS, r_eflags c]"
  have fr: "stk k (?fr @ ws)" if "length ws < 700" "stk c ws" for ws using k(2) [OF that(2)] that(1) by (simp add: k_def)
  have body: "holds (words ?k) (r_esp k) (?fr @ ws)" if "length ws < 700" "stk c ws" for ws
    using irq_body(2) [OF assms(5) _ fr [OF that]] that(1) by simp
  have "irq_wrapper f ra k = iret (k\<lparr>r_eip := r_eip ?k, r_eflags := r_eflags ?k, words := words ?k\<rparr>)"
    using irq_body(1) [OF assms(5) _ fr [of "[]"]] by (simp add: irq_wrapper_def)
  also have "\<dots> = Some (k\<lparr>r_eip := r_eip ?k, r_eflags := r_eflags ?k, words := words ?k\<rparr>\<lparr>r_eip := r_eip c, r_eflags := r_eflags c, r_esp := r_esp k + 12\<rparr>)"
    using iret_kernel [of "k\<lparr>r_eip := r_eip ?k, r_eflags := r_eflags ?k, words := words ?k\<rparr>" t l "r_eip c" "r_eflags c"] body [of "[]"] assms(1) assms(2) by (simp add: k_def)
  also have "\<dots> = Some (c\<lparr>words := words ?k\<rparr>)" by (auto simp: k_def intro!: cpu.equality)
  finally have res: "irq_wrapper f ra k = Some (c\<lparr>words := words ?k\<rparr>)" .
  have "holds (words ?k) (r_esp c) ws" if "length ws < 700" "stk c ws" for ws
    using body [OF that] unfolding holds_append by (simp add: k_def)
  then show ?thesis using k(1) off res assms(2) unfolding k_def [symmetric] by (intro exI [of _ k] exI [of _ "words ?k"]) (simp add: k_def)
qed

section \<open>Properties\<close>

text \<open>
  C7. A system call is a call: from ring 3 the trap through vector 128 enters \<^verbatim>\<open>wrapper.S\<close> in ring 0
  on the kernel stack with interrupts as they were, the function of the table finds the
  three argument registers as its C arguments, and the program continues after the trap in
  ring 3 with every register as before, but for EAX, which holds the function's result, or
  -1 when there is no such call.
\<close>

theorem system_call_resumes:
  assumes "r_gdt c = gdt t l" "user_mode c" "\<forall>i. cdecl 3 (dispatch i)"
  shows "\<exists>k m. interrupt_gate (boot_idt addr idt 128) True KERNEL_DS esp0 c = Some k \<and> cpl k = 0 \<and> r_eip k = addr Syscall_wrapper \<and>
    r_eflags k = r_eflags c \<and> stk (push ra (save_and_push k)) [ra, r_ebx c, r_ecx c, r_edx c] \<and>
    syscall_handler_wrapper dispatch ra k = Some (c\<lparr>r_eax :=
      (if 0 < r_eax c \<and> r_eax c < 10 then r_eax (dispatch (unat (r_eax c)) (push ra (save_and_push k))) else - 1), words := m\<rparr>)"
proof -
  let ?g = "boot_idt addr idt 128"
  obtain w where k: "interrupt_gate ?g True KERNEL_DS esp0 c =
      Some (c\<lparr>r_cs := KERNEL_CS, r_ss := KERNEL_DS, r_esp := esp0 - 20, r_eip := addr Syscall_wrapper, r_eflags := r_eflags c, words := w\<rparr>)"
    "holds w (esp0 - 20) (user_frame c)"
    using interrupt_user [OF assms(1,2) syscall_gate(1) [of addr idt], of True esp0] by (simp add: syscall_gate(2,3)) blast
  define k where "k = c\<lparr>r_cs := KERNEL_CS, r_ss := KERNEL_DS, r_esp := esp0 - 20, r_eip := addr Syscall_wrapper, r_eflags := r_eflags c, words := w\<rparr>"
  let ?ps = "[r_ebx c, r_ecx c, r_edx c]" and ?saved = "[r_ebx c, r_ecx c, r_edx c, r_esi c, r_edi c]" and ?s = "save_and_push k"
  have s: "?s = foldr push (?ps @ ?saved) k" by (simp add: save_and_push_def k_def)
  obtain m where m: "?s = k\<lparr>r_esp := esp0 - 52, words := m\<rparr>" "holds m (esp0 - 52) ((?ps @ ?saved) @ user_frame c)"
  proof -
    have esp: "r_esp k = esp0 - 20" "r_esp k - 4 * of_nat (length (?ps @ ?saved)) = esp0 - 52" by (simp_all add: k_def)
    have "stk k (user_frame c)" "length (?ps @ ?saved) + length (user_frame c) < 1000" using k(2) unfolding esp by (simp_all add: k_def)
    then show thesis using pushes [of "?ps @ ?saved" k] that unfolding s esp(2) by blast
  qed
  have stk: "stk ?s (?ps @ ?saved @ user_frame c)" "r_eax ?s = r_eax c" "resumable c ?s"
    using m assms(2) by (simp_all add: k_def resumable_def user_mode_def)
  have res: "\<exists>m. syscall_handler_wrapper dispatch ra k = Some (c\<lparr>r_eax :=
      (if 0 < r_eax c \<and> r_eax c < 10 then r_eax (dispatch (unat (r_eax c)) (push ra ?s)) else - 1), words := m\<rparr>)"
  proof (cases "0 < r_eax c \<and> r_eax c < 10")
    case True
    let ?f = "dispatch (unat (r_eax c))"
    obtain qs where qs: "length qs = 3" "stk (?f (push ra ?s)) (qs @ ?saved @ user_frame c)" "resumable c (?f (push ra ?s))"
    proof -
      have "cdecl 3 ?f" using assms(3) by blast
      from this stk(1) show thesis by (rule cdecl_call [where ra = ra]) (use stk(3) in \<open>simp_all add: resumable_def that\<close>)
    qed
    have "syscall_handler_wrapper dispatch ra k = sys_ret (?f (push ra ?s))"
      using True stk(2) by (auto simp: syscall_handler_wrapper_def Let_def word_le_nat_alt word_less_nat_alt)
    then show ?thesis using sys_ret_resumes [OF assms(1,2) qs(3,1,2)] unfolding if_P [OF True] by metis
  next
    case False
    then have "syscall_handler_wrapper dispatch ra k = sys_ret (?s\<lparr>r_eax := - 1\<rparr>)"
      using stk(2) by (auto simp: syscall_handler_wrapper_def Let_def not_le word_gt_0)
    moreover have "resumable c (?s\<lparr>r_eax := - 1\<rparr>)" "stk (?s\<lparr>r_eax := - 1\<rparr>) (?ps @ ?saved @ user_frame c)"
      using stk(1,3) unfolding resumable_def by simp_all
    then have "sys_ret (?s\<lparr>r_eax := - 1\<rparr>) = Some (c\<lparr>r_eax := - 1, words := words ?s\<rparr>)"
      using sys_ret_resumes [OF assms(1,2), of "?s\<lparr>r_eax := - 1\<rparr>" ?ps] by simp
    ultimately show ?thesis unfolding if_not_P [OF False] by metis
  qed
  have "stk (push ra ?s) (ra # ?ps @ ?saved @ user_frame c)" by (rule stk_push [OF stk(1)]) simp
  then show ?thesis using k(1) res unfolding k_def [symmetric] by (intro exI [of _ k]) (auto simp: k_def)
qed

text \<open>A program at its trap, and a table of functions that return the first argument.\<close>

definition demo_cpu :: cpu where
  "demo_cpu = \<lparr>r_eax = 3, r_ebx = 17, r_ecx = 2, r_edx = 9, r_esi = 4, r_edi = 5, r_ebp = 6, r_esp = 0x083FFFE0, r_eip = 0x08048102, r_eflags = 0x202,
     r_cs = USER_CS, r_ss = USER_DS, r_ds = USER_DS, r_es = USER_DS, r_fs = USER_DS, r_gs = USER_DS, r_gdt = gdt zero_seg zero_seg, words = (\<lambda>_. 0)\<rparr>"

definition demo_function :: "cpu \<Rightarrow> cpu" where
  "demo_function c = c\<lparr>r_eax := words c (r_esp c + 4), r_ebx := 0, r_esp := r_esp c + 4\<rparr>"

lemma demo_function_cdecl: "cdecl n demo_function"
  by (simp add: cdecl_def demo_function_def)

theorem system_call_resumes_witness:
  "\<exists>k m. interrupt_gate (boot_idt (\<lambda>_. 0x400000) (\<lambda>_. zero_gate) 128) True KERNEL_DS 0x800000 demo_cpu = Some k \<and>
     syscall_handler_wrapper (\<lambda>_. demo_function) 0x400040 k = Some (demo_cpu\<lparr>r_eax := 17, words := m\<rparr>)"
proof -
  obtain k m where "interrupt_gate (boot_idt (\<lambda>_. 0x400000) (\<lambda>_. zero_gate) 128) True KERNEL_DS 0x800000 demo_cpu = Some k"
    "stk (push 0x400040 (save_and_push k)) [0x400040, 17, 2, 9]"
    "syscall_handler_wrapper (\<lambda>_. demo_function) 0x400040 k = Some (demo_cpu\<lparr>r_eax := r_eax (demo_function (push 0x400040 (save_and_push k))), words := m\<rparr>)"
    using system_call_resumes [of demo_cpu zero_seg zero_seg "\<lambda>_. demo_function" "\<lambda>_. 0x400000" "\<lambda>_. zero_gate" "0x800000" "0x400040"] demo_function_cdecl
    by (auto simp: user_mode_def demo_cpu_def)
  then show ?thesis by (intro exI [of _ k] exI [of _ m]) (simp add: demo_function_def)
qed

text \<open>
  C30. A device interrupt is invisible: whether it comes in ring 3 or in the kernel, the gate of
  the timer, the keyboard or the clock enters ring 0 with interrupts off, and after the
  wrapper the interrupted code continues with every register and flag as before; in the
  kernel its stack is as before, too.
\<close>

theorem device_interrupt_resumes:
  assumes "r_gdt c = gdt t l" "user_mode c \<or> r_cs c = KERNEL_CS" "v \<in> {32, 33, 40}" "cdecl 0 f"
  shows "\<exists>k m. interrupt_gate (boot_idt addr idt v) False KERNEL_DS esp0 c = Some k \<and> cpl k = 0 \<and> r_eflags k AND IF = 0 \<and>
    irq_wrapper f ra k = Some (c\<lparr>words := m\<rparr>) \<and> (r_cs c = KERNEL_CS \<longrightarrow> (\<forall>ws. length ws < 700 \<longrightarrow> stk c ws \<longrightarrow> holds m (r_esp c) ws))"
proof -
  obtain h where g: "gate_to (boot_idt addr idt v) h" "gate_type (boot_idt addr idt v) = 14" using device_gate [OF assms(3)] by blast
  have "r_cs c \<noteq> KERNEL_CS" if "user_mode c" using that by (simp add: user_mode_def idt_consts USER_CS_def)
  then show ?thesis
    using assms(2) irq_from_user [OF assms(1) _ g assms(4), of esp0 ra] irq_from_kernel [OF assms(1) _ g assms(4), of esp0 ra] by (metis (no_types, lifting))
qed

theorem device_interrupt_resumes_witness:
  "\<exists>k m. interrupt_gate (boot_idt (\<lambda>_. 0x400000) (\<lambda>_. zero_gate) 33) False KERNEL_DS 0x800000 demo_cpu = Some k \<and> r_eflags k AND IF = 0 \<and>
     irq_wrapper demo_function 0x400040 k = Some (demo_cpu\<lparr>words := m\<rparr>)"
  using device_interrupt_resumes [of demo_cpu zero_seg zero_seg 33 demo_function "\<lambda>_. 0x400000" "\<lambda>_. zero_gate" "0x800000" "0x400040"] demo_function_cdecl
  by (auto simp: user_mode_def demo_cpu_def)

text \<open>
  A program is entered in ring 3: \<^verbatim>\<open>user_context_switch\<close>, called in the kernel with an entry point,
  leaves the processor there with the user's segments, the stack at the top of the
  program page and interrupts enabled.
\<close>

theorem program_entered_in_ring3:
  assumes "r_gdt c = gdt t l" "r_cs c = KERNEL_CS"
  shows "\<exists>c'. user_context_switch c = Some c' \<and> user_mode c' \<and> cpl c' = 3 \<and> r_eip c' = words c (r_esp c + 4) \<and> r_esp c' = 0x083FFFFC \<and>
    r_eflags c' AND IF \<noteq> 0 \<and> r_gdt c' = r_gdt c"
proof -
  define k where "k = c\<lparr>r_eflags := r_eflags c AND NOT IF, r_edx := words c (r_esp c + 4), r_eax := 0x2B, r_ds := USER_DS, r_es := USER_DS, r_fs := USER_DS, r_gs := USER_DS\<rparr>"
  define k1 where "k1 = push 0x083FFFFC (push 0x2B k)"
  define fl where "fl = (r_eflags c AND NOT IF) OR 0x200"
  define k2 where "k2 = (snd (pop (push (r_eflags k1) k1)))\<lparr>r_ebx := fl\<rparr>"
  let ?top = "push (r_edx k2) (push 0x23 (push fl k2))"
  have ds: "ucast (0x2B :: u32) = USER_DS" "(0x2B :: u32) = ucast USER_DS" "(0x23 :: u32) = ucast USER_CS" by (simp_all add: USER_DS_def USER_CS_def)
  have k2: "r_esp k2 = r_esp k1" "r_edx k2 = words c (r_esp c + 4)" "r_gdt k2 = gdt t l" "r_cs k2 = KERNEL_CS" "r_ds k2 = USER_DS" "r_es k2 = USER_DS"
    "r_fs k2 = USER_DS" "r_gs k2 = USER_DS" "fst (pop (push (r_eflags k1) k1)) = r_eflags c AND NOT IF"
    using assms by (simp_all add: k2_def k1_def k_def pop_def push_def)
  have "stk k1 [0x083FFFFC, 0x2B]" unfolding k1_def by (intro stk_push) simp_all
  then have "stk k2 [0x083FFFFC, 0x2B]"
    using holds_upd [of "r_esp k1" "r_esp k1 - 4" "[0x083FFFFC, 0x2B]" "words k1" "r_eflags k1"] by (simp add: k2_def pop_def push_def)
  then have "stk ?top ([r_edx k2, 0x23, fl] @ [0x083FFFFC, 0x2B])" by (simp only: append.simps) (intro stk_push; simp)
  then have "iret ?top = Some (?top\<lparr>r_eip := r_edx k2, r_eflags := fl, r_cs := USER_CS, r_esp := 0x083FFFFC, r_ss := USER_DS\<rparr>)"
    by (intro iret_user [of _ t l]) (simp_all add: k2 ds)
  moreover have "load_data 0x2B (c\<lparr>r_eflags := r_eflags c AND NOT IF, r_edx := words c (r_esp c + 4), r_eax := 0x2B\<rparr>) = Some k"
    unfolding USER_DS_def [symmetric] using assms by (simp add: loads k_def)
  moreover have "r_eflags k1 = r_eflags k" by (simp add: k1_def)
  ultimately have "user_context_switch c = Some (?top\<lparr>r_eip := r_edx k2, r_eflags := fl, r_cs := USER_CS, r_esp := 0x083FFFFC, r_ss := USER_DS\<rparr>)"
    using k2(9) by (simp add: user_context_switch_def Let_def k1_def [symmetric] case_prod_beta k2_def fl_def)
  moreover have "fl AND IF \<noteq> 0"
    by (auto simp: fl_def IF_def dest!: arg_cong [where f = "\<lambda>x. bit x 9"])
  ultimately show ?thesis using k2 assms(1) by (simp add: user_mode_def)
qed

text \<open>
  The start of the kernel: \<^verbatim>\<open>boot.S\<close> loads the segment table, goes to the kernel's segments with
  interrupts off and calls \<^verbatim>\<open>entry\<close> with the loader's two registers as arguments.
\<close>

theorem boot_calls_entry:
  "\<exists>c'. boot_start (map seg_of_quad gdt_quads) entry_addr ra c = Some c' \<and> r_eip c' = entry_addr \<and> cpl c' = 0 \<and> r_cs c' = KERNEL_CS \<and> r_ss c' = KERNEL_DS \<and>
     r_ds c' = KERNEL_DS \<and> r_eflags c' AND IF = 0 \<and> stk c' [ra, r_eax c, r_ebx c] \<and> r_esp c' = 0x7FFFF4"
proof -
  have g: "map seg_of_quad gdt_quads = gdt (seg_of_quad 0) (seg_of_quad 0)" by (simp add: gdt_def gdt_quads_def)
  have off: "(r_eflags c AND NOT IF) AND IF = 0" by (simp add: bit_eq_iff bit_simps)
  define k where "k = c\<lparr>r_eflags := r_eflags c AND NOT IF, r_gdt := gdt (seg_of_quad 0) (seg_of_quad 0), r_cs := KERNEL_CS, r_esp := 0x800000,
    r_ecx := (r_ecx c AND 0xFFFF0000) OR ucast KERNEL_DS, r_ss := KERNEL_DS, r_ds := KERNEL_DS, r_es := KERNEL_DS, r_fs := KERNEL_DS, r_gs := KERNEL_DS\<rparr>"
  have "boot_start (map seg_of_quad gdt_quads) entry_addr ra c = Some ((push ra (push (r_eax k) (push (r_ebx k) k)))\<lparr>r_eip := entry_addr\<rparr>)"
    by (simp add: boot_start_def g Let_def loads k_def)
  moreover have "stk (push ra (push (r_eax k) (push (r_ebx k) k))) [ra, r_eax k, r_ebx k]" by (intro stk_push) simp_all
  ultimately show ?thesis using off by (simp add: k_def)
qed

end
