(* ===== verification/LibString.thy ===== *)
theory LibString
  imports Prelude
begin

text \<open>
  The string and memory routines of \<^verbatim>\<open>student-distrib/lib.c\<close>: \<^verbatim>\<open>strlen\<close>, \<^verbatim>\<open>strncmp\<close>,
  \<^verbatim>\<open>strcpy\<close>, \<^verbatim>\<open>strncpy\<close>, \<^verbatim>\<open>strrev\<close> and \<^verbatim>\<open>itoa\<close> on byte arrays, and the assembly routines
  \<^verbatim>\<open>memset\<close>, \<^verbatim>\<open>memset_word\<close>, \<^verbatim>\<open>memset_dword\<close>, \<^verbatim>\<open>memcpy\<close> and \<^verbatim>\<open>memmove\<close> on the flat
  address space, instruction group by instruction group. A loop that ends only when it
  meets a NUL is a \<open>partial_function\<close>: \<open>None\<close> is a loop that never ends.
\<close>

unbundle bit_operations_syntax

section \<open>Definitions: strings\<close>

partial_function (option) strlen_from :: "bytes \<Rightarrow> nat \<Rightarrow> nat option" where
  "strlen_from s len = (if s len \<noteq> NUL then strlen_from s (Suc len) else Some len)"

definition strlen :: "bytes \<Rightarrow> nat option" where
  "strlen s = strlen_from s 0"

text \<open>\<^verbatim>\<open>strncmp\<close>: \<open>k\<close> is \<^verbatim>\<open>n - i\<close>, the difference is of two \<^verbatim>\<open>int8_t\<close> (signed) values.\<close>

fun strncmp_from :: "bytes \<Rightarrow> bytes \<Rightarrow> nat \<Rightarrow> nat \<Rightarrow> int" where
  "strncmp_from s1 s2 i 0 = 0"
| "strncmp_from s1 s2 i (Suc k) =
     (if s1 i \<noteq> s2 i \<or> s1 i = NUL then sint (s1 i) - sint (s2 i)
      else strncmp_from s1 s2 (Suc i) k)"

definition strncmp :: "bytes \<Rightarrow> bytes \<Rightarrow> nat \<Rightarrow> int" where
  "strncmp s1 s2 n = strncmp_from s1 s2 0 n"

partial_function (option) strcpy_from :: "bytes \<Rightarrow> bytes \<Rightarrow> nat \<Rightarrow> bytes option" where
  "strcpy_from dest src i =
     (if src i \<noteq> NUL then strcpy_from (dest(i := src i)) src (Suc i) else Some (dest(i := NUL)))"

definition strcpy :: "bytes \<Rightarrow> bytes \<Rightarrow> bytes option" where
  "strcpy dest src = strcpy_from dest src 0"

text \<open>The first loop of \<^verbatim>\<open>strncpy\<close> returns where it stopped; the second pads with NUL.\<close>

fun strncpy_copy :: "bytes \<Rightarrow> bytes \<Rightarrow> nat \<Rightarrow> nat \<Rightarrow> nat \<times> bytes" where
  "strncpy_copy dest src i 0 = (i, dest)"
| "strncpy_copy dest src i (Suc k) =
     (if src i \<noteq> NUL then strncpy_copy (dest(i := src i)) src (Suc i) k else (i, dest))"

definition strncpy :: "bytes \<Rightarrow> bytes \<Rightarrow> nat \<Rightarrow> bytes" where
  "strncpy dest src n = (let (i, d) = strncpy_copy dest src 0 n in fill_run d i NUL (n - i))"

text \<open>\<^verbatim>\<open>strrev\<close>: \<^verbatim>\<open>end\<close> is a signed \<^verbatim>\<open>strlen(s) - 1\<close>, which is \<open>-1\<close> for the empty string.\<close>

function strrev_loop :: "bytes \<Rightarrow> int \<Rightarrow> int \<Rightarrow> bytes" where
  "strrev_loop s b e =
     (if b < e then strrev_loop (s(nat e := s (nat b), nat b := s (nat e))) (b + 1) (e - 1) else s)"
  by pat_completeness auto
termination
  by (relation "measure (\<lambda>(s, b, e). nat (e - b))") auto

definition strrev :: "bytes \<Rightarrow> bytes option" where
  "strrev s = (case strlen s of None \<Rightarrow> None | Some n \<Rightarrow> Some (strrev_loop s 0 (int n - 1)))"

definition lookup_digits :: "u8 list" where
  "lookup_digits = map byte_of_char ''0123456789ABCDEFGHIJKLMNOPQRSTUVWXYZ''"

text \<open>The digit loop of \<^verbatim>\<open>itoa\<close>, least significant digit first.\<close>

partial_function (option) itoa_loop :: "nat \<Rightarrow> nat \<Rightarrow> bytes \<Rightarrow> nat \<Rightarrow> (nat \<times> bytes) option" where
  "itoa_loop radix newval buf p =
     (if newval > 0
      then itoa_loop radix (newval div radix) (buf(p := lookup_digits ! (newval mod radix))) (Suc p)
      else Some (p, buf))"

definition itoa :: "u32 \<Rightarrow> bytes \<Rightarrow> nat \<Rightarrow> bytes option" where
  "itoa val buf radix =
     (if val = 0 then Some (buf(0 := byte_of_char CHR ''0'', 1 := NUL))
      else case itoa_loop radix (unat val) buf 0 of
             None \<Rightarrow> None
           | Some (p, b) \<Rightarrow> strrev (b(p := NUL)))"

section \<open>Definitions: the assembly routines\<close>

text \<open>Bytes stored one after the other, and loaded one after the other.\<close>

fun store_run :: "mem \<Rightarrow> u32 \<Rightarrow> u8 list \<Rightarrow> mem" where
  "store_run m p [] = m"
| "store_run m p (x # xs) = store_run (m(p := x)) (p + 1) xs"

fun load_run :: "mem \<Rightarrow> u32 \<Rightarrow> nat \<Rightarrow> u8 list" where
  "load_run m p 0 = []"
| "load_run m p (Suc n) = m p # load_run m (p + 1) n"

definition load32 :: "mem \<Rightarrow> u32 \<Rightarrow> u32" where
  "load32 m p = le32 (m p) (m (p + 1)) (m (p + 2)) (m (p + 3))"

text \<open>\<^verbatim>\<open>.memset_top\<close>: byte stores until the pointer is 4-aligned or nothing is left.\<close>

fun memset_top :: "mem \<Rightarrow> u8 \<Rightarrow> u32 \<Rightarrow> nat \<Rightarrow> mem \<times> u32 \<times> nat" where
  "memset_top m al edi 0 = (m, edi, 0)"
| "memset_top m al edi (Suc ecx) =
     (if edi AND 3 = 0 then (m, edi, Suc ecx) else memset_top (m(edi := al)) al (edi + 1) ecx)"

text \<open>\<^verbatim>\<open>rep stosl\<close> and \<^verbatim>\<open>rep stosw\<close> with the direction flag clear.\<close>

fun rep_stosl :: "mem \<Rightarrow> u32 \<Rightarrow> u32 \<Rightarrow> nat \<Rightarrow> mem \<times> u32" where
  "rep_stosl m eax edi 0 = (m, edi)"
| "rep_stosl m eax edi (Suc ecx) = rep_stosl (put32 m edi eax) eax (edi + 4) ecx"

fun rep_stosw :: "mem \<Rightarrow> u32 \<Rightarrow> u32 \<Rightarrow> nat \<Rightarrow> mem \<times> u32" where
  "rep_stosw m eax edi 0 = (m, edi)"
| "rep_stosw m eax edi (Suc ecx) =
     rep_stosw (m(edi := byte_n 0 eax, edi + 1 := byte_n 1 eax)) eax (edi + 2) ecx"

fun memset_bottom :: "mem \<Rightarrow> u8 \<Rightarrow> u32 \<Rightarrow> nat \<Rightarrow> mem" where
  "memset_bottom m al edi 0 = m"
| "memset_bottom m al edi (Suc edx) = memset_bottom (m(edi := al)) al (edi + 1) edx"

text \<open>\<^verbatim>\<open>c &= 0xFF\<close> and the register value \<^verbatim>\<open>c << 24 | c << 16 | c << 8 | c\<close>.\<close>

definition memset_eax :: "s32 \<Rightarrow> u32" where
  "memset_eax c =
     (let c' = c AND 255 in push_bit 24 c' OR push_bit 16 c' OR push_bit 8 c' OR c')"

definition memset :: "mem \<Rightarrow> u32 \<Rightarrow> s32 \<Rightarrow> u32 \<Rightarrow> mem" where
  "memset m s c n =
     (let eax = memset_eax c;
          al = byte_n 0 eax;
          (m1, edi, ecx) = memset_top m al s (unat n)
      in if ecx = 0 then m1
         else let (m2, edi2) = rep_stosl m1 eax edi (ecx div 4)
              in memset_bottom m2 al edi2 (ecx mod 4))"

definition memset_word :: "mem \<Rightarrow> u32 \<Rightarrow> s32 \<Rightarrow> u32 \<Rightarrow> mem" where
  "memset_word m s c n = fst (rep_stosw m c s (unat n))"

definition memset_dword :: "mem \<Rightarrow> u32 \<Rightarrow> s32 \<Rightarrow> u32 \<Rightarrow> mem" where
  "memset_dword m s c n = fst (rep_stosl m c s (unat n))"

fun memcpy_top :: "mem \<Rightarrow> u32 \<Rightarrow> u32 \<Rightarrow> nat \<Rightarrow> mem \<times> u32 \<times> u32 \<times> nat" where
  "memcpy_top m esi edi 0 = (m, esi, edi, 0)"
| "memcpy_top m esi edi (Suc ecx) =
     (if edi AND 3 = 0 then (m, esi, edi, Suc ecx)
      else memcpy_top (m(edi := m esi)) (esi + 1) (edi + 1) ecx)"

text \<open>\<^verbatim>\<open>rep movsl\<close>: each step loads a doubleword before it stores it.\<close>

fun rep_movsl :: "mem \<Rightarrow> u32 \<Rightarrow> u32 \<Rightarrow> nat \<Rightarrow> mem \<times> u32 \<times> u32" where
  "rep_movsl m esi edi 0 = (m, esi, edi)"
| "rep_movsl m esi edi (Suc ecx) = rep_movsl (put32 m edi (load32 m esi)) (esi + 4) (edi + 4) ecx"

fun memcpy_bottom :: "mem \<Rightarrow> u32 \<Rightarrow> u32 \<Rightarrow> nat \<Rightarrow> mem" where
  "memcpy_bottom m esi edi 0 = m"
| "memcpy_bottom m esi edi (Suc edx) = memcpy_bottom (m(edi := m esi)) (esi + 1) (edi + 1) edx"

definition memcpy :: "mem \<Rightarrow> u32 \<Rightarrow> u32 \<Rightarrow> u32 \<Rightarrow> mem" where
  "memcpy m dest src n =
     (let (m1, esi, edi, ecx) = memcpy_top m src dest (unat n)
      in if ecx = 0 then m1
         else let (m2, esi2, edi2) = rep_movsl m1 esi edi (ecx div 4)
              in memcpy_bottom m2 esi2 edi2 (ecx mod 4))"

text \<open>\<^verbatim>\<open>rep movsb\<close> with the direction flag clear (upwards) and set (downwards).\<close>

fun rep_movsb_up :: "mem \<Rightarrow> u32 \<Rightarrow> u32 \<Rightarrow> nat \<Rightarrow> mem" where
  "rep_movsb_up m esi edi 0 = m"
| "rep_movsb_up m esi edi (Suc ecx) = rep_movsb_up (m(edi := m esi)) (esi + 1) (edi + 1) ecx"

fun rep_movsb_down :: "mem \<Rightarrow> u32 \<Rightarrow> u32 \<Rightarrow> nat \<Rightarrow> mem" where
  "rep_movsb_down m esi edi 0 = m"
| "rep_movsb_down m esi edi (Suc ecx) = rep_movsb_down (m(edi := m esi)) (esi - 1) (edi - 1) ecx"

text \<open>The result, and the direction flag the routine leaves behind.\<close>

definition memmove :: "mem \<Rightarrow> u32 \<Rightarrow> u32 \<Rightarrow> u32 \<Rightarrow> mem \<times> bool" where
  "memmove m dest src n =
     (if dest \<le> src then (rep_movsb_up m src dest (unat n), False)
      else (rep_movsb_down m (src + n - 1) (dest + n - 1) (unat n), True))"

section \<open>Strings\<close>

lemma strlen_from_cstring:
  assumes "is_cstring s n" "i \<le> n"
  shows "strlen_from s i = Some n"
  using assms(2)
proof (induction rule: inc_induct)
  case base
  then show ?case using assms(1) by (subst strlen_from.simps) (simp add: is_cstring_def)
next
  case (step i)
  then show ?case using assms(1) by (subst strlen_from.simps) (auto simp: is_cstring_def)
qed

lemma strlen_cstring: "is_cstring s n \<Longrightarrow> strlen s = Some n"
  by (simp add: strlen_def strlen_from_cstring)

lemma sint_u8_eq_iff: "sint (a :: u8) = sint b \<longleftrightarrow> a = b"
  using signed_word_eqI by fastforce

lemma strncmp_from_0_iff:
  "strncmp_from s1 s2 i k = 0 \<longleftrightarrow>
     (\<forall>j<k. (\<forall>l<j. s1 (i + l) \<noteq> NUL) \<longrightarrow> s1 (i + j) = s2 (i + j))"
  by (induction k arbitrary: i) (auto simp: All_less_Suc2 sint_u8_eq_iff)

lemma strncmp_0_iff:
  "strncmp s1 s2 n = 0 \<longleftrightarrow> (\<forall>j<n. (\<forall>l<j. s1 l \<noteq> NUL) \<longrightarrow> s1 j = s2 j)"
  by (simp add: strncmp_def strncmp_from_0_iff)

lemma strncmp_nonul_0_iff:
  "(\<And>j. j < n \<Longrightarrow> s1 j \<noteq> NUL) \<Longrightarrow> strncmp s1 s2 n = 0 \<longleftrightarrow> run_of s1 0 n = run_of s2 0 n"
  by (auto simp: strncmp_0_iff list_eq_iff_nth_eq)

lemma strcpy_from_cstring:
  assumes "is_cstring src n" "i \<le> n"
  shows "strcpy_from dest src i =
    Some (\<lambda>j. if i \<le> j \<and> j < n then src j else if j = n then NUL else dest j)"
  using assms(2)
proof (induction arbitrary: dest rule: inc_induct)
  case base
  then show ?case using assms(1)
    by (subst strcpy_from.simps) (auto simp: is_cstring_def fun_eq_iff)
next
  case (step i)
  have "src i \<noteq> NUL" using assms(1) step.hyps by (auto simp: is_cstring_def)
  then show ?case
    using step.hyps by (subst strcpy_from.simps) (auto simp: step.IH fun_eq_iff)
qed

lemma strncpy_copy_eq:
  "strncpy_copy dest src i k =
     (let e = scan (\<lambda>j. src j \<noteq> NUL) i k
      in (e, \<lambda>j. if i \<le> j \<and> j < e then src j else dest j))"
proof (induction k arbitrary: dest i)
  case (Suc k)
  show ?case
    using scan_bounds(1) [of "Suc i" "\<lambda>j. src j \<noteq> NUL" k]
    by (auto simp: Suc.IH Let_def fun_eq_iff)
qed (auto simp: fun_eq_iff)

lemma strncpy_eq:
  "strncpy dest src n =
     (\<lambda>i. if i < n then (if i < scan (\<lambda>j. src j \<noteq> NUL) 0 n then src i else NUL) else dest i)"
  using scan_bounds(2) [of "\<lambda>j. src j \<noteq> NUL" 0 n]
  by (auto simp: strncpy_def strncpy_copy_eq Let_def fill_run_eq fun_eq_iff)

declare strrev_loop.simps [simp del]

lemma strrev_loop_eq:
  "\<lbrakk>0 \<le> b\<rbrakk> \<Longrightarrow> strrev_loop s b e =
     (\<lambda>i. if b \<le> int i \<and> int i \<le> e then s (nat (b + e - int i)) else s i)"
proof (induction s b e rule: strrev_loop.induct)
  case (1 s b e)
  show ?case
  proof (cases "b < e")
    case True
    have "strrev_loop s b e = strrev_loop (s(nat e := s (nat b), nat b := s (nat e))) (b + 1) (e - 1)"
      using True by (subst strrev_loop.simps) simp
    also have "\<dots> = (\<lambda>i. if b \<le> int i \<and> int i \<le> e then s (nat (b + e - int i)) else s i)"
      by (subst "1.IH" [OF True]) (use True "1.prems" in \<open>auto simp: fun_eq_iff nat_eq_iff\<close>)
    finally show ?thesis .
  next
    case False
    then have "strrev_loop s b e = s" by (subst strrev_loop.simps) simp
    moreover have "nat (b + e - int i) = i" if "b \<le> int i" "int i \<le> e" for i
      using False that by simp
    ultimately show ?thesis by (auto simp: fun_eq_iff)
  qed
qed

lemma strrev_cstring:
  assumes "is_cstring s n"
  shows "strrev s = Some (\<lambda>i. if i < n then s (n - 1 - i) else s i)"
proof -
  have "strrev_loop s 0 (int n - 1) = (\<lambda>i. if i < n then s (n - 1 - i) else s i)"
    by (auto simp: strrev_loop_eq fun_eq_iff nat_diff_distrib intro!: arg_cong [of _ _ s])
  then show ?thesis by (simp add: strrev_def strlen_cstring [OF assms])
qed

section \<open>itoa\<close>

text \<open>What a digit string denotes in a radix: the reader that \<^verbatim>\<open>itoa\<close> has to agree with.\<close>

definition digit_val :: "u8 \<Rightarrow> nat" where
  "digit_val c = (if c < 58 then unat c - 48 else unat c - 55)"

definition read_radix :: "nat \<Rightarrow> u8 list \<Rightarrow> nat" where
  "read_radix r ds = foldl (\<lambda>a c. a * r + digit_val c) 0 ds"

lemma digit_val_lookup: "d < 36 \<Longrightarrow> digit_val (lookup_digits ! d) = d"
proof -
  have "\<forall>d\<in>set [0..<36]. digit_val (lookup_digits ! d) = d"
    by (simp add: upt_rec digit_val_def lookup_digits_def byte_of_char_def of_char_def)
  then show "d < 36 \<Longrightarrow> ?thesis" by simp
qed

lemma lookup_digits_nonzero: "d < 36 \<Longrightarrow> lookup_digits ! d \<noteq> NUL"
proof -
  have "\<forall>d\<in>set [0..<36]. lookup_digits ! d \<noteq> NUL"
    by (simp add: upt_rec lookup_digits_def byte_of_char_def of_char_def)
  then show "d < 36 \<Longrightarrow> ?thesis" by simp
qed

text \<open>The digits the loop writes, least significant first.\<close>

fun radix_digits :: "nat \<Rightarrow> nat \<Rightarrow> u8 list" where
  "radix_digits r v = (if v = 0 \<or> r < 2 then [] else lookup_digits ! (v mod r) # radix_digits r (v div r))"

declare radix_digits.simps [simp del]

lemma itoa_loop_eq:
  assumes "2 \<le> r"
  shows "itoa_loop r v buf p =
    Some (p + length (radix_digits r v),
          \<lambda>i. if p \<le> i \<and> i < p + length (radix_digits r v) then radix_digits r v ! (i - p) else buf i)"
proof (induction v arbitrary: buf p rule: less_induct)
  case (less v)
  show ?case
  proof (cases "v = 0")
    case True
    then show ?thesis by (subst itoa_loop.simps) (auto simp: radix_digits.simps fun_eq_iff)
  next
    case False
    then have lt: "v div r < v" using assms by simp
    have ds: "radix_digits r v = lookup_digits ! (v mod r) # radix_digits r (v div r)"
      using False assms by (subst radix_digits.simps) simp
    show ?thesis
      using False by (subst itoa_loop.simps)
        (auto simp: less.IH [OF lt] ds fun_eq_iff nth_Cons' Suc_diff_le)
  qed
qed

lemma radix_digits_props:
  assumes "2 \<le> r" "r \<le> 36"
  shows "read_radix r (rev (radix_digits r v)) = v \<and> NUL \<notin> set (radix_digits r v)"
proof (induction v rule: less_induct)
  case (less v)
  show ?case
  proof (cases "v = 0")
    case True
    then show ?thesis by (simp add: radix_digits.simps read_radix_def)
  next
    case False
    then have lt: "v div r < v" using assms by simp
    have m: "v mod r < 36" using assms mod_less_divisor [of r v] by linarith
    have ds: "radix_digits r v = lookup_digits ! (v mod r) # radix_digits r (v div r)"
      using False assms by (subst radix_digits.simps) simp
    show ?thesis
      using less.IH [OF lt] lookup_digits_nonzero [OF m] digit_val_lookup [OF m]
      by (auto simp: ds read_radix_def)
  qed
qed

lemma is_cstring_list:
  assumes "NUL \<notin> set xs" "\<And>i. i < length xs \<Longrightarrow> b i = xs ! i" "b (length xs) = NUL"
  shows "is_cstring b (length xs)"
  using assms unfolding is_cstring_def by (auto simp: in_set_conv_nth)

text \<open>The digit string \<^verbatim>\<open>itoa\<close> leaves in its buffer.\<close>

definition itoa_digits :: "nat \<Rightarrow> u32 \<Rightarrow> u8 list" where
  "itoa_digits r v = (if v = 0 then [48] else rev (radix_digits r (unat v)))"

lemma itoa_digits_props:
  assumes "2 \<le> r" "r \<le> 36"
  shows "NUL \<notin> set (itoa_digits r v)" "read_radix r (itoa_digits r v) = unat v"
  using radix_digits_props [OF assms, of "unat v"]
  by (auto simp: itoa_digits_def) (simp add: read_radix_def digit_val_def)

lemma itoa_writes:
  assumes "2 \<le> r" "r \<le> 36"
  shows "\<exists>b. itoa v buf r = Some b \<and> is_cstring b (length (itoa_digits r v)) \<and>
             run_of b 0 (length (itoa_digits r v)) = itoa_digits r v"
proof (cases "v = 0")
  case True
  have "is_cstring (buf(0 := 48, 1 := NUL)) 1" by (simp add: is_cstring_def)
  moreover have "run_of (buf(0 := 48, 1 := NUL)) 0 1 = [48]"
    by (simp add: run_of_def)
  ultimately show ?thesis
    using True by (auto simp: itoa_def itoa_digits_def byte_of_char_def of_char_def)
next
  case False
  let ?ds = "radix_digits r (unat v)"
  let ?b = "(\<lambda>i. if i < length ?ds then ?ds ! i else buf i)(length ?ds := NUL)"
  have c: "is_cstring ?b (length ?ds)"
    by (rule is_cstring_list) (use radix_digits_props [OF assms] in auto)
  have it: "itoa v buf r = Some (\<lambda>i. if i < length ?ds then ?b (length ?ds - 1 - i) else ?b i)"
    using False strrev_cstring [OF c]
    by (simp add: itoa_def itoa_loop_eq [OF assms(1)] cong: if_cong)
  have r: "run_of (\<lambda>i. if i < length ?ds then ?b (length ?ds - 1 - i) else ?b i) 0 (length ?ds) = rev ?ds"
    by (rule nth_equalityI) (auto simp: rev_nth)
  have "is_cstring (\<lambda>i. if i < length ?ds then ?b (length ?ds - 1 - i) else ?b i) (length (rev ?ds))"
    by (rule is_cstring_list) (use radix_digits_props [OF assms] in \<open>auto simp: rev_nth\<close>)
  then show ?thesis using it r False by (auto simp: itoa_digits_def)
qed

lemma radix_digits_length: "v < r ^ n \<Longrightarrow> length (radix_digits r v) \<le> n"
proof (induction n arbitrary: v)
  case 0
  then show ?case by (subst radix_digits.simps) simp
next
  case (Suc n)
  have "v div r < r ^ n" if "2 \<le> r"
    using Suc.prems that by (simp add: div_less_iff_less_mult mult.commute)
  then show ?case using Suc.IH [of "v div r"] by (subst radix_digits.simps) auto
qed

section \<open>The assembly routines\<close>

lemma store_run_append:
  "store_run m p (xs @ ys) = store_run (store_run m p xs) (p + of_nat (length xs)) ys"
  by (induction xs arbitrary: m p) (auto simp: algebra_simps)

lemma load_run_append:
  "load_run m p (a + b) = load_run m p a @ load_run m (p + of_nat a) b"
  by (induction m p a rule: load_run.induct) (auto simp: algebra_simps)

lemma length_load_run [simp]: "length (load_run m p n) = n"
  by (induction m p n rule: load_run.induct) auto

lemma nth_load_run: "i < n \<Longrightarrow> load_run m p n ! i = m (p + of_nat i)"
proof (induction m p n arbitrary: i rule: load_run.induct)
  case (2 m p n)
  then show ?case by (cases i) (auto simp: algebra_simps)
qed simp

lemma store_run_apply:
  "length xs \<le> 2 ^ 32 \<Longrightarrow>
   store_run m p xs a = (if unat (a - p) < length xs then xs ! unat (a - p) else m a)"
proof (induction xs arbitrary: m p)
  case (Cons x xs)
  show ?case
  proof (cases "a = p")
    case True
    moreover have "unat (- 1 :: u32) = 2 ^ 32 - 1"
      by (simp add: unsigned_minus_1_eq_mask mask_eq_exp_minus_1)
    ultimately show ?thesis
      unfolding store_run.simps using Cons.prems by (subst Cons.IH) auto
  next
    case False
    have "a - p \<noteq> 0" using False by simp
    then have "unat (a - p) = Suc (unat (a - p - 1))"
      by (metis Suc_pred' unat_gt_0 unat_minus_one)
    then show ?thesis using Cons.prems False by (simp add: Cons.IH algebra_simps)
  qed
qed simp

lemma store4:
  "put32 m p w = store_run m p [byte_n 0 w, byte_n 1 w, byte_n 2 w, byte_n 3 w]"
  by (simp add: put32_def fun_upd_twist algebra_simps)

lemma memset_top_eq:
  "\<exists>k\<le>n. memset_top m al edi n = (store_run m edi (replicate k al), edi + of_nat k, n - k)"
proof (induction n arbitrary: m edi)
  case (Suc n)
  show ?case
  proof (cases "edi AND 3 = 0")
    case True
    then show ?thesis by (intro exI [of _ 0]) simp
  next
    case False
    obtain k where "k \<le> n" "memset_top (m(edi := al)) al (edi + 1) n =
        (store_run (m(edi := al)) (edi + 1) (replicate k al), edi + 1 + of_nat k, n - k)"
      using Suc by blast
    then show ?thesis
      using False by (intro exI [of _ "Suc k"]) (simp add: algebra_simps)
  qed
qed simp

lemma rep_stosl_byte:
  assumes "byte_n 0 eax = al" "byte_n 1 eax = al" "byte_n 2 eax = al" "byte_n 3 eax = al"
  shows "rep_stosl m eax edi n = (store_run m edi (replicate (4 * n) al), edi + of_nat (4 * n))"
proof (induction n arbitrary: m edi)
  case (Suc n)
  have "replicate (4 * Suc n) al = [al, al, al, al] @ replicate (4 * n) al"
    by (simp add: numeral_eq_Suc)
  then have "store_run m edi (replicate (4 * Suc n) al) =
      store_run (put32 m edi eax) (edi + 4) (replicate (4 * n) al)"
    by (simp only: store4 assms store_run_append) simp
  then show ?case by (simp add: Suc)
qed simp

lemma memset_bottom_eq: "memset_bottom m al edi n = store_run m edi (replicate n al)"
  by (induction n arbitrary: m edi) auto

lemma byte_n_memset_eax:
  assumes "k < 4"
  shows "byte_n k (memset_eax c) = ucast c"
proof (rule bit_word_eqI)
  fix n assume n: "n < LENGTH(8)"
  have "k = 0 \<or> k = 1 \<or> k = 2 \<or> k = 3" using assms by auto
  then show "bit (byte_n k (memset_eax c)) n = bit (ucast c :: u8) n"
    using n by (elim disjE) (auto simp: byte_n_def memset_eax_def Let_def bit_simps bit_255)
qed

lemma memset_store_run: "memset m s c n = store_run m s (replicate (unat n) (ucast c))"
proof -
  let ?al = "ucast c :: u8"
  have b: "byte_n 0 (memset_eax c) = ?al" "byte_n 1 (memset_eax c) = ?al"
    "byte_n 2 (memset_eax c) = ?al" "byte_n 3 (memset_eax c) = ?al"
    by (rule byte_n_memset_eax, simp)+
  obtain k where k: "k \<le> unat n"
    and t: "memset_top m ?al s (unat n) = (store_run m s (replicate k ?al), s + of_nat k, unat n - k)"
    using memset_top_eq by blast
  let ?r = "unat n - k"
  have "unat n = k + (4 * (?r div 4) + ?r mod 4)" using k by simp
  then have "replicate (unat n) ?al =
      replicate k ?al @ replicate (4 * (?r div 4)) ?al @ replicate (?r mod 4) ?al"
    by (metis replicate_add)
  then have "store_run m s (replicate (unat n) ?al) =
      store_run (store_run (store_run m s (replicate k ?al)) (s + of_nat k) (replicate (4 * (?r div 4)) ?al))
        (s + of_nat k + of_nat (4 * (?r div 4))) (replicate (?r mod 4) ?al)"
    by (simp only: store_run_append length_replicate)
  then show ?thesis
    using t by (simp add: memset_def Let_def b(1) rep_stosl_byte [OF b] memset_bottom_eq)
qed

text \<open>
  A forward copy is right as long as no store hits a byte of the source that is still to
  be read; this covers disjoint regions and a destination below the source.
\<close>

definition fwd_safe :: "u32 \<Rightarrow> u32 \<Rightarrow> nat \<Rightarrow> bool" where
  "fwd_safe dest src n \<longleftrightarrow> (\<forall>j<n. \<forall>i<j. dest + of_nat i \<noteq> src + of_nat j)"

lemma load_run_store_run:
  assumes "\<And>i j. i < length xs \<Longrightarrow> j < n \<Longrightarrow> p + of_nat i \<noteq> q + of_nat j" "length xs \<le> 2 ^ 32"
  shows "load_run (store_run m p xs) q n = load_run m q n"
proof (rule nth_equalityI)
  fix j assume "j < length (load_run (store_run m p xs) q n)"
  then have j: "j < n" by simp
  have "\<not> unat (q + of_nat j - p) < length xs"
    using assms(1) [of "unat (q + of_nat j - p)" j] j by auto
  then show "load_run (store_run m p xs) q n ! j = load_run m q n ! j"
    using j assms(2) by (simp add: nth_load_run store_run_apply)
qed simp

lemma fwd_safe_split:
  assumes "fwd_safe dest src (a + b)" "a + b \<le> 2 ^ 32"
  shows "store_run m dest (load_run m src (a + b)) =
    (let m' = store_run m dest (load_run m src a)
     in store_run m' (dest + of_nat a) (load_run m' (src + of_nat a) b))"
    and "fwd_safe dest src a" and "fwd_safe (dest + of_nat a) (src + of_nat a) b"
proof -
  have "load_run (store_run m dest (load_run m src a)) (src + of_nat a) b = load_run m (src + of_nat a) b"
    using assms by (intro load_run_store_run) (auto simp: fwd_safe_def add.assoc simp flip: of_nat_add)
  then show "store_run m dest (load_run m src (a + b)) =
    (let m' = store_run m dest (load_run m src a)
     in store_run m' (dest + of_nat a) (load_run m' (src + of_nat a) b))"
    by (simp add: load_run_append store_run_append Let_def)
  show "fwd_safe dest src a" using assms(1) by (auto simp: fwd_safe_def)
  show "fwd_safe (dest + of_nat a) (src + of_nat a) b"
    using assms(1) by (auto simp: fwd_safe_def add.assoc simp flip: of_nat_add)
qed

lemma rep_movsb_up_eq:
  "fwd_safe dest src n \<Longrightarrow> n \<le> 2 ^ 32 \<Longrightarrow>
   rep_movsb_up m src dest n = store_run m dest (load_run m src n)"
proof (induction n arbitrary: m src dest)
  case (Suc n)
  have s: "fwd_safe dest src (1 + n)" using Suc.prems by simp
  note sp = fwd_safe_split [OF s]
  have "rep_movsb_up (m(dest := m src)) (src + 1) (dest + 1) n =
      store_run (m(dest := m src)) (dest + 1) (load_run (m(dest := m src)) (src + 1) n)"
    by (rule Suc.IH) (use Suc.prems sp(3) in auto)
  then show ?case using Suc.prems sp(1) [of m] by (simp add: Let_def)
qed simp

lemma memcpy_bottom_up: "memcpy_bottom m src dest n = rep_movsb_up m src dest n"
  by (induction n arbitrary: m src dest) auto

lemma put32_load32: "put32 m edi (load32 m esi) = store_run m edi (load_run m esi 4)"
proof -
  have "load_run m esi 4 = [m esi, m (esi + 1), m (esi + 2), m (esi + 3)]"
    by (simp add: numeral_eq_Suc algebra_simps)
  then show ?thesis by (simp only: store4 load32_def byte_n_le32)
qed

lemma rep_movsl_eq:
  "fwd_safe dest src (4 * n) \<Longrightarrow> 4 * n \<le> 2 ^ 32 \<Longrightarrow>
   rep_movsl m src dest n =
     (store_run m dest (load_run m src (4 * n)), src + of_nat (4 * n), dest + of_nat (4 * n))"
proof (induction n arbitrary: m src dest)
  case (Suc n)
  have s: "fwd_safe dest src (4 + 4 * n)" using Suc.prems by simp
  note sp = fwd_safe_split [OF s]
  show ?case
    using Suc.prems sp(1) [of m] sp(3) Suc.IH [of "dest + 4" "src + 4" "store_run m dest (load_run m src 4)"]
    by (simp add: Let_def put32_load32 algebra_simps)
qed simp

lemma memcpy_top_eq:
  assumes "fwd_safe dest src n" "n \<le> 2 ^ 32"
  shows "\<exists>k\<le>n. memcpy_top m src dest n =
    (store_run m dest (load_run m src k), src + of_nat k, dest + of_nat k, n - k)"
  using assms
proof (induction n arbitrary: m src dest)
  case (Suc n)
  show ?case
  proof (cases "dest AND 3 = 0")
    case True
    then show ?thesis by (intro exI [of _ 0]) simp
  next
    case False
    have s: "fwd_safe dest src (1 + n)" using Suc.prems by simp
    note sp = fwd_safe_split [OF s]
    obtain k where k: "k \<le> n" "memcpy_top (m(dest := m src)) (src + 1) (dest + 1) n =
        (store_run (m(dest := m src)) (dest + 1) (load_run (m(dest := m src)) (src + 1) k),
         src + 1 + of_nat k, dest + 1 + of_nat k, n - k)"
      using Suc.IH [OF _ , of "dest + 1" "src + 1"] sp(3) Suc.prems by (auto dest: Suc_leD)
    have s': "fwd_safe dest src (1 + k)"
      using Suc.prems(1) k(1) by (auto simp: fwd_safe_def)
    show ?thesis
      using k False fwd_safe_split(1) [OF s', of m] Suc.prems(2)
      by (intro exI [of _ "Suc k"]) (simp add: Let_def algebra_simps)
  qed
qed simp

lemma memcpy_store_run:
  assumes "fwd_safe dest src (unat n)"
  shows "memcpy m dest src n = store_run m dest (load_run m src (unat n))"
proof -
  have n: "unat n \<le> 2 ^ 32" using unat_u32_less [of n] by simp
  obtain k where k: "k \<le> unat n" and t: "memcpy_top m src dest (unat n) =
      (store_run m dest (load_run m src k), src + of_nat k, dest + of_nat k, unat n - k)"
    using memcpy_top_eq [OF assms n] by blast
  let ?r = "unat n - k"
  have e: "unat n = k + (4 * (?r div 4) + ?r mod 4)" using k by simp
  have s1: "fwd_safe dest src (k + (4 * (?r div 4) + ?r mod 4))" using assms e by metis
  note sp = fwd_safe_split [OF s1]
  note sq = fwd_safe_split [OF sp(3)]
  show ?thesis
    using n k t sp(1) [of m] sq rep_movsl_eq [OF sq(2)] rep_movsb_up_eq [OF sq(3)]
    by (simp add: memcpy_def Let_def memcpy_bottom_up)
qed

lemma rep_movsb_down_apply:
  assumes "\<And>i j. i < j \<Longrightarrow> j < n \<Longrightarrow> src + of_nat i \<noteq> dest + of_nat j" "n \<le> 2 ^ 32"
  shows "rep_movsb_down m (src + of_nat n - 1) (dest + of_nat n - 1) n =
    (\<lambda>a. if unat (a - dest) < n then m (src + (a - dest)) else m a)"
  using assms
proof (induction n arbitrary: m)
  case (Suc n)
  let ?m = "m(dest + of_nat n := m (src + of_nat n))"
  have "rep_movsb_down ?m (src + of_nat n - 1) (dest + of_nat n - 1) n =
      (\<lambda>a. if unat (a - dest) < n then ?m (src + (a - dest)) else ?m a)"
    using Suc.prems by (intro Suc.IH) auto
  moreover have "src + (a - dest) \<noteq> dest + of_nat n" if "unat (a - dest) < n" for a
    using Suc.prems(1) [of "unat (a - dest)" n] that by simp
  moreover have "a = dest + of_nat n" if "unat (a - dest) = n" for a
    using that by auto
  moreover have "unat (of_nat n :: u32) = n" using Suc.prems(2) by (simp add: unat_of_nat)
  ultimately show ?case
    by (auto simp: fun_eq_iff less_Suc_eq)
qed simp

text \<open>Regions that do not wrap around the address space: \<open>dest\<close> at or below \<open>src\<close> is forward safe.\<close>

lemma of_nat_offset_eq:
  fixes p q :: u32
  assumes "unat p + n \<le> 2 ^ 32" "unat q + n \<le> 2 ^ 32" "i < n" "j < n"
  shows "p + of_nat i = q + of_nat j \<longleftrightarrow> unat p + i = unat q + j"
proof -
  have "unat (p + of_nat i) = unat p + i" "unat (q + of_nat j) = unat q + j"
    using assms by (simp_all add: unat_word_ariths unat_of_nat)
  then show ?thesis by (metis word_unat_eq_iff)
qed

lemma fwd_safe_below:
  assumes "unat dest + n \<le> 2 ^ 32" "unat src + n \<le> 2 ^ 32"
    and "dest \<le> src \<or> unat src + n \<le> unat dest"
  shows "fwd_safe dest src n"
proof -
  have "dest + of_nat i \<noteq> src + of_nat j" if "i < j" "j < n" for i j
    using of_nat_offset_eq [OF assms(1,2), of i j] that assms(3) by (auto simp: word_le_nat_alt)
  then show ?thesis by (simp add: fwd_safe_def)
qed

lemma store_load_apply:
  "n \<le> 2 ^ 32 \<Longrightarrow> store_run m dest (load_run m src n) a =
     (if unat (a - dest) < n then m (src + (a - dest)) else m a)"
  by (simp add: store_run_apply nth_load_run)

lemma memcpy_apply:
  assumes "unat dest + unat n \<le> 2 ^ 32" "unat src + unat n \<le> 2 ^ 32"
    and "dest \<le> src \<or> unat src + unat n \<le> unat dest"
  shows "memcpy m dest src n a = (if unat (a - dest) < unat n then m (src + (a - dest)) else m a)"
  using unat_u32_less [of n]
  by (simp add: memcpy_store_run [OF fwd_safe_below [OF assms]] store_load_apply)

lemma nul_is_cstring: "b m = NUL \<Longrightarrow> \<exists>n\<le>m. is_cstring b n"
proof -
  assume m: "b m = NUL"
  let ?n = "LEAST n. b n = NUL"
  have "b ?n = NUL" using m by (rule LeastI)
  moreover have "?n \<le> m" using m by (rule Least_le)
  moreover have "\<forall>i\<in>{0..<?n}. b i \<noteq> NUL"
  proof
    fix i assume "i \<in> {0..<?n}"
    then have "i < ?n" by simp
    then show "b i \<noteq> NUL" by (rule not_less_Least)
  qed
  ultimately show ?thesis unfolding is_cstring_def by blast
qed

lemma strcpy_cstring:
  "is_cstring src n \<Longrightarrow> strcpy dest src = Some (\<lambda>j. if j < n then src j else if j = n then NUL else dest j)"
  using strcpy_from_cstring [of src n 0 dest] by (simp add: strcpy_def)

section \<open>Properties\<close>

text \<open>
  \<^verbatim>\<open>memset\<close>, which aligns the pointer bytewise, stores doublewords and finishes
  bytewise, is the plain fill: exactly the \<open>n\<close> bytes from \<open>s\<close> hold the low byte of \<open>c\<close>,
  every other byte of the address space is untouched.
\<close>

theorem memset_correct:
  "memset m s c n a = (if unat (a - s) < unat n then ucast c else m a)"
  using unat_u32_less [of n] by (simp add: memset_store_run store_run_apply)

text \<open>
  \<^verbatim>\<open>memcpy\<close> (bytes to alignment, doublewords, tail bytes) copies the \<open>n\<close> source bytes
  and changes nothing else, for regions that do not wrap and of which the destination does
  not start inside the source.
\<close>

theorem memcpy_correct:
  assumes "unat dest + unat n \<le> 2 ^ 32" "unat src + unat n \<le> 2 ^ 32"
    and "dest \<le> src \<or> unat src + unat n \<le> unat dest"
  shows "memcpy m dest src n a = (if unat (a - dest) < unat n then m (src + (a - dest)) else m a)"
  using memcpy_apply [OF assms] .

theorem memcpy_correct_witness:
  "memcpy (\<lambda>a. if a = 103 then 9 else 0) 201 100 7 204 = 9"
  using memcpy_correct [of 201 7 100 "\<lambda>a. if a = 103 then 9 else 0" 204] by simp

text \<open>
  \<^verbatim>\<open>memmove\<close> copies correctly whether or not the regions overlap: upwards when the
  destination is at or below the source, downwards otherwise.
\<close>

theorem memmove_correct:
  assumes "unat dest + unat n \<le> 2 ^ 32" "unat src + unat n \<le> 2 ^ 32"
  shows "fst (memmove m dest src n) a = (if unat (a - dest) < unat n then m (src + (a - dest)) else m a)"
proof (cases "dest \<le> src")
  case True
  have "fwd_safe dest src (unat n)" using True by (intro fwd_safe_below assms) simp
  then show ?thesis
    using True unat_u32_less [of n] by (simp add: memmove_def rep_movsb_up_eq store_load_apply)
next
  case False
  have "src + of_nat i \<noteq> dest + of_nat j" if "i < j" "j < unat n" for i j
    using of_nat_offset_eq [OF assms(2,1), of i j] that False by (auto simp: word_le_nat_alt)
  then have "rep_movsb_down m (src + of_nat (unat n) - 1) (dest + of_nat (unat n) - 1) (unat n) a =
      (if unat (a - dest) < unat n then m (src + (a - dest)) else m a)"
    using rep_movsb_down_apply [of "unat n" src dest m] unat_u32_less [of n] by simp
  then show ?thesis using False by (simp add: memmove_def)
qed

theorem memmove_correct_witness:
  "fst (memmove (\<lambda>a. if a = 11 then 7 else 0) 11 10 3) 12 = 7"
  using memmove_correct [of 11 3 10 "\<lambda>a. if a = 11 then 7 else 0" 12] by simp

text \<open>
  C31. \<^verbatim>\<open>itoa\<close> always returns for a radix between 2 and 36, and the digits it writes denote
  the value it was given.
\<close>

theorem itoa_roundtrip:
  assumes "2 \<le> radix" "radix \<le> 36"
  shows "\<exists>b n. itoa v buf radix = Some b \<and> is_cstring b n \<and> read_radix radix (run_of b 0 n) = unat v"
  using itoa_writes [OF assms, of v buf] itoa_digits_props [OF assms, of v] by metis

theorem itoa_roundtrip_witness:
  "\<exists>b n. itoa 2017 (\<lambda>_. 0) 16 = Some b \<and> is_cstring b n \<and> read_radix 16 (run_of b 0 n) = 2017"
  using itoa_roundtrip [of 16 2017 "\<lambda>_. 0"] by simp

end
