(* ===== verification/Console.thy ===== *)
theory Console
  imports LibString
begin

text \<open>
  The text console of \<^verbatim>\<open>student-distrib/lib.c\<close>: \<^verbatim>\<open>clear\<close>, \<^verbatim>\<open>putc\<close>, \<^verbatim>\<open>scroll\<close>, \<^verbatim>\<open>puts\<close>,
  \<^verbatim>\<open>backspace\<close>, \<^verbatim>\<open>update_cursor\<close>, \<^verbatim>\<open>test_interrupts\<close> and \<^verbatim>\<open>show_blue_screen\<close>. Video memory is
  a function of the byte offset from \<^verbatim>\<open>VIDEO\<close> (an \<^verbatim>\<open>int\<close>, as the C index expressions are),
  so nothing in the model keeps a write on the screen; that it stays there is proved.
  The argument \<open>t\<close> of an operation is the value of the global \<^verbatim>\<open>curr_terminal\<close>.
\<close>

unbundle bit_operations_syntax

section \<open>State\<close>

definition NUM_COLS :: int where "NUM_COLS = 80"
definition NUM_ROWS :: int where "NUM_ROWS = 25"
definition ATTRIB :: u8 where "ATTRIB = 7"
definition BLUE :: u8 where "BLUE = 0x16"
definition MAX_TERMINAL :: nat where "MAX_TERMINAL = 3"

lemmas con_consts = NUM_COLS_def NUM_ROWS_def MAX_TERMINAL_def

text \<open>\<open>vga_out\<close> is the sequence of (port, byte) writes to the VGA controller, oldest first.\<close>

record console =
  video_mem :: "int \<Rightarrow> u8"
  screen_x :: "nat \<Rightarrow> int"
  screen_y :: "nat \<Rightarrow> int"
  vga_out :: "(u16 \<times> u8) list"

section \<open>Operations\<close>

definition update_cursor :: "nat \<Rightarrow> console \<Rightarrow> console" where
  "update_cursor t s =
     (let position = (of_int (screen_y s t * NUM_COLS + screen_x s t) :: u16)
      in s\<lparr>vga_out := vga_out s @
             [(0x3D4, 0x0F), (0x3D5, ucast (position AND 0xFF)),
              (0x3D4, 0x0E), (0x3D5, ucast (drop_bit 8 position AND 0xFF))]\<rparr>)"

text \<open>The two stores of a character cell: the character and its attribute.\<close>

definition put_cell :: "(int \<Rightarrow> u8) \<Rightarrow> int \<Rightarrow> u8 \<Rightarrow> (int \<Rightarrow> u8)" where
  "put_cell v p c = v(2 * p := c, 2 * p + 1 := ATTRIB)"

fun clear_loop :: "(int \<Rightarrow> u8) \<Rightarrow> int \<Rightarrow> nat \<Rightarrow> (int \<Rightarrow> u8)" where
  "clear_loop v i 0 = v"
| "clear_loop v i (Suc k) = clear_loop (put_cell v i SPACE) (i + 1) k"

definition clear :: "nat \<Rightarrow> console \<Rightarrow> console" where
  "clear t s =
     update_cursor t
       (s\<lparr>video_mem := clear_loop (video_mem s) 0 (nat (NUM_ROWS * NUM_COLS)),
          screen_x := (screen_x s)(t := 0), screen_y := (screen_y s)(t := 0)\<rparr>)"

text \<open>The inner loop of \<^verbatim>\<open>scroll\<close> (rows \<open>j\<close> of column \<open>i\<close>) and the outer one (columns).\<close>

fun scroll_rows :: "(int \<Rightarrow> u8) \<Rightarrow> int \<Rightarrow> int \<Rightarrow> nat \<Rightarrow> (int \<Rightarrow> u8)" where
  "scroll_rows v i j 0 = v"
| "scroll_rows v i j (Suc k) =
     (let v1 = v(2 * (NUM_COLS * j + i) := v (2 * (NUM_COLS * (j + 1) + i)));
          v2 = v1(2 * (NUM_COLS * j + i) + 1 := v1 (2 * (NUM_COLS * (j + 1) + i) + 1))
      in scroll_rows v2 i (j + 1) k)"

fun scroll_cols :: "(int \<Rightarrow> u8) \<Rightarrow> int \<Rightarrow> nat \<Rightarrow> (int \<Rightarrow> u8)" where
  "scroll_cols v i 0 = v"
| "scroll_cols v i (Suc k) = scroll_cols (scroll_rows v i 0 (nat (NUM_ROWS - 1))) (i + 1) k"

definition scroll_up :: "nat \<Rightarrow> console \<Rightarrow> console" where
  "scroll_up t s =
     update_cursor t
       (s\<lparr>video_mem := clear_loop (scroll_cols (video_mem s) 0 (nat NUM_COLS))
                        (NUM_COLS * (NUM_ROWS - 1)) (nat NUM_COLS),
          screen_x := (screen_x s)(t := 0)\<rparr>)"

text \<open>
  \<^verbatim>\<open>putc\<close> and \<^verbatim>\<open>scroll\<close> call each other: \<^verbatim>\<open>putc\<close> scrolls when the row passes the last one,
  \<^verbatim>\<open>scroll\<close> prints a newline when the row is not yet the last one. Neither call recurs.
\<close>

function putc :: "u8 \<Rightarrow> nat \<Rightarrow> console \<Rightarrow> console"
  and scroll :: "nat \<Rightarrow> console \<Rightarrow> console" where
  "putc c t s =
     (if c = 10 \<or> c = 13 then
        (let s1 = s\<lparr>screen_y := (screen_y s)(t := screen_y s t + 1), screen_x := (screen_x s)(t := 0)\<rparr>
         in update_cursor t
              (if screen_y s t + 1 \<ge> NUM_ROWS
               then scroll t (s1\<lparr>screen_y := (screen_y s1)(t := screen_y s1 t - 1)\<rparr>)
               else s1))
      else
        (let s2 =
           (if screen_x s t \<ge> NUM_COLS then
              (let s1 = s\<lparr>screen_x := (screen_x s)(t := 0), screen_y := (screen_y s)(t := screen_y s t + 1)\<rparr>
               in if screen_y s t + 1 \<ge> NUM_ROWS
                  then scroll t (s1\<lparr>screen_y := (screen_y s1)(t := screen_y s1 t - 1)\<rparr>)
                  else s1)
            else s)
         in update_cursor t
              (s2\<lparr>video_mem := put_cell (video_mem s2) (NUM_COLS * screen_y s2 t + screen_x s2 t) c,
                  screen_x := (screen_x s2)(t := screen_x s2 t + 1)\<rparr>)))"
| "scroll t s =
     (if screen_y s t \<ge> NUM_ROWS - 1 then scroll_up t s else update_cursor t (putc 10 t s))"
  by pat_completeness auto
termination
  by (relation "measure (\<lambda>x. case x of
        Inl (c, t, s) \<Rightarrow> if screen_y s t + 1 \<ge> NUM_ROWS then 1 else 0
      | Inr (t, s) \<Rightarrow> if screen_y s t \<ge> NUM_ROWS - 1 then 0 else 1)") auto

declare putc.simps [simp del] scroll.simps [simp del]

partial_function (option) puts_from :: "bytes \<Rightarrow> nat \<Rightarrow> nat \<Rightarrow> console \<Rightarrow> (nat \<times> console) option" where
  "puts_from str index t s =
     (if str index \<noteq> NUL then puts_from str (Suc index) t (putc (str index) t s)
      else Some (index, s))"

definition puts :: "bytes \<Rightarrow> nat \<Rightarrow> console \<Rightarrow> (nat \<times> console) option" where
  "puts str t s = puts_from str 0 t s"

definition backspace :: "nat \<Rightarrow> console \<Rightarrow> console" where
  "backspace t s =
     (let fill = (\<lambda>s'. update_cursor t
            (s'\<lparr>video_mem := put_cell (video_mem s') (NUM_COLS * screen_y s' t + screen_x s' t) SPACE\<rparr>))
      in if screen_x s t = 0 \<and> screen_y s t > 0
         then fill (s\<lparr>screen_y := (screen_y s)(t := screen_y s t - 1),
                      screen_x := (screen_x s)(t := NUM_COLS - 1)\<rparr>)
         else if screen_x s t = 0 \<and> screen_y s t = 0 then s
         else fill (s\<lparr>screen_x := (screen_x s)(t := screen_x s t - 1)\<rparr>))"

fun test_interrupts_loop :: "(int \<Rightarrow> u8) \<Rightarrow> int \<Rightarrow> nat \<Rightarrow> (int \<Rightarrow> u8)" where
  "test_interrupts_loop v i 0 = v"
| "test_interrupts_loop v i (Suc k) = test_interrupts_loop (v(2 * i := v (2 * i) + 1)) (i + 1) k"

definition test_interrupts :: "console \<Rightarrow> console" where
  "test_interrupts s =
     s\<lparr>video_mem := test_interrupts_loop (video_mem s) 0 (nat (NUM_ROWS * NUM_COLS))\<rparr>"

fun blue_loop :: "(int \<Rightarrow> u8) \<Rightarrow> int \<Rightarrow> nat \<Rightarrow> (int \<Rightarrow> u8)" where
  "blue_loop v i 0 = v"
| "blue_loop v i (Suc k) = blue_loop (v(2 * i + 1 := BLUE)) (i + 1) k"

definition show_blue_screen :: "console \<Rightarrow> console" where
  "show_blue_screen s = s\<lparr>video_mem := blue_loop (video_mem s) 0 (nat (NUM_ROWS * NUM_COLS))\<rparr>"

section \<open>Closed forms of the loops\<close>

lemma put_cell_apply:
  "put_cell v p c a = (if a = 2 * p then c else if a = 2 * p + 1 then ATTRIB else v a)"
  by (simp add: put_cell_def)

lemma clear_loop_eq:
  "clear_loop v i k =
     (\<lambda>a. if 2 * i \<le> a \<and> a < 2 * (i + int k) then (if even a then SPACE else ATTRIB) else v a)"
proof (induction k arbitrary: v i)
  case (Suc k)
  show ?case
  proof (rule ext)
    fix a
    show "clear_loop v i (Suc k) a =
      (if 2 * i \<le> a \<and> a < 2 * (i + int (Suc k)) then (if even a then SPACE else ATTRIB) else v a)"
      by (cases "a = 2 * i \<or> a = 2 * i + 1") (auto simp: Suc.IH put_cell_apply)
  qed
qed (auto simp: fun_eq_iff)

lemma scroll_rows_eq:
  assumes "0 \<le> i" "i < NUM_COLS"
  shows "scroll_rows v i j k =
    (\<lambda>a. if a div 2 mod NUM_COLS = i \<and> j \<le> a div 2 div NUM_COLS \<and> a div 2 div NUM_COLS < j + int k
         then v (a + 2 * NUM_COLS) else v a)"
proof (induction k arbitrary: v j)
  case (Suc k)
  show ?case
  proof (rule ext)
    fix a
    let ?p = "2 * (NUM_COLS * j + i)"
    have cell: "b = ?p \<or> b = ?p + 1 \<longleftrightarrow> b div 2 mod NUM_COLS = i \<and> b div 2 div NUM_COLS = j" for b
    proof -
      have "b div 2 mod NUM_COLS = i \<and> b div 2 div NUM_COLS = j \<longleftrightarrow> b div 2 = NUM_COLS * j + i"
        using assms by (auto simp: con_consts)
      moreover have "b = 2 * p \<or> b = 2 * p + 1 \<longleftrightarrow> b div 2 = p" for p by presburger
      ultimately show ?thesis by blast
    qed
    let ?v = "v(?p := v (2 * (NUM_COLS * (j + 1) + i)))"
    let ?w = "?v(?p + 1 := ?v (2 * (NUM_COLS * (j + 1) + i) + 1))"
    have w: "?w b = (if b = ?p \<or> b = ?p + 1 then v (b + 2 * NUM_COLS) else v b)" for b
      by (auto simp: con_consts algebra_simps)
    have sh: "(a + 2 * NUM_COLS) div 2 = a div 2 + NUM_COLS" by (simp add: con_consts)
    have row: "(a div 2 + NUM_COLS) mod NUM_COLS = a div 2 mod NUM_COLS"
      "(a div 2 + NUM_COLS) div NUM_COLS = a div 2 div NUM_COLS + 1"
      by (simp_all add: con_consts)
    have "scroll_rows v i j (Suc k) a =
      (if a div 2 mod NUM_COLS = i \<and> j + 1 \<le> a div 2 div NUM_COLS \<and> a div 2 div NUM_COLS < j + 1 + int k
       then ?w (a + 2 * NUM_COLS) else ?w a)"
      by (simp only: scroll_rows.simps Let_def Suc.IH)
    also have "\<dots> = (if a div 2 mod NUM_COLS = i \<and> j \<le> a div 2 div NUM_COLS \<and> a div 2 div NUM_COLS < j + int (Suc k)
         then v (a + 2 * NUM_COLS) else v a)"
      unfolding w cell sh row by auto
    finally show "scroll_rows v i j (Suc k) a = \<dots>" .
  qed
qed (auto simp: fun_eq_iff)

lemma scroll_cols_eq:
  assumes "0 \<le> i" "i + int k \<le> NUM_COLS"
  shows "scroll_cols v i k =
    (\<lambda>a. if i \<le> a div 2 mod NUM_COLS \<and> a div 2 mod NUM_COLS < i + int k \<and>
            0 \<le> a div 2 div NUM_COLS \<and> a div 2 div NUM_COLS < NUM_ROWS - 1
         then v (a + 2 * NUM_COLS) else v a)"
  using assms
proof (induction k arbitrary: v i)
  case (Suc k)
  let ?v = "scroll_rows v i 0 (nat (NUM_ROWS - 1))"
  have R: "int (nat (NUM_ROWS - 1)) = NUM_ROWS - 1" by (simp add: con_consts)
  have v: "?v = (\<lambda>a. if a div 2 mod NUM_COLS = i \<and> 0 \<le> a div 2 div NUM_COLS \<and> a div 2 div NUM_COLS < NUM_ROWS - 1
         then v (a + 2 * NUM_COLS) else v a)"
    using scroll_rows_eq [of i v 0 "nat (NUM_ROWS - 1)"] Suc.prems unfolding R by simp
  have sh: "(a + 2 * NUM_COLS) div 2 mod NUM_COLS = a div 2 mod NUM_COLS" for a
  proof -
    have "(a + 2 * NUM_COLS) div 2 = a div 2 + NUM_COLS" by simp
    then show ?thesis by simp
  qed
  have "scroll_cols ?v (i + 1) k = (\<lambda>a. if i + 1 \<le> a div 2 mod NUM_COLS \<and> a div 2 mod NUM_COLS < i + 1 + int k \<and>
            0 \<le> a div 2 div NUM_COLS \<and> a div 2 div NUM_COLS < NUM_ROWS - 1
         then ?v (a + 2 * NUM_COLS) else ?v a)"
    using Suc.prems by (intro Suc.IH) auto
  then show ?case
    unfolding scroll_cols.simps unfolding v by (auto simp: fun_eq_iff sh)
qed (auto simp: fun_eq_iff)

text \<open>Scrolling moves every row up by one and blanks the last.\<close>

definition shifted :: "(int \<Rightarrow> u8) \<Rightarrow> (int \<Rightarrow> u8)" where
  "shifted v = (\<lambda>a. if 0 \<le> a \<and> a < 3840 then v (a + 160)
                   else if 3840 \<le> a \<and> a < 4000 then (if even a then SPACE else ATTRIB) else v a)"

lemma scroll_up_eq:
  "scroll_up t s = update_cursor t (s\<lparr>video_mem := shifted (video_mem s), screen_x := (screen_x s)(t := 0)\<rparr>)"
proof -
  have "scroll_cols v 0 (nat NUM_COLS) = (\<lambda>a. if 0 \<le> a \<and> a < 3840 then v (a + 160) else v a)" for v
  proof -
    have "x div 2 div 80 = x div 160" for x :: int
      using zdiv_zmult2_eq [of 80 x 2] by simp
    then show ?thesis
      using scroll_cols_eq [of 0 "nat NUM_COLS" v] by (auto simp: con_consts fun_eq_iff)
  qed
  then have "clear_loop (scroll_cols v 0 (nat NUM_COLS)) (NUM_COLS * (NUM_ROWS - 1)) (nat NUM_COLS) = shifted v" for v
    by (auto simp: clear_loop_eq shifted_def con_consts fun_eq_iff)
  then show ?thesis by (simp add: scroll_up_def)
qed

section \<open>Bounds\<close>

text \<open>The cursor of every terminal is on the screen, or just right of its last column.\<close>

definition screen_ok :: "console \<Rightarrow> bool" where
  "screen_ok s \<longleftrightarrow>
     (\<forall>t<MAX_TERMINAL. 0 \<le> screen_x s t \<and> screen_x s t \<le> NUM_COLS \<and>
                        0 \<le> screen_y s t \<and> screen_y s t < NUM_ROWS)"

text \<open>What lies outside the 4000 bytes of the screen.\<close>

definition off_screen :: "console \<Rightarrow> int \<Rightarrow> u8" where
  "off_screen s = (\<lambda>a. if 0 \<le> a \<and> a < 4000 then 0 else video_mem s a)"

lemma update_cursor_simps [simp]:
  "video_mem (update_cursor t s) = video_mem s"
  "screen_x (update_cursor t s) = screen_x s"
  "screen_y (update_cursor t s) = screen_y s"
  by (simp_all add: update_cursor_def Let_def)

lemma screen_ok_update_cursor [simp]: "screen_ok (update_cursor t s) = screen_ok s"
  by (simp add: screen_ok_def)

lemma off_screen_update_cursor [simp]: "off_screen (update_cursor t s) = off_screen s"
  by (simp add: off_screen_def cong: if_cong)

text \<open>The effect of a line feed on row and video memory, as \<^verbatim>\<open>putc\<close> and \<^verbatim>\<open>scroll\<close> share it.\<close>

definition line_feed :: "nat \<Rightarrow> console \<Rightarrow> console" where
  "line_feed t s =
     (if screen_y s t + 1 \<ge> NUM_ROWS
      then update_cursor t (s\<lparr>video_mem := shifted (video_mem s), screen_x := (screen_x s)(t := 0)\<rparr>)
      else s\<lparr>screen_y := (screen_y s)(t := screen_y s t + 1), screen_x := (screen_x s)(t := 0)\<rparr>)"

lemma putc_newline: "c = 10 \<or> c = 13 \<Longrightarrow> putc c t s = update_cursor t (line_feed t s)"
  by (subst putc.simps) (auto simp: line_feed_def Let_def scroll.simps scroll_up_eq)

lemma putc_other:
  "c \<noteq> 10 \<Longrightarrow> c \<noteq> 13 \<Longrightarrow>
   putc c t s =
     (let s2 = (if screen_x s t \<ge> NUM_COLS then line_feed t s else s)
      in update_cursor t
           (s2\<lparr>video_mem := put_cell (video_mem s2) (NUM_COLS * screen_y s2 t + screen_x s2 t) c,
               screen_x := (screen_x s2)(t := screen_x s2 t + 1)\<rparr>))"
  by (subst putc.simps) (auto simp: line_feed_def Let_def scroll.simps scroll_up_eq)

lemma scroll_eq: "scroll t s = (if screen_y s t \<ge> NUM_ROWS - 1 then scroll_up t s
    else update_cursor t (update_cursor t (line_feed t s)))"
  by (subst scroll.simps) (simp add: putc_newline)

lemma put_cell_off_screen:
  assumes "0 \<le> p" "p < 2000" "a < 0 \<or> 4000 \<le> a"
  shows "put_cell v p c a = v a"
  using assms by (auto simp: put_cell_apply)

lemma screen_okD:
  assumes "screen_ok s" "t < MAX_TERMINAL"
  shows "0 \<le> screen_x s t" "screen_x s t \<le> 80" "0 \<le> screen_y s t" "screen_y s t < 25"
  using assms by (auto simp: screen_ok_def con_consts)

lemma line_feed_ok [inv_intros]: "screen_ok s \<Longrightarrow> screen_ok (line_feed t s)"
  by (auto simp: screen_ok_def line_feed_def con_consts)

lemma line_feed_off_screen: "off_screen (line_feed t s) = off_screen s"
  by (auto simp: off_screen_def line_feed_def shifted_def fun_eq_iff)

lemma line_feed_x: "screen_x (line_feed t s) t = 0"
  by (simp add: line_feed_def)

text \<open>Where \<^verbatim>\<open>putc\<close> stores a printable character: inside the screen, left of column 80.\<close>

lemma putc_target:
  assumes "screen_ok s" "t < MAX_TERMINAL"
  defines "s2 \<equiv> (if screen_x s t \<ge> NUM_COLS then line_feed t s else s)"
  shows "screen_ok s2" "screen_x s2 t < 80"
    "0 \<le> NUM_COLS * screen_y s2 t + screen_x s2 t" "NUM_COLS * screen_y s2 t + screen_x s2 t < 2000"
proof -
  show ok: "screen_ok s2" using assms(1) by (simp add: s2_def line_feed_ok)
  show x: "screen_x s2 t < 80"
    using line_feed_x [of t s] by (auto simp: s2_def con_consts)
  show "0 \<le> NUM_COLS * screen_y s2 t + screen_x s2 t" "NUM_COLS * screen_y s2 t + screen_x s2 t < 2000"
    using screen_okD [OF ok assms(2)] x by (auto simp: con_consts)
qed

lemma putc_ok [inv_intros]:
  assumes "screen_ok s" "t < MAX_TERMINAL"
  shows "screen_ok (putc c t s)"
proof (cases "c = 10 \<or> c = 13")
  case True
  then show ?thesis using assms by (simp add: putc_newline line_feed_ok)
next
  case False
  note tg = putc_target [OF assms]
  show ?thesis
    using False tg(1,2) by (auto simp: putc_other Let_def screen_ok_def con_consts)
qed

lemma putc_off_screen:
  assumes "screen_ok s" "t < MAX_TERMINAL"
  shows "off_screen (putc c t s) = off_screen s"
proof (cases "c = 10 \<or> c = 13")
  case True
  then show ?thesis by (simp add: putc_newline line_feed_off_screen)
next
  case False
  let ?s2 = "if screen_x s t \<ge> NUM_COLS then line_feed t s else s"
  note tg = putc_target [OF assms]
  have "off_screen (putc c t s) = off_screen ?s2"
    using False put_cell_off_screen [OF tg(3,4)]
    by (auto simp: putc_other Let_def off_screen_def fun_eq_iff)
  also have "\<dots> = off_screen s" by (simp add: line_feed_off_screen)
  finally show ?thesis .
qed

lemma clear_ok [inv_intros]: "screen_ok s \<Longrightarrow> screen_ok (clear t s)"
  by (auto simp: screen_ok_def clear_def con_consts)

lemma clear_off_screen: "off_screen (clear t s) = off_screen s"
  by (auto simp: off_screen_def clear_def clear_loop_eq con_consts fun_eq_iff)

lemma scroll_ok [inv_intros]: "screen_ok s \<Longrightarrow> screen_ok (scroll t s)"
  by (auto simp: scroll_eq scroll_up_eq line_feed_ok) (auto simp: screen_ok_def con_consts)

lemma scroll_off_screen: "off_screen (scroll t s) = off_screen s"
  by (auto simp: scroll_eq scroll_up_eq line_feed_off_screen)
    (auto simp: off_screen_def shifted_def fun_eq_iff)

lemma backspace_ok [inv_intros]: "screen_ok s \<Longrightarrow> screen_ok (backspace t s)"
  by (auto simp: screen_ok_def backspace_def Let_def con_consts)

lemma backspace_off_screen:
  assumes "screen_ok s" "t < MAX_TERMINAL"
  shows "off_screen (backspace t s) = off_screen s"
  using screen_okD [OF assms]
  by (auto simp: off_screen_def backspace_def Let_def con_consts put_cell_apply fun_eq_iff)

section \<open>Character devices\<close>

text \<open>
  What the printing routines rely on: writing one character keeps the device's invariant
  and leaves everything outside the device alone. Writing a whole buffer then does too.
\<close>

locale char_device =
  fixes put :: "u8 \<Rightarrow> 's \<Rightarrow> 's"
    and ok :: "'s \<Rightarrow> bool"
    and outside :: "'s \<Rightarrow> 'o"
  assumes put_ok: "ok s \<Longrightarrow> ok (put c s)"
    and put_outside: "ok s \<Longrightarrow> outside (put c s) = outside s"
begin

lemma put_all: "ok s \<Longrightarrow> ok (fold put cs s) \<and> outside (fold put cs s) = outside s"
  by (induction cs arbitrary: s) (auto simp: put_ok put_outside)

end

interpretation con: char_device "\<lambda>c. putc c t" "\<lambda>s. screen_ok s \<and> t < MAX_TERMINAL" off_screen for t
  by unfold_locales (auto simp: putc_ok putc_off_screen)

lemma puts_from_cstring:
  assumes "is_cstring str n" "i \<le> n"
  shows "puts_from str i t s = Some (n, fold (\<lambda>c. putc c t) (run_of str i (n - i)) s)"
  using assms(2)
proof (induction arbitrary: s rule: inc_induct)
  case base
  then show ?case using assms(1) by (subst puts_from.simps) (simp add: is_cstring_def)
next
  case (step i)
  have "str i \<noteq> NUL" using assms(1) step.hyps by (auto simp: is_cstring_def)
  moreover have "n - i = Suc (n - Suc i)" using step.hyps by simp
  ultimately show ?case by (subst puts_from.simps) (simp add: step.IH run_of_Suc)
qed

lemma puts_cstring:
  "is_cstring str n \<Longrightarrow> puts str t s = Some (n, fold (\<lambda>c. putc c t) (run_of str 0 n) s)"
  by (simp add: puts_def puts_from_cstring)

section \<open>The abstract screen\<close>

text \<open>
  What a terminal shows: 25 rows of 80 characters and the position of the next one. A line
  feed on the last row moves all rows up.
\<close>

record text_screen =
  grid :: "nat \<Rightarrow> nat \<Rightarrow> u8"
  col :: nat
  row :: nat

definition text_feed :: "text_screen \<Rightarrow> text_screen" where
  "text_feed g =
     (if row g = 24
      then g\<lparr>grid := (\<lambda>r c. if r < 24 then grid g (Suc r) c else if r = 24 \<and> c < 80 then SPACE else 0), col := 0\<rparr>
      else g\<lparr>row := Suc (row g), col := 0\<rparr>)"

definition text_putc :: "u8 \<Rightarrow> text_screen \<Rightarrow> text_screen" where
  "text_putc ch g =
     (if ch = 10 \<or> ch = 13 then text_feed g
      else let g1 = (if col g = 80 then text_feed g else g)
           in g1\<lparr>grid := (grid g1)(row g1 := (grid g1 (row g1))(col g1 := ch)), col := Suc (col g1)\<rparr>)"

definition abs_screen :: "nat \<Rightarrow> console \<Rightarrow> text_screen" where
  "abs_screen t s =
     \<lparr>grid = (\<lambda>r c. if r < 25 \<and> c < 80 then video_mem s (2 * (80 * int r + int c)) else 0),
      col = nat (screen_x s t), row = nat (screen_y s t)\<rparr>"

lemma abs_update_cursor [simp]: "abs_screen t (update_cursor t' s) = abs_screen t s"
  by (simp add: abs_screen_def cong: if_cong)

lemma abs_line_feed:
  assumes "screen_ok s" "t < MAX_TERMINAL"
  shows "abs_screen t (line_feed t s) = text_feed (abs_screen t s)"
  using screen_okD [OF assms]
  by (auto simp: line_feed_def text_feed_def abs_screen_def con_consts shifted_def fun_eq_iff
      nat_add_distrib algebra_simps)

lemma abs_put_char:
  assumes "screen_ok s" "t < MAX_TERMINAL" "screen_x s t < 80"
  shows "abs_screen t (s\<lparr>video_mem := put_cell (video_mem s) (NUM_COLS * screen_y s t + screen_x s t) ch,
           screen_x := (screen_x s)(t := screen_x s t + 1)\<rparr>) =
    (let g = abs_screen t s
     in g\<lparr>grid := (grid g)(row g := (grid g (row g))(col g := ch)), col := Suc (col g)\<rparr>)"
proof -
  have "80 * int r + int c = 80 * screen_y s t + screen_x s t \<longleftrightarrow>
      r = nat (screen_y s t) \<and> c = nat (screen_x s t)" if "c < 80" for r c
  proof
    assume e: "80 * int r + int c = 80 * screen_y s t + screen_x s t"
    have "int r = screen_y s t"
      using screen_okD [OF assms(1,2)] assms(3) that e by linarith
    then show "r = nat (screen_y s t) \<and> c = nat (screen_x s t)" using e by auto
  qed (use screen_okD [OF assms(1,2)] in auto)
  then show ?thesis
    using screen_okD [OF assms(1,2)] assms(3)
    by (auto simp: abs_screen_def Let_def put_cell_apply con_consts fun_eq_iff nat_add_distrib)
qed

section \<open>Properties\<close>

text \<open>
  \<^verbatim>\<open>putc\<close> keeps every terminal's cursor on the screen and changes no byte of memory
  outside the 4000 bytes of the text screen, whatever the character, also when it has to
  wrap and scroll.
\<close>

theorem putc_safe:
  assumes "screen_ok s" "t < MAX_TERMINAL"
  shows "screen_ok (putc c t s) \<and> off_screen (putc c t s) = off_screen s"
  using assms by (simp add: putc_ok putc_off_screen)

definition blank_console :: console where
  "blank_console = \<lparr>video_mem = (\<lambda>_. 0), screen_x = (\<lambda>_. 0), screen_y = (\<lambda>_. 0), vga_out = []\<rparr>"

lemma blank_console_ok: "screen_ok blank_console"
  by (simp add: screen_ok_def blank_console_def con_consts)

theorem putc_safe_witness:
  "screen_ok (putc 10 2 blank_console) \<and> off_screen (putc 10 2 blank_console) = off_screen blank_console"
  using putc_safe [OF blank_console_ok, of 2 10] by (simp add: con_consts)

text \<open>
  C24. \<^verbatim>\<open>putc\<close> implements the abstract screen: on the characters a terminal shows and its
  cursor, it is the textbook operation (line feed and carriage return start a new row, a
  full row wraps, the last row scrolls).
\<close>

theorem putc_refines:
  assumes "screen_ok s" "t < MAX_TERMINAL"
  shows "abs_screen t (putc c t s) = text_putc c (abs_screen t s)"
proof (cases "c = 10 \<or> c = 13")
  case True
  then show ?thesis by (simp add: putc_newline abs_line_feed [OF assms] text_putc_def)
next
  case False
  let ?s2 = "if screen_x s t \<ge> NUM_COLS then line_feed t s else s"
  note tg = putc_target [OF assms]
  have "screen_x s t \<ge> NUM_COLS \<longleftrightarrow> col (abs_screen t s) = 80"
    using screen_okD [OF assms] by (auto simp: abs_screen_def con_consts)
  then have "abs_screen t ?s2 = (if col (abs_screen t s) = 80 then text_feed (abs_screen t s) else abs_screen t s)"
    using abs_line_feed [OF assms] by simp
  then show ?thesis
    using False abs_put_char [OF tg(1) assms(2) tg(2), of c]
    by (simp add: putc_other Let_def text_putc_def)
qed

theorem putc_refines_witness:
  "abs_screen 0 (putc 65 0 blank_console) = text_putc 65 (abs_screen 0 blank_console)"
  using putc_refines [OF blank_console_ok, of 0 65] by (simp add: con_consts)

text \<open>
  \<^verbatim>\<open>puts\<close> returns on every NUL-terminated string, reports its length, keeps the cursor
  invariant and writes nothing outside the screen.
\<close>

theorem puts_safe:
  assumes "is_cstring str n" "screen_ok s" "t < MAX_TERMINAL"
  shows "\<exists>s'. puts str t s = Some (n, s') \<and> screen_ok s' \<and> off_screen s' = off_screen s"
  using con.put_all [of s t "run_of str 0 n"] assms by (simp add: puts_cstring)

theorem puts_safe_witness:
  "\<exists>s'. puts (cstr ''shell'') 1 blank_console = Some (5, s') \<and> screen_ok s' \<and>
        off_screen s' = off_screen blank_console"
proof -
  have "is_cstring (cstr ''shell'') 5"
    by code_simp
  then show ?thesis using puts_safe [OF _ blank_console_ok, of _ 5 1] by (simp add: con_consts)
qed

text \<open>
  \<^verbatim>\<open>backspace\<close> undoes \<^verbatim>\<open>putc\<close>: after a printable character at a column below 80 the
  cursor is back where it was and the cell holds a space.
\<close>

theorem backspace_putc:
  assumes "screen_ok s" "t < MAX_TERMINAL" "screen_x s t < NUM_COLS" "c \<noteq> 10" "c \<noteq> 13"
  shows "screen_x (backspace t (putc c t s)) = screen_x s \<and>
         screen_y (backspace t (putc c t s)) = screen_y s \<and>
         video_mem (backspace t (putc c t s)) =
           put_cell (video_mem s) (NUM_COLS * screen_y s t + screen_x s t) SPACE"
  using assms screen_okD [OF assms(1,2)]
  by (auto simp: putc_other Let_def backspace_def put_cell_def con_consts fun_eq_iff)

theorem backspace_putc_witness:
  "screen_x (backspace 0 (putc 65 0 blank_console)) = screen_x blank_console"
  using backspace_putc [OF blank_console_ok, of 0 65] by (simp add: con_consts blank_console_def)

text \<open>
  \<^verbatim>\<open>update_cursor\<close> programs the VGA cursor registers with the cursor's cell number:
  the two data bytes it sends are the low and the high byte of \<open>80 y + x\<close>.
\<close>

theorem update_cursor_position:
  assumes "screen_ok s" "t < MAX_TERMINAL"
  shows "\<exists>lo hi. vga_out (update_cursor t s) =
           vga_out s @ [(0x3D4, 0x0F), (0x3D5, lo), (0x3D4, 0x0E), (0x3D5, hi)] \<and>
           int (256 * unat hi + unat lo) = 80 * screen_y s t + screen_x s t"
proof -
  define p :: u16 where "p = of_int (screen_y s t * NUM_COLS + screen_x s t)"
  have "0 \<le> screen_y s t * NUM_COLS + screen_x s t" "screen_y s t * NUM_COLS + screen_x s t < 65536"
    using screen_okD [OF assms] by (auto simp: con_consts)
  then have "uint p = screen_y s t * NUM_COLS + screen_x s t"
    unfolding p_def by (rule uint_of_int_u16)
  then have pos: "int (unat p) = 80 * screen_y s t + screen_x s t"
    by (simp add: con_consts)
  have out: "vga_out (update_cursor t s) = vga_out s @
      [(0x3D4, 0x0F), (0x3D5, ucast (p AND 0xFF)), (0x3D4, 0x0E), (0x3D5, ucast (drop_bit 8 p AND 0xFF))]"
    unfolding update_cursor_def Let_def p_def by simp
  show ?thesis
    by (rule exI, rule exI, rule conjI, rule out) (simp only: u16_halves pos)
qed

theorem update_cursor_position_witness:
  "\<exists>lo hi. vga_out (update_cursor 1 blank_console) =
     [(0x3D4, 0x0F), (0x3D5, lo), (0x3D4, 0x0E), (0x3D5, hi)] \<and>
     int (256 * unat hi + unat lo) = 0"
  using update_cursor_position [OF blank_console_ok, of 1] by (simp add: con_consts blank_console_def)

end
