(* ===== verification/Printf.thy ===== *)
theory Printf
  imports Console
begin

text \<open>
  \<^verbatim>\<open>printf\<close> of \<^verbatim>\<open>student-distrib/lib.c\<close>. A stack slot above the format pointer is a 32-bit word
  together with the bytes that word would point to (only \<^verbatim>\<open>%s\<close> looks at those); the local
  \<^verbatim>\<open>conv_buf\<close> is uninitialised, so its first contents are the parameter \<open>junk\<close>. The main loop
  is a \<^theory_text>\<open>partial_function\<close>: a format that is not NUL-terminated need not end.
\<close>

section \<open>Definitions\<close>

record stack_arg =
  arg_word :: u32
  arg_str :: bytes

definition num_arg :: "u32 \<Rightarrow> stack_arg" where
  "num_arg w = \<lparr>arg_word = w, arg_str = (\<lambda>_. NUL)\<rparr>"

definition puts_at :: "bytes option \<Rightarrow> nat \<Rightarrow> nat \<Rightarrow> console \<Rightarrow> console option" where
  "puts_at b off t s =
     Option.bind b (\<lambda>b. Option.bind (puts (\<lambda>i. b (off + i)) t s) (\<lambda>(n, s'). Some s'))"

text \<open>\<^verbatim>\<open>itoa(value, &conv_buf[off], radix)\<close>\<close>

definition itoa_at :: "u32 \<Rightarrow> bytes \<Rightarrow> nat \<Rightarrow> nat \<Rightarrow> bytes option" where
  "itoa_at v b off radix =
     Option.bind (itoa v (\<lambda>i. b (off + i)) radix) (\<lambda>b'. Some (\<lambda>i. if i < off then b i else b' (i - off)))"

definition printf_hex :: "u32 \<Rightarrow> bytes \<Rightarrow> nat \<Rightarrow> console \<Rightarrow> console option" where
  "printf_hex w junk t s = puts_at (itoa_at w junk 0 16) 0 t s"

definition printf_hex_alt :: "u32 \<Rightarrow> bytes \<Rightarrow> nat \<Rightarrow> console \<Rightarrow> console option" where
  "printf_hex_alt w junk t s =
     Option.bind (itoa_at w junk 8 16) (\<lambda>b.
     Option.bind (strlen (\<lambda>i. b (8 + i))) (\<lambda>starting_index.
     puts_at (Some (fill_run b starting_index (byte_of_char CHR ''0'') (8 - starting_index)))
       starting_index t s))"

definition printf_unsigned :: "u32 \<Rightarrow> bytes \<Rightarrow> nat \<Rightarrow> console \<Rightarrow> console option" where
  "printf_unsigned w junk t s = puts_at (itoa_at w junk 0 10) 0 t s"

definition printf_signed :: "u32 \<Rightarrow> bytes \<Rightarrow> nat \<Rightarrow> console \<Rightarrow> console option" where
  "printf_signed w junk t s =
     (if w <s 0 then puts_at (itoa_at (- w) (junk(0 := byte_of_char CHR ''-'')) 1 10) 0 t s
      else puts_at (itoa_at w junk 0 10) 0 t s)"

text \<open>
  The conversion switch: \<open>c\<close> is the conversion character, \<open>alt\<close> the variable \<^verbatim>\<open>alternate\<close>. The
  result is the number of stack slots taken and the console.
\<close>

definition printf_conv :: "u8 \<Rightarrow> bool \<Rightarrow> stack_arg \<Rightarrow> bytes \<Rightarrow> nat \<Rightarrow> console \<Rightarrow> (nat \<times> console) option" where
  "printf_conv c alt arg junk t s =
     (if c = byte_of_char CHR ''%'' then Some (0, putc (byte_of_char CHR ''%'') t s)
      else if c = byte_of_char CHR ''x'' then
        Option.bind (if alt then printf_hex_alt (arg_word arg) junk t s
                     else printf_hex (arg_word arg) junk t s) (\<lambda>s'. Some (1, s'))
      else if c = byte_of_char CHR ''u'' then
        Option.bind (printf_unsigned (arg_word arg) junk t s) (\<lambda>s'. Some (1, s'))
      else if c = byte_of_char CHR ''d'' then
        Option.bind (printf_signed (arg_word arg) junk t s) (\<lambda>s'. Some (1, s'))
      else if c = byte_of_char CHR ''c'' then Some (1, putc (ucast (arg_word arg)) t s)
      else if c = byte_of_char CHR ''s'' then
        Option.bind (puts (arg_str arg) t s) (\<lambda>(n, s'). Some (1, s'))
      else Some (0, s))"

datatype printf_mode = Text | Conv bool

partial_function (option) printf_from ::
  "bytes \<Rightarrow> nat \<Rightarrow> printf_mode \<Rightarrow> (nat \<Rightarrow> stack_arg) \<Rightarrow> nat \<Rightarrow> bytes \<Rightarrow> nat \<Rightarrow> console \<Rightarrow> (nat \<times> console) option" where
  "printf_from format i mode args esp junk t s =
     (case mode of
        Text \<Rightarrow>
          if format i = NUL then Some (i, s)
          else if format i = byte_of_char CHR ''%'' then printf_from format (Suc i) (Conv False) args esp junk t s
          else printf_from format (Suc i) Text args esp junk t (putc (format i) t s)
      | Conv alternate \<Rightarrow>
          if format i = byte_of_char CHR ''#'' then printf_from format (Suc i) (Conv True) args esp junk t s
          else Option.bind (printf_conv (format i) alternate (args esp) junk t s)
                 (\<lambda>(n, s'). printf_from format (Suc i) Text args (esp + n) junk t s'))"

definition printf :: "bytes \<Rightarrow> (nat \<Rightarrow> stack_arg) \<Rightarrow> bytes \<Rightarrow> nat \<Rightarrow> console \<Rightarrow> (nat \<times> console) option" where
  "printf format args junk t s = printf_from format 0 Text args 0 junk t s"

text \<open>
  A call \<^verbatim>\<open>printf("...")\<close> with a literal message and no arguments, its result thrown away. For
  the literals of the kernel the call returns (\<open>printf_literal\<close> below).
\<close>

definition message :: "string \<Rightarrow> nat \<Rightarrow> console \<Rightarrow> console" where
  "message msg t s =
     (case printf (cstr msg) (\<lambda>_. num_arg 0) (\<lambda>_. NUL) t s of Some (n, s') \<Rightarrow> s' | None \<Rightarrow> s)"

section \<open>What a conversion prints\<close>

definition print_bytes :: "u8 list \<Rightarrow> nat \<Rightarrow> console \<Rightarrow> console" where
  "print_bytes cs t s = fold (\<lambda>c. putc c t) cs s"

lemma print_bytes_simps [simp]:
  "print_bytes [] t s = s"
  "print_bytes (c # cs) t s = print_bytes cs t (putc c t s)"
  by (simp_all add: print_bytes_def)

lemma print_bytes_append: "print_bytes (xs @ ys) t s = print_bytes ys t (print_bytes xs t s)"
  by (simp add: print_bytes_def)

lemma puts_list:
  assumes "NUL \<notin> set xs" "\<And>i. i < length xs \<Longrightarrow> b i = xs ! i" "b (length xs) = NUL"
  shows "puts b t s = Some (length xs, print_bytes xs t s)"
proof -
  have "run_of b 0 (length xs) = xs" using assms(2) by (simp add: run_of_eq_iff)
  then show ?thesis
    using puts_cstring [OF is_cstring_list [OF assms]] by (simp add: print_bytes_def)
qed

lemma itoa_at_writes:
  assumes "2 \<le> r" "r \<le> 36"
  obtains b where "itoa_at v junk off r = Some b"
    "\<And>i. i < off \<Longrightarrow> b i = junk i"
    "\<And>i. i < length (itoa_digits r v) \<Longrightarrow> b (off + i) = itoa_digits r v ! i"
    "b (off + length (itoa_digits r v)) = NUL"
proof -
  obtain b where b: "itoa v (\<lambda>i. junk (off + i)) r = Some b" "is_cstring b (length (itoa_digits r v))"
    "run_of b 0 (length (itoa_digits r v)) = itoa_digits r v"
    using itoa_writes [OF assms] by blast
  have "b i = itoa_digits r v ! i" if "i < length (itoa_digits r v)" for i
    using nth_run_of [OF that, of b 0] b(3) by simp
  with b show thesis
    by (intro that [of "\<lambda>i. if i < off then junk i else b (i - off)"])
      (auto simp: itoa_at_def is_cstring_def)
qed

lemma printf_unsigned_prints:
  "printf_unsigned w junk t s = Some (print_bytes (itoa_digits 10 w) t s)"
proof -
  obtain b where "itoa_at w junk 0 10 = Some b" "\<And>i. i < length (itoa_digits 10 w) \<Longrightarrow> b (0 + i) = itoa_digits 10 w ! i"
    "b (0 + length (itoa_digits 10 w)) = NUL"
    by (rule itoa_at_writes [of 10 w junk 0]) auto
  then show ?thesis
    using puts_list [of "itoa_digits 10 w" b t s] itoa_digits_props(1) [of 10 w]
    by (simp add: printf_unsigned_def puts_at_def)
qed

lemma printf_hex_prints:
  "printf_hex w junk t s = Some (print_bytes (itoa_digits 16 w) t s)"
proof -
  obtain b where "itoa_at w junk 0 16 = Some b" "\<And>i. i < length (itoa_digits 16 w) \<Longrightarrow> b (0 + i) = itoa_digits 16 w ! i"
    "b (0 + length (itoa_digits 16 w)) = NUL"
    by (rule itoa_at_writes [of 16 w junk 0]) auto
  then show ?thesis
    using puts_list [of "itoa_digits 16 w" b t s] itoa_digits_props(1) [of 16 w]
    by (simp add: printf_hex_def puts_at_def)
qed

text \<open>The signed decimal numeral: a minus sign and the magnitude.\<close>

definition signed_digits :: "u32 \<Rightarrow> u8 list" where
  "signed_digits w = (if w <s 0 then 45 # itoa_digits 10 (- w) else itoa_digits 10 w)"

lemma printf_signed_prints:
  "printf_signed w junk t s = Some (print_bytes (signed_digits w) t s)"
proof (cases "w <s 0")
  case True
  let ?ds = "itoa_digits 10 (- w)"
  obtain b where b: "itoa_at (- w) (junk(0 := 45)) 1 10 = Some b" "\<And>i. i < 1 \<Longrightarrow> b i = (junk(0 := 45)) i"
    "\<And>i. i < length ?ds \<Longrightarrow> b (1 + i) = ?ds ! i" "b (1 + length ?ds) = NUL"
    by (rule itoa_at_writes [of 10 "- w" "junk(0 := 45)" 1]) auto
  have "puts b t s = Some (length (45 # ?ds), print_bytes (45 # ?ds) t s)"
    using b(2-4) itoa_digits_props(1) [of 10 "- w"] by (intro puts_list) (auto simp: nth_Cons split: nat.split)
  then show ?thesis
    using True b(1) by (simp add: printf_signed_def puts_at_def signed_digits_def byte_of_char_def of_char_def)
next
  case False
  then show ?thesis
    using printf_unsigned_prints [of w junk t s]
    by (simp add: printf_signed_def printf_unsigned_def signed_digits_def)
qed

text \<open>The eight-digit form: zeros in front of the hexadecimal numeral.\<close>

definition hex8_digits :: "u32 \<Rightarrow> u8 list" where
  "hex8_digits w = replicate (8 - length (itoa_digits 16 w)) 48 @ itoa_digits 16 w"

lemma itoa_digits_16_length: "length (itoa_digits 16 w) \<le> 8"
  using radix_digits_length [of "unat w" 16 8] unat_u32_less [of w] by (simp add: itoa_digits_def)

lemma hex8_digits_props: "length (hex8_digits w) = 8" "NUL \<notin> set (hex8_digits w)"
    "read_radix 16 (hex8_digits w) = unat w"
proof -
  show "length (hex8_digits w) = 8" using itoa_digits_16_length [of w] by (simp add: hex8_digits_def)
  show "NUL \<notin> set (hex8_digits w)" using itoa_digits_props(1) [of 16 w] by (simp add: hex8_digits_def)
  have "read_radix 16 (replicate n 48 @ ds) = read_radix 16 ds" for n ds
    by (induction n) (auto simp: read_radix_def digit_val_def)
  then show "read_radix 16 (hex8_digits w) = unat w"
    using itoa_digits_props(2) [of 16 w] by (simp add: hex8_digits_def)
qed

lemma printf_hex_alt_prints:
  "printf_hex_alt w junk t s = Some (print_bytes (hex8_digits w) t s)"
proof -
  let ?ds = "itoa_digits 16 w" and ?n = "length (itoa_digits 16 w)"
  have nz: "NUL \<notin> set ?ds" using itoa_digits_props(1) [of 16 w] by simp
  have le: "?n \<le> 8" by (rule itoa_digits_16_length)
  obtain b where b: "itoa_at w junk 8 16 = Some b" "\<And>i. i < ?n \<Longrightarrow> b (8 + i) = ?ds ! i" "b (8 + ?n) = NUL"
    by (rule itoa_at_writes [of 16 w junk 8]) auto
  have len: "strlen (\<lambda>i. b (8 + i)) = Some ?n"
    by (rule strlen_cstring, rule is_cstring_list) (use nz b in auto)
  let ?b = "fill_run b ?n 48 (8 - ?n)"
  have "puts (\<lambda>i. ?b (?n + i)) t s = Some (length (hex8_digits w), print_bytes (hex8_digits w) t s)"
  proof (rule puts_list)
    show "NUL \<notin> set (hex8_digits w)" by (rule hex8_digits_props)
    show "?b (?n + length (hex8_digits w)) = NUL"
      using b(3) by (auto simp: hex8_digits_props(1) fill_run_eq add.commute)
    show "?b (?n + i) = hex8_digits w ! i" if "i < length (hex8_digits w)" for i
    proof (cases "i < 8 - ?n")
      case True
      then show ?thesis by (auto simp: fill_run_eq hex8_digits_def nth_append)
    next
      case False
      then have "?n + i = 8 + (i - (8 - ?n))" "i - (8 - ?n) < ?n"
        using le that by (auto simp: hex8_digits_props(1))
      then show ?thesis
        using b(2) [of "i - (8 - ?n)"] False by (auto simp: fill_run_eq hex8_digits_def nth_append)
    qed
  qed
  then show ?thesis
    using b(1) len by (simp add: printf_hex_alt_def puts_at_def byte_of_char_def of_char_def)
qed

section \<open>What a format prints\<close>

text \<open>
  The reference semantics of a format: the list of bytes it denotes. \<open>fmt_bytes\<close> reads the
  format as a list of its characters.
\<close>

fun conv_bytes :: "u8 \<Rightarrow> bool \<Rightarrow> stack_arg \<Rightarrow> u8 list \<Rightarrow> nat \<times> u8 list" where
  "conv_bytes c alt arg str =
     (if c = 37 then (0, [37])
      else if c = 120 then (1, if alt then hex8_digits (arg_word arg) else itoa_digits 16 (arg_word arg))
      else if c = 117 then (1, itoa_digits 10 (arg_word arg))
      else if c = 100 then (1, signed_digits (arg_word arg))
      else if c = 99 then (1, [ucast (arg_word arg)])
      else if c = 115 then (1, str)
      else (0, []))"

fun fmt_bytes :: "u8 list \<Rightarrow> printf_mode \<Rightarrow> (nat \<Rightarrow> stack_arg) \<Rightarrow> (nat \<Rightarrow> u8 list) \<Rightarrow> nat \<Rightarrow> u8 list" where
  "fmt_bytes [] mode args strs e = []"
| "fmt_bytes (c # cs) Text args strs e =
     (if c = 37 then fmt_bytes cs (Conv False) args strs e else c # fmt_bytes cs Text args strs e)"
| "fmt_bytes (c # cs) (Conv alt) args strs e =
     (if c = 35 then fmt_bytes cs (Conv True) args strs e
      else case conv_bytes c alt (args e) (strs e) of
             (n, out) \<Rightarrow> out @ fmt_bytes cs Text args strs (e + n))"

text \<open>A format whose last conversion is complete: no percent sign before the terminator.\<close>

fun fmt_complete :: "u8 list \<Rightarrow> printf_mode \<Rightarrow> bool" where
  "fmt_complete [] mode = (mode = Text)"
| "fmt_complete (c # cs) Text = fmt_complete cs (if c = 37 then Conv False else Text)"
| "fmt_complete (c # cs) (Conv alt) = fmt_complete cs (if c = 35 then Conv True else Text)"

lemma printf_conv_prints:
  assumes "c = 115 \<Longrightarrow> NUL \<notin> set str \<and> (\<forall>i<length str. arg_str arg i = str ! i) \<and> arg_str arg (length str) = NUL"
  shows "printf_conv c alt arg junk t s =
    Some (fst (conv_bytes c alt arg str), print_bytes (snd (conv_bytes c alt arg str)) t s)"
proof (cases "c = 115")
  case True
  then show ?thesis
    using assms puts_list [of str "arg_str arg" t s]
    by (simp add: printf_conv_def byte_of_char_def of_char_def)
next
  case False
  then show ?thesis
    by (auto simp: printf_conv_def byte_of_char_def of_char_def printf_unsigned_prints
        printf_hex_prints printf_signed_prints printf_hex_alt_prints)
qed

lemma printf_from_prints:
  assumes "\<And>k. NUL \<notin> set (strs k) \<and> (\<forall>i<length (strs k). arg_str (args k) i = strs k ! i) \<and>
               arg_str (args k) (length (strs k)) = NUL"
    and "NUL \<notin> set cs" "\<And>j. j < length cs \<Longrightarrow> format (i + j) = cs ! j" "format (i + length cs) = NUL"
    and "fmt_complete cs mode"
  shows "printf_from format i mode args e junk t s =
    Some (i + length cs, print_bytes (fmt_bytes cs mode args strs e) t s)"
  using assms(2-)
proof (induction cs arbitrary: i mode e s)
  case Nil
  then show ?case by (subst printf_from.simps) simp
next
  case (Cons c cs)
  have c: "format i = c" "c \<noteq> NUL" using Cons.prems(2) [of 0] Cons.prems(1) by auto
  have rest: "NUL \<notin> set cs" "\<And>j. j < length cs \<Longrightarrow> format (Suc i + j) = cs ! j" "format (Suc i + length cs) = NUL"
    using Cons.prems(1,3) Cons.prems(2) [of "Suc _"] by auto
  show ?case
  proof (cases mode)
    case Text
    then show ?thesis
      using c Cons.prems(4) Cons.IH [OF rest]
      by (subst printf_from.simps) (auto simp: byte_of_char_def of_char_def)
  next
    case (Conv alt)
    have "printf_conv c alt (args e) junk t s = Some (fst (conv_bytes c alt (args e) (strs e)),
        print_bytes (snd (conv_bytes c alt (args e) (strs e))) t s)"
      using assms(1) [of e] by (intro printf_conv_prints)
    then show ?thesis
      using Conv c Cons.prems(4) Cons.IH [OF rest]
      by (subst printf_from.simps)
        (auto simp: byte_of_char_def of_char_def print_bytes_append case_prod_beta simp del: conv_bytes.simps
           split: prod.split)
  qed
qed

lemma printf_prints:
  assumes "is_cstring format n" "fmt_complete (run_of format 0 n) Text"
    and "\<And>k. is_cstring (arg_str (args k)) (len k)"
  shows "printf format args junk t s =
    Some (n, print_bytes (fmt_bytes (run_of format 0 n) Text args (\<lambda>k. run_of (arg_str (args k)) 0 (len k)) 0) t s)"
proof -
  have "NUL \<notin> set (run_of b 0 m)" if "is_cstring b m" for b m
    using that by (auto simp: run_of_def is_cstring_def)
  then show ?thesis
    unfolding printf_def using assms
    by (subst printf_from_prints [where cs = "run_of format 0 n" and strs = "\<lambda>k. run_of (arg_str (args k)) 0 (len k)"])
      (auto simp: is_cstring_def)
qed

lemma fmt_bytes_literal:
  "37 \<notin> set cs \<Longrightarrow> fmt_bytes cs Text args strs e = cs \<and> fmt_complete cs Text"
  by (induction cs) auto

lemma print_bytes_ok:
  "screen_ok s \<Longrightarrow> t < MAX_TERMINAL \<Longrightarrow>
   screen_ok (print_bytes cs t s) \<and> off_screen (print_bytes cs t s) = off_screen s"
  using con.put_all [of s t cs] by (simp add: print_bytes_def)

text \<open>The bytes of a literal, for the messages the kernel prints.\<close>

definition literal :: "string \<Rightarrow> bool" where
  "literal msg \<longleftrightarrow> NUL \<notin> set (map byte_of_char msg) \<and> 37 \<notin> set (map byte_of_char msg)"

lemma printf_literal:
  assumes "literal msg"
  shows "message msg t s = print_bytes (map byte_of_char msg) t s"
proof -
  let ?cs = "map byte_of_char msg"
  have "is_cstring (cstr msg) (length ?cs)"
    by (rule is_cstring_list) (use assms in \<open>auto simp: literal_def cstr_def\<close>)
  moreover have "run_of (cstr msg) 0 (length ?cs) = ?cs" by (auto simp: run_of_eq_iff cstr_def)
  ultimately have "printf (cstr msg) (\<lambda>_. num_arg 0) (\<lambda>_. NUL) t s = Some (length ?cs, print_bytes ?cs t s)"
    using fmt_bytes_literal [of ?cs] assms
    by (subst printf_prints [where len = "\<lambda>_. 0" and n = "length ?cs"])
      (auto simp: literal_def num_arg_def is_cstring_def)
  then show ?thesis by (simp add: message_def)
qed

section \<open>Properties\<close>

text \<open>
  C27. \<^verbatim>\<open>printf\<close> prints what its format denotes: it returns, reports the length of the format,
  and the characters that reach the screen are those of the reference semantics of the
  directives (decimal and hexadecimal numerals, zero-padded with \<^verbatim>\<open>#\<close>, characters, strings
  and percent signs), taking its arguments from successive stack slots.
\<close>

theorem printf_correct:
  assumes "is_cstring format n" "fmt_complete (run_of format 0 n) Text"
    and "\<And>k. is_cstring (arg_str (args k)) (len k)"
  shows "printf format args junk t s =
    Some (n, print_bytes (fmt_bytes (run_of format 0 n) Text args (\<lambda>k. run_of (arg_str (args k)) 0 (len k)) 0) t s)"
  using printf_prints [OF assms] .

theorem printf_correct_witness:
  "printf (cstr ''a%uz'') (\<lambda>_. num_arg 0) (\<lambda>_. 7) 1 blank_console =
     Some (4, print_bytes [97, 48, 122] 1 blank_console)"
proof -
  have a: "is_cstring (cstr ''a%uz'') 4" by code_simp
  have b: "run_of (cstr ''a%uz'') 0 4 = [97, 37, 117, 122]" by code_simp
  have c: "is_cstring (arg_str (num_arg 0)) 0" by (simp add: num_arg_def is_cstring_def)
  show ?thesis
    using printf_correct [of "cstr ''a%uz''" 4 "\<lambda>_. num_arg 0" "\<lambda>_. 0" "\<lambda>_. 7" 1 blank_console, OF a _ c]
    by (simp add: b num_arg_def itoa_digits_def)
qed

text \<open>
  \<^verbatim>\<open>%#x\<close> prints exactly eight hexadecimal digits, and they denote the argument.
\<close>

theorem printf_hex8:
  "\<exists>ds. printf_hex_alt w junk t s = Some (print_bytes ds t s) \<and> length ds = 8 \<and>
        read_radix 16 ds = unat w"
  using printf_hex_alt_prints hex8_digits_props by blast

end
