(* ===== verification/Filesystem.thy ===== *)
theory Filesystem
  imports LibString
begin

text \<open>
  The read-only file system of \<^verbatim>\<open>student-distrib/filesystem.c\<close>. The image is the memory
  the boot loader placed at \<^verbatim>\<open>boot_addr\<close>; the C structures of \<^verbatim>\<open>filesystem.h\<close> are an
  overlay on it, so every field access is a read at an offset that the structure layout
  determines. Pointers into the image are byte offsets from \<^verbatim>\<open>boot_addr\<close>.
\<close>

section \<open>Layout (filesystem.h)\<close>

definition MAX_NAME_CHARACTERS :: nat where "MAX_NAME_CHARACTERS = 32"
definition MAX_ENTRIES :: nat where "MAX_ENTRIES = 63"
definition MAX_CHARS_IN_DATA :: nat where "MAX_CHARS_IN_DATA = 4096"
definition MAX_INODE_DATA_BLOCKS :: nat where "MAX_INODE_DATA_BLOCKS = 1023"

lemmas fs_consts = MAX_NAME_CHARACTERS_def MAX_ENTRIES_def MAX_CHARS_IN_DATA_def
  MAX_INODE_DATA_BLOCKS_def

text \<open>
  \<^verbatim>\<open>sizeof\<close> of the structures: a name, two words and six reserved words; three words,
  thirteen reserved words and the entries; the size and the block indices.
\<close>

definition sizeof_dentry :: nat where "sizeof_dentry = MAX_NAME_CHARACTERS + 4 + 4 + 6 * 4"
definition offset_dir_entries :: nat where "offset_dir_entries = 4 + 4 + 4 + 13 * 4"
definition sizeof_boot_block :: nat where
  "sizeof_boot_block = offset_dir_entries + MAX_ENTRIES * sizeof_dentry"
definition sizeof_inode :: nat where "sizeof_inode = 4 + MAX_INODE_DATA_BLOCKS * 4"

lemma layout_sizes [simp]:
  "sizeof_dentry = 64" "offset_dir_entries = 64" "sizeof_boot_block = 4096" "sizeof_inode = 4096"
  by (simp_all add: sizeof_dentry_def offset_dir_entries_def sizeof_boot_block_def
      sizeof_inode_def fs_consts)

record dentry_t =
  file_name :: bytes
  file_type :: u32
  inode_idx :: u32

text \<open>The static variables of \<^verbatim>\<open>filesystem.c\<close> and the overlay pointers of \<^verbatim>\<open>filesystem.h\<close>.\<close>

record filesystem =
  boot_block :: bytes
  num_entries :: u32
  num_inodes :: u32
  num_data_blocks :: u32
  entries :: nat
  inodes :: nat
  data_blocks :: nat
  character_count :: "nat \<Rightarrow> nat"

section \<open>Overlay accesses\<close>

text \<open>\<^verbatim>\<open>entries[i].file_name\<close>, \<^verbatim>\<open>.file_type\<close> and \<^verbatim>\<open>.inode_idx\<close>\<close>

definition entry_file_name :: "filesystem \<Rightarrow> nat \<Rightarrow> bytes" where
  "entry_file_name fs i = (\<lambda>j. boot_block fs (entries fs + sizeof_dentry * i + j))"

definition entry_file_type :: "filesystem \<Rightarrow> nat \<Rightarrow> u32" where
  "entry_file_type fs i = u32_at (boot_block fs) (entries fs + sizeof_dentry * i + 32)"

definition entry_inode_idx :: "filesystem \<Rightarrow> nat \<Rightarrow> u32" where
  "entry_inode_idx fs i = u32_at (boot_block fs) (entries fs + sizeof_dentry * i + 36)"

text \<open>\<^verbatim>\<open>inodes[i].file_size\<close>, \<^verbatim>\<open>inodes[i].datablock_idx[k]\<close> and \<^verbatim>\<open>data_blocks[b].data[j]\<close>\<close>

definition inode_file_size :: "filesystem \<Rightarrow> nat \<Rightarrow> u32" where
  "inode_file_size fs i = u32_at (boot_block fs) (inodes fs + sizeof_inode * i)"

definition inode_datablock_idx :: "filesystem \<Rightarrow> nat \<Rightarrow> nat \<Rightarrow> u32" where
  "inode_datablock_idx fs i k = u32_at (boot_block fs) (inodes fs + sizeof_inode * i + 4 + 4 * k)"

definition data_byte :: "filesystem \<Rightarrow> nat \<Rightarrow> bytes" where
  "data_byte fs b = (\<lambda>j. boot_block fs (data_blocks fs + MAX_CHARS_IN_DATA * b + j))"

section \<open>Operations\<close>

text \<open>\<^verbatim>\<open>create_char_count\<close>: the name lengths of all 63 entries.\<close>

fun char_count_loop :: "filesystem \<Rightarrow> nat \<Rightarrow> nat \<Rightarrow> filesystem" where
  "char_count_loop fs dentry_loop 0 = fs"
| "char_count_loop fs dentry_loop (Suc k) =
     (let len = scan (\<lambda>j. entry_file_name fs dentry_loop j \<noteq> NUL) 0 MAX_NAME_CHARACTERS
      in char_count_loop (fs\<lparr>character_count := (character_count fs)(dentry_loop := len)\<rparr>)
           (Suc dentry_loop) k)"

definition create_char_count :: "filesystem \<Rightarrow> filesystem" where
  "create_char_count fs = char_count_loop fs 0 MAX_ENTRIES"

text \<open>
  \<^verbatim>\<open>filesystem_init\<close> on the image at \<^verbatim>\<open>boot_addr\<close>. (Its call of \<^verbatim>\<open>fops_table_init\<close> acts on the
  jump tables and is modelled with them.)
\<close>

definition filesystem_init :: "bytes \<Rightarrow> filesystem" where
  "filesystem_init boot_addr =
     (let n = u32_at boot_addr 4
      in create_char_count
           \<lparr>boot_block = boot_addr,
            num_entries = u32_at boot_addr 0,
            num_inodes = n,
            num_data_blocks = u32_at boot_addr 8,
            entries = offset_dir_entries,
            inodes = sizeof_boot_block,
            data_blocks = sizeof_boot_block + sizeof_inode * unat n,
            character_count = (\<lambda>_. 0)\<rparr>)"

text \<open>The dentry both lookups fill in: \<^verbatim>\<open>strncpy\<close> of the name, then type and inode.\<close>

definition fill_dentry :: "filesystem \<Rightarrow> nat \<Rightarrow> nat \<Rightarrow> dentry_t \<Rightarrow> dentry_t" where
  "fill_dentry fs i len dentry =
     dentry\<lparr>file_name := strncpy (file_name dentry) (entry_file_name fs i) len,
            file_type := entry_file_type fs i,
            inode_idx := entry_inode_idx fs i\<rparr>"

fun dentry_search :: "filesystem \<Rightarrow> bytes \<Rightarrow> nat \<Rightarrow> dentry_t \<Rightarrow> nat \<Rightarrow> nat \<Rightarrow> s32 \<times> dentry_t" where
  "dentry_search fs fname given_name_len dentry dentry_loop 0 = (FAIL, dentry)"
| "dentry_search fs fname given_name_len dentry dentry_loop (Suc k) =
     (let entry_name_len = character_count fs dentry_loop
      in if given_name_len = entry_name_len \<and>
            strncmp fname (entry_file_name fs dentry_loop) entry_name_len = 0
         then (0, fill_dentry fs dentry_loop entry_name_len dentry)
         else dentry_search fs fname given_name_len dentry (Suc dentry_loop) k)"

definition read_dentry_by_name :: "filesystem \<Rightarrow> bytes \<Rightarrow> dentry_t \<Rightarrow> s32 \<times> dentry_t" where
  "read_dentry_by_name fs fname dentry =
     (let l = scan (\<lambda>i. fname i \<noteq> SPACE \<and> fname i \<noteq> NUL) 0 MAX_NAME_CHARACTERS
      in if l = 0 then (FAIL, dentry)
         else let given_name_len = (if l > MAX_NAME_CHARACTERS then MAX_NAME_CHARACTERS else l)
              in dentry_search fs fname given_name_len dentry 0 MAX_ENTRIES)"

definition read_dentry_by_index :: "filesystem \<Rightarrow> u32 \<Rightarrow> dentry_t \<Rightarrow> s32 \<times> dentry_t" where
  "read_dentry_by_index fs index dentry =
     (if index > of_nat MAX_ENTRIES then (FAIL, dentry)
      else (0, fill_dentry fs (unat index) (character_count fs (unat index)) dentry))"

definition get_num_entries :: "filesystem \<Rightarrow> u32" where
  "get_num_entries fs = num_entries fs"

definition get_entry_name :: "filesystem \<Rightarrow> u32 \<Rightarrow> bytes" where
  "get_entry_name fs index = entry_file_name fs (unat index)"

text \<open>
  The block loop of \<^verbatim>\<open>read_data\<close>: for every block from \<^verbatim>\<open>start_block\<close> to \<^verbatim>\<open>end_block\<close>,
  fetch and check its index, copy bytes \<^verbatim>\<open>curr_byte\<close> up to the end of what is wanted of it.
\<close>

function read_blocks ::
  "filesystem \<Rightarrow> nat \<Rightarrow> nat \<Rightarrow> nat \<Rightarrow> nat \<Rightarrow> nat \<Rightarrow> nat \<Rightarrow> bytes \<Rightarrow> s32 \<times> bytes" where
  "read_blocks fs inode end_block end_offset block_loop curr_byte chars_read buf =
     (if block_loop \<le> end_block then
        let curr_data_block = inode_datablock_idx fs inode block_loop
        in if curr_data_block > num_data_blocks fs then
             (if chars_read = 0 then (FAIL, buf) else (of_nat chars_read, buf))
           else
             let end_of_block_byte = (if block_loop = end_block then end_offset else MAX_CHARS_IN_DATA);
                 n = end_of_block_byte - curr_byte
             in read_blocks fs inode end_block end_offset (Suc block_loop) 0 (chars_read + n)
                  (copy_run buf chars_read (data_byte fs (unat curr_data_block)) curr_byte n)
      else (of_nat chars_read, buf))"
  by pat_completeness auto
termination
  by (relation "measure (\<lambda>(fs, i, e, eo, b, cb, cr, buf). Suc e - b)") auto

definition read_data :: "filesystem \<Rightarrow> u32 \<Rightarrow> u32 \<Rightarrow> bytes \<Rightarrow> u32 \<Rightarrow> s32 \<times> bytes" where
  "read_data fs inode offset buf len =
     (if inode \<ge> num_inodes fs then (FAIL, buf)
      else let this_file_size = inode_file_size fs (unat inode)
           in if offset \<ge> this_file_size \<or> len = 0 then (0, buf)
              else let start_block = unat offset div MAX_CHARS_IN_DATA;
                       start_offset = unat offset mod MAX_CHARS_IN_DATA;
                       end_search = (if offset + len > this_file_size then this_file_size else offset + len);
                       end_block = unat end_search div MAX_CHARS_IN_DATA;
                       end_offset = unat end_search mod MAX_CHARS_IN_DATA
                   in read_blocks fs (unat inode) end_block end_offset start_block start_offset 0 buf)"

declare read_blocks.simps [simp del]

section \<open>Names\<close>

text \<open>The name of an entry and the name a caller asks for, as byte lists of at most 32.\<close>

definition entry_name :: "filesystem \<Rightarrow> nat \<Rightarrow> u8 list" where
  "entry_name fs i = takeWhile (\<lambda>c. c \<noteq> NUL) (run_of (entry_file_name fs i) 0 MAX_NAME_CHARACTERS)"

definition given_name :: "bytes \<Rightarrow> u8 list" where
  "given_name fname = takeWhile (\<lambda>c. c \<noteq> SPACE \<and> c \<noteq> NUL) (run_of fname 0 MAX_NAME_CHARACTERS)"

lemma scan_run_of: "scan (\<lambda>i. P (b i)) 0 n = length (takeWhile P (run_of b 0 n))"
proof -
  have "takeWhile P (map b [0..<n]) = map b (takeWhile (\<lambda>i. P (b i)) [0..<n])"
    by (simp add: takeWhile_map o_def)
  then show ?thesis by (simp add: scan_takeWhile run_of_def)
qed

lemma takeWhile_run_of:
  "takeWhile P (run_of b 0 n) = run_of b 0 (length (takeWhile P (run_of b 0 n)))"
proof (rule nth_equalityI)
  fix i assume i: "i < length (takeWhile P (run_of b 0 n))"
  moreover have "length (takeWhile P (run_of b 0 n)) \<le> n"
    using length_takeWhile_le [of P "run_of b 0 n"] by simp
  ultimately show "takeWhile P (run_of b 0 n) ! i = run_of b 0 (length (takeWhile P (run_of b 0 n))) ! i"
    by (simp add: takeWhile_nth)
qed simp

text \<open>The length table agrees with the entries.\<close>

definition counts_ok :: "filesystem \<Rightarrow> bool" where
  "counts_ok fs \<longleftrightarrow> (\<forall>i<MAX_ENTRIES. character_count fs i = length (entry_name fs i))"

lemma char_count_loop_eq:
  "char_count_loop fs i k =
     fs\<lparr>character_count := (\<lambda>j. if i \<le> j \<and> j < i + k then length (entry_name fs j)
                              else character_count fs j)\<rparr>"
proof (induction k arbitrary: fs i)
  case (Suc k)
  have e: "entry_name (fs\<lparr>character_count := c\<rparr>) = entry_name fs" for c
    by (simp add: entry_name_def entry_file_name_def fun_eq_iff)
  show ?case
    by (auto simp: Let_def Suc.IH e scan_run_of [where P = "\<lambda>c. c \<noteq> NUL"] fun_eq_iff
        simp flip: entry_name_def intro!: filesystem.equality)
next
  case 0
  have "(\<lambda>j. if i \<le> j \<and> j < i + 0 then length (entry_name fs j) else character_count fs j) =
      character_count fs"
    by auto
  then show ?case by (simp del: add_0_right)
qed

lemma counts_ok_init: "counts_ok (filesystem_init img)"
  by (simp add: counts_ok_def filesystem_init_def create_char_count_def char_count_loop_eq Let_def
      entry_name_def entry_file_name_def)

lemma dentry_search_eq:
  assumes "counts_ok fs" "i + k \<le> MAX_ENTRIES" "length (given_name fname) = n"
  shows "dentry_search fs fname n d i k =
    (case List.find (\<lambda>j. entry_name fs j = given_name fname) [i..<i + k] of
       None \<Rightarrow> (FAIL, d) | Some j \<Rightarrow> (0, fill_dentry fs j n d))"
  using assms(2)
proof (induction k arbitrary: i)
  case (Suc k)
  have cc: "character_count fs i = length (entry_name fs i)"
    using assms(1) Suc.prems by (simp add: counts_ok_def)
  have g: "given_name fname = run_of fname 0 n"
    and e: "run_of (entry_file_name fs i) 0 (length (entry_name fs i)) = entry_name fs i"
    using takeWhile_run_of [of "\<lambda>c. c \<noteq> SPACE \<and> c \<noteq> NUL" fname MAX_NAME_CHARACTERS]
      takeWhile_run_of [of "\<lambda>c. c \<noteq> NUL" "entry_file_name fs i" MAX_NAME_CHARACTERS] assms(3)
    by (simp_all add: given_name_def entry_name_def)
  have "fname j \<noteq> NUL" if "j < n" for j
  proof -
    have "given_name fname ! j \<in> set (given_name fname)" using that assms(3) by simp
    then have "given_name fname ! j \<noteq> NUL" by (auto simp: given_name_def dest: set_takeWhileD)
    then show ?thesis using that g by simp
  qed
  then have sc: "strncmp fname (entry_file_name fs i) n = 0 \<longleftrightarrow> given_name fname = run_of (entry_file_name fs i) 0 n"
    using g by (simp add: strncmp_nonul_0_iff)
  have m: "(n = character_count fs i \<and> strncmp fname (entry_file_name fs i) (character_count fs i) = 0)
      \<longleftrightarrow> entry_name fs i = given_name fname"
  proof (cases "n = length (entry_name fs i)")
    case True
    then have "run_of (entry_file_name fs i) 0 n = entry_name fs i" using e by simp
    then show ?thesis using True sc cc by metis
  next
    case False
    then show ?thesis using assms(3) by (auto simp: cc)
  qed
  have step: "dentry_search fs fname n d i (Suc k) =
      (if entry_name fs i = given_name fname then (0, fill_dentry fs i n d)
       else dentry_search fs fname n d (Suc i) k)"
    unfolding dentry_search.simps Let_def m using cc assms(3) by simp
  have u: "[i..<i + Suc k] = i # [Suc i..<Suc i + k]"
    by (simp add: upt_conv_Cons del: upt_Suc)
  show ?case
    unfolding step u using Suc.IH [of "Suc i"] Suc.prems by (simp del: upt_Suc)
qed simp

lemma lookup_eq:
  assumes "counts_ok fs"
  shows "read_dentry_by_name fs fname d =
     (if given_name fname = [] then (FAIL, d)
      else case List.find (\<lambda>k. entry_name fs k = given_name fname) [0..<MAX_ENTRIES] of
             None \<Rightarrow> (FAIL, d)
           | Some k \<Rightarrow> (0, fill_dentry fs k (length (given_name fname)) d))"
proof -
  have l: "scan (\<lambda>i. fname i \<noteq> SPACE \<and> fname i \<noteq> NUL) 0 MAX_NAME_CHARACTERS = length (given_name fname)"
    unfolding given_name_def by (rule scan_run_of [where P = "\<lambda>c. c \<noteq> SPACE \<and> c \<noteq> NUL"])
  have "length (given_name fname) \<le> MAX_NAME_CHARACTERS"
    using length_takeWhile_le [of _ "run_of fname 0 MAX_NAME_CHARACTERS"] by (simp add: given_name_def)
  then show ?thesis
    using dentry_search_eq [OF assms, of 0 MAX_ENTRIES fname _ d]
    by (simp add: read_dentry_by_name_def Let_def l)
qed

lemma given_name_run:
  assumes "\<And>j. j < n \<Longrightarrow> fname j \<noteq> SPACE \<and> fname j \<noteq> NUL" "fname n = SPACE \<or> fname n = NUL" "n < MAX_NAME_CHARACTERS"
  shows "given_name fname = run_of fname 0 n"
proof -
  have "scan (\<lambda>i. fname i \<noteq> SPACE \<and> fname i \<noteq> NUL) 0 MAX_NAME_CHARACTERS = n"
    by (rule scan_unique) (use assms in auto)
  then have "length (given_name fname) = n"
    using scan_run_of [of "\<lambda>c. c \<noteq> SPACE \<and> c \<noteq> NUL" fname MAX_NAME_CHARACTERS] by (simp add: given_name_def)
  then show ?thesis
    using takeWhile_run_of [of "\<lambda>c. c \<noteq> SPACE \<and> c \<noteq> NUL" fname MAX_NAME_CHARACTERS]
    by (simp add: given_name_def)
qed

lemma entry_name_run:
  assumes "\<And>j. j < n \<Longrightarrow> entry_file_name fs i j \<noteq> NUL" "entry_file_name fs i n = NUL" "n < MAX_NAME_CHARACTERS"
  shows "entry_name fs i = run_of (entry_file_name fs i) 0 n"
proof -
  have "scan (\<lambda>j. entry_file_name fs i j \<noteq> NUL) 0 MAX_NAME_CHARACTERS = n"
    by (rule scan_unique) (use assms in auto)
  then have "length (entry_name fs i) = n"
    using scan_run_of [of "\<lambda>c. c \<noteq> NUL" "entry_file_name fs i" MAX_NAME_CHARACTERS] by (simp add: entry_name_def)
  then show ?thesis
    using takeWhile_run_of [of "\<lambda>c. c \<noteq> NUL" "entry_file_name fs i" MAX_NAME_CHARACTERS]
    by (simp add: entry_name_def)
qed

section \<open>File contents\<close>

text \<open>
  The abstract view of a file: byte \<open>k\<close> lies in data block \<open>k div 4096\<close> of its inode. Its
  inode is sound when the index of every block that holds a byte of the file passes the
  bound check of \<^verbatim>\<open>read_data\<close>.
\<close>

definition file_size :: "filesystem \<Rightarrow> nat \<Rightarrow> nat" where
  "file_size fs i = unat (inode_file_size fs i)"

definition file_byte :: "filesystem \<Rightarrow> nat \<Rightarrow> bytes" where
  "file_byte fs i = (\<lambda>k. data_byte fs (unat (inode_datablock_idx fs i (k div MAX_CHARS_IN_DATA)))
                           (k mod MAX_CHARS_IN_DATA))"

definition contents :: "filesystem \<Rightarrow> nat \<Rightarrow> u8 list" where
  "contents fs i = run_of (file_byte fs i) 0 (file_size fs i)"

definition sound_inode :: "filesystem \<Rightarrow> nat \<Rightarrow> bool" where
  "sound_inode fs i \<longleftrightarrow>
     (\<forall>b \<le> file_size fs i div MAX_CHARS_IN_DATA.
        b * MAX_CHARS_IN_DATA < file_size fs i \<longrightarrow> inode_datablock_idx fs i b \<le> num_data_blocks fs)"

lemma sound_inodeD:
  "sound_inode fs i \<Longrightarrow> b * MAX_CHARS_IN_DATA < file_size fs i \<Longrightarrow>
   inode_datablock_idx fs i b \<le> num_data_blocks fs"
  by (auto simp: sound_inode_def fs_consts)

text \<open>One block: the bytes it contributes are file bytes at consecutive positions.\<close>

lemma file_byte_in_block:
  "j < MAX_CHARS_IN_DATA \<Longrightarrow>
   data_byte fs (unat (inode_datablock_idx fs i b)) j = file_byte fs i (b * MAX_CHARS_IN_DATA + j)"
  by (simp add: file_byte_def fs_consts)

text \<open>\<open>delivered\<close>: the buffer after \<open>n\<close> file bytes from \<open>pos\<close> went to index \<open>c\<close>.\<close>

definition delivered :: "filesystem \<Rightarrow> nat \<Rightarrow> nat \<Rightarrow> nat \<Rightarrow> nat \<Rightarrow> bytes \<Rightarrow> bytes" where
  "delivered fs i pos c n buf = (\<lambda>k. if c \<le> k \<and> k < c + n then file_byte fs i (pos + (k - c)) else buf k)"

lemma delivered_0 [simp]: "delivered fs i pos c 0 buf = buf"
  by (auto simp: delivered_def fun_eq_iff)

lemma delivered_append:
  "delivered fs i (pos + n) (c + n) m (delivered fs i pos c n buf) = delivered fs i pos c (n + m) buf"
  by (auto simp: delivered_def fun_eq_iff intro!: arg_cong [of _ _ "file_byte fs i"])

lemma copy_run_delivered:
  "cb + n \<le> MAX_CHARS_IN_DATA \<Longrightarrow>
   copy_run buf c (data_byte fs (unat (inode_datablock_idx fs i b))) cb n =
   delivered fs i (b * MAX_CHARS_IN_DATA + cb) c n buf"
  by (auto simp: copy_run_eq delivered_def fun_eq_iff file_byte_in_block add.assoc)

lemma block_advance:
  assumes "b \<le> e" "eo < MAX_CHARS_IN_DATA" "cb < MAX_CHARS_IN_DATA"
  shows "((if b = e then eo else MAX_CHARS_IN_DATA) - cb) + (e * MAX_CHARS_IN_DATA + eo - Suc b * MAX_CHARS_IN_DATA) =
    e * MAX_CHARS_IN_DATA + eo - (b * MAX_CHARS_IN_DATA + cb)"
proof (cases "b = e")
  case True
  then show ?thesis using assms(2) by simp
next
  case False
  then have "Suc b * MAX_CHARS_IN_DATA \<le> e * MAX_CHARS_IN_DATA + eo"
    using assms(1) mult_le_mono1 [of "Suc b" e MAX_CHARS_IN_DATA] by simp
  then show ?thesis using False assms(3) by simp
qed

lemma read_blocks_stop: "e < b \<Longrightarrow> read_blocks fs i e eo b cb c buf = (of_nat c, buf)"
  by (subst read_blocks.simps) simp

lemma read_blocks_next:
  "b \<le> e \<Longrightarrow> inode_datablock_idx fs i b \<le> num_data_blocks fs \<Longrightarrow> n = (if b = e then eo else MAX_CHARS_IN_DATA) - cb \<Longrightarrow>
   read_blocks fs i e eo b cb c buf =
     read_blocks fs i e eo (Suc b) 0 (c + n) (copy_run buf c (data_byte fs (unat (inode_datablock_idx fs i b))) cb n)"
  by (subst read_blocks.simps) (auto simp: Let_def not_less [symmetric])

lemma read_blocks_delivered:
  fixes e eo :: nat
  defines "E \<equiv> e * MAX_CHARS_IN_DATA + eo"
  assumes "cb < MAX_CHARS_IN_DATA" "eo < MAX_CHARS_IN_DATA"
    and "\<And>b'. b \<le> b' \<Longrightarrow> b' * MAX_CHARS_IN_DATA < E \<Longrightarrow> inode_datablock_idx fs i b' \<le> num_data_blocks fs"
    and "c > 0 \<or> b * MAX_CHARS_IN_DATA + cb < E \<or> e < b"
  shows "read_blocks fs i e eo b cb c buf =
    (let n = E - (b * MAX_CHARS_IN_DATA + cb)
     in (of_nat (c + n), delivered fs i (b * MAX_CHARS_IN_DATA + cb) c n buf))"
  using assms(2,4-)
proof (induction "Suc e - b" arbitrary: b cb c buf)
  case 0
  then have "Suc e * MAX_CHARS_IN_DATA \<le> b * MAX_CHARS_IN_DATA" by (intro mult_le_mono1) simp
  then have "E - (b * MAX_CHARS_IN_DATA + cb) = 0" using assms(3) by (simp add: E_def)
  then show ?case using 0 by (simp add: read_blocks_stop)
next
  case (Suc d)
  then have le: "b \<le> e" by auto
  let ?p = "b * MAX_CHARS_IN_DATA + cb"
  show ?case
  proof (cases "inode_datablock_idx fs i b \<le> num_data_blocks fs")
    case False
    then have "E \<le> b * MAX_CHARS_IN_DATA" using Suc.prems(2) [of b] by (meson not_le order_refl)
    then show ?thesis using False le Suc.prems(3) by (subst read_blocks.simps) (auto simp: Let_def)
  next
    case True
    define n where "n = (if b = e then eo else MAX_CHARS_IN_DATA) - cb"
    have adv: "n + (E - Suc b * MAX_CHARS_IN_DATA) = E - ?p"
      using block_advance [OF le assms(3) Suc.prems(1)] by (simp only: n_def E_def)
    have pos: "n > 0 \<and> ?p + n = Suc b * MAX_CHARS_IN_DATA \<or> b = e"
      using Suc.prems(1) by (auto simp: n_def)
    have cp: "copy_run buf c (data_byte fs (unat (inode_datablock_idx fs i b))) cb n = delivered fs i ?p c n buf"
      using Suc.prems(1) assms(3) by (intro copy_run_delivered) (auto simp: n_def)
    have "read_blocks fs i e eo b cb c buf = (let m = E - (Suc b * MAX_CHARS_IN_DATA + 0)
        in (of_nat (c + n + m), delivered fs i (Suc b * MAX_CHARS_IN_DATA + 0) (c + n) m (delivered fs i ?p c n buf)))"
      unfolding read_blocks_next [OF le True n_def] cp
      by (rule Suc.hyps(1)) (use Suc.hyps(2) Suc.prems(2) pos in \<open>auto simp: fs_consts\<close>)
    moreover have "delivered fs i (Suc b * MAX_CHARS_IN_DATA) (c + n) (E - Suc b * MAX_CHARS_IN_DATA) (delivered fs i ?p c n buf) =
        delivered fs i ?p c (n + (E - Suc b * MAX_CHARS_IN_DATA)) buf"
    proof (cases "b = e")
      case True
      then have "E - Suc b * MAX_CHARS_IN_DATA = 0" using assms(3) by (simp add: E_def)
      then show ?thesis by (simp only: delivered_0 add_0_right)
    next
      case False
      then show ?thesis using pos delivered_append [of fs i ?p n c _ buf] by metis
    qed
    ultimately show ?thesis by (simp only: Let_def add_0_right add.assoc [of c] adv)
  qed
qed

lemma read_data_delivered:
  assumes "inode < num_inodes fs" "sound_inode fs (unat inode)" "unat offset + unat len < 2 ^ 32"
  shows "read_data fs inode offset buf len =
    (let n = min (unat len) (file_size fs (unat inode) - unat offset)
     in (of_nat n, delivered fs (unat inode) (unat offset) 0 n buf))"
proof (cases "offset \<ge> inode_file_size fs (unat inode) \<or> len = 0")
  case True
  then show ?thesis
    using assms(1) by (auto simp: read_data_def Let_def file_size_def word_le_nat_alt word_less_nat_alt)
next
  case False
  let ?sz = "file_size fs (unat inode)"
  define E where "E = min (unat offset + unat len) ?sz"
  have off: "unat offset < ?sz" "unat len > 0"
    using False by (auto simp: file_size_def word_le_nat_alt unat_gt_0)
  have sum: "unat (offset + len) = unat offset + unat len"
    using assms(3) by (simp add: unat_word_ariths)
  have es: "unat (if offset + len > inode_file_size fs (unat inode) then inode_file_size fs (unat inode) else offset + len) = E"
    using sum by (auto simp: E_def file_size_def word_less_nat_alt)
  have E: "E div MAX_CHARS_IN_DATA * MAX_CHARS_IN_DATA + E mod MAX_CHARS_IN_DATA = E"
    and o: "unat offset div MAX_CHARS_IN_DATA * MAX_CHARS_IN_DATA + unat offset mod MAX_CHARS_IN_DATA = unat offset"
    by simp_all
  have lt: "unat offset < E" and Esz: "E \<le> ?sz" using off by (auto simp: E_def)
  have "read_data fs inode offset buf len =
      read_blocks fs (unat inode) (E div MAX_CHARS_IN_DATA) (E mod MAX_CHARS_IN_DATA)
        (unat offset div MAX_CHARS_IN_DATA) (unat offset mod MAX_CHARS_IN_DATA) 0 buf"
    using False assms(1) [unfolded not_le [symmetric]] by (simp only: read_data_def Let_def es if_False)
  also have "\<dots> = (let n = E - unat offset in (of_nat (0 + n), delivered fs (unat inode) (unat offset) 0 n buf))"
  proof -
    have M: "MAX_CHARS_IN_DATA > 0" by (simp add: fs_consts)
    show ?thesis
      using read_blocks_delivered [of "unat offset mod MAX_CHARS_IN_DATA" "E mod MAX_CHARS_IN_DATA"
          "unat offset div MAX_CHARS_IN_DATA" "E div MAX_CHARS_IN_DATA" fs "unat inode" 0 buf]
        lt Esz sound_inodeD [OF assms(2)] M
      unfolding E o by auto
  qed
  also have "E - unat offset = min (unat len) (?sz - unat offset)"
    using off by (auto simp: E_def)
  finally show ?thesis by (simp add: Let_def)
qed

text \<open>
  Without any assumption on the image: what \<^verbatim>\<open>read_data\<close> can write and return.
\<close>

text \<open>A result of \<open>read_blocks\<close> that changed the buffer in at most \<open>x\<close> places from \<open>c\<close> on, and its count.\<close>

definition within :: "bytes \<Rightarrow> nat \<Rightarrow> nat \<Rightarrow> s32 \<times> bytes \<Rightarrow> bool" where
  "within buf c x r \<longleftrightarrow> (\<forall>k. k < c \<or> c + x \<le> k \<longrightarrow> snd r k = buf k) \<and> (fst r = FAIL \<or> (\<exists>n \<le> c + x. fst r = of_nat n))"

lemma within_stop: "within buf c x (of_nat c, buf)" "within buf c x (FAIL, buf)"
  by (auto simp: within_def intro!: exI [of _ c])

lemma within_copy: "within (copy_run buf c g cb n) (c + n) x r \<Longrightarrow> within buf c (n + x) r"
  by (auto simp: within_def copy_run_eq add.assoc)

lemma read_blocks_within:
  assumes "eo < MAX_CHARS_IN_DATA" "cb < MAX_CHARS_IN_DATA"
  shows "within buf c (e * MAX_CHARS_IN_DATA + eo - (b * MAX_CHARS_IN_DATA + cb)) (read_blocks fs i e eo b cb c buf)"
  using assms(2)
proof (induction "Suc e - b" arbitrary: b cb c buf)
  case 0
  then show ?case by (simp add: read_blocks_stop within_stop)
next
  case (Suc d)
  then have le: "b \<le> e" by auto
  show ?case
  proof (cases "inode_datablock_idx fs i b > num_data_blocks fs")
    case True
    then show ?thesis using le by (subst read_blocks.simps) (simp add: Let_def within_stop)
  next
    case False
    let ?n = "(if b = e then eo else MAX_CHARS_IN_DATA) - cb"
    let ?buf = "copy_run buf c (data_byte fs (unat (inode_datablock_idx fs i b))) cb ?n"
    have "read_blocks fs i e eo b cb c buf = read_blocks fs i e eo (Suc b) 0 (c + ?n) ?buf"
      using read_blocks_next [OF le _ refl] False by (simp only: not_less)
    moreover have "within ?buf (c + ?n) (e * MAX_CHARS_IN_DATA + eo - (Suc b * MAX_CHARS_IN_DATA + 0)) (read_blocks fs i e eo (Suc b) 0 (c + ?n) ?buf)"
      by (rule Suc.hyps(1)) (use Suc.hyps(2) in \<open>auto simp: fs_consts\<close>)
    ultimately show ?thesis
      using within_copy block_advance [OF le assms(1) Suc.prems] by (metis add_0_right)
  qed
qed

lemma read_blocks_bounds:
  fixes e eo :: nat
  defines "E \<equiv> e * MAX_CHARS_IN_DATA + eo"
  assumes "eo < MAX_CHARS_IN_DATA" "cb < MAX_CHARS_IN_DATA"
  shows "(k < c \<or> c + (E - (b * MAX_CHARS_IN_DATA + cb)) \<le> k \<longrightarrow>
            snd (read_blocks fs i e eo b cb c buf) k = buf k) \<and>
         (fst (read_blocks fs i e eo b cb c buf) = FAIL \<or>
          (\<exists>n \<le> c + (E - (b * MAX_CHARS_IN_DATA + cb)). fst (read_blocks fs i e eo b cb c buf) = of_nat n))"
  using read_blocks_within [OF assms(2,3), of buf c e b fs i] unfolding E_def within_def by blast

lemma read_data_bounds:
  "(unat len \<le> k \<longrightarrow> snd (read_data fs inode offset buf len) k = buf k) \<and>
   (fst (read_data fs inode offset buf len) = FAIL \<or> fst (read_data fs inode offset buf len) \<le> len)"
proof (cases "inode \<ge> num_inodes fs \<or> offset \<ge> inode_file_size fs (unat inode) \<or> len = 0")
  case True
  then show ?thesis by (auto simp: read_data_def Let_def)
next
  case False
  define es where "es = (if offset + len > inode_file_size fs (unat inode) then inode_file_size fs (unat inode) else offset + len)"
  have rd: "read_data fs inode offset buf len =
      read_blocks fs (unat inode) (unat es div MAX_CHARS_IN_DATA) (unat es mod MAX_CHARS_IN_DATA)
        (unat offset div MAX_CHARS_IN_DATA) (unat offset mod MAX_CHARS_IN_DATA) 0 buf"
    using False by (simp only: read_data_def Let_def es_def if_False de_Morgan_disj simp_thms)
  have "unat es \<le> unat (offset + len)"
    by (auto simp: es_def word_less_nat_alt)
  moreover have "unat (offset + len) \<le> unat offset + unat len"
    by (simp add: unat_word_ariths)
  ultimately have n: "unat es - unat offset \<le> unat len" by simp
  have M: "MAX_CHARS_IN_DATA > 0" by (simp add: fs_consts)
  have "(k < 0 \<or> 0 + (unat es - unat offset) \<le> k \<longrightarrow> snd (read_data fs inode offset buf len) k = buf k) \<and>
     (fst (read_data fs inode offset buf len) = FAIL \<or>
      (\<exists>m \<le> 0 + (unat es - unat offset). fst (read_data fs inode offset buf len) = of_nat m))"
    using read_blocks_bounds [of "unat es mod MAX_CHARS_IN_DATA" "unat offset mod MAX_CHARS_IN_DATA" k 0
        "unat es div MAX_CHARS_IN_DATA" "unat offset div MAX_CHARS_IN_DATA" fs "unat inode" buf] M
    unfolding rd by simp
  moreover have "of_nat m \<le> len" if "m \<le> unat es - unat offset" for m
    using that n unat_u32_less [of len] by (simp add: word_le_nat_alt unat_of_nat)
  ultimately show ?thesis using n by auto
qed

section \<open>Properties\<close>

text \<open>
  C22. Looking a file up by name: after \<^verbatim>\<open>filesystem_init\<close>, \<^verbatim>\<open>read_dentry_by_name\<close> returns 0
  exactly when one of the 63 directory slots carries the name asked for (the bytes before
  the first space or NUL, at most 32), and then fills the dentry from the first such slot;
  an empty name or an unknown one gives \<open>-1\<close> and leaves the dentry alone.
\<close>

theorem read_dentry_by_name_spec:
  "read_dentry_by_name (filesystem_init img) fname d =
     (if given_name fname = [] then (FAIL, d)
      else case List.find (\<lambda>k. entry_name (filesystem_init img) k = given_name fname) [0..<MAX_ENTRIES] of
             None \<Rightarrow> (FAIL, d)
           | Some k \<Rightarrow> (0, fill_dentry (filesystem_init img) k (length (given_name fname)) d))"
  using lookup_eq [OF counts_ok_init] .

text \<open>
  C21. Reading a file: for a valid inode whose blocks pass the bound check and a request
  that does not overflow 32 bits, \<^verbatim>\<open>read_data\<close> returns how many of the requested bytes the
  file has from \<open>offset\<close> on, has put exactly those bytes at the front of the buffer, and
  has left the rest of the buffer alone. Reads may start and end anywhere, also exactly on
  a block boundary, where the code looks at one more block index than it needs.
\<close>

theorem read_data_correct:
  assumes "inode < num_inodes fs" "sound_inode fs (unat inode)" "unat offset + unat len < 2 ^ 32"
  shows "read_data fs inode offset buf len =
    (let bs = take (unat len) (drop (unat offset) (contents fs (unat inode)))
     in (of_nat (length bs), \<lambda>k. if k < length bs then bs ! k else buf k))"
  unfolding read_data_delivered [OF assms]
  by (auto simp: Let_def delivered_def contents_def min.commute fun_eq_iff)

text \<open>
  A small image for the witnesses: one inode and one data block; slot 0 is the directory
  \<^verbatim>\<open>.\<close>, slot 1 a file \<^verbatim>\<open>sh\<close> of 40 bytes with entry point \<open>0x41414141\<close>, which starts with the
  ELF magic number when the byte \<open>m\<close> is 127.
\<close>

definition demo_image :: "u8 \<Rightarrow> bytes" where
  "demo_image m a =
     (if a = 0 then 2 else if a = 4 then 1 else if a = 8 then 1
      else if a = 64 then 46 else if a = 96 then 1
      else if a = 128 then 115 else if a = 129 then 104 else if a = 160 then 2
      else if a = 4096 then 40
      else if a = 8192 then m else if a = 8193 then 69 else if a = 8194 then 76 else if a = 8195 then 70
      else if 8192 \<le> a then 65 else 0)"

definition demo_fs :: "u8 \<Rightarrow> filesystem" where
  "demo_fs m = filesystem_init (demo_image m)"

lemma demo_fs_fields:
  "num_inodes (demo_fs m) = 1" "num_entries (demo_fs m) = 2" "num_data_blocks (demo_fs m) = 1"
  "entries (demo_fs m) = 64" "inodes (demo_fs m) = 4096" "data_blocks (demo_fs m) = 8192"
  "boot_block (demo_fs m) = demo_image m"
  by (simp_all add: demo_fs_def filesystem_init_def create_char_count_def char_count_loop_eq Let_def
      u32_at_def le32_def demo_image_def)

lemma demo_fs_inode: "inode_file_size (demo_fs m) 0 = 40" "inode_datablock_idx (demo_fs m) 0 0 = 0"
  by (simp_all add: inode_file_size_def inode_datablock_idx_def demo_fs_fields u32_at_def le32_def
      demo_image_def)

lemma demo_fs_sound: "sound_inode (demo_fs m) 0" and demo_fs_size: "file_size (demo_fs m) 0 = 40"
  by (simp_all add: sound_inode_def file_size_def demo_fs_inode demo_fs_fields fs_consts)

lemma demo_fs_lookup:
  assumes "fname 0 = 115" "fname 1 = 104" "fname 2 = NUL"
  shows "read_dentry_by_name (demo_fs m) fname d = (0, fill_dentry (demo_fs m) 1 2 d)"
    and "entry_file_type (demo_fs m) 1 = 2" "entry_inode_idx (demo_fs m) 1 = 0"
proof -
  have two: "run_of b 0 2 = [b 0, b 1]" for b by (simp add: run_of_def upt_rec)
  have "fname j \<noteq> SPACE \<and> fname j \<noteq> NUL" if "j < 2" for j using less_2_cases [OF that] assms by auto
  then have g: "given_name fname = [115, 104]"
    using given_name_run [of 2 fname] assms by (simp add: two fs_consts)
  have n: "entry_file_name (demo_fs m) 1 0 = 115" "entry_file_name (demo_fs m) 1 1 = 104" "entry_file_name (demo_fs m) 1 2 = NUL"
    "entry_file_name (demo_fs m) 0 0 = 46" "entry_file_name (demo_fs m) 0 1 = NUL"
    by (simp_all add: entry_file_name_def demo_fs_fields demo_image_def)
  have "entry_file_name (demo_fs m) 1 j \<noteq> NUL" if "j < 2" for j using less_2_cases [OF that] n by auto
  then have e1: "entry_name (demo_fs m) 1 = [115, 104]"
    using entry_name_run [of 2 "demo_fs m" 1] n by (simp add: two fs_consts)
  have e0: "entry_name (demo_fs m) 0 = [46]"
    using entry_name_run [of 1 "demo_fs m" 0] n by (simp add: run_of_def fs_consts)
  note e = e0 e1 [unfolded One_nat_def]
  have "[0..<MAX_ENTRIES] = 0 # 1 # [2..<MAX_ENTRIES]" by (simp add: fs_consts upt_conv_Cons)
  then show "read_dentry_by_name (demo_fs m) fname d = (0, fill_dentry (demo_fs m) 1 2 d)"
    using lookup_eq [of "demo_fs m" fname d] counts_ok_init [of "demo_image m"] by (simp add: g e demo_fs_def [symmetric] numeral_2_eq_2)
  show "entry_file_type (demo_fs m) 1 = 2" "entry_inode_idx (demo_fs m) 1 = 0"
    by (simp_all add: entry_file_type_def entry_inode_idx_def demo_fs_fields fs_consts u32_at_def le32_def demo_image_def)
qed

theorem read_data_correct_witness:
  "fst (read_data (demo_fs 127) 0 30 (\<lambda>_. 0) 500) = 10 \<and> snd (read_data (demo_fs 127) 0 0 (\<lambda>_. 0) 3) 1 = 69"
proof -
  have c: "contents (demo_fs 127) 0 ! Suc 0 = 69" "length (contents (demo_fs 127) 0) = 40"
    by (simp_all add: contents_def demo_fs_size file_byte_def data_byte_def demo_fs_inode
        demo_fs_fields fs_consts demo_image_def)
  show ?thesis
    using read_data_correct [of 0 "demo_fs 127" 30 500 "\<lambda>_. 0"] read_data_correct [of 0 "demo_fs 127" 0 3 "\<lambda>_. 0"]
    by (simp add: demo_fs_sound demo_fs_fields c Let_def)
qed

text \<open>
  C23. Memory safety of \<^verbatim>\<open>read_data\<close>, for every image, however corrupt, and every argument,
  including sums that wrap: it never writes past the \<open>len\<close> bytes the caller allowed, and
  never reports more than \<open>len\<close> bytes.
\<close>

theorem read_data_safe:
  "(\<forall>k. k < unat len \<or> snd (read_data fs inode offset buf len) k = buf k) \<and>
   (fst (read_data fs inode offset buf len) = FAIL \<or> fst (read_data fs inode offset buf len) \<le> len)"
  using read_data_bounds [of len _ fs inode offset buf] not_less by blast

text \<open>
  \<^verbatim>\<open>read_dentry_by_index\<close> compares with \<^verbatim>\<open>>\<close> where the table ends at 62: index 63 is
  accepted, and the entry it then returns is not one of the directory's but the first bytes
  of inode 0 read as a dentry.
\<close>

theorem read_dentry_by_index_past_end:
  "fst (read_dentry_by_index (filesystem_init img) 63 d) = 0 \<and>
   file_type (snd (read_dentry_by_index (filesystem_init img) 63 d)) =
     inode_datablock_idx (filesystem_init img) 0 7 \<and>
   entry_file_name (filesystem_init img) 63 j = img (inodes (filesystem_init img) + j)"
  by (simp add: read_dentry_by_index_def fill_dentry_def entry_file_type_def inode_datablock_idx_def
      entry_file_name_def filesystem_init_def create_char_count_def char_count_loop_eq Let_def fs_consts)

end
