(* ===== verification/FdTable.thy ===== *)
theory FdTable
  imports Console
begin

text \<open>
  The process controller's data (\<^verbatim>\<open>syscall.h\<close>, \<^verbatim>\<open>terminal.h\<close>, \<^verbatim>\<open>lib.h\<close>) and the file descriptor
  tables kept in the process control blocks (\<^verbatim>\<open>fd_table.c\<close>, \<^verbatim>\<open>fd_table.h\<close>).
  Arrays are functions of an \<^verbatim>\<open>int\<close> index, as C subscripts are, so that an index that leaves
  the array is an ordinary access of the model; the operations' own range checks are theirs.
  The globals that the code reaches by pointer are stored by pointer: \<open>process_array\<close> holds
  addresses and \<open>pcbs\<close> is the block stored at each address.
\<close>

section \<open>Data\<close>

definition MAX_OPEN_FILES :: nat where "MAX_OPEN_FILES = 8"
definition FIRST_VALID_INDEX :: nat where "FIRST_VALID_INDEX = 2"
definition FD_OFF :: u32 where "FD_OFF = 0"
definition FD_ON :: u32 where "FD_ON = 1"
definition STDIN_IDX :: int where "STDIN_IDX = 0"
definition STDOUT_IDX :: int where "STDOUT_IDX = 1"
definition MAX_PROCESSES :: nat where "MAX_PROCESSES = 8"
definition K_STACK_BOTTOM :: u32 where "K_STACK_BOTTOM = 0x00800000"
definition PROCESS_SIZE :: u32 where "PROCESS_SIZE = 0x00002000"

lemmas fd_consts = MAX_OPEN_FILES_def FIRST_VALID_INDEX_def FD_OFF_def FD_ON_def STDIN_IDX_def STDOUT_IDX_def
  MAX_PROCESSES_def

text \<open>The functions a jump table can point to, and the five tables (with the null pointer).\<close>

datatype fop =
    Null_fop
  | Rtc_open | Rtc_read | Rtc_write | Rtc_close
  | File_open | File_read | File_write | File_close
  | Dir_open | Dir_read | Dir_write | Dir_close
  | Terminal_open | Terminal_read | Terminal_write | Terminal_close
  | Keyboard_open | Keyboard_read | Keyboard_write | Keyboard_close

datatype ops_ptr = NULL_ops | rtc_ops_table | filesys_ops_table | dir_ops_table | kybd_ops_table | term_ops_table

record fd_op_table_t =
  op_open :: fop
  op_read :: fop
  op_write :: fop
  op_close :: fop

record fd_t =
  fd_jump :: ops_ptr
  inode_ptr :: s32
  file_position :: u32
  flags :: u32

type_synonym fd_table_t = "int \<Rightarrow> fd_t"

record pcb =
  process_id :: u8
  parent_id :: int
  current_esp :: u32
  current_ebp :: u32
  return_esp :: u32
  return_ebp :: u32
  pcb_args :: bytes
  fd_table :: fd_table_t

record procs =
  curr_terminal :: nat
  old_terminal :: nat
  current_process :: "nat \<Rightarrow> int"
  process_array :: "int \<Rightarrow> u32"
  in_use :: "int \<Rightarrow> int"
  pcbs :: "u32 \<Rightarrow> pcb"
  ops_tables :: "ops_ptr \<Rightarrow> fd_op_table_t"
  cmd_args :: "nat \<Rightarrow> bytes"
  extended_status :: u32
  exception_flag :: u32

section \<open>The process controller\<close>

fun clear_terminals :: "(nat \<Rightarrow> int) \<Rightarrow> nat \<Rightarrow> nat \<Rightarrow> (nat \<Rightarrow> int)" where
  "clear_terminals cp cnt 0 = cp"
| "clear_terminals cp cnt (Suc k) = clear_terminals (cp(cnt := -1)) (Suc cnt) k"

fun clear_processes :: "procs \<Rightarrow> int \<Rightarrow> nat \<Rightarrow> procs" where
  "clear_processes p cnt 0 = p"
| "clear_processes p cnt (Suc k) =
     clear_processes (p\<lparr>process_array := (process_array p)(cnt := 0), in_use := (in_use p)(cnt := 0)\<rparr>) (cnt + 1) k"

definition pc_init :: "procs \<Rightarrow> procs" where
  "pc_init p =
     clear_processes
       (p\<lparr>curr_terminal := 0, current_process := clear_terminals (current_process p) 0 MAX_TERMINAL\<rparr>)
       0 MAX_PROCESSES"

definition terminal_init :: "procs \<Rightarrow> s32 \<times> procs" where
  "terminal_init p = (0, p\<lparr>in_use := (in_use p)(0 := 0, 1 := 1, 2 := 1)\<rparr>)"

text \<open>\<^verbatim>\<open>process_array[current_process[curr_terminal]]\<close>, what it points to, and storing there.\<close>

definition cur_ptr :: "procs \<Rightarrow> u32" where
  "cur_ptr p = process_array p (current_process p (curr_terminal p))"

definition cur_pcb :: "procs \<Rightarrow> pcb" where
  "cur_pcb p = pcbs p (cur_ptr p)"

definition set_cur_pcb :: "pcb \<Rightarrow> procs \<Rightarrow> procs" where
  "set_cur_pcb b p = p\<lparr>pcbs := (pcbs p)(cur_ptr p := b)\<rparr>"

definition cur_fds :: "procs \<Rightarrow> fd_table_t" where
  "cur_fds p = fd_table (cur_pcb p)"

definition set_cur_fds :: "fd_table_t \<Rightarrow> procs \<Rightarrow> procs" where
  "set_cur_fds ft p = set_cur_pcb ((cur_pcb p)\<lparr>fd_table := ft\<rparr>) p"

section \<open>The descriptor table\<close>

definition fops_table_init :: "procs \<Rightarrow> procs" where
  "fops_table_init p = p\<lparr>ops_tables := (ops_tables p)
     (rtc_ops_table := \<lparr>op_open = Rtc_open, op_read = Rtc_read, op_write = Rtc_write, op_close = Rtc_close\<rparr>,
      filesys_ops_table := \<lparr>op_open = File_open, op_read = File_read, op_write = File_write, op_close = File_close\<rparr>,
      dir_ops_table := \<lparr>op_open = Dir_open, op_read = Dir_read, op_write = Dir_write, op_close = Dir_close\<rparr>,
      term_ops_table := \<lparr>op_open = Terminal_open, op_read = Terminal_read, op_write = Terminal_write, op_close = Terminal_close\<rparr>,
      kybd_ops_table := \<lparr>op_open = Keyboard_open, op_read = Keyboard_read, op_write = Keyboard_write, op_close = Keyboard_close\<rparr>)\<rparr>"

definition empty_fd :: fd_t where
  "empty_fd = \<lparr>fd_jump = NULL_ops, inode_ptr = - 1, file_position = 0, flags = FD_OFF\<rparr>"

fun clear_fds :: "fd_table_t \<Rightarrow> int \<Rightarrow> nat \<Rightarrow> fd_table_t" where
  "clear_fds new_table i 0 = new_table"
| "clear_fds new_table i (Suc k) = clear_fds (new_table(i := empty_fd)) (i + 1) k"

definition fd_table_init :: "fd_table_t \<Rightarrow> fd_table_t" where
  "fd_table_init new_table =
     (let t0 = clear_fds new_table 0 MAX_OPEN_FILES;
          t1 = t0(STDOUT_IDX := (t0 STDOUT_IDX)\<lparr>flags := FD_ON, fd_jump := term_ops_table\<rparr>)
      in t1(STDIN_IDX := (t1 STDIN_IDX)\<lparr>flags := FD_ON, fd_jump := kybd_ops_table\<rparr>))"

definition close_all_fd :: "procs \<Rightarrow> procs" where
  "close_all_fd p = set_cur_fds (clear_fds (cur_fds p) 0 MAX_OPEN_FILES) p"

fun get_fd_from :: "fd_table_t \<Rightarrow> nat \<Rightarrow> nat \<Rightarrow> s32" where
  "get_fd_from ft i 0 = FAIL"
| "get_fd_from ft i (Suc k) = (if flags (ft (int i)) = FD_OFF then of_nat i else get_fd_from ft (Suc i) k)"

definition get_fd_index :: "procs \<Rightarrow> s32" where
  "get_fd_index p = get_fd_from (cur_fds p) FIRST_VALID_INDEX (MAX_OPEN_FILES - FIRST_VALID_INDEX)"

text \<open>The range check that most operations start with.\<close>

definition bad_index :: "s32 \<Rightarrow> bool" where
  "bad_index index \<longleftrightarrow> sint index < 0 \<or> sint index \<ge> int MAX_OPEN_FILES"

definition set_fd_info :: "s32 \<Rightarrow> fd_t \<Rightarrow> procs \<Rightarrow> s32 \<times> procs" where
  "set_fd_info index file_info p =
     (if bad_index index then (FAIL, p)
      else (0, set_cur_fds ((cur_fds p)(sint index := file_info)) p))"

definition get_inode_ptr :: "s32 \<Rightarrow> procs \<Rightarrow> s32" where
  "get_inode_ptr index p = (if bad_index index then FAIL else inode_ptr (cur_fds p (sint index)))"

definition close_fd :: "s32 \<Rightarrow> procs \<Rightarrow> procs" where
  "close_fd index p =
     (if bad_index index then p else set_cur_fds ((cur_fds p)(sint index := empty_fd)) p)"

definition get_file_position :: "s32 \<Rightarrow> procs \<Rightarrow> u32" where
  "get_file_position index p = file_position (cur_fds p (sint index))"

definition add_offset :: "s32 \<Rightarrow> u32 \<Rightarrow> procs \<Rightarrow> procs" where
  "add_offset index amt p =
     (if bad_index index then p
      else let f = cur_fds p (sint index)
           in set_cur_fds ((cur_fds p)(sint index := f\<lparr>file_position := file_position f + amt\<rparr>)) p)"

definition check_valid_fd :: "s32 \<Rightarrow> procs \<Rightarrow> u32" where
  "check_valid_fd index p = (if bad_index index then 0 else flags (cur_fds p (sint index)))"

section \<open>Framing\<close>

lemma set_cur_pcb_simps [simp]:
  "curr_terminal (set_cur_pcb b p) = curr_terminal p"
  "old_terminal (set_cur_pcb b p) = old_terminal p"
  "current_process (set_cur_pcb b p) = current_process p"
  "process_array (set_cur_pcb b p) = process_array p"
  "in_use (set_cur_pcb b p) = in_use p"
  "ops_tables (set_cur_pcb b p) = ops_tables p"
  "cmd_args (set_cur_pcb b p) = cmd_args p"
  "extended_status (set_cur_pcb b p) = extended_status p"
  "exception_flag (set_cur_pcb b p) = exception_flag p"
  "pcbs (set_cur_pcb b p) = (pcbs p)(cur_ptr p := b)"
  "cur_ptr (set_cur_pcb b p) = cur_ptr p"
  "cur_pcb (set_cur_pcb b p) = b"
  by (simp_all add: set_cur_pcb_def cur_ptr_def cur_pcb_def)

lemma set_cur_fds_simps [simp]:
  "curr_terminal (set_cur_fds ft p) = curr_terminal p"
  "current_process (set_cur_fds ft p) = current_process p"
  "process_array (set_cur_fds ft p) = process_array p"
  "in_use (set_cur_fds ft p) = in_use p"
  "ops_tables (set_cur_fds ft p) = ops_tables p"
  "cur_ptr (set_cur_fds ft p) = cur_ptr p"
  "cur_fds (set_cur_fds ft p) = ft"
  by (simp_all add: set_cur_fds_def cur_fds_def)

lemma set_cur_fds_same [simp]: "set_cur_fds (cur_fds p) p = p"
  by (simp add: set_cur_fds_def cur_fds_def set_cur_pcb_def cur_pcb_def)

lemma set_cur_fds_twice [simp]: "set_cur_fds ft (set_cur_fds ft' p) = set_cur_fds ft p"
proof -
  have "cur_ptr (p\<lparr>pcbs := f\<rparr>) = cur_ptr p" for f by (simp add: cur_ptr_def)
  then show ?thesis by (simp add: set_cur_fds_def cur_pcb_def set_cur_pcb_def)
qed

text \<open>Other processes' blocks are never touched by a descriptor operation.\<close>

definition others :: "procs \<Rightarrow> u32 \<Rightarrow> pcb" where
  "others p = (pcbs p)(cur_ptr p := undefined)"

lemma others_set_cur_fds [simp]: "others (set_cur_fds ft p) = others p"
  by (simp add: others_def set_cur_fds_def)

section \<open>Closed forms\<close>

lemma clear_fds_eq:
  "clear_fds ft i k = (\<lambda>j. if i \<le> j \<and> j < i + int k then empty_fd else ft j)"
proof (induction k arbitrary: ft i)
  case (Suc k)
  show ?case by (rule ext) (auto simp: Suc.IH)
qed (auto simp: fun_eq_iff)

lemma clear_terminals_eq:
  "clear_terminals cp c k = (\<lambda>t. if c \<le> t \<and> t < c + k then -1 else cp t)"
proof (induction k arbitrary: cp c)
  case (Suc k)
  show ?case by (rule ext) (auto simp: Suc.IH)
qed (auto simp: fun_eq_iff)

lemma clear_processes_eq:
  "clear_processes p c k =
     p\<lparr>process_array := (\<lambda>i. if c \<le> i \<and> i < c + int k then 0 else process_array p i),
       in_use := (\<lambda>i. if c \<le> i \<and> i < c + int k then 0 else in_use p i)\<rparr>"
proof (induction k arbitrary: p c)
  case (Suc k)
  have "(\<lambda>i. if c + 1 \<le> i \<and> i < c + 1 + int k then 0 else if i = c then 0 else process_array p i) =
        (\<lambda>i. if c \<le> i \<and> i < c + (1 + int k) then 0 else process_array p i)"
    "(\<lambda>i. if c + 1 \<le> i \<and> i < c + 1 + int k then 0 else if i = c then 0 else in_use p i) =
        (\<lambda>i. if c \<le> i \<and> i < c + (1 + int k) then 0 else in_use p i)"
    by (auto simp: fun_eq_iff)
  then show ?case by (simp add: Suc.IH cong: if_cong)
next
  case 0
  have e: "(c \<le> i \<and> i < c) = False" for i by auto
  show ?case by (simp add: e)
qed

lemma fd_table_init_eq:
  "fd_table_init ft j =
     (if j = 0 then empty_fd\<lparr>flags := FD_ON, fd_jump := kybd_ops_table\<rparr>
      else if j = 1 then empty_fd\<lparr>flags := FD_ON, fd_jump := term_ops_table\<rparr>
      else if 2 \<le> j \<and> j < 8 then empty_fd else ft j)"
  by (auto simp: fd_table_init_def Let_def clear_fds_eq fd_consts)

section \<open>The descriptor table as an allocator\<close>

text \<open>The free descriptors of a table, smallest first.\<close>

definition free_fds :: "fd_table_t \<Rightarrow> nat list" where
  "free_fds ft = filter (\<lambda>i. flags (ft (int i)) = FD_OFF) [FIRST_VALID_INDEX..<MAX_OPEN_FILES]"

lemma get_fd_from_eq:
  "get_fd_from ft i k = (case filter (\<lambda>i. flags (ft (int i)) = FD_OFF) [i..<i + k] of [] \<Rightarrow> FAIL | j # _ \<Rightarrow> of_nat j)"
proof (induction k arbitrary: i)
  case (Suc k)
  have "[i..<i + Suc k] = i # [Suc i..<Suc i + k]" by (simp add: upt_conv_Cons)
  then show ?case by (simp add: Suc.IH del: upt_Suc)
qed simp

lemma get_fd_index_eq:
  "get_fd_index p = (case free_fds (cur_fds p) of [] \<Rightarrow> FAIL | j # _ \<Rightarrow> of_nat j)"
proof -
  have "FIRST_VALID_INDEX + (MAX_OPEN_FILES - FIRST_VALID_INDEX) = MAX_OPEN_FILES" by (simp add: fd_consts)
  then show ?thesis by (simp only: get_fd_index_def free_fds_def get_fd_from_eq)
qed

lemma free_fds_range: "j \<in> set (free_fds ft) \<Longrightarrow> 2 \<le> j \<and> j < 8"
  by (simp only: free_fds_def fd_consts set_filter set_upt mem_Collect_eq atLeastLessThan_iff)

lemma sint_small: "j < 128 \<Longrightarrow> sint (of_nat j :: s32) = int j"
  by (simp add: signed_of_nat signed_take_bit_int_eq_self)

lemma small_not_fail: "j < 128 \<Longrightarrow> (of_nat j :: s32) \<noteq> FAIL"
proof
  assume "j < 128" "(of_nat j :: s32) = FAIL"
  then have "sint (FAIL :: s32) = int j" using sint_small [of j] by simp
  then show False by simp
qed

lemma bad_index_small [simp]: "j < 8 \<Longrightarrow> \<not> bad_index (of_nat j)"
  by (simp add: bad_index_def sint_small fd_consts)

text \<open>
  A descriptor installed at the first free index: the pattern \<^verbatim>\<open>get_fd_index\<close> then
  \<^verbatim>\<open>set_fd_info\<close> that the open routine of every driver uses.
\<close>

definition install :: "fd_t \<Rightarrow> fd_table_t \<Rightarrow> s32 \<times> fd_table_t" where
  "install f ft = (case free_fds ft of [] \<Rightarrow> (FAIL, ft) | j # _ \<Rightarrow> (of_nat j, ft(int j := f)))"

lemma get_set_install:
  "(if get_fd_index p = FAIL then (FAIL, p)
    else (get_fd_index p, snd (set_fd_info (get_fd_index p) f p))) =
   (fst (install f (cur_fds p)), set_cur_fds (snd (install f (cur_fds p))) p)"
proof (cases "free_fds (cur_fds p)")
  case Nil
  then show ?thesis by (simp add: get_fd_index_eq install_def)
next
  case (Cons j js)
  then have j: "j < 8" using free_fds_range [of j "cur_fds p"] by auto
  then show ?thesis
    using Cons small_not_fail [of j] by (simp add: get_fd_index_eq install_def set_fd_info_def sint_small)
qed

lemma free_fds_update:
  "free_fds (ft(int j := f)) =
     (if flags f = FD_OFF then filter (\<lambda>i. i = j \<or> flags (ft (int i)) = FD_OFF) [FIRST_VALID_INDEX..<MAX_OPEN_FILES]
      else filter (\<lambda>i. i \<noteq> j) (free_fds ft))"
  by (auto simp: free_fds_def intro!: filter_cong)

lemma install_free:
  assumes "free_fds ft = j # js" "flags f = FD_ON"
  shows "free_fds (snd (install f ft)) = js"
proof -
  have "distinct (free_fds ft)" by (simp add: free_fds_def)
  then have "j \<notin> set js" using assms(1) by simp
  then have "filter (\<lambda>i. i \<noteq> j) js = js" by (auto intro: filter_True)
  then show ?thesis using assms by (simp add: install_def free_fds_update fd_consts)
qed

text \<open>A sequence of open calls and the values they return.\<close>

fun open_many :: "('a \<Rightarrow> 's \<Rightarrow> s32 \<times> 's) \<Rightarrow> 'a list \<Rightarrow> 's \<Rightarrow> s32 list \<times> 's" where
  "open_many opn [] s = ([], s)"
| "open_many opn (a # as) s =
     (let (r, s1) = opn a s; (rs, s2) = open_many opn as s1 in (r # rs, s2))"

text \<open>
  The contract of a driver's open routine: it changes the descriptor table of the current
  process as \<open>install\<close> does, with a descriptor of its own that is switched on.
\<close>

locale fd_opener =
  fixes opn :: "'a \<Rightarrow> 's \<Rightarrow> s32 \<times> 's"
    and fds :: "'s \<Rightarrow> fd_table_t"
    and info :: "'a \<Rightarrow> 's \<Rightarrow> fd_t"
  assumes opn_install: "(fst (opn a s), fds (snd (opn a s))) = install (info a s) (fds s)"
    and info_on: "flags (info a s) = FD_ON"
begin

lemma opn_result: "fst (opn a s) = fst (install (info a s) (fds s))"
  using opn_install [of a s] by (metis fst_conv)

lemma opn_table: "fds (snd (opn a s)) = snd (install (info a s) (fds s))"
  using opn_install [of a s] by (metis snd_conv)

text \<open>Opening again and again hands out the free descriptors in order, then fails.\<close>

lemma open_many_fds:
  "fst (open_many opn as s) =
     map of_nat (take (length as) (free_fds (fds s))) @ replicate (length as - length (free_fds (fds s))) FAIL"
proof (induction as arbitrary: s)
  case (Cons a as)
  show ?case
  proof (cases "free_fds (fds s)")
    case Nil
    then have "fst (opn a s) = FAIL" "fds (snd (opn a s)) = fds s"
      using opn_result [of a s] opn_table [of a s] by (auto simp: install_def)
    then show ?thesis
      using Nil Cons.IH [of "snd (opn a s)"] by (simp add: Let_def case_prod_beta)
  next
    case (Cons j js)
    then have "fst (opn a s) = of_nat j" "free_fds (fds (snd (opn a s))) = js"
      using opn_result [of a s] opn_table [of a s] install_free [OF Cons info_on [of a s]]
      by (auto simp: install_def)
    then show ?thesis
      using Cons Cons.IH [of "snd (opn a s)"] \<open>free_fds (fds s) = j # js\<close>
      by (simp add: Let_def case_prod_beta)
  qed
qed simp

lemma opn_fails_iff: "fst (opn a s) = FAIL \<longleftrightarrow> free_fds (fds s) = []"
proof (cases "free_fds (fds s)")
  case (Cons j js)
  then have "j < 8" using free_fds_range [of j "fds s"] by simp
  then show ?thesis using Cons opn_result [of a s] small_not_fail [of j] by (simp add: install_def)
qed (use opn_result [of a s] in \<open>simp add: install_def\<close>)

lemma opn_descriptor:
  assumes "fst (opn a s) \<noteq> FAIL"
  shows "fds (snd (opn a s)) = (fds s)(sint (fst (opn a s)) := info a s)"
    and "flags (fds s (sint (fst (opn a s)))) = FD_OFF"
    and "2 \<le> sint (fst (opn a s)) \<and> sint (fst (opn a s)) < 8"
proof -
  obtain j js where j: "free_fds (fds s) = j # js"
    using assms opn_fails_iff [of a s] by (cases "free_fds (fds s)") auto
  then have "j \<in> set (free_fds (fds s))" by simp
  then have r: "2 \<le> j" "j < 8" "flags (fds s (int j)) = FD_OFF"
    using free_fds_range by (auto simp: free_fds_def)
  have "sint (fst (opn a s)) = int j" using opn_result [of a s] j r by (simp add: install_def sint_small)
  then show "fds (snd (opn a s)) = (fds s)(sint (fst (opn a s)) := info a s)"
    and "flags (fds s (sint (fst (opn a s)))) = FD_OFF"
    and "2 \<le> sint (fst (opn a s)) \<and> sint (fst (opn a s)) < 8"
    using opn_table [of a s] j r by (auto simp: install_def)
qed

end

section \<open>The invariant of descriptor tables\<close>

text \<open>
  Every entry is either off and empty or on with a jump table to go through; 0 and 1 are
  the keyboard and the terminal.
\<close>

definition fd_entry_ok :: "fd_t \<Rightarrow> bool" where
  "fd_entry_ok f \<longleftrightarrow> f = empty_fd \<or> flags f = FD_ON \<and> fd_jump f \<noteq> NULL_ops"

definition fds_ok :: "fd_table_t \<Rightarrow> bool" where
  "fds_ok ft \<longleftrightarrow> (\<forall>i\<in>{0..7}. fd_entry_ok (ft i)) \<and>
     flags (ft 0) = FD_ON \<and> fd_jump (ft 0) = kybd_ops_table \<and> flags (ft 1) = FD_ON \<and> fd_jump (ft 1) = term_ops_table"

lemma empty_fd_ok [simp]: "fd_entry_ok empty_fd"
  by (simp add: fd_entry_ok_def)

lemma fd_table_init_ok [inv_intros]: "fds_ok (fd_table_init ft)"
  by (simp add: fds_ok_def fd_table_init_eq fd_entry_ok_def fd_consts)

lemma fds_ok_update [inv_intros]:
  "fds_ok ft \<Longrightarrow> fd_entry_ok f \<Longrightarrow> 2 \<le> i \<Longrightarrow> fds_ok (ft(i := f))"
  by (auto simp: fds_ok_def)

lemma add_offset_ok [inv_intros]: "fds_ok (cur_fds p) \<Longrightarrow> check_valid_fd fd p = FD_ON \<Longrightarrow> fds_ok (cur_fds (add_offset fd n p))"
proof -
  assume ok: "fds_ok (cur_fds p)" and v: "check_valid_fd fd p = FD_ON"
  have i: "\<not> bad_index fd" "sint fd \<in> {0..7}" "flags (cur_fds p (sint fd)) = FD_ON"
    using v by (auto simp: check_valid_fd_def bad_index_def fd_consts split: if_splits)
  then have "cur_fds p (sint fd) \<noteq> empty_fd" by (auto simp: empty_fd_def fd_consts)
  then have "fd_entry_ok ((cur_fds p (sint fd))\<lparr>file_position := x\<rparr>)" for x
    using ok i by (auto simp: fds_ok_def fd_entry_ok_def)
  then show ?thesis using ok i by (auto simp: fds_ok_def add_offset_def Let_def)
qed

lemma close_fd_ok [inv_intros]: "fds_ok (cur_fds p) \<Longrightarrow> 2 \<le> sint fd \<Longrightarrow> fds_ok (cur_fds (close_fd fd p))"
  by (simp add: close_fd_def fds_ok_update)

lemma install_ok [inv_intros]: "fds_ok ft \<Longrightarrow> fd_entry_ok f \<Longrightarrow> fds_ok (snd (install f ft))"
  using free_fds_range [of _ ft] by (cases "free_fds ft") (auto simp: install_def intro!: fds_ok_update)

lemma fd_table_init_free: "free_fds (fd_table_init ft) = [2, 3, 4, 5, 6, 7]"
  by (simp add: free_fds_def fd_consts fd_table_init_eq empty_fd_def)

section \<open>Properties\<close>

text \<open>
  \<^verbatim>\<open>get_fd_index\<close> returns the smallest descriptor of the current process, from 2 to 7,
  that is not in use, and -1 exactly when there is none.
\<close>

theorem get_fd_index_least:
  "(case find (\<lambda>i. flags (cur_fds p (int i)) = FD_OFF) [2, 3, 4, 5, 6, 7] of
      None \<Rightarrow> get_fd_index p = - 1
    | Some i \<Rightarrow> get_fd_index p = of_nat i \<and> get_fd_index p \<noteq> - 1)"
proof -
  have f: "free_fds (cur_fds p) = filter (\<lambda>i. flags (cur_fds p (int i)) = FD_OFF) [2, 3, 4, 5, 6, 7]"
    unfolding free_fds_def fd_consts by (simp add: upt_rec)
  have "find P xs = (case filter P xs of [] \<Rightarrow> None | x # _ \<Rightarrow> Some x)" for P and xs :: "nat list"
    by (induction xs) auto
  then have e: "find (\<lambda>i. flags (cur_fds p (int i)) = FD_OFF) [2, 3, 4, 5, 6, 7] =
      (case free_fds (cur_fds p) of [] \<Rightarrow> None | x # _ \<Rightarrow> Some x)"
    unfolding f .
  show ?thesis
  proof (cases "free_fds (cur_fds p)")
    case (Cons j js)
    then have "j < 8" using free_fds_range [of j "cur_fds p"] by simp
    then show ?thesis unfolding e get_fd_index_eq using Cons small_not_fail [of j] by simp
  qed (unfold e get_fd_index_eq, simp)
qed

text \<open>
  \<^verbatim>\<open>close_fd\<close> undoes what \<^verbatim>\<open>get_fd_index\<close> and \<^verbatim>\<open>set_fd_info\<close> did: the descriptor that was
  handed out is the smallest free one again, and the table is the table before.
\<close>

theorem close_fd_frees:
  assumes "fds_ok (cur_fds p)" "get_fd_index p \<noteq> - 1"
  shows "close_fd (get_fd_index p) (snd (set_fd_info (get_fd_index p) f p)) = p"
proof -
  obtain j js where j: "free_fds (cur_fds p) = j # js"
    using assms(2) by (cases "free_fds (cur_fds p)") (auto simp: get_fd_index_eq)
  then have "j \<in> set (free_fds (cur_fds p))" by simp
  then have r: "j < 8" "flags (cur_fds p (int j)) = FD_OFF"
    using free_fds_range by (auto simp: free_fds_def)
  have "cur_fds p (int j) = empty_fd"
    using assms(1) r by (auto simp: fds_ok_def fd_entry_ok_def fd_consts)
  then have "(cur_fds p)(int j := empty_fd) = cur_fds p" by (metis fun_upd_triv)
  then show ?thesis
    using j r by (simp add: get_fd_index_eq close_fd_def set_fd_info_def sint_small)
qed

definition boot_pcb :: pcb where
  "boot_pcb = \<lparr>process_id = 0, parent_id = -1, current_esp = 0, current_ebp = 0, return_esp = 0, return_ebp = 0,
     pcb_args = (\<lambda>_. 0), fd_table = fd_table_init (\<lambda>_. empty_fd)\<rparr>"

definition boot_procs :: procs where
  "boot_procs = \<lparr>curr_terminal = 0, old_terminal = 0, current_process = (\<lambda>t. if t = 0 then 0 else -1),
     process_array = (\<lambda>i. if i = 0 then 0x7FE000 else 0), in_use = (\<lambda>i. if 0 \<le> i \<and> i < 3 then 1 else 0),
     pcbs = (\<lambda>_. boot_pcb), ops_tables = (\<lambda>_. \<lparr>op_open = Null_fop, op_read = Null_fop, op_write = Null_fop, op_close = Null_fop\<rparr>),
     cmd_args = (\<lambda>_ _. 0), extended_status = 0, exception_flag = 0\<rparr>"

lemma boot_procs_fds: "cur_fds boot_procs = fd_table_init (\<lambda>_. empty_fd)"
  by (simp add: cur_fds_def cur_pcb_def boot_procs_def boot_pcb_def)

theorem close_fd_frees_witness:
  "get_fd_index boot_procs = 2 \<and>
   close_fd 2 (snd (set_fd_info 2 \<lparr>fd_jump = rtc_ops_table, inode_ptr = -1, file_position = 0, flags = 1\<rparr> boot_procs)) = boot_procs"
proof -
  have "get_fd_index boot_procs = 2" by (simp add: get_fd_index_eq boot_procs_fds fd_table_init_free)
  then show ?thesis
    using close_fd_frees [of boot_procs "\<lparr>fd_jump = rtc_ops_table, inode_ptr = -1, file_position = 0, flags = 1\<rparr>"]
    by (simp add: boot_procs_fds fd_table_init_ok)
qed

end
