(* ===== verification/Paging.thy ===== *)
theory Paging
  imports Prelude
begin

text \<open>
  Paging (\<^verbatim>\<open>student-distrib/paging.c\<close>): the page directory, the two page tables, the control
  registers the code writes and the TLB it flushes. The tables' own addresses are chosen by
  the linker and are fields of the state; \<open>tables_ok\<close> says what the declarations in
  \<^verbatim>\<open>paging.h\<close> give: they are page-aligned and distinct. \<open>page_walk\<close> is the processor's
  two-level translation, against which the code is verified.
\<close>

unbundle bit_operations_syntax

section \<open>Constants\<close>

definition PAGE_SIZE :: nat where "PAGE_SIZE = 1024"
definition VIDEO :: u32 where "VIDEO = 0xB8000"
definition VIRT_VID_TERM1 :: u32 where "VIRT_VID_TERM1 = 0x10000000"
definition VIRT_VID_TERM2 :: u32 where "VIRT_VID_TERM2 = 0x10001000"
definition VIRT_VID_TERM3 :: u32 where "VIRT_VID_TERM3 = 0x10002000"
definition BACKUP_VID1 :: u32 where "BACKUP_VID1 = 0xB9000"
definition BACKUP_VID2 :: u32 where "BACKUP_VID2 = 0xBA000"
definition BACKUP_VID3 :: u32 where "BACKUP_VID3 = 0xBB000"
definition KERNEL_MEM :: u32 where "KERNEL_MEM = 0x00400000"
definition RW_SET_ONLY :: u32 where "RW_SET_ONLY = 0x2"
definition RW_P_SET :: u32 where "RW_P_SET = RW_SET_ONLY OR 0x1"
definition RW_P_SIZE_SET :: u32 where "RW_P_SIZE_SET = RW_P_SET OR 0x80"
definition PROCESS_SET :: u32 where "PROCESS_SET = 0x87"
definition USER_MASK :: u32 where "USER_MASK = 0x7"
definition USER_VIDEO_PAGE :: u32 where "USER_VIDEO_PAGE = VIDEO OR USER_MASK"
definition USER_BACK1 :: u32 where "USER_BACK1 = BACKUP_VID1 OR USER_MASK"
definition USER_SPACE :: u32 where "USER_SPACE = 0x00800000"
definition PROCESS_PAGE_SIZE :: u32 where "PROCESS_PAGE_SIZE = 0x00400000"
definition PROCESS_IDX :: nat where "PROCESS_IDX = 32"

lemmas paging_consts = PAGE_SIZE_def VIDEO_def VIRT_VID_TERM1_def VIRT_VID_TERM2_def VIRT_VID_TERM3_def
  BACKUP_VID1_def BACKUP_VID2_def BACKUP_VID3_def KERNEL_MEM_def RW_SET_ONLY_def RW_P_SET_def RW_P_SIZE_SET_def
  PROCESS_SET_def USER_MASK_def USER_VIDEO_PAGE_def USER_BACK1_def USER_SPACE_def PROCESS_PAGE_SIZE_def PROCESS_IDX_def

section \<open>State and operations\<close>

record paging =
  page_directory :: "nat \<Rightarrow> u32"
  page_table :: "nat \<Rightarrow> u32"
  user_page_table :: "nat \<Rightarrow> u32"
  page_directory_addr :: u32
  page_table_addr :: u32
  user_page_table_addr :: u32
  cr0 :: u32
  cr3 :: u32
  cr4 :: u32
  tlb :: "u32 \<rightharpoonup> u32"

text \<open>Reloading \<^verbatim>\<open>cr3\<close> with its own value drops every cached translation.\<close>

definition flush_tlb :: "paging \<Rightarrow> paging" where
  "flush_tlb p = p\<lparr>tlb := Map.empty\<rparr>"

definition enablePaging :: "paging \<Rightarrow> paging" where
  "enablePaging p = p\<lparr>cr3 := page_directory_addr p, tlb := Map.empty, cr4 := cr4 p OR 0x10, cr0 := cr0 p OR 0x80000000\<rparr>"

definition add_process :: "u32 \<Rightarrow> paging \<Rightarrow> paging" where
  "add_process process_id p =
     flush_tlb (p\<lparr>page_directory := (page_directory p)
       (PROCESS_IDX := (USER_SPACE + process_id * PROCESS_PAGE_SIZE) OR PROCESS_SET)\<rparr>)"

text \<open>\<^verbatim>\<open>va >> DIR_IDX_SHIFT\<close> and \<^verbatim>\<open>(va & CLEAR_DIR_IDX) >> TABLE_IDX_SHIFT\<close>.\<close>

definition pd_index :: "u32 \<Rightarrow> nat" where
  "pd_index va = unat (drop_bit 22 va)"

definition pt_index :: "u32 \<Rightarrow> nat" where
  "pt_index va = unat (drop_bit 12 (va AND 0x003FFFFF))"

definition map_virt_to_phys :: "u32 \<Rightarrow> u32 \<Rightarrow> paging \<Rightarrow> paging" where
  "map_virt_to_phys virtual_address PHYS p =
     flush_tlb (p\<lparr>page_directory := (page_directory p)
         (pd_index virtual_address := user_page_table_addr p OR USER_MASK),
       user_page_table := (user_page_table p)
         (pt_index virtual_address := PHYS OR RW_P_SET)\<rparr>)"

fun init_entries :: "(nat \<Rightarrow> u32) \<Rightarrow> nat \<Rightarrow> nat \<Rightarrow> (nat \<Rightarrow> u32)" where
  "init_entries tab i 0 = tab"
| "init_entries tab i (Suc k) = init_entries (tab(i := RW_SET_ONLY)) (Suc i) k"

definition paging_init :: "paging \<Rightarrow> paging" where
  "paging_init p =
     (let d0 = init_entries (page_directory p) 0 PAGE_SIZE;
          d1 = d0(1 := KERNEL_MEM);
          d2 = d1(1 := d1 1 OR RW_P_SIZE_SET);
          d3 = d2(0 := page_table_addr p);
          d4 = d3(0 := d3 0 OR RW_P_SET);
          t0 = init_entries (page_table p) 0 PAGE_SIZE;
          v = unat (drop_bit 12 VIDEO);
          t1 = t0(v := VIDEO);
          t2 = t1(v := t1 v OR RW_P_SET)
      in enablePaging
           (map_virt_to_phys VIRT_VID_TERM3 BACKUP_VID3
             (map_virt_to_phys VIRT_VID_TERM2 BACKUP_VID2
               (map_virt_to_phys VIRT_VID_TERM1 BACKUP_VID1
                 (p\<lparr>page_directory := d4, page_table := t2\<rparr>)))))"

section \<open>The processor's translation\<close>

definition tables_ok :: "paging \<Rightarrow> bool" where
  "tables_ok p \<longleftrightarrow> page_table_addr p AND 0xFFF = 0 \<and> user_page_table_addr p AND 0xFFF = 0 \<and>
     page_directory_addr p AND 0xFFF = 0 \<and> page_table_addr p \<noteq> user_page_table_addr p"

definition entry_present :: "u32 \<Rightarrow> bool" where "entry_present e \<longleftrightarrow> bit e 0"
definition entry_user :: "u32 \<Rightarrow> bool" where "entry_user e \<longleftrightarrow> bit e 2"
definition entry_large :: "u32 \<Rightarrow> bool" where "entry_large e \<longleftrightarrow> bit e 7"

text \<open>The page table an entry of the directory points to, when it is one of the kernel's two.\<close>

definition table_at :: "paging \<Rightarrow> u32 \<Rightarrow> (nat \<Rightarrow> u32) option" where
  "table_at p a =
     (if a = page_table_addr p then Some (page_table p)
      else if a = user_page_table_addr p then Some (user_page_table p) else None)"

text \<open>Physical address and whether user mode may use it; \<open>None\<close> is a page fault.\<close>

definition page_walk :: "paging \<Rightarrow> u32 \<Rightarrow> (u32 \<times> bool) option" where
  "page_walk p va =
     (let pde = page_directory p (pd_index va)
      in if \<not> entry_present pde then None
         else if entry_large pde then Some ((pde AND 0xFFC00000) OR (va AND 0x003FFFFF), entry_user pde)
         else case table_at p (pde AND 0xFFFFF000) of
                None \<Rightarrow> None
              | Some tab \<Rightarrow>
                  let pte = tab (pt_index va)
                  in if \<not> entry_present pte then None
                     else Some ((pte AND 0xFFFFF000) OR (va AND 0xFFF), entry_user pde \<and> entry_user pte))"

section \<open>Lemmas\<close>

lemma init_entries_eq: "init_entries tab i k = (\<lambda>j. if i \<le> j \<and> j < i + k then RW_SET_ONLY else tab j)"
proof (induction k arbitrary: tab i)
  case (Suc k)
  show ?case by (rule ext) (auto simp: Suc.IH)
qed (auto simp: fun_eq_iff)

lemma flush_tlb_simps [simp]:
  "page_directory (flush_tlb p) = page_directory p" "page_table (flush_tlb p) = page_table p"
  "user_page_table (flush_tlb p) = user_page_table p" "page_table_addr (flush_tlb p) = page_table_addr p"
  "user_page_table_addr (flush_tlb p) = user_page_table_addr p" "page_directory_addr (flush_tlb p) = page_directory_addr p"
  "tlb (flush_tlb p) = Map.empty" "cr0 (flush_tlb p) = cr0 p" "cr3 (flush_tlb p) = cr3 p" "cr4 (flush_tlb p) = cr4 p"
  by (simp_all add: flush_tlb_def)

lemma mask_FFF_bits: "bit (0xFFF :: u32) i \<longleftrightarrow> i < 12"
proof -
  have "(0xFFF :: u32) = mask 12" by (simp add: mask_eq_exp_minus_1)
  then show ?thesis by (simp only: bit_mask_iff) auto
qed

lemma mask_3FFFFF_bits: "bit (0x3FFFFF :: u32) i \<longleftrightarrow> i < 22"
proof -
  have "(0x3FFFFF :: u32) = mask 22" by (simp add: mask_eq_exp_minus_1)
  then show ?thesis by (simp only: bit_mask_iff) auto
qed

lemma mask_FFFFF000_bits: "bit (0xFFFFF000 :: u32) i \<longleftrightarrow> 12 \<le> i \<and> i < 32"
proof -
  have "(0xFFFFF000 :: u32) = NOT (mask 12)" by (simp add: mask_eq_exp_minus_1)
  then show ?thesis by (simp only: bit_not_iff bit_mask_iff) auto
qed

lemma mask_FFC00000_bits: "bit (0xFFC00000 :: u32) i \<longleftrightarrow> 22 \<le> i \<and> i < 32"
proof -
  have "(0xFFC00000 :: u32) = NOT (mask 22)" by (simp add: mask_eq_exp_minus_1)
  then show ?thesis by (simp only: bit_not_iff bit_mask_iff) auto
qed

lemmas page_masks = mask_FFF_bits mask_3FFFFF_bits mask_FFFFF000_bits mask_FFC00000_bits

lemma aligned_or:
  assumes "(a :: u32) AND 0xFFF = 0" "f AND 0xFFFFF000 = 0"
  shows "(a OR f) AND 0xFFFFF000 = a"
proof (rule bit_word_eqI)
  fix n assume n: "n < LENGTH(32)"
  have "\<not> bit (a AND 0xFFF) n" by (simp add: assms(1))
  moreover have "\<not> bit (f AND 0xFFFFF000) n" by (simp add: assms(2))
  ultimately show "bit ((a OR f) AND 0xFFFFF000) n = bit a n"
    using n unfolding bit_and_iff bit_or_iff page_masks by auto
qed

lemma or_large:
  assumes "(a :: u32) AND 0x3FFFFF = 0" "f AND 0xFFC00000 = 0"
  shows "(a OR f) AND 0xFFC00000 = a"
proof (rule bit_word_eqI)
  fix n assume n: "n < LENGTH(32)"
  have "\<not> bit (a AND 0x3FFFFF) n" by (simp add: assms(1))
  moreover have "\<not> bit (f AND 0xFFC00000) n" by (simp add: assms(2))
  ultimately show "bit ((a OR f) AND 0xFFC00000) n = bit a n"
    using n unfolding bit_and_iff bit_or_iff page_masks by auto
qed

lemma rejoin_large: "(va AND 0xFFC00000) OR (va AND 0x3FFFFF) = (va :: u32)"
proof (rule bit_word_eqI)
  fix n assume "n < LENGTH(32)"
  then show "bit ((va AND 0xFFC00000) OR (va AND 0x3FFFFF)) n = bit va n"
    unfolding bit_and_iff bit_or_iff page_masks by auto
qed

lemma rejoin_small: "(va AND 0xFFFFF000) OR (va AND 0xFFF) = (va :: u32)"
proof (rule bit_word_eqI)
  fix n assume "n < LENGTH(32)"
  then show "bit ((va AND 0xFFFFF000) OR (va AND 0xFFF)) n = bit va n"
    unfolding bit_and_iff bit_or_iff page_masks by auto
qed

lemma pd_index_bits: "pd_index va = d \<Longrightarrow> va AND 0xFFC00000 = push_bit 22 (of_nat d)"
proof (rule bit_word_eqI)
  assume d: "pd_index va = d"
  have w: "(of_nat d :: u32) = drop_bit 22 va" by (simp add: d [symmetric] pd_index_def)
  fix n assume "n < LENGTH(32)"
  then show "bit (va AND 0xFFC00000) n = bit (push_bit 22 (of_nat d :: u32)) n"
    unfolding w bit_and_iff page_masks by (auto simp: bit_simps)
qed

lemma pt_index_bits:
  assumes "pd_index va = d" "pt_index va = i"
  shows "va AND 0xFFFFF000 = push_bit 22 (of_nat d) OR push_bit 12 (of_nat i)"
proof (rule bit_word_eqI)
  have w: "(of_nat d :: u32) = drop_bit 22 va" "(of_nat i :: u32) = drop_bit 12 (va AND 0x3FFFFF)"
    by (simp_all add: assms [symmetric] pd_index_def pt_index_def)
  fix n assume "n < LENGTH(32)"
  then show "bit (va AND 0xFFFFF000) n = bit (push_bit 22 (of_nat d :: u32) OR push_bit 12 (of_nat i)) n"
    unfolding w bit_and_iff bit_or_iff bit_push_bit_iff bit_drop_bit_eq o_def page_masks
    by (cases "22 \<le> n") auto
qed

lemma pd_index_less: "pd_index va < 1024"
  using unsigned_less [where 'a = nat, of va]
  by (simp add: pd_index_def unat_drop_bit_eq drop_bit_eq_div unat_div less_mult_imp_div_less)

section \<open>Process pages\<close>

text \<open>The 4 MiB frame of a process and its directory entry.\<close>

definition frame :: "u32 \<Rightarrow> u32" where
  "frame i = USER_SPACE + i * PROCESS_PAGE_SIZE"

lemma frame_push: "frame i = push_bit 22 (i + 2)"
  by (simp add: frame_def paging_consts push_bit_eq_mult algebra_simps)

lemma frame_low: "frame i AND 0x3FFFFF = 0"
  by (rule bit_word_eqI) (auto simp only: frame_push bit_and_iff mask_3FFFFF_bits bit_push_bit_iff bit_0_eq bot_apply bot_bool_def)

lemma process_entry:
  "(frame i OR PROCESS_SET) AND 0xFFC00000 = frame i"
  "entry_present (frame i OR PROCESS_SET)" "entry_large (frame i OR PROCESS_SET)" "entry_user (frame i OR PROCESS_SET)"
proof -
  show "(frame i OR PROCESS_SET) AND 0xFFC00000 = frame i"
    by (rule or_large) (simp_all add: frame_low PROCESS_SET_def)
  show "entry_present (frame i OR PROCESS_SET)" "entry_large (frame i OR PROCESS_SET)" "entry_user (frame i OR PROCESS_SET)"
    by (simp_all add: entry_present_def entry_large_def entry_user_def PROCESS_SET_def bit_or_iff)
qed

lemma add_process_page_walk:
  "page_walk (add_process i p) va =
     (if pd_index va = PROCESS_IDX then Some (frame i OR (va AND 0x3FFFFF), True) else page_walk p va)"
  using process_entry [of i]
  by (simp add: page_walk_def add_process_def Let_def table_at_def flip: frame_def)

lemma frame_part: "i < 8 \<Longrightarrow> drop_bit 22 (frame i OR (va AND 0x3FFFFF)) = i + 2"
proof (rule bit_word_eqI)
  fix n assume i: "i < 8" and n: "n < LENGTH(32)"
  have "\<not> bit (i + 2) n" if "10 \<le> n"
  proof -
    have "unat i < 8" using i by (simp add: word_less_nat_alt)
    then have "unat (i + 2) < 2 ^ 10" by (simp add: unat_word_ariths)
    then have "unat (take_bit 10 (i + 2)) = unat (i + 2)"
      by (simp only: unsigned_take_bit_eq take_bit_nat_eq_self)
    then have "take_bit 10 (i + 2) = i + 2" by (simp only: word_unat_eq_iff)
    then show ?thesis using that by (metis bit_take_bit_iff not_less)
  qed
  then show "bit (drop_bit 22 (frame i OR (va AND 0x3FFFFF))) n = bit (i + 2) n"
    using n unfolding frame_push bit_drop_bit_eq o_def bit_or_iff bit_and_iff page_masks bit_push_bit_iff
    by (cases "10 \<le> n") auto
qed

section \<open>The paging invariant\<close>

text \<open>
  The shape of the tables while the kernel runs: the first 4 MiB go through \<^verbatim>\<open>page_table\<close>, where
  only the video page is present; the next 4 MiB are the kernel's large page; entry 32 is
  the page of one of the eight processes (or not set up yet); entry 64 goes through
  \<^verbatim>\<open>user_page_table\<close>; everything else is absent. No stale translation is cached.
\<close>

definition paging_ok :: "paging \<Rightarrow> bool" where
  "paging_ok p \<longleftrightarrow> tables_ok p \<and>
     page_directory p 0 = page_table_addr p OR RW_P_SET \<and>
     page_directory p 1 = KERNEL_MEM OR RW_P_SIZE_SET \<and>
     (page_directory p PROCESS_IDX = RW_SET_ONLY \<or> (\<exists>i<8. page_directory p PROCESS_IDX = frame (of_nat i) OR PROCESS_SET)) \<and>
     page_directory p 64 = user_page_table_addr p OR USER_MASK \<and>
     (\<forall>d<1024. d \<notin> {0, 1, PROCESS_IDX, 64} \<longrightarrow> page_directory p d = RW_SET_ONLY) \<and>
     (\<forall>i<1024. page_table p i = (if i = 0xB8 then VIDEO OR RW_P_SET else RW_SET_ONLY)) \<and>
     tlb p = Map.empty"

lemma RW_only_absent [simp]: "\<not> entry_present RW_SET_ONLY"
  by (simp add: entry_present_def paging_consts)

lemma pt_index_less: "pt_index va < 1024"
proof -
  have "va AND 0x3FFFFF = take_bit 22 va"
    by (rule bit_word_eqI) (auto simp only: bit_and_iff mask_3FFFFF_bits bit_take_bit_iff)
  then have "unat (va AND 0x3FFFFF) = unat va mod 4194304"
    by (simp add: take_bit_eq_mod unat_mod)
  then show ?thesis
    by (simp add: pt_index_def unat_drop_bit_eq drop_bit_eq_div unat_div less_mult_imp_div_less)
qed

text \<open>What the processor reads in the entries that the code writes for an aligned address.\<close>

lemma entry_flags:
  "entry_present (a OR RW_P_SET)" "entry_present (a OR USER_MASK)" "entry_user (a OR USER_MASK)"
  "entry_user (a OR RW_P_SET) = bit a 2" "entry_large (a OR RW_P_SET) = bit a 7" "entry_large (a OR USER_MASK) = bit a 7"
  by (simp_all add: entry_present_def entry_user_def entry_large_def paging_consts bit_or_iff)

lemma aligned_entry:
  assumes "a AND 0xFFF = 0"
  shows "(a OR RW_P_SET) AND 0xFFFFF000 = a" "(a OR USER_MASK) AND 0xFFFFF000 = a" "\<not> bit a 7" "\<not> bit a 2"
proof -
  show "(a OR RW_P_SET) AND 0xFFFFF000 = a" "(a OR USER_MASK) AND 0xFFFFF000 = a"
    using assms by (auto intro!: aligned_or simp: paging_consts)
  have "\<not> bit (a AND 0xFFF) 7" "\<not> bit (a AND 0xFFF) 2" by (simp_all only: assms bit_0_eq bot_apply bot_bool_def simp_thms)
  then show "\<not> bit a 7" "\<not> bit a 2" unfolding bit_and_iff mask_FFF_bits by simp_all
qed

text \<open>What the processor sees under the invariant, region by region.\<close>

lemma page_walk_low:
  assumes "paging_ok p" "pd_index va = 0"
  shows "page_walk p va = (if pt_index va = 0xB8 then Some (va, False) else None)"
proof -
  have "VIDEO OR (va AND 0xFFF) = va" if "pt_index va = 0xB8"
    using rejoin_small [of va] pt_index_bits [OF assms(2) that] by (simp add: paging_consts)
  moreover have "page_table p (pt_index va) = (if pt_index va = 0xB8 then VIDEO OR RW_P_SET else RW_SET_ONLY)"
    using assms(1) pt_index_less by (simp add: paging_ok_def)
  moreover have "VIDEO AND 0xFFF = 0" by (simp add: paging_consts)
  ultimately show ?thesis
    using assms aligned_entry entry_flags by (simp add: page_walk_def Let_def paging_ok_def tables_ok_def table_at_def)
qed

lemma page_walk_kernel:
  assumes "paging_ok p" "pd_index va = 1"
  shows "page_walk p va = Some (va, False)"
proof -
  have "(KERNEL_MEM OR RW_P_SIZE_SET) AND 0xFFC00000 = KERNEL_MEM" by (simp add: paging_consts)
  moreover have "KERNEL_MEM OR (va AND 0x3FFFFF) = va"
    using rejoin_large [of va] pd_index_bits [OF assms(2)] by (simp add: paging_consts)
  ultimately show ?thesis
    using assms by (simp add: page_walk_def Let_def paging_ok_def entry_present_def entry_large_def
        entry_user_def) (simp add: paging_consts bit_or_iff)
qed

lemma page_walk_process:
  assumes "paging_ok p" "pd_index va = PROCESS_IDX"
  shows "page_walk p va =
    (let e = page_directory p PROCESS_IDX
     in if e = RW_SET_ONLY then None else Some ((e AND 0xFFC00000) OR (va AND 0x3FFFFF), True))"
proof (cases "page_directory p PROCESS_IDX = RW_SET_ONLY")
  case True
  then show ?thesis using assms(2) by (simp add: page_walk_def Let_def)
next
  case False
  then obtain i where "page_directory p PROCESS_IDX = frame (of_nat i) OR PROCESS_SET"
    using assms(1) by (auto simp: paging_ok_def)
  then show ?thesis using False assms(2) process_entry [of "of_nat i"] by (simp add: page_walk_def Let_def)
qed

lemma page_walk_user:
  assumes "paging_ok p" "pd_index va = 64"
  shows "page_walk p va =
    (let pte = user_page_table p (pt_index va)
     in if entry_present pte then Some ((pte AND 0xFFFFF000) OR (va AND 0xFFF), entry_user pte) else None)"
proof -
  have "user_page_table_addr p \<noteq> page_table_addr p" using assms(1) by (auto simp: paging_ok_def tables_ok_def)
  then show ?thesis
    using assms aligned_entry entry_flags by (simp add: page_walk_def Let_def paging_ok_def tables_ok_def table_at_def)
qed

lemma page_walk_ok:
  assumes "paging_ok p"
  shows "page_walk p va =
    (if pd_index va = 0 then (if pt_index va = 0xB8 then Some (va, False) else None)
     else if pd_index va = 1 then Some (va, False)
     else if pd_index va = PROCESS_IDX then
       (let e = page_directory p PROCESS_IDX
        in if e = RW_SET_ONLY then None else Some ((e AND 0xFFC00000) OR (va AND 0x3FFFFF), True))
     else if pd_index va = 64 then
       (let pte = user_page_table p (pt_index va)
        in if entry_present pte then Some ((pte AND 0xFFFFF000) OR (va AND 0xFFF), entry_user pte) else None)
     else None)"
proof (cases "pd_index va \<in> {0, 1, PROCESS_IDX, 64}")
  case True
  then show ?thesis
    using page_walk_low [OF assms] page_walk_kernel [OF assms] page_walk_process [OF assms] page_walk_user [OF assms] by auto
next
  case False
  then have "page_directory p (pd_index va) = RW_SET_ONLY"
    using assms pd_index_less [of va] by (simp add: paging_ok_def)
  then show ?thesis using False by (simp add: page_walk_def)
qed

lemma user_table_ok [simp]:
  "tables_ok (flush_tlb p) = tables_ok p"
  by (simp add: tables_ok_def)

lemma add_process_ok [inv_intros]:
  assumes "paging_ok p" "i < 8"
  shows "paging_ok (add_process (of_nat i) p)"
  using assms unfolding paging_ok_def add_process_def frame_def tables_ok_def
  by (auto simp: PROCESS_IDX_def)

lemma map_video_ok [inv_intros]:
  assumes "paging_ok p" "pd_index va = 64"
  shows "paging_ok (map_virt_to_phys va ph p)"
  using assms unfolding paging_ok_def map_virt_to_phys_def tables_ok_def
  by (simp add: PROCESS_IDX_def)

lemma vid_index:
  assumes "t < 3"
  shows "pd_index (VIRT_VID_TERM1 + of_nat t * 0x1000) = 64" "pt_index (VIRT_VID_TERM1 + of_nat t * 0x1000) = t"
proof -
  have "t = 0 \<or> t = 1 \<or> t = 2" using assms by auto
  then show "pd_index (VIRT_VID_TERM1 + of_nat t * 0x1000) = 64" "pt_index (VIRT_VID_TERM1 + of_nat t * 0x1000) = t"
    by (auto simp: pd_index_def pt_index_def paging_consts)
qed

lemma vid_index_terms:
  "pd_index VIRT_VID_TERM1 = 64" "pd_index VIRT_VID_TERM2 = 64" "pd_index VIRT_VID_TERM3 = 64"
  "pt_index VIRT_VID_TERM1 = 0" "pt_index VIRT_VID_TERM2 = 1" "pt_index VIRT_VID_TERM3 = 2"
  by (simp_all add: pd_index_def pt_index_def paging_consts)

lemma paging_init_fields:
  "page_directory (paging_init p) =
     (\<lambda>d. if d = 64 then user_page_table_addr p OR USER_MASK
          else if d = 0 then page_table_addr p OR RW_P_SET
          else if d = 1 then KERNEL_MEM OR RW_P_SIZE_SET
          else if d < PAGE_SIZE then RW_SET_ONLY else page_directory p d)"
  "page_table (paging_init p) =
     (\<lambda>i. if i = 0xB8 then VIDEO OR RW_P_SET else if i < PAGE_SIZE then RW_SET_ONLY else page_table p i)"
  "page_table_addr (paging_init p) = page_table_addr p"
  "user_page_table_addr (paging_init p) = user_page_table_addr p"
  "page_directory_addr (paging_init p) = page_directory_addr p"
  "tlb (paging_init p) = Map.empty"
proof -
  have v: "unat (drop_bit 12 VIDEO) = 0xB8" by (simp add: paging_consts)
  note defs = paging_init_def Let_def map_virt_to_phys_def enablePaging_def init_entries_eq v vid_index_terms
  show "page_directory (paging_init p) =
     (\<lambda>d. if d = 64 then user_page_table_addr p OR USER_MASK
          else if d = 0 then page_table_addr p OR RW_P_SET
          else if d = 1 then KERNEL_MEM OR RW_P_SIZE_SET
          else if d < PAGE_SIZE then RW_SET_ONLY else page_directory p d)"
    by (rule ext) (simp add: defs)
  show "page_table (paging_init p) =
     (\<lambda>i. if i = 0xB8 then VIDEO OR RW_P_SET else if i < PAGE_SIZE then RW_SET_ONLY else page_table p i)"
    by (rule ext) (simp add: defs)
qed (simp_all add: paging_init_def Let_def map_virt_to_phys_def enablePaging_def)

lemma paging_init_ok [inv_intros]:
  assumes "tables_ok p"
  shows "paging_ok (paging_init p)"
  using assms unfolding paging_ok_def tables_ok_def paging_init_fields
  by (simp add: PAGE_SIZE_def PROCESS_IDX_def)

lemma user_table_init:
  "user_page_table (paging_init p) = (user_page_table p)(0 := BACKUP_VID1 OR RW_P_SET,
     1 := BACKUP_VID2 OR RW_P_SET, 2 := BACKUP_VID3 OR RW_P_SET)"
  by (simp add: paging_init_def Let_def enablePaging_def map_virt_to_phys_def vid_index_terms)

section \<open>Properties\<close>

text \<open>
  C25. After \<^verbatim>\<open>paging_init\<close> paging is on, and the processor sees exactly this: in the first
  4 MiB only the video page, mapped to itself; the kernel's 4 MiB mapped to themselves; the
  three terminal pages mapped to their backups; nothing else (the null page in particular
  faults), and none of it accessible to user programs.
\<close>

theorem paging_init_map:
  assumes "tables_ok p" "user_page_table p = (\<lambda>_. 0)"
  shows "page_walk (paging_init p) va =
    (if pd_index va = 0 \<and> pt_index va = 0xB8 \<or> pd_index va = 1 then Some (va, False)
     else if pd_index va = 64 \<and> pt_index va < 3
       then Some ((0xB9000 + of_nat (pt_index va) * 0x1000) OR (va AND 0xFFF), False)
     else None)
   \<and> bit (cr0 (paging_init p)) 31 \<and> bit (cr4 (paging_init p)) 4 \<and> cr3 (paging_init p) = page_directory_addr p"
proof -
  have ok: "paging_ok (paging_init p)" using paging_init_ok [OF assms(1)] .
  have "page_directory (paging_init p) PROCESS_IDX = RW_SET_ONLY"
    by (simp add: paging_init_fields PAGE_SIZE_def PROCESS_IDX_def)
  moreover have "bit (cr0 (paging_init p)) 31" "bit (cr4 (paging_init p)) 4" "cr3 (paging_init p) = page_directory_addr p"
    by (simp_all add: paging_init_def Let_def enablePaging_def map_virt_to_phys_def bit_or_iff)
  moreover have "pt_index va < 3 \<longleftrightarrow> pt_index va = 0 \<or> pt_index va = 1 \<or> pt_index va = 2" by auto
  moreover have "entry_present (x OR RW_P_SET)" "\<not> entry_present 0" for x
    by (simp_all add: entry_present_def paging_consts bit_or_iff)
  moreover have "(BACKUP_VID1 OR RW_P_SET) AND 0xFFFFF000 = 0xB9000" "(BACKUP_VID2 OR RW_P_SET) AND 0xFFFFF000 = 0xBA000"
    "(BACKUP_VID3 OR RW_P_SET) AND 0xFFFFF000 = 0xBB000" "\<not> entry_user (BACKUP_VID1 OR RW_P_SET)"
    "\<not> entry_user (BACKUP_VID2 OR RW_P_SET)" "\<not> entry_user (BACKUP_VID3 OR RW_P_SET)"
    by (simp_all add: paging_consts entry_user_def)
  ultimately show ?thesis
    unfolding page_walk_ok [OF ok] user_table_init assms(2) by (auto simp: Let_def PROCESS_IDX_def)
qed

definition demo_paging :: paging where
  "demo_paging = \<lparr>page_directory = (\<lambda>_. 0), page_table = (\<lambda>_. 0), user_page_table = (\<lambda>_. 0),
     page_directory_addr = 0x411000, page_table_addr = 0x412000, user_page_table_addr = 0x413000,
     cr0 = 0x11, cr3 = 0, cr4 = 0, tlb = Map.empty\<rparr>"

lemma demo_paging_ok: "tables_ok demo_paging"
  by (simp add: tables_ok_def demo_paging_def)

theorem paging_init_map_witness:
  "page_walk (paging_init demo_paging) 0xB8004 = Some (0xB8004, False) \<and> page_walk (paging_init demo_paging) 0 = None"
proof -
  have "user_page_table demo_paging = (\<lambda>_. 0)" by (simp add: demo_paging_def)
  then show ?thesis
    using paging_init_map [of demo_paging "0xB8004"] paging_init_map [of demo_paging 0] demo_paging_ok
    by (simp add: pd_index_def pt_index_def)
qed

text \<open>
  \<^verbatim>\<open>add_process\<close> gives the program page (128 MiB to 132 MiB) to the process: it maps it,
  for user mode, to the 4 MiB frame at 8 MiB + 4 MiB * id, and changes no other mapping.
\<close>

theorem add_process_maps:
  "page_walk (add_process i p) va =
     (if pd_index va = PROCESS_IDX then Some ((USER_SPACE + i * PROCESS_PAGE_SIZE) OR (va AND 0x3FFFFF), True)
      else page_walk p va) \<and> tlb (add_process i p) = Map.empty"
  using add_process_page_walk [of i p va] by (simp add: frame_def add_process_def)

text \<open>
  C26. Memory isolation: the program pages of two different processes share no physical
  byte, and neither contains a byte below 8 MiB (the kernel, its stacks, video memory).
\<close>

theorem process_isolation:
  assumes "i < 8" "j < 8" "i \<noteq> j" "pd_index va = PROCESS_IDX" "pd_index vb = PROCESS_IDX"
    and "page_walk (add_process i p) va = Some (pa, ua)" "page_walk (add_process j q) vb = Some (pb, ub)"
  shows "pa \<noteq> pb \<and> pa \<ge> 0x800000 \<and> pb \<ge> 0x800000"
proof -
  have a: "pa = frame i OR (va AND 0x3FFFFF)" and b: "pb = frame j OR (vb AND 0x3FFFFF)"
    using assms(4-) by (simp_all add: add_process_page_walk)
  have "0x800000 \<le> x" if "drop_bit 22 x = k + 2" "k < 8" for x k :: u32
  proof -
    have "unat k < 8" using that(2) by (simp add: word_less_nat_alt)
    then have "unat (drop_bit 22 x) \<ge> 2" unfolding that(1) by (simp add: unat_word_ariths)
    then show ?thesis by (simp add: word_le_nat_alt unat_drop_bit_eq drop_bit_eq_div unat_div)
  qed
  then show ?thesis
    using frame_part [OF assms(1), of va] frame_part [OF assms(2), of vb] assms(1-3) unfolding a [symmetric] b [symmetric]
    by (metis add_right_imp_eq)
qed

theorem process_isolation_witness:
  "page_walk (add_process 3 demo_paging) 0x8048000 = Some (0x1448000, True) \<and>
   page_walk (add_process 4 demo_paging) 0x8048000 = Some (0x1848000, True) \<and> (0x1448000 :: u32) \<noteq> 0x1848000"
proof -
  have i: "pd_index 0x8048000 = PROCESS_IDX" by (simp add: pd_index_def PROCESS_IDX_def)
  have a: "page_walk (add_process 3 demo_paging) 0x8048000 = Some (0x1448000, True)"
    and b: "page_walk (add_process 4 demo_paging) 0x8048000 = Some (0x1848000, True)"
    by (simp_all add: add_process_page_walk i frame_def paging_consts)
  show ?thesis using process_isolation [OF _ _ _ i i a b] a b by simp
qed

end
