(* ===== verification/Rtc.thy ===== *)
theory Rtc
  imports Idt
begin

text \<open>
  The real-time clock (\<^verbatim>\<open>student-distrib/rtc.c\<close>): the rate selection, the interrupt handler,
  initialisation and the calendar conversion. The clock's registers are reached through the
  index port 0x70 and the data port 0x71; as \<^verbatim>\<open>rtc.c\<close> notes, reading the data port resets
  the index to register D, and the model keeps that.
\<close>

unbundle bit_operations_syntax

section \<open>State\<close>

definition REG_A :: u8 where "REG_A = 0x0A"
definition REG_B :: u8 where "REG_B = 0x0B"
definition REG_C :: u8 where "REG_C = 0x0C"
definition DISABLE_NMI :: u8 where "DISABLE_NMI = 0x80"
definition PERIODIC :: u8 where "PERIODIC = 0x40"
definition HOUR_BIT :: u8 where "HOUR_BIT = 0x02"
definition BINARY_MODE_BIT :: u8 where "BINARY_MODE_BIT = 0x04"
definition MAX_RATE :: u8 where "MAX_RATE = 6"
definition MIN_RATE :: u8 where "MIN_RATE = 15"
definition NUM_FREQ :: nat where "NUM_FREQ = 14"
definition DEFAULT_FREQ :: u32 where "DEFAULT_FREQ = 2"
definition RTC_IRQ :: u32 where "RTC_IRQ = 8"

lemmas rtc_consts = REG_A_def REG_B_def REG_C_def DISABLE_NMI_def PERIODIC_def HOUR_BIT_def BINARY_MODE_BIT_def
  MAX_RATE_def MIN_RATE_def NUM_FREQ_def DEFAULT_FREQ_def RTC_IRQ_def

text \<open>
  \<open>past_frequencies\<close> stands for the words that follow the array \<^verbatim>\<open>frequencies\<close> in memory, which
  \<^verbatim>\<open>set_frequency\<close> can read.
\<close>

record rtc =
  interrupt_flag :: u32
  rtc_second :: u8
  rtc_minute :: u8
  rtc_hour :: u8
  rtc_day :: u8
  rtc_month :: u8
  rtc_year :: u32
  curr_rate :: u8
  curr_frequency :: u32
  past_frequencies :: "nat \<Rightarrow> u32"
  cmos_index :: u8
  cmos :: "u8 \<Rightarrow> u8"

definition frequencies :: "u32 list" where
  "frequencies = [32768, 16384, 8192, 4096, 2048, 1024, 512, 256, 128, 64, 32, 16, 8, 4]"

definition frequency_at :: "rtc \<Rightarrow> nat \<Rightarrow> u32" where
  "frequency_at r i = (if i < NUM_FREQ then frequencies ! i else past_frequencies r (i - NUM_FREQ))"

section \<open>Ports\<close>

definition select_reg :: "u8 \<Rightarrow> rtc \<Rightarrow> rtc" where
  "select_reg v r = r\<lparr>cmos_index := v AND 0x7F\<rparr>"

definition read_cmos :: "rtc \<Rightarrow> u8 \<times> rtc" where
  "read_cmos r = (cmos r (cmos_index r), r\<lparr>cmos_index := 0x0D\<rparr>)"

definition write_cmos :: "u8 \<Rightarrow> rtc \<Rightarrow> rtc" where
  "write_cmos v r = r\<lparr>cmos := (cmos r)(cmos_index r := v)\<rparr>"

section \<open>Operations\<close>

text \<open>The search loop of \<^verbatim>\<open>set_frequency\<close>; its counter is the variable \<^verbatim>\<open>curr_rate\<close>.\<close>

definition find_rate :: "u32 \<Rightarrow> rtc \<Rightarrow> nat" where
  "find_rate frequency r = scan (\<lambda>i. frequency \<noteq> frequency_at r i) 0 NUM_FREQ"

definition set_frequency :: "u32 \<Rightarrow> rtc \<Rightarrow> rtc" where
  "set_frequency frequency r =
     (let rate = (of_nat (find_rate frequency r) :: u8) + 1;
          rate = (if rate > MIN_RATE then MIN_RATE else rate);
          rate = (if rate < MAX_RATE then MAX_RATE else rate);
          r1 = r\<lparr>curr_rate := rate, curr_frequency := frequency_at r (unat rate)\<rparr>;
          (prev_data, r2) = read_cmos (select_reg (DISABLE_NMI OR REG_A) r1);
          r3 = select_reg (DISABLE_NMI OR REG_A) r2
      in write_cmos ((prev_data AND 0xF0) OR curr_rate r3) r3)"

definition rtc_init :: "(handler \<Rightarrow> u32) \<Rightarrow> rtc \<Rightarrow> idt_t \<Rightarrow> pic \<Rightarrow> rtc \<times> idt_t \<times> pic" where
  "rtc_init addr r idt s =
     (let (prev_data, r1) = read_cmos (select_reg (DISABLE_NMI OR REG_B) r);
          r2 = write_cmos (prev_data OR PERIODIC) (select_reg (DISABLE_NMI OR REG_B) r1);
          r3 = set_frequency DEFAULT_FREQ r2
      in (r3\<lparr>interrupt_flag := 1\<rparr>, install_gate RTC_VECTOR_NUM (addr Rtc_wrapper) idt, enable_irq RTC_IRQ s))"

definition rtc_handler :: "rtc \<Rightarrow> pic \<Rightarrow> rtc \<times> pic" where
  "rtc_handler r s =
     (let r1 = r\<lparr>interrupt_flag := 1\<rparr>;
          (thrown_away, r2) = read_cmos (select_reg REG_C r1)
      in (r2, send_eoi RTC_IRQ s))"

definition get_update_flag :: "rtc \<Rightarrow> u8 \<times> rtc" where
  "get_update_flag r = (let (v, r1) = read_cmos (select_reg REG_A r) in (v AND DISABLE_NMI, r1))"

definition get_RTC_reg :: "u8 \<Rightarrow> rtc \<Rightarrow> u8 \<times> rtc" where
  "get_RTC_reg reg r = read_cmos (select_reg reg r)"

definition update_time :: "rtc \<Rightarrow> rtc" where
  "update_time r =
     (let (v, r) = get_RTC_reg 0x00 r; r = r\<lparr>rtc_second := v\<rparr>;
          (v, r) = get_RTC_reg 0x02 r; r = r\<lparr>rtc_minute := v\<rparr>;
          (v, r) = get_RTC_reg 0x04 r; r = r\<lparr>rtc_hour := v\<rparr>;
          (v, r) = get_RTC_reg 0x07 r; r = r\<lparr>rtc_day := v\<rparr>;
          (v, r) = get_RTC_reg 0x08 r; r = r\<lparr>rtc_month := v\<rparr>;
          (v, r) = get_RTC_reg 0x09 r
      in r\<lparr>rtc_year := ucast v\<rparr>)"

text \<open>
  The conversion part of \<^verbatim>\<open>binary_to_real_time\<close>, after the registers have been read: binary
  coded decimals when the mode bit is clear, the 12-hour clock, the century. The C arithmetic
  is on \<^verbatim>\<open>int\<close> and stored back in a byte.
\<close>

definition bcd_byte :: "u8 \<Rightarrow> u8" where
  "bcd_byte b = of_nat (unat (b AND 0x0F) + unat b div 16 * 10)"

definition bcd_hour :: "u8 \<Rightarrow> u8" where
  "bcd_hour h = ucast ((of_nat (unat (h AND 0x0F) + unat (h AND 0x70) div 16 * 10) :: u32) OR ucast (h AND 0x80))"

definition convert_time :: "u8 \<Rightarrow> rtc \<Rightarrow> rtc" where
  "convert_time registerB r =
     (let r = (if registerB AND BINARY_MODE_BIT = 0
               then r\<lparr>rtc_second := bcd_byte (rtc_second r), rtc_minute := bcd_byte (rtc_minute r),
                      rtc_hour := bcd_hour (rtc_hour r), rtc_day := bcd_byte (rtc_day r),
                      rtc_month := bcd_byte (rtc_month r),
                      rtc_year := (rtc_year r AND 0x0F) + rtc_year r div 16 * 10\<rparr>
               else r);
          r = (if registerB AND HOUR_BIT = 0 \<and> rtc_hour r AND 0x80 \<noteq> 0
               then r\<lparr>rtc_hour := of_nat ((unat (rtc_hour r AND 0x7F) + 12) mod 24)\<rparr> else r);
          r = r\<lparr>rtc_year := rtc_year r + 2017 div 100 * 100\<rparr>
      in if rtc_year r < 2017 then r\<lparr>rtc_year := rtc_year r + 100\<rparr> else r)"

text \<open>
  Reading the time. The chip goes on while the program polls it: its registers are the next
  of a list of contents at each poll. A list that runs out is a program that still waits.
\<close>

fun wait_update :: "(u8 \<Rightarrow> u8) list \<Rightarrow> rtc \<Rightarrow> ((u8 \<Rightarrow> u8) list \<times> rtc) option" where
  "wait_update [] r = None"
| "wait_update (c # cs) r =
     (let (flag, r) = get_update_flag (r\<lparr>cmos := c\<rparr>) in if flag \<noteq> 0 then wait_update cs r else Some (cs, r))"

lemma wait_update_shorter: "wait_update cs r = Some (cs', r') \<Longrightarrow> length cs' < length cs"
  by (induction cs arbitrary: r) (auto simp: case_prod_beta Let_def split: if_splits intro: less_SucI)

text \<open>The local copies of the time; the one of the year is a byte.\<close>

type_synonym time = "u8 \<times> u8 \<times> u8 \<times> u8 \<times> u8 \<times> u8"

definition time_of :: "rtc \<Rightarrow> time" where
  "time_of r = (rtc_second r, rtc_minute r, rtc_hour r, rtc_day r, rtc_month r, ucast (rtc_year r))"

definition time_differs :: "time \<Rightarrow> rtc \<Rightarrow> bool" where
  "time_differs = (\<lambda>(s, m, h, d, mo, y) r. s \<noteq> rtc_second r \<or> m \<noteq> rtc_minute r \<or> h \<noteq> rtc_hour r \<or> d \<noteq> rtc_day r \<or> mo \<noteq> rtc_month r \<or>
     ucast y \<noteq> rtc_year r)"

function time_loop :: "time \<Rightarrow> (u8 \<Rightarrow> u8) list \<Rightarrow> rtc \<Rightarrow> ((u8 \<Rightarrow> u8) list \<times> rtc) option" where
  "time_loop old cs r =
     (if time_differs old r
      then case wait_update cs r of None \<Rightarrow> None | Some (cs', r') \<Rightarrow> time_loop (time_of r) cs' (update_time r')
      else Some (cs, r))"
  by pat_completeness auto
termination
  by (relation "measure (\<lambda>(old, cs, r). length cs)") (auto dest: wait_update_shorter)

declare time_loop.simps [simp del]

text \<open>\<open>old\<close> is what the uninitialised local variables hold.\<close>

definition binary_to_real_time :: "time \<Rightarrow> (u8 \<Rightarrow> u8) list \<Rightarrow> rtc \<Rightarrow> ((u8 \<Rightarrow> u8) list \<times> rtc) option" where
  "binary_to_real_time old cs r =
     Option.bind (wait_update cs r) (\<lambda>(cs, r).
     Option.bind (time_loop old cs (update_time r)) (\<lambda>(cs, r).
       let (registerB, r) = get_RTC_reg REG_B r in Some (cs, convert_time registerB r)))"

section \<open>Lemmas\<close>

lemma find_rate_le: "find_rate f r \<le> 14"
  using scan_bounds(2) [of "\<lambda>i. f \<noteq> frequency_at r i" 0 NUM_FREQ] by (simp add: find_rate_def rtc_consts)

text \<open>The rate \<^verbatim>\<open>set_frequency\<close> settles on.\<close>

definition chosen_rate :: "u32 \<Rightarrow> rtc \<Rightarrow> nat" where
  "chosen_rate f r = max 6 (find_rate f r + 1)"

lemma chosen_rate_range: "6 \<le> chosen_rate f r" "chosen_rate f r \<le> 15"
  using find_rate_le [of f r] by (simp_all add: chosen_rate_def)

lemma set_frequency_eq:
  "set_frequency f r =
     r\<lparr>curr_rate := of_nat (chosen_rate f r), curr_frequency := frequency_at r (chosen_rate f r), cmos_index := REG_A,
       cmos := (cmos r)(REG_A := (cmos r REG_A AND 0xF0) OR of_nat (chosen_rate f r))\<rparr>"
proof -
  have n: "find_rate f r \<le> 14" by (rule find_rate_le)
  have u: "unat ((of_nat (find_rate f r) :: u8) + 1) = find_rate f r + 1"
    using n by (simp add: unat_word_ariths unat_of_nat)
  let ?rate = "(of_nat (find_rate f r) :: u8) + 1"
  have "\<not> ?rate > MIN_RATE" using n u by (simp add: word_less_nat_alt rtc_consts)
  moreover have "?rate < MAX_RATE \<longleftrightarrow> find_rate f r + 1 < 6" using u by (simp add: word_less_nat_alt rtc_consts)
  ultimately have rate: "(let rate = ?rate; rate = (if rate > MIN_RATE then MIN_RATE else rate)
      in if rate < MAX_RATE then MAX_RATE else rate) = of_nat (chosen_rate f r)"
    by (auto simp: Let_def chosen_rate_def max_def rtc_consts)
  have v: "unat (of_nat (chosen_rate f r) :: u8) = chosen_rate f r"
    using chosen_rate_range [of f r] by (simp add: unat_of_nat)
  show ?thesis
    using rate v by (simp add: set_frequency_def Let_def read_cmos_def select_reg_def write_cmos_def rtc_consts)
qed

lemma find_rate_list: "find_rate f r = length (takeWhile (\<lambda>x. f \<noteq> x) frequencies)"
proof -
  have e: "frequencies = map (frequency_at r) [0..<14]"
    by (simp add: upt_rec frequency_at_def frequencies_def rtc_consts)
  show ?thesis
    unfolding e by (simp only: find_rate_def scan_takeWhile takeWhile_map length_map o_def rtc_consts add_0)
qed

text \<open>The frequency the hardware runs at for a rate, as \<^verbatim>\<open>rtc.h\<close> gives it.\<close>

definition rate_frequency :: "nat \<Rightarrow> nat" where
  "rate_frequency rate = 32768 div 2 ^ (rate - 1)"

lemma chosen_rate_frequency:
  "rate_frequency (chosen_rate f r) =
     (if f \<in> set frequencies then (if f \<le> 1024 then unat f else 1024) else 2)"
proof (cases "f \<in> set frequencies")
  case True
  let ?pos = "\<lambda>f. length (takeWhile (\<lambda>x. f \<noteq> x) frequencies)"
  have "map ?pos frequencies = [0, 1, 2, 3, 4, 5, 6, 7, 8, 9, 10, 11, 12, 13]" by (simp add: frequencies_def)
  then have "map (\<lambda>i. rate_frequency (max 6 (i + 1))) (map ?pos frequencies) =
      [1024, 1024, 1024, 1024, 1024, 1024, 512, 256, 128, 64, 32, 16, 8, 4]"
    by (simp add: rate_frequency_def)
  also have "\<dots> = map (\<lambda>f. if f \<le> 1024 then unat f else 1024) frequencies" by (simp add: frequencies_def)
  finally have "rate_frequency (max 6 (?pos f + 1)) = (if f \<le> 1024 then unat f else 1024)"
    using True by (simp only: map_map o_def map_eq_conv)
  then show ?thesis using True by (simp add: chosen_rate_def find_rate_list)
next
  case False
  then have "takeWhile (\<lambda>x. f \<noteq> x) frequencies = frequencies" by (auto simp: takeWhile_eq_all_conv)
  then have "chosen_rate f r = 15" by (simp add: chosen_rate_def find_rate_list frequencies_def)
  then show ?thesis using False by (simp add: rate_frequency_def)
qed

lemma register_A_rate:
  "k < 16 \<Longrightarrow> ((v AND 0xF0) OR of_nat k) AND 0x0F = (of_nat k :: u8) \<and> ((v AND 0xF0) OR of_nat k) AND 0xF0 = v AND 0xF0"
proof -
  assume k: "k < 16"
  have m: "(0xF0 :: u8) = NOT (mask 4)" "(0x0F :: u8) = mask 4" by (simp_all add: mask_eq_exp_minus_1)
  have "take_bit 4 (of_nat k :: u8) = of_nat k"
    using k by (simp add: take_bit_eq_mod word_unat_eq_iff unat_mod unat_of_nat)
  then have b: "bit (of_nat k :: u8) n \<longrightarrow> n < 4" for n by (metis bit_take_bit_iff)
  show ?thesis
    unfolding m by (intro conjI; rule bit_word_eqI) (use b in \<open>auto simp: bit_simps\<close>)
qed

text \<open>Decoding the two decimal digits of a number below 100.\<close>

definition bcd_digits :: "nat \<Rightarrow> nat" where
  "bcd_digits n = n div 10 * 16 + n mod 10"

lemma bcd_nibbles: "bcd_digits n mod 16 = n mod 10" "bcd_digits n div 16 = n div 10"
proof -
  have "n mod 10 < 16" using mod_less_divisor [of 10 n] by linarith
  then show "bcd_digits n mod 16 = n mod 10" "bcd_digits n div 16 = n div 10" by (simp_all add: bcd_digits_def)
qed

lemma bcd_digits_less: "n < 100 \<Longrightarrow> bcd_digits n < 256"
proof -
  assume "n < 100"
  then have "n div 10 < 10" by (simp add: div_less_iff_less_mult)
  moreover have "n mod 10 < 10" by simp
  ultimately show ?thesis unfolding bcd_digits_def by linarith
qed

lemma low_nibble8: "unat (w AND 0x0F) = unat (w :: u8) mod 16"
proof -
  have m: "(0x0F :: u8) = mask 4" by (simp add: mask_eq_exp_minus_1)
  show ?thesis unfolding m by (simp add: take_bit_eq_mod unat_mod flip: take_bit_eq_mask)
qed

lemma low_nibble32: "unat (w AND 0x0F) = unat (w :: u32) mod 16"
proof -
  have m: "(0x0F :: u32) = mask 4" by (simp add: mask_eq_exp_minus_1)
  show ?thesis unfolding m by (simp add: take_bit_eq_mod unat_mod flip: take_bit_eq_mask)
qed

lemma bcd_byte_decode: "n < 100 \<Longrightarrow> unat (bcd_byte (of_nat (bcd_digits n))) = n"
proof -
  assume n: "n < 100"
  have "unat (of_nat (bcd_digits n) :: u8) = bcd_digits n" using bcd_digits_less [OF n] by (simp add: unat_of_nat)
  then have "bcd_byte (of_nat (bcd_digits n)) = of_nat (n mod 10 + n div 10 * 10)"
    by (simp only: bcd_byte_def low_nibble8 bcd_nibbles)
  then show ?thesis using n by (simp only: mod_div_mult_eq) (simp add: unat_of_nat)
qed

lemma bcd_word_decode:
  "n < 100 \<Longrightarrow> ((of_nat (bcd_digits n) :: u32) AND 0x0F) + of_nat (bcd_digits n) div 16 * 10 = of_nat n"
proof -
  assume n: "n < 100"
  let ?w = "of_nat (bcd_digits n) :: u32"
  have u: "unat ?w = bcd_digits n" using bcd_digits_less [OF n] by (simp add: unat_of_nat)
  have "?w AND 0x0F = of_nat (n mod 10)"
    by (simp only: word_unat_eq_iff low_nibble32 u bcd_nibbles) (simp add: unat_of_nat)
  moreover have "?w div 16 = of_nat (n div 10)"
    using n by (simp only: word_unat_eq_iff unat_div u) (simp add: bcd_nibbles unat_of_nat)
  ultimately have "(?w AND 0x0F) + ?w div 16 * 10 = of_nat (n mod 10 + n div 10 * 10)"
    by (simp only: of_nat_add of_nat_mult of_nat_numeral)
  then show ?thesis by (simp only: mod_div_mult_eq)
qed

lemma convert_time_fields:
  "rtc_second (convert_time b r) = (if b AND BINARY_MODE_BIT = 0 then bcd_byte (rtc_second r) else rtc_second r)"
  "rtc_minute (convert_time b r) = (if b AND BINARY_MODE_BIT = 0 then bcd_byte (rtc_minute r) else rtc_minute r)"
  "rtc_year (convert_time b r) =
     (let y = (if b AND BINARY_MODE_BIT = 0 then (rtc_year r AND 0x0F) + rtc_year r div 16 * 10 else rtc_year r)
      in if y + 2000 < 2017 then y + 2000 + 100 else y + 2000)"
  by (simp_all add: convert_time_def Let_def)

section \<open>Properties\<close>

text \<open>
  \<^verbatim>\<open>set_frequency\<close> programs the clock for the frequency it is given when that is one of
  its table (powers of two from 4 Hz) up to 1024 Hz, for 1024 Hz when it is a larger one of
  the table, and for 2 Hz otherwise; it keeps the divider bits of register A and every other register.
\<close>

theorem set_frequency_programs:
  "rate_frequency (unat (cmos (set_frequency f r) REG_A AND 0x0F)) =
     (if f \<in> set frequencies then (if f \<le> 1024 then unat f else 1024) else 2) \<and>
   cmos (set_frequency f r) REG_A AND 0xF0 = cmos r REG_A AND 0xF0 \<and>
   (\<forall>x. x = REG_A \<or> cmos (set_frequency f r) x = cmos r x)"
proof -
  have k: "chosen_rate f r < 16" using chosen_rate_range [of f r] by simp
  have "unat (of_nat (chosen_rate f r) :: u8) = chosen_rate f r" using k by (simp add: unat_of_nat)
  then show ?thesis
    using register_A_rate [OF k, of "cmos r REG_A"] chosen_rate_frequency [of f r]
    by (simp add: set_frequency_eq)
qed

text \<open>
  The variable \<^verbatim>\<open>curr_frequency\<close> that \<^verbatim>\<open>set_frequency\<close> saves is not the frequency it
  programs: after a request for 1024 Hz it holds 512, and after a request for 2 or 4 Hz it
  holds a word from outside the table.
\<close>

theorem set_frequency_saved_value:
  "rate_frequency (unat (cmos (set_frequency 1024 r) REG_A AND 0x0F)) = 1024 \<and>
   curr_frequency (set_frequency 1024 r) = 512 \<and>
   curr_frequency (set_frequency 4 r) = past_frequencies r 0 \<and>
   curr_frequency (set_frequency 2 r) = past_frequencies r 1"
proof -
  have c: "chosen_rate 1024 r = 6" "chosen_rate 4 r = 14" "chosen_rate 2 r = 15"
    by (simp_all add: chosen_rate_def find_rate_list frequencies_def)
  have "rate_frequency (unat (cmos (set_frequency 1024 r) REG_A AND 0x0F)) = 1024"
    using register_A_rate [of 6 "cmos r REG_A"] by (simp add: set_frequency_eq c rate_frequency_def)
  then show ?thesis
    by (simp add: set_frequency_eq c) (simp add: frequency_at_def frequencies_def rtc_consts)
qed

text \<open>
  The calendar conversion reads binary coded decimals: a byte whose two nibbles are
  the decimal digits of a number below 100 is converted to that number, and the year of a
  two-digit register value comes out between 2017 and 2116 with those two last digits.
\<close>

theorem convert_time_bcd:
  assumes "s < 60" "m < 60" "y < 100" "registerB AND BINARY_MODE_BIT = 0"
    and "rtc_second r = of_nat (bcd_digits s)" "rtc_minute r = of_nat (bcd_digits m)"
    and "rtc_year r = of_nat (bcd_digits y)"
  shows "unat (rtc_second (convert_time registerB r)) = s \<and> unat (rtc_minute (convert_time registerB r)) = m \<and>
    2017 \<le> unat (rtc_year (convert_time registerB r)) \<and> unat (rtc_year (convert_time registerB r)) < 2117 \<and>
    unat (rtc_year (convert_time registerB r)) mod 100 = y"
proof -
  have year: "(of_nat y :: u32) + 2000 < 2017 \<longleftrightarrow> y < 17" "unat (of_nat y + 2000 + 100 :: u32) = y + 2100"
    "unat (of_nat y + 2000 :: u32) = y + 2000"
    using assms(3) by (simp_all add: word_less_nat_alt unat_word_ariths unat_of_nat)
  have "unat (rtc_year (convert_time registerB r)) = (if y < 17 then y + 2100 else y + 2000)"
    unfolding convert_time_fields assms(4) if_P [OF refl] assms(7) bcd_word_decode [OF assms(3)] Let_def
    by (simp only: year if_distrib [of unat])
  moreover have "unat (rtc_second (convert_time registerB r)) = s" "unat (rtc_minute (convert_time registerB r)) = m"
    unfolding convert_time_fields assms(4) if_P [OF refl] assms(5,6) using assms(1,2) by (simp_all add: bcd_byte_decode)
  moreover have "(y + 2100) mod 100 = y" "(y + 2000) mod 100 = y"
    using mod_mult_self2 [of y 100 21] mod_mult_self2 [of y 100 20] assms(3) by simp_all
  ultimately show ?thesis using assms(3) by auto
qed

text \<open>What \<^verbatim>\<open>update_time\<close> takes from the chip.\<close>

definition chip_time :: "(u8 \<Rightarrow> u8) \<Rightarrow> u8 list" where
  "chip_time c = map c [0, 2, 4, 7, 8, 9]"

definition rtc_time :: "rtc \<Rightarrow> u8 list" where
  "rtc_time r = [rtc_second r, rtc_minute r, rtc_hour r, rtc_day r, rtc_month r, ucast (rtc_year r)]"

lemma update_time_fields:
  "rtc_time (update_time r) = chip_time (cmos r)" "cmos (update_time r) = cmos r" "rtc_year (update_time r) = ucast (cmos r 9)"
proof -
  have "ucast (ucast x :: u32) = x" for x :: u8 by (rule bit_word_eqI) (simp add: bit_ucast_iff)
  then show "rtc_time (update_time r) = chip_time (cmos r)" "cmos (update_time r) = cmos r" "rtc_year (update_time r) = ucast (cmos r 9)"
    by (simp_all add: update_time_def get_RTC_reg_def read_cmos_def select_reg_def Let_def rtc_time_def chip_time_def)
qed

lemma wait_update_busy:
  assumes "\<forall>c\<in>set busy. c REG_A AND DISABLE_NMI \<noteq> 0" "c REG_A AND DISABLE_NMI = 0"
  shows "\<exists>r'. wait_update (busy @ c # cs) r = Some (cs, r') \<and> cmos r' = c"
  using assms(1)
proof (induction busy arbitrary: r)
  case Nil
  then show ?case using assms(2) by (simp add: get_update_flag_def read_cmos_def select_reg_def rtc_consts)
next
  case (Cons b busy)
  then show ?case by (simp add: get_update_flag_def read_cmos_def select_reg_def rtc_consts)
qed


definition demo_rtc :: rtc where
  "demo_rtc = \<lparr>interrupt_flag = 0, rtc_second = 0x59, rtc_minute = 0x07, rtc_hour = 0x12, rtc_day = 1, rtc_month = 1,
     rtc_year = 0x17, curr_rate = 0, curr_frequency = 0, past_frequencies = (\<lambda>_. 0), cmos_index = 0, cmos = (\<lambda>_. 0)\<rparr>"

theorem convert_time_bcd_witness:
  "unat (rtc_second (convert_time 0 demo_rtc)) = 59 \<and> unat (rtc_minute (convert_time 0 demo_rtc)) = 7 \<and>
   unat (rtc_year (convert_time 0 demo_rtc)) mod 100 = 17"
  using convert_time_bcd [of 59 7 17 0 demo_rtc] by (simp add: demo_rtc_def bcd_digits_def)


end
