(* ===== verification/Keyboard.thy ===== *)
theory Keyboard
  imports Console
begin

text \<open>
  The line editor: the state of \<^verbatim>\<open>keyboard.c\<close> and the saved lines of \<^verbatim>\<open>terminal.c\<close>, the scan
  code tables, the modifier keys, the line buffers, and \<^verbatim>\<open>terminal_read\<close> and
  \<^verbatim>\<open>terminal_retrieve\<close>, through which a finished line travels. The interrupt handler itself,
  which also reaches the console and the processes, is in the theory of the kernel.
  The argument \<open>t\<close> is the value of \<^verbatim>\<open>curr_terminal\<close>.
\<close>

section \<open>State\<close>

definition BUFFER_SIZE :: nat where "BUFFER_SIZE = 128"
definition TERM_BUFF_SIZE :: nat where "TERM_BUFF_SIZE = 128"
definition NONE_MODE :: int where "NONE_MODE = 0"
definition SHIFT_MODE :: int where "SHIFT_MODE = 1"
definition CAPS_MODE :: int where "CAPS_MODE = 2"
definition SHIFT_CAPS_MODE :: int where "SHIFT_CAPS_MODE = 3"

lemmas kbd_consts = BUFFER_SIZE_def TERM_BUFF_SIZE_def NONE_MODE_def SHIFT_MODE_def CAPS_MODE_def SHIFT_CAPS_MODE_def

record keyboard =
  caps_shift_flag :: "nat \<Rightarrow> int"
  ctrl_flag :: int
  alt_flag :: int
  buffer_index :: "nat \<Rightarrow> int"
  buffer :: "nat \<Rightarrow> bytes"
  kbdr_flag :: int
  CTR3 :: int
  CTR4 :: int
  save_buff :: "nat \<Rightarrow> bytes"

section \<open>The scan code tables\<close>

text \<open>The rows of \<^verbatim>\<open>kbd_ascii_key_map\<close>; the 38 entries the initialisers leave out are zero.\<close>

definition keys_none :: "u8 list" where
  "keys_none =
    [0, 0, 49, 50, 51, 52, 53, 54, 55, 56, 57, 48, 45, 61, 0, 0, 113, 119, 101, 114,
     116, 121, 117, 105, 111, 112, 91, 93, 10, 0, 97, 115, 100, 102, 103, 104, 106, 107, 108, 59,
     39, 96, 0, 92, 122, 120, 99, 118, 98, 110, 109, 44, 46, 47, 0, 42, 0, 32, 0, 0,
     0, 0, 0, 0, 0, 0, 0, 0, 0, 0, 0, 0, 0, 0, 45, 0, 0, 0, 43, 0,
     0, 0, 0, 0, 0, 0, 0, 0, 0, 0]"

definition keys_shift :: "u8 list" where
  "keys_shift =
    [0, 0, 33, 64, 35, 36, 37, 94, 38, 42, 40, 41, 95, 43, 0, 0, 81, 87, 69, 82,
     84, 89, 85, 73, 79, 80, 123, 125, 10, 0, 65, 83, 68, 70, 71, 72, 74, 75, 76, 58,
     34, 126, 0, 124, 90, 88, 67, 86, 66, 78, 77, 60, 62, 63, 0, 42, 0, 32, 0, 0,
     0, 0, 0, 0, 0, 0, 0, 0, 0, 0, 0, 0, 0, 0, 45, 0, 0, 0, 43, 0,
     0, 0, 0, 0, 0, 0, 0, 0, 0, 0]"

definition keys_caps :: "u8 list" where
  "keys_caps =
    [0, 0, 49, 50, 51, 52, 53, 54, 55, 56, 57, 48, 45, 61, 0, 0, 81, 87, 69, 82,
     84, 89, 85, 73, 79, 80, 91, 93, 10, 0, 65, 83, 68, 70, 71, 72, 74, 75, 76, 59,
     39, 96, 0, 92, 90, 88, 67, 86, 66, 78, 77, 44, 46, 47, 0, 42, 0, 32, 0, 0,
     0, 0, 0, 0, 0, 0, 0, 0, 0, 0, 0, 0, 0, 0, 45, 0, 0, 0, 43, 0,
     0, 0, 0, 0, 0, 0, 0, 0, 0, 0]"

definition keys_shift_caps :: "u8 list" where
  "keys_shift_caps =
    [0, 0, 33, 64, 35, 36, 37, 94, 38, 42, 40, 41, 95, 43, 0, 0, 113, 119, 101, 114,
     116, 121, 117, 105, 111, 112, 91, 93, 10, 0, 97, 115, 100, 102, 103, 104, 106, 107, 108, 58,
     34, 126, 0, 124, 122, 120, 99, 118, 98, 110, 109, 60, 62, 63, 0, 42, 0, 32, 0, 0,
     0, 0, 0, 0, 0, 0, 0, 0, 0, 0, 0, 0, 0, 0, 45, 0, 0, 0, 43, 0,
     0, 0, 0, 0, 0, 0, 0, 0, 0, 0]"

definition kbd_ascii_key_map :: "int \<Rightarrow> u8 \<Rightarrow> u8" where
  "kbd_ascii_key_map mode key =
     (let row = (if mode = NONE_MODE then keys_none else if mode = SHIFT_MODE then keys_shift
                 else if mode = CAPS_MODE then keys_caps else keys_shift_caps)
      in if unat key < length row then row ! unat key else 0)"

section \<open>Modifier keys\<close>

definition toggle_caps :: "nat \<Rightarrow> keyboard \<Rightarrow> keyboard" where
  "toggle_caps t k =
     (let m = caps_shift_flag k t
      in k\<lparr>caps_shift_flag := (caps_shift_flag k)(t :=
           if m = NONE_MODE then CAPS_MODE else if m = SHIFT_MODE then SHIFT_CAPS_MODE
           else if m = CAPS_MODE then NONE_MODE else SHIFT_MODE)\<rparr>)"

text \<open>\<open>pressed\<close> is the test \<^verbatim>\<open>type == MAKE\<close>.\<close>

definition toggle_shift :: "bool \<Rightarrow> nat \<Rightarrow> keyboard \<Rightarrow> keyboard" where
  "toggle_shift pressed t k =
     (let m = caps_shift_flag k t
      in k\<lparr>caps_shift_flag := (caps_shift_flag k)(t :=
           if pressed then (if m = NONE_MODE then SHIFT_MODE else if m = CAPS_MODE then SHIFT_CAPS_MODE else m)
           else (if m = SHIFT_MODE then NONE_MODE else if m = SHIFT_CAPS_MODE then CAPS_MODE else m))\<rparr>)"

definition toggle_ctrl :: "bool \<Rightarrow> keyboard \<Rightarrow> keyboard" where
  "toggle_ctrl pressed k = k\<lparr>ctrl_flag := (if pressed then 1 else 0)\<rparr>"

definition toggle_alt :: "bool \<Rightarrow> keyboard \<Rightarrow> keyboard" where
  "toggle_alt pressed k = k\<lparr>alt_flag := (if pressed then 1 else 0)\<rparr>"

section \<open>The line buffer\<close>

definition clear_buffer :: "nat \<Rightarrow> keyboard \<Rightarrow> keyboard" where
  "clear_buffer t k =
     k\<lparr>buffer := (buffer k)(t := fill_run (buffer k t) 0 NUL BUFFER_SIZE), buffer_index := (buffer_index k)(t := 0)\<rparr>"

fun clear_buffers :: "keyboard \<Rightarrow> nat \<Rightarrow> nat \<Rightarrow> keyboard" where
  "clear_buffers k t 0 = k"
| "clear_buffers k t (Suc n) =
     clear_buffers (k\<lparr>buffer := (buffer k)(t := fill_run (buffer k t) 0 NUL BUFFER_SIZE),
       buffer_index := (buffer_index k)(t := 0), caps_shift_flag := (caps_shift_flag k)(t := NONE_MODE)\<rparr>) (Suc t) n"

text \<open>Storing a typed character: the last branch of \<^verbatim>\<open>process_key\<close>, without the echo.\<close>

definition store_key :: "u8 \<Rightarrow> nat \<Rightarrow> keyboard \<Rightarrow> keyboard" where
  "store_key c t k =
     k\<lparr>buffer := (buffer k)(t := (buffer k t)(nat (buffer_index k t) := c)),
       buffer_index := (buffer_index k)(t := buffer_index k t + 1)\<rparr>"

text \<open>Dropping the last one: the body of \<^verbatim>\<open>handle_backspace\<close>, without the screen.\<close>

definition drop_key :: "nat \<Rightarrow> keyboard \<Rightarrow> keyboard" where
  "drop_key t k =
     k\<lparr>buffer_index := (buffer_index k)(t := buffer_index k t - 1),
       buffer := (buffer k)(t := (buffer k t)(nat (buffer_index k t - 1) := NUL))\<rparr>"

section \<open>The saved line\<close>

definition terminal_read :: "s32 \<Rightarrow> u32 \<Rightarrow> bytes \<Rightarrow> s32 \<Rightarrow> nat \<Rightarrow> keyboard \<Rightarrow> s32 \<times> keyboard" where
  "terminal_read fd ptr buf nbytes t k =
     (if ptr = 0 then (FAIL, k)
      else let cleaned = fill_run (save_buff k t) 0 NUL TERM_BUFF_SIZE;
               filled = copy_run cleaned 0 buf 0 (min TERM_BUFF_SIZE (nat (sint nbytes)))
           in (FAIL, k\<lparr>save_buff := (save_buff k)(t := filled)\<rparr>))"

text \<open>The filling loop of \<^verbatim>\<open>terminal_retrieve\<close>; \<open>n\<close> bounds the rounds that \<^verbatim>\<open>nbytes\<close> allows.\<close>

fun retrieve_loop :: "bytes \<Rightarrow> bytes \<Rightarrow> nat \<Rightarrow> nat \<Rightarrow> nat \<Rightarrow> nat \<times> bytes" where
  "retrieve_loop save buf i cmd_cnt 0 = (cmd_cnt, buf)"
| "retrieve_loop save buf i cmd_cnt (Suc n) =
     (if i < TERM_BUFF_SIZE
      then let buf = buf(cmd_cnt := save i)
           in if save i = NUL then (cmd_cnt, buf) else retrieve_loop save buf (Suc i) (Suc cmd_cnt) n
      else (cmd_cnt, buf))"

definition terminal_retrieve :: "bytes \<Rightarrow> s32 \<Rightarrow> nat \<Rightarrow> keyboard \<Rightarrow> nat \<times> bytes" where
  "terminal_retrieve buf nbytes t k =
     (let n = nat (sint nbytes);
          i = scan (\<lambda>i. save_buff k t i = SPACE) 0 (min n TERM_BUFF_SIZE)
      in retrieve_loop (save_buff k t) buf i 0 n)"

definition EXIT_LEN :: nat where "EXIT_LEN = 4"

text \<open>What \<^verbatim>\<open>keyboard_read\<close> does once \<^verbatim>\<open>kbdr_flag\<close> is set.\<close>

definition finish_read :: "bytes \<Rightarrow> s32 \<Rightarrow> nat \<Rightarrow> keyboard \<Rightarrow> nat \<times> bytes" where
  "finish_read buf nbytes t k =
     (let (count, buf) = terminal_retrieve buf nbytes t k
      in if strncmp buf (cstr ''exit'') EXIT_LEN \<noteq> 0 then (count + 1, buf(count := NEWLINE)) else (count, buf))"

section \<open>Invariant\<close>

text \<open>
  In every terminal the buffer index is in range, the modifier flag is one of the four
  modes, and the buffer is empty from the index on.
\<close>

definition keyboard_ok :: "keyboard \<Rightarrow> bool" where
  "keyboard_ok k \<longleftrightarrow>
     (\<forall>t<MAX_TERMINAL. 0 \<le> buffer_index k t \<and> buffer_index k t < int BUFFER_SIZE \<and> caps_shift_flag k t \<in> {0, 1, 2, 3} \<and>
        (\<forall>i<BUFFER_SIZE. nat (buffer_index k t) \<le> i \<longrightarrow> buffer k t i = NUL))"

lemma toggles_ok [inv_intros]:
  "keyboard_ok k \<Longrightarrow> keyboard_ok (toggle_caps t k)"
  "keyboard_ok k \<Longrightarrow> keyboard_ok (toggle_shift m t k)"
  "keyboard_ok k \<Longrightarrow> keyboard_ok (toggle_ctrl m k)"
  "keyboard_ok k \<Longrightarrow> keyboard_ok (toggle_alt m k)"
  by (auto simp: keyboard_ok_def toggle_caps_def toggle_shift_def toggle_ctrl_def toggle_alt_def Let_def kbd_consts)

lemma clear_buffer_ok [inv_intros]: "keyboard_ok k \<Longrightarrow> keyboard_ok (clear_buffer t k)"
  by (auto simp: keyboard_ok_def clear_buffer_def fill_run_eq kbd_consts)

lemma store_key_ok [inv_intros]:
  "keyboard_ok k \<Longrightarrow> buffer_index k t + 1 < int BUFFER_SIZE \<Longrightarrow> keyboard_ok (store_key c t k)"
  by (auto simp: keyboard_ok_def store_key_def kbd_consts nat_add_distrib)

lemma drop_key_ok [inv_intros]:
  "keyboard_ok k \<Longrightarrow> t < MAX_TERMINAL \<Longrightarrow> buffer_index k t - 1 \<ge> 0 \<Longrightarrow> keyboard_ok (drop_key t k)"
  by (auto simp: keyboard_ok_def drop_key_def kbd_consts nat_diff_distrib)

lemma terminal_read_ok [inv_intros]: "keyboard_ok k \<Longrightarrow> keyboard_ok (snd (terminal_read fd p b n t k))"
  by (auto simp: keyboard_ok_def terminal_read_def Let_def)

section \<open>The line, abstractly\<close>

definition typed :: "nat \<Rightarrow> keyboard \<Rightarrow> u8 list" where
  "typed t k = run_of (buffer k t) 0 (nat (buffer_index k t))"

lemma typed_store: "0 \<le> buffer_index k t \<Longrightarrow> typed t (store_key c t k) = typed t k @ [c]"
  by (rule nth_equalityI) (auto simp: typed_def store_key_def nth_append nat_add_distrib less_Suc_eq)

lemma typed_drop: "0 < buffer_index k t \<Longrightarrow> typed t (drop_key t k) = butlast (typed t k)"
  by (rule nth_equalityI) (auto simp: typed_def drop_key_def nth_butlast nat_diff_distrib)

lemma typed_clear: "typed t (clear_buffer t k) = []"
  by (simp add: typed_def clear_buffer_def)

lemma saved_line:
  assumes "keyboard_ok k" "t < MAX_TERMINAL" "ptr \<noteq> 0"
  shows "save_buff (snd (terminal_read fd ptr (buffer k t) (of_int (buffer_index k t)) t k)) t i =
    (if i < length (typed t k) then typed t k ! i else if i < TERM_BUFF_SIZE then NUL else save_buff k t i)"
proof -
  have r: "0 \<le> buffer_index k t" "buffer_index k t < 128"
    using assms(1,2) by (auto simp: keyboard_ok_def kbd_consts)
  then have "sint (of_int (buffer_index k t) :: s32) = buffer_index k t"
    by (simp add: signed_of_int signed_take_bit_int_eq_self)
  then show ?thesis
    using assms(3) r by (simp add: terminal_read_def Let_def copy_run_eq fill_run_eq kbd_consts typed_def)
qed

lemma retrieve_loop_eq:
  "retrieve_loop save buf i c n =
     (let xs = take n (takeWhile (\<lambda>b. b \<noteq> NUL) (map save [i..<128]))
      in (c + length xs,
          \<lambda>j. if c \<le> j \<and> j < c + length xs then xs ! (j - c)
              else if j = c + length xs \<and> length xs < n \<and> i + length xs < 128 then NUL else buf j))"
proof (induction n arbitrary: buf i c)
  case (Suc n)
  show ?case
  proof (cases "i < 128")
    case True
    then have u: "[i..<128] = i # [Suc i..<128]" by (simp add: upt_rec)
    show ?thesis
      using True by (auto simp: Suc.IH Let_def u kbd_consts fun_eq_iff nth_Cons' Suc_diff_le simp del: upt_Suc)
  qed (auto simp: Let_def kbd_consts fun_eq_iff)
qed (auto simp: fun_eq_iff)

text \<open>What a reader gets of a line: leading spaces are stripped, a NUL ends it.\<close>

definition stripped :: "u8 list \<Rightarrow> u8 list" where
  "stripped xs = takeWhile (\<lambda>b. b \<noteq> NUL) (dropWhile (\<lambda>b. b = SPACE) xs)"

lemma stripped_padding: "stripped (xs @ replicate m NUL) = stripped xs"
proof -
  have z: "takeWhile (\<lambda>b. b \<noteq> NUL) (ys @ replicate m NUL) = takeWhile (\<lambda>b. b \<noteq> NUL) ys" for ys
    by (induction ys) (cases m, auto)+
  show ?thesis
  proof (induction xs)
    case Nil
    show ?case by (cases m) (simp_all add: stripped_def)
  next
    case (Cons c xs)
    show ?case
    proof (cases "c = SPACE")
      case True
      then show ?thesis using Cons.IH by (simp add: stripped_def)
    next
      case False
      then show ?thesis using z [of "c # xs"] by (simp add: stripped_def)
    qed
  qed
qed

text \<open>A saved line with its terminator at \<open>m\<close>, and a reader with room for both.\<close>

lemma terminal_retrieve_line:
  assumes "save_buff k t m = NUL" "m < 128" "int m < sint nbytes"
  defines "ys \<equiv> stripped (map (save_buff k t) [0..<128])"
  shows "fst (terminal_retrieve buf nbytes t k) = length ys"
    and "j < length ys \<Longrightarrow> snd (terminal_retrieve buf nbytes t k) j = ys ! j"
    and "snd (terminal_retrieve buf nbytes t k) (length ys) = NUL"
proof -
  let ?save = "save_buff k t" and ?n = "nat (sint nbytes)"
  define i where "i = scan (\<lambda>i. ?save i = SPACE) 0 128"
  let ?line = "map ?save [0..<128]"
  have im: "i \<le> m" unfolding i_def using scan_prefix [of 0 m "\<lambda>i. ?save i = SPACE" 128] assms(1) by force
  have n: "scan (\<lambda>i. ?save i = SPACE) 0 (min ?n TERM_BUFF_SIZE) = i"
  proof (rule scan_unique)
    show "i \<le> 0 + min ?n TERM_BUFF_SIZE" using im assms(2,3) by (simp add: kbd_consts)
    show "?save j = SPACE" if "0 \<le> j" "j < i" for j using that unfolding i_def by (rule scan_prefix)
    have "\<not> ?save i = SPACE" using im assms(2) unfolding i_def by (intro scan_stop) linarith
    then show "i = 0 + min ?n TERM_BUFF_SIZE \<or> \<not> ?save i = SPACE" by simp
  qed simp
  have i: "i = length (takeWhile (\<lambda>b. b = SPACE) ?line)"
    by (simp add: i_def scan_takeWhile takeWhile_map o_def)
  have "map ?save [i..<128] = drop i ?line" by (simp add: drop_map)
  also have "\<dots> = dropWhile (\<lambda>b. b = SPACE) ?line" unfolding i by (simp add: dropWhile_eq_drop)
  finally have d: "takeWhile (\<lambda>b. b \<noteq> NUL) (map ?save [i..<128]) = ys" by (simp add: stripped_def ys_def)
  have l: "i + length ys \<le> m"
  proof (rule ccontr)
    assume "\<not> i + length ys \<le> m"
    then have "m - i < length ys" using im by simp
    then have y: "ys ! (m - i) = map ?save [i..<128] ! (m - i)" "ys ! (m - i) \<in> set ys"
      using takeWhile_nth [of "m - i" "\<lambda>b. b \<noteq> NUL" "map ?save [i..<128]"] unfolding d by (simp, blast intro: nth_mem)
    have "map ?save [i..<128] ! (m - i) = NUL" using im assms(1,2) by simp
    then show False using y set_takeWhileD [of "ys ! (m - i)" "\<lambda>b. b \<noteq> NUL" "map ?save [i..<128]"] unfolding d by simp
  qed
  then have tk: "take ?n ys = ys" "length ys < ?n" "i + length ys < 128" using assms(2,3) by auto
  have ret: "terminal_retrieve buf nbytes t k = (length ys,
      \<lambda>j. if j < length ys then ys ! j else if j = length ys \<and> length ys < ?n \<and> i + length ys < 128 then NUL else buf j)"
    unfolding terminal_retrieve_def Let_def n retrieve_loop_eq d tk(1) by (simp cong: if_cong)
  show "fst (terminal_retrieve buf nbytes t k) = length ys" unfolding ret by simp
  show "snd (terminal_retrieve buf nbytes t k) j = ys ! j" if "j < length ys" using that unfolding ret by simp
  show "snd (terminal_retrieve buf nbytes t k) (length ys) = NUL" using tk unfolding ret by simp
qed

text \<open>The reader's view of a finished line: stripped, with a newline unless it starts with \<^verbatim>\<open>exit\<close>.\<close>

definition line_result :: "u8 list \<Rightarrow> u8 list" where
  "line_result xs = (if take 4 (stripped xs) = [101, 120, 105, 116] then stripped xs else stripped xs @ [NEWLINE])"

lemma exit_bytes:
  "cstr ''exit'' 0 = 101" "cstr ''exit'' 1 = 120" "cstr ''exit'' 2 = 105" "cstr ''exit'' 3 = 116"
  by (simp_all add: cstr_def byte_of_char_def of_char_def)

lemma exit_test:
  assumes "\<And>j. j < length ys \<Longrightarrow> b j = ys ! j" "b (length ys) = NUL" "NUL \<notin> set ys"
  shows "strncmp b (cstr ''exit'') EXIT_LEN = 0 \<longleftrightarrow> take 4 ys = [101, 120, 105, 116]"
proof (cases "length ys < 4")
  case True
  have nn: "b l \<noteq> NUL" if "l < length ys" for l using that assms(1,3) by (metis nth_mem)
  have "length ys = 0 \<or> length ys = 1 \<or> length ys = 2 \<or> length ys = 3" using True by arith
  then have "cstr ''exit'' (length ys) \<noteq> NUL"
    by (elim disjE) (simp_all add: exit_bytes [unfolded One_nat_def])
  then have "strncmp b (cstr ''exit'') EXIT_LEN \<noteq> 0"
    unfolding strncmp_0_iff using True nn assms(2) by (auto simp: EXIT_LEN_def)
  moreover have "length (take 4 ys) \<noteq> 4" using True by simp
  then have "take 4 ys \<noteq> [101, 120, 105, 116]" by fastforce
  ultimately show ?thesis by simp
next
  case False
  have nn: "b l \<noteq> NUL" if "l < 4" for l using that False assms(1,3) by (metis le_trans linorder_not_less nth_mem order_less_le_trans)
  have "run_of b 0 4 = take 4 ys" by (rule nth_equalityI) (use False assms(1) in auto)
  moreover have four: "[0..<4] = [0, 1, 2, 3 :: nat]" by code_simp
  have "run_of (cstr ''exit'') 0 4 = [101, 120, 105, 116]"
    by (simp add: run_of_def four exit_bytes [unfolded One_nat_def])
  ultimately show ?thesis using strncmp_nonul_0_iff [of EXIT_LEN b] nn by (simp add: EXIT_LEN_def)
qed

lemma finish_read_line:
  assumes "keyboard_ok k" "t < MAX_TERMINAL" "ptr \<noteq> 0" "int (length (typed t k)) < sint nbytes"
    and k1_def: "k1 = snd (terminal_read fd ptr (buffer k t) (of_int (buffer_index k t)) t k)"
  shows "fst (finish_read buf nbytes t k1) = length (line_result (typed t k)) \<and>
    run_of (snd (finish_read buf nbytes t k1)) 0 (length (line_result (typed t k))) = line_result (typed t k)"
proof -
  let ?ys = "stripped (typed t k)"
  have len: "length (typed t k) < 128"
    using assms(1,2) by (auto simp: typed_def keyboard_ok_def kbd_consts)
  have pad: "map (save_buff k1 t) [0..<128] = typed t k @ replicate (128 - length (typed t k)) NUL"
    using len by (intro nth_equalityI) (auto simp: k1_def saved_line [OF assms(1-3)] nth_append kbd_consts)
  then have line: "stripped (map (save_buff k1 t) [0..<128]) = ?ys"
    by (simp add: stripped_padding)
  have "map (save_buff k1 t) [0..<128] ! length (typed t k) = NUL" unfolding pad using len by (simp add: nth_append)
  then have "save_buff k1 t (length (typed t k)) = NUL" using len by simp
  note r = terminal_retrieve_line [OF this len assms(4), where buf = buf, unfolded line]
  let ?b = "snd (terminal_retrieve buf nbytes t k1)"
  have "NUL \<notin> set ?ys" by (auto simp: stripped_def dest: set_takeWhileD)
  then have ex: "strncmp ?b (cstr ''exit'') EXIT_LEN = 0 \<longleftrightarrow> take 4 ?ys = [101, 120, 105, 116]"
    using exit_test [of ?ys ?b] r(2,3) by blast
  have f: "finish_read buf nbytes t k1 =
      (if strncmp ?b (cstr ''exit'') EXIT_LEN \<noteq> 0 then (length ?ys + 1, ?b(length ?ys := NEWLINE)) else (length ?ys, ?b))"
    using r(1) by (simp add: finish_read_def case_prod_beta)
  show ?thesis
    unfolding f ex by (auto simp: line_result_def run_of_eq_iff r(2) nth_append less_Suc_eq)
qed

section \<open>Properties\<close>

text \<open>
  The table of keys is consistent over the four modes: with caps lock alone, and with
  shift and caps lock together, the letters are the opposite case of the plain and of the
  shifted table, and every other key of the caps lock table is as in the plain one.
\<close>

theorem key_map_modes:
  "(\<forall>key. kbd_ascii_key_map CAPS_MODE key =
      (if kbd_ascii_key_map NONE_MODE key \<in> {97..122} then kbd_ascii_key_map NONE_MODE key - 32
       else kbd_ascii_key_map NONE_MODE key)) \<and>
   (\<forall>key. kbd_ascii_key_map SHIFT_CAPS_MODE key =
      (if kbd_ascii_key_map SHIFT_MODE key \<in> {65..90} then kbd_ascii_key_map SHIFT_MODE key + 32
       else if key \<in> {0x1A, 0x1B} then kbd_ascii_key_map NONE_MODE key
       else kbd_ascii_key_map SHIFT_MODE key))"
proof -
  have l: "length keys_none = 90" "length keys_shift = 90" "length keys_caps = 90" "length keys_shift_caps = 90"
    by (simp_all add: keys_none_def keys_shift_def keys_caps_def keys_shift_caps_def)
  have c: "keys_caps = map (\<lambda>c. if c \<in> {97..122} then c - 32 else c) keys_none"
    by (simp add: keys_none_def keys_caps_def)
  have sc: "keys_shift_caps = (map (\<lambda>c. if c \<in> {65..90} then c + 32 else c) keys_shift)[26 := 91, 27 := 93]"
    by (simp add: keys_shift_def keys_shift_caps_def)
  have br: "keys_none ! 26 = 91" "keys_none ! 27 = 93" "keys_shift ! 26 = 123" "keys_shift ! 27 = 125"
    by (simp_all add: keys_none_def keys_shift_def)
  have "kbd_ascii_key_map CAPS_MODE key =
      (if kbd_ascii_key_map NONE_MODE key \<in> {97..122} then kbd_ascii_key_map NONE_MODE key - 32
       else kbd_ascii_key_map NONE_MODE key)" for key
    by (simp add: kbd_ascii_key_map_def Let_def kbd_consts l) (simp add: c l)
  moreover have "kbd_ascii_key_map SHIFT_CAPS_MODE key =
      (if kbd_ascii_key_map SHIFT_MODE key \<in> {65..90} then kbd_ascii_key_map SHIFT_MODE key + 32
       else if key \<in> {0x1A, 0x1B} then kbd_ascii_key_map NONE_MODE key
       else kbd_ascii_key_map SHIFT_MODE key)" for key
  proof -
    have "key \<in> {0x1A, 0x1B} \<longleftrightarrow> unat key = 26 \<or> unat key = 27" by (auto simp: word_unat_eq_iff)
    then show ?thesis
      by (simp add: kbd_ascii_key_map_def Let_def kbd_consts l) (auto simp: sc l br nth_list_update)
  qed
  ultimately show ?thesis by blast
qed

end
