(* ===== verification/Kernel.thy ===== *)
theory Kernel
  imports Printf Filesystem FdTable Paging Rtc Keyboard
begin

text \<open>
  The state of the whole kernel, one field per component, and the shared vocabulary of the
  operations that reach several components: the console calls on behalf of the current
  terminal, physical memory (of which video memory is a part), and how a call can end when
  the code leaves it by switching stacks.
\<close>

section \<open>State\<close>

text \<open>
  \<open>reg_esp\<close> and \<open>reg_ebp\<close> are the stack registers as inline assembly reads them;
  \<open>stack_bytes\<close> and \<open>stack_dentry\<close> are the first contents of uninitialised locals.
\<close>

record kernel =
  k_con :: console
  k_fs :: filesystem
  k_proc :: procs
  k_pg :: paging
  k_pic :: pic
  k_rtc :: rtc
  k_kbd :: keyboard
  k_idt :: idt_t
  k_ram :: mem
  tss_esp0 :: u32
  tss_ss0 :: u16
  reg_esp :: u32
  reg_ebp :: u32
  stack_bytes :: bytes
  stack_dentry :: dentry_t

text \<open>
  How a kernel routine ends: it returns to its caller; it enters user mode by \<^verbatim>\<open>iret\<close> at an
  address; it restores saved stack registers and makes the call of \<^verbatim>\<open>execute\<close> that was
  suspended there return a value; or it continues a suspended \<^verbatim>\<open>terminal_switch\<close>.
\<close>

datatype control =
    Return s32
  | Enter_user u32
  | Leave_execute u32 u32 u32
  | Resume_switch u32 u32

section \<open>The console of the current terminal\<close>

definition cur_term :: "kernel \<Rightarrow> nat" where
  "cur_term k = curr_terminal (k_proc k)"

definition on_con :: "(nat \<Rightarrow> console \<Rightarrow> console) \<Rightarrow> kernel \<Rightarrow> kernel" where
  "on_con f k = k\<lparr>k_con := f (cur_term k) (k_con k)\<rparr>"

definition line :: "string \<Rightarrow> string" where
  "line msg = msg @ [CHR 0x0A]"

definition say :: "string \<Rightarrow> kernel \<Rightarrow> kernel" where
  "say msg = on_con (message msg)"

definition k_printf :: "string \<Rightarrow> u32 list \<Rightarrow> kernel \<Rightarrow> kernel option" where
  "k_printf fmt ws k =
     Option.bind (printf (cstr fmt) (\<lambda>i. num_arg (if i < length ws then ws ! i else 0)) (stack_bytes k) (cur_term k) (k_con k))
       (\<lambda>(n, s). Some (k\<lparr>k_con := s\<rparr>))"

definition on_proc :: "(procs \<Rightarrow> procs) \<Rightarrow> kernel \<Rightarrow> kernel" where
  "on_proc f k = k\<lparr>k_proc := f (k_proc k)\<rparr>"

definition on_pg :: "(paging \<Rightarrow> paging) \<Rightarrow> kernel \<Rightarrow> kernel" where
  "on_pg f k = k\<lparr>k_pg := f (k_pg k)\<rparr>"

definition on_kbd :: "(nat \<Rightarrow> keyboard \<Rightarrow> keyboard) \<Rightarrow> kernel \<Rightarrow> kernel" where
  "on_kbd f k = k\<lparr>k_kbd := f (cur_term k) (k_kbd k)\<rparr>"

section \<open>Physical memory\<close>

definition in_video :: "u32 \<Rightarrow> bool" where
  "in_video a \<longleftrightarrow> VIDEO \<le> a \<and> a < VIDEO + 0x1000"

definition get_phys :: "kernel \<Rightarrow> mem" where
  "get_phys k = (\<lambda>a. if in_video a then video_mem (k_con k) (uint (a - VIDEO)) else k_ram k a)"

definition set_phys :: "mem \<Rightarrow> kernel \<Rightarrow> kernel" where
  "set_phys m k =
     k\<lparr>k_con := (k_con k)\<lparr>video_mem := (\<lambda>i. if 0 \<le> i \<and> i < 4096 then m (VIDEO + of_int i) else video_mem (k_con k) i)\<rparr>,
       k_ram := m\<rparr>"

text \<open>The physical address behind a virtual one (the kernel itself never faults on these).\<close>

definition phys_of :: "kernel \<Rightarrow> u32 \<Rightarrow> u32" where
  "phys_of k va = (case page_walk (k_pg k) va of Some (pa, u) \<Rightarrow> pa | None \<Rightarrow> 0)"

lemma get_set_phys [simp]: "get_phys (set_phys m k) = m"
proof (rule ext)
  fix a
  have "uint (a - VIDEO) < 4096" if "in_video a"
  proof -
    have "unat (a - VIDEO) = unat a - unat VIDEO" using that by (simp add: in_video_def unat_sub)
    moreover have "unat a < unat (VIDEO + 0x1000)" using that by (simp add: in_video_def word_less_nat_alt)
    ultimately have "unat (a - VIDEO) < 4096" by (simp add: VIDEO_def)
    then have "int (unat (a - VIDEO)) < 4096" by linarith
    then show ?thesis by simp
  qed
  then show "get_phys (set_phys m k) a = m a" by (simp add: get_phys_def set_phys_def)
qed

section \<open>Frames\<close>

lemma cur_term_con [simp]: "cur_term (k\<lparr>k_con := s\<rparr>) = cur_term k"
  by (simp add: cur_term_def)

lemma on_con_simps [simp]:
  "k_con (on_con f k) = f (cur_term k) (k_con k)" "k_fs (on_con f k) = k_fs k" "k_proc (on_con f k) = k_proc k"
  "k_pg (on_con f k) = k_pg k" "k_pic (on_con f k) = k_pic k" "k_rtc (on_con f k) = k_rtc k" "k_kbd (on_con f k) = k_kbd k"
  "k_ram (on_con f k) = k_ram k" "tss_esp0 (on_con f k) = tss_esp0 k" "cur_term (on_con f k) = cur_term k"
  "stack_dentry (on_con f k) = stack_dentry k" "stack_bytes (on_con f k) = stack_bytes k"
  "reg_esp (on_con f k) = reg_esp k" "reg_ebp (on_con f k) = reg_ebp k" "k_idt (on_con f k) = k_idt k" "tss_ss0 (on_con f k) = tss_ss0 k"
  by (simp_all add: on_con_def cur_term_def)

lemma on_kbd_simps [simp]:
  "k_con (on_kbd f k) = k_con k" "k_fs (on_kbd f k) = k_fs k" "k_proc (on_kbd f k) = k_proc k"
  "k_pg (on_kbd f k) = k_pg k" "k_pic (on_kbd f k) = k_pic k" "k_rtc (on_kbd f k) = k_rtc k"
  "k_kbd (on_kbd f k) = f (cur_term k) (k_kbd k)" "k_ram (on_kbd f k) = k_ram k" "cur_term (on_kbd f k) = cur_term k"
  by (simp_all add: on_kbd_def cur_term_def)

lemma on_proc_simps [simp]:
  "k_con (on_proc f k) = k_con k" "k_fs (on_proc f k) = k_fs k" "k_proc (on_proc f k) = f (k_proc k)"
  "k_pg (on_proc f k) = k_pg k" "k_pic (on_proc f k) = k_pic k" "k_rtc (on_proc f k) = k_rtc k" "k_kbd (on_proc f k) = k_kbd k"
  "k_ram (on_proc f k) = k_ram k" "stack_dentry (on_proc f k) = stack_dentry k" "stack_bytes (on_proc f k) = stack_bytes k"
  by (simp_all add: on_proc_def)

lemma on_pg_simps [simp]:
  "k_con (on_pg f k) = k_con k" "k_fs (on_pg f k) = k_fs k" "k_proc (on_pg f k) = k_proc k"
  "k_pg (on_pg f k) = f (k_pg k)" "k_pic (on_pg f k) = k_pic k" "k_rtc (on_pg f k) = k_rtc k" "k_kbd (on_pg f k) = k_kbd k"
  "k_ram (on_pg f k) = k_ram k" "cur_term (on_pg f k) = cur_term k"
  by (simp_all add: on_pg_def cur_term_def)

lemma set_phys_simps [simp]:
  "k_fs (set_phys m k) = k_fs k" "k_proc (set_phys m k) = k_proc k" "k_pg (set_phys m k) = k_pg k"
  "k_pic (set_phys m k) = k_pic k" "k_rtc (set_phys m k) = k_rtc k" "k_kbd (set_phys m k) = k_kbd k"
  "cur_term (set_phys m k) = cur_term k" "phys_of (set_phys m k) = phys_of k"
  by (simp_all add: set_phys_def cur_term_def phys_of_def fun_eq_iff)

lemma say_simps [simp]:
  "k_fs (say msg k) = k_fs k" "k_proc (say msg k) = k_proc k" "k_pg (say msg k) = k_pg k" "k_rtc (say msg k) = k_rtc k"
  "k_kbd (say msg k) = k_kbd k" "k_ram (say msg k) = k_ram k" "cur_term (say msg k) = cur_term k" "k_pic (say msg k) = k_pic k"
  by (simp_all add: say_def)

lemma get_phys_frame [simp]:
  "get_phys (on_pg f k) = get_phys k" "get_phys (on_proc g k) = get_phys k" "get_phys (on_kbd h k) = get_phys k"
  "get_phys (k\<lparr>k_proc := p\<rparr>) = get_phys k" "get_phys (k\<lparr>tss_esp0 := e\<rparr>) = get_phys k" "get_phys (k\<lparr>tss_ss0 := s\<rparr>) = get_phys k"
  by (simp_all add: get_phys_def cong: if_cong)

end
