(* ===== verification/Drivers.thy ===== *)
theory Drivers
  imports Kernel
begin

text \<open>
  The drivers behind the descriptor table: directory and file drivers of \<^verbatim>\<open>filesystem.c\<close>, the
  clock driver of \<^verbatim>\<open>rtc.c\<close> (opening, writing, closing), terminal output of \<^verbatim>\<open>terminal.c\<close>, the
  constant operations of the keyboard and terminal devices, and the test commands of
  \<^verbatim>\<open>testcases3_2.c\<close>. A buffer argument is the pointer and the bytes it points to; an operation
  that fills it returns the bytes.
\<close>

section \<open>Directory driver\<close>

definition dir_info :: fd_t where
  "dir_info = \<lparr>fd_jump = dir_ops_table, inode_ptr = - 1, file_position = 0, flags = FD_ON\<rparr>"

definition dir_open :: "bytes \<Rightarrow> kernel \<Rightarrow> s32 \<times> kernel" where
  "dir_open filename k =
     (let fd_index = get_fd_index (k_proc k)
      in if fd_index = - 1 then (FAIL, say (line ''No Available FD, dir_open'') k)
         else (fd_index, on_proc (\<lambda>p. snd (set_fd_info fd_index dir_info p)) k))"

definition dir_read :: "s32 \<Rightarrow> bytes \<Rightarrow> s32 \<Rightarrow> kernel \<Rightarrow> s32 \<times> bytes \<times> kernel" where
  "dir_read fd buf nbytes k =
     (let dent_index = get_file_position fd (k_proc k)
      in if dent_index \<ge> num_entries (k_fs k) then (0, buf, k)
         else let name = entry_file_name (k_fs k) (unat dent_index);
                  bytes_read = scan (\<lambda>i. name i \<noteq> NUL) 0 (min (nat (sint nbytes)) MAX_NAME_CHARACTERS)
              in (of_nat bytes_read, copy_run buf 0 name 0 bytes_read, on_proc (add_offset fd 1) k))"

definition dir_write :: "s32 \<Rightarrow> kernel \<Rightarrow> s32 \<times> kernel" where
  "dir_write fd k = (FAIL, say (line ''READ ONLY DIRECTORY'') k)"

definition dir_close :: "s32 \<Rightarrow> kernel \<Rightarrow> s32 \<times> kernel" where
  "dir_close fd k = (0, on_proc (close_fd fd) k)"

section \<open>File driver\<close>

definition file_info :: "bytes \<Rightarrow> kernel \<Rightarrow> fd_t" where
  "file_info filename k =
     \<lparr>fd_jump = filesys_ops_table, inode_ptr = inode_idx (snd (read_dentry_by_name (k_fs k) filename (stack_dentry k))),
      file_position = 0, flags = FD_ON\<rparr>"

definition file_open :: "bytes \<Rightarrow> kernel \<Rightarrow> s32 \<times> kernel" where
  "file_open filename k =
     (let fd_index = get_fd_index (k_proc k)
      in if fd_index = - 1 then (FAIL, say (line ''No Available FD, file_open'') k)
         else (fd_index, on_proc (\<lambda>p. snd (set_fd_info fd_index (file_info filename k) p)) k))"

definition file_read :: "s32 \<Rightarrow> bytes \<Rightarrow> s32 \<Rightarrow> kernel \<Rightarrow> s32 \<times> bytes \<times> kernel" where
  "file_read fd buf nbytes k =
     (let (read_amt, buf) = read_data (k_fs k) (get_inode_ptr fd (k_proc k)) (get_file_position fd (k_proc k)) buf nbytes
      in (read_amt, buf, if read_amt > 0 then on_proc (add_offset fd read_amt) k else k))"

definition file_write :: "s32 \<Rightarrow> kernel \<Rightarrow> s32 \<times> kernel" where
  "file_write fd k = (FAIL, say (line ''READ ONLY FILES'') k)"

definition file_close :: "s32 \<Rightarrow> kernel \<Rightarrow> s32 \<times> kernel" where
  "file_close fd k = (0, on_proc (close_fd fd) k)"

section \<open>Clock driver\<close>

definition on_rtc :: "(rtc \<Rightarrow> rtc) \<Rightarrow> kernel \<Rightarrow> kernel" where
  "on_rtc f k = k\<lparr>k_rtc := f (k_rtc k)\<rparr>"

definition rtc_info :: fd_t where
  "rtc_info = \<lparr>fd_jump = rtc_ops_table, inode_ptr = - 1, file_position = 0, flags = 1\<rparr>"

definition rtc_open :: "bytes \<Rightarrow> kernel \<Rightarrow> s32 \<times> kernel" where
  "rtc_open blank1 k =
     (let k = on_rtc (set_frequency 2) k;
          fd_index = get_fd_index (k_proc k)
      in if fd_index = - 1 then (FAIL, say (line ''No Available FD, rtc_open'') k)
         else (fd_index, on_proc (\<lambda>p. snd (set_fd_info fd_index rtc_info p)) k))"

definition rtc_write :: "s32 \<Rightarrow> bytes \<Rightarrow> s32 \<Rightarrow> kernel \<Rightarrow> s32 \<times> kernel" where
  "rtc_write fd buf blank1 k = (0, on_rtc (set_frequency (u32_at buf 0)) k)"

definition rtc_close :: "s32 \<Rightarrow> kernel \<Rightarrow> s32 \<times> kernel" where
  "rtc_close fd k =
     (if sint fd < int FIRST_VALID_INDEX \<or> sint fd > int MAX_OPEN_FILES
      then (FAIL, say (line ''Invalid FD, rtc_close'') k)
      else (0, on_proc (close_fd fd) k))"

section \<open>Terminal and keyboard devices\<close>

fun write_loop :: "bytes \<Rightarrow> nat \<Rightarrow> nat \<Rightarrow> kernel \<Rightarrow> kernel" where
  "write_loop buf i 0 k = k"
| "write_loop buf i (Suc n) k = write_loop buf (Suc i) n (on_con (putc (buf i)) k)"

definition terminal_write :: "s32 \<Rightarrow> u32 \<Rightarrow> bytes \<Rightarrow> s32 \<Rightarrow> kernel \<Rightarrow> s32 \<times> kernel" where
  "terminal_write fd ptr buf nbytes k =
     (if ptr = 0 then (FAIL, k)
      else (of_nat (nat (sint nbytes)), write_loop buf 0 (nat (sint nbytes)) k))"

definition terminal_open :: "bytes \<Rightarrow> kernel \<Rightarrow> s32 \<times> kernel" where
  "terminal_open blank k = (FAIL, k)"

definition terminal_close :: "s32 \<Rightarrow> kernel \<Rightarrow> s32 \<times> kernel" where
  "terminal_close fd k = (FAIL, k)"

definition keyboard_open :: "bytes \<Rightarrow> kernel \<Rightarrow> s32 \<times> kernel" where
  "keyboard_open blank1 k = (FAIL, k)"

definition keyboard_write :: "s32 \<Rightarrow> kernel \<Rightarrow> s32 \<times> kernel" where
  "keyboard_write fd k = (FAIL, k)"

definition keyboard_close :: "s32 \<Rightarrow> kernel \<Rightarrow> s32 \<times> kernel" where
  "keyboard_close fd k = (FAIL, k)"

section \<open>Listing and test commands\<close>

definition print_name :: "bytes \<Rightarrow> nat \<Rightarrow> kernel \<Rightarrow> nat \<times> kernel" where
  "print_name buf max_char k =
     (let i = scan (\<lambda>i. buf i \<noteq> NUL) 0 max_char in (i, write_loop buf 0 i k))"

definition NUM_SPACES :: nat where "NUM_SPACES = 34"

text \<open>
  The loop of \<^verbatim>\<open>print_file_info\<close>. The constant 4 stands for the address of the local buffer: it
  is not null.
\<close>

partial_function (option) file_info_loop :: "s32 \<Rightarrow> bytes \<Rightarrow> u32 \<Rightarrow> dentry_t \<Rightarrow> kernel \<Rightarrow> kernel option" where
  "file_info_loop dir_fd bufr d_loop file_dent k =
     (let (cnt, bufr, k) = dir_read dir_fd bufr 32 k
      in if cnt = 0 then Some (snd (dir_close dir_fd k))
         else let file_dent = snd (read_dentry_by_index (k_fs k) d_loop file_dent)
              in if cnt = - 1 then Some (say (line ''directory entry read failed'') (snd (dir_close dir_fd k)))
                 else let k = say ''file name: '' k;
                          k = snd (terminal_write 1 4 bufr cnt k);
                          k = write_loop (\<lambda>_. SPACE) 0 (NUM_SPACES - unat cnt) k
                      in Option.bind (k_printf ''file type: %d '' [file_type file_dent] k)
                           (\<lambda>k. Option.bind (k_printf (line ''file size: %d'') [inode_file_size (k_fs k) (unat (inode_idx file_dent))] k)
                           (\<lambda>k. file_info_loop dir_fd bufr (d_loop + 1) file_dent k)))"

definition print_file_info :: "kernel \<Rightarrow> kernel option" where
  "print_file_info k =
     (let k = on_con clear k; (dir_fd, k) = dir_open (cstr ''.'') k
      in file_info_loop dir_fd (stack_bytes k) 0 (stack_dentry k) k)"

partial_function (option) file_text_loop :: "s32 \<Rightarrow> bytes \<Rightarrow> s32 \<Rightarrow> kernel \<Rightarrow> kernel option" where
  "file_text_loop myfd bufr nbytes k =
     (let (retval, bufr, k) = file_read myfd bufr nbytes k
      in if 0 <s retval then file_text_loop myfd bufr nbytes (snd (terminal_write 1 4 bufr retval k))
         else Some k)"

definition print_file_text :: "bytes \<Rightarrow> bytes \<Rightarrow> s32 \<Rightarrow> kernel \<Rightarrow> kernel option" where
  "print_file_text name bufr nbytes k =
     (let (myfd, k) = file_open name k
      in if myfd \<noteq> - 1
         then Option.bind (file_text_loop myfd bufr nbytes k)
                (\<lambda>k. let k = snd (file_close myfd k);
                         k = say (CHR 0x0A # ''file name: '') k
                     in Some (snd (print_name name MAX_NAME_CHARACTERS k)))
         else Some (say (line ''file doesn't exist.'') k))"

definition test_file_data :: "u32 \<Rightarrow> kernel \<Rightarrow> kernel option" where
  "test_file_data index k = print_file_text (get_entry_name (k_fs k) index) (stack_bytes k) 500 k"

definition HIGHEST_FREQ :: u32 where "HIGHEST_FREQ = 32768"

definition print_freq :: "u32 \<Rightarrow> kernel \<Rightarrow> kernel option" where
  "print_freq rate k =
     (let (filed, k) = rtc_open (cstr ''rtc'') k
      in if filed \<noteq> - 1
         then let k = on_con clear k; curr_freq = drop_bit (unat rate) HIGHEST_FREQ
              in Option.bind (k_printf (line ''Frequency at: %d'') [curr_freq] k)
                   (\<lambda>k. let k = snd (rtc_write filed (\<lambda>i. byte_n i curr_freq) 1 k)
                        in Some (snd (rtc_close filed k)))
         else Some (say (line ''couldn't open'') k))"

text \<open>The test of the clock: the time, printed. \<open>cs\<close> is what the chip shows at each poll.\<close>

definition print_time :: "time \<Rightarrow> (u8 \<Rightarrow> u8) list \<Rightarrow> kernel \<Rightarrow> ((u8 \<Rightarrow> u8) list \<times> kernel) option" where
  "print_time old cs k =
     Option.bind (binary_to_real_time old cs (k_rtc k)) (\<lambda>(cs, r).
     Option.bind (k_printf ''second: %d '' [ucast (rtc_second r)] (k\<lparr>k_rtc := r\<rparr>)) (\<lambda>k.
     Option.bind (k_printf ''minute: %d '' [ucast (rtc_minute r)] k) (\<lambda>k.
     Option.bind (k_printf ''hour: %d '' [ucast (rtc_hour r)] k) (\<lambda>k.
     Option.bind (k_printf ''day: %d '' [ucast (rtc_day r)] k) (\<lambda>k.
     Option.bind (k_printf ''month: %d '' [ucast (rtc_month r)] k) (\<lambda>k.
     Option.bind (k_printf (line ''year: %d'') [rtc_year r] k) (\<lambda>k. Some (cs, k))))))))"

section \<open>Opening\<close>

definition k_fds :: "kernel \<Rightarrow> fd_table_t" where
  "k_fds k = cur_fds (k_proc k)"

lemma on_rtc_simps [simp]: "k_proc (on_rtc f k) = k_proc k" "k_fs (on_rtc f k) = k_fs k" "k_con (on_rtc f k) = k_con k"
  "k_rtc (on_rtc f k) = f (k_rtc k)" "k_kbd (on_rtc f k) = k_kbd k" "k_pg (on_rtc f k) = k_pg k" "k_ram (on_rtc f k) = k_ram k"
  "stack_dentry (on_rtc f k) = stack_dentry k"
  by (simp_all add: on_rtc_def)

text \<open>All three open routines allocate a descriptor in the same way.\<close>

lemma open_pattern:
  "(fst (if get_fd_index (k_proc k) = - 1 then (FAIL, say msg k)
         else (get_fd_index (k_proc k), on_proc (\<lambda>p. snd (set_fd_info (get_fd_index (k_proc k)) f p)) k)),
    k_fds (snd (if get_fd_index (k_proc k) = - 1 then (FAIL, say msg k)
         else (get_fd_index (k_proc k), on_proc (\<lambda>p. snd (set_fd_info (get_fd_index (k_proc k)) f p)) k)))) =
   install f (k_fds k)"
  using arg_cong [OF get_set_install [of "k_proc k" f], of "\<lambda>(r, p). (r, cur_fds p)"]
  by (simp add: k_fds_def split: if_splits)

interpretation dir_dev: fd_opener dir_open k_fds "\<lambda>_ _. dir_info"
  by unfold_locales (simp_all only: dir_open_def Let_def open_pattern, simp add: dir_info_def)

interpretation file_dev: fd_opener file_open k_fds file_info
  by unfold_locales (simp_all only: file_open_def Let_def open_pattern, simp add: file_info_def)

interpretation rtc_dev: fd_opener rtc_open k_fds "\<lambda>_ _. rtc_info"
proof unfold_locales
  fix a k
  have "k_fds (on_rtc f k) = k_fds k" for f by (simp add: k_fds_def)
  then show "(fst (rtc_open a k), k_fds (snd (rtc_open a k))) = install rtc_info (k_fds k)"
    unfolding rtc_open_def Let_def open_pattern by simp
qed (simp add: rtc_info_def fd_consts)

section \<open>Sequential reading\<close>

text \<open>
  What it means to read a stream piece by piece: a read of \<open>n\<close> gives the next \<open>n\<close> bytes and
  leaves the others for the next read. A sequence of reads then gives the stream itself.
\<close>

fun read_many :: "(nat \<Rightarrow> 's \<Rightarrow> u8 list \<times> 's) \<Rightarrow> nat list \<Rightarrow> 's \<Rightarrow> u8 list \<times> 's" where
  "read_many rd [] s = ([], s)"
| "read_many rd (n # ns) s =
     (let (xs, s1) = rd n s; (ys, s2) = read_many rd ns s1 in (xs @ ys, s2))"

locale stream_reader =
  fixes rd :: "nat \<Rightarrow> 's \<Rightarrow> u8 list \<times> 's"
    and rest :: "'s \<Rightarrow> u8 list"
    and ok :: "'s \<Rightarrow> bool"
    and allowed :: "nat \<Rightarrow> bool"
  assumes rd_gives: "ok s \<Longrightarrow> allowed n \<Longrightarrow> fst (rd n s) = take n (rest s)"
    and rd_leaves: "ok s \<Longrightarrow> allowed n \<Longrightarrow> rest (snd (rd n s)) = drop n (rest s)"
    and rd_ok: "ok s \<Longrightarrow> allowed n \<Longrightarrow> ok (snd (rd n s))"
begin

lemma read_many_stream:
  assumes "ok s" "\<forall>n\<in>set ns. allowed n"
  shows "fst (read_many rd ns s) = take (sum_list ns) (rest s) \<and> rest (snd (read_many rd ns s)) = drop (sum_list ns) (rest s)"
  using assms
proof (induction ns arbitrary: s)
  case (Cons n ns)
  then have "ok (snd (rd n s))" "allowed n" by (auto simp: rd_ok)
  then show ?case
    using Cons.IH [of "snd (rd n s)"] Cons.prems rd_gives [of s n] rd_leaves [of s n]
    by (simp add: Let_def case_prod_beta take_add) (simp add: add.commute)
qed simp

end

text \<open>A descriptor open on a readable file.\<close>

definition file_fd_ok :: "s32 \<Rightarrow> kernel \<Rightarrow> bool" where
  "file_fd_ok fd k \<longleftrightarrow> \<not> bad_index fd \<and>
     get_inode_ptr fd (k_proc k) < num_inodes (k_fs k) \<and> sound_inode (k_fs k) (unat (get_inode_ptr fd (k_proc k))) \<and>
     file_size (k_fs k) (unat (get_inode_ptr fd (k_proc k))) < 2 ^ 30 \<and>
     unat (get_file_position fd (k_proc k)) \<le> file_size (k_fs k) (unat (get_inode_ptr fd (k_proc k)))"

definition file_rest :: "s32 \<Rightarrow> kernel \<Rightarrow> u8 list" where
  "file_rest fd k = drop (unat (get_file_position fd (k_proc k))) (contents (k_fs k) (unat (get_inode_ptr fd (k_proc k))))"

text \<open>\<^verbatim>\<open>file_read\<close> seen as the bytes it puts into the buffer.\<close>

definition file_bytes :: "s32 \<Rightarrow> nat \<Rightarrow> kernel \<Rightarrow> u8 list \<times> kernel" where
  "file_bytes fd n k = (let (r, b, k1) = file_read fd (\<lambda>_. NUL) (of_nat n) k in (run_of b 0 (unat r), k1))"

lemma add_offset_fields:
  assumes "\<not> bad_index fd"
  shows "get_file_position fd (add_offset fd a p) = get_file_position fd p + a"
    and "get_inode_ptr fd (add_offset fd a p) = get_inode_ptr fd p"
  using assms by (simp_all add: get_file_position_def get_inode_ptr_def add_offset_def Let_def)

lemma file_read_sound:
  assumes "file_fd_ok fd k" "n < 2 ^ 30"
  defines "m \<equiv> min n (length (file_rest fd k))"
  shows "fst (file_read fd buf (of_nat n) k) = of_nat m"
    and "snd (snd (file_read fd buf (of_nat n) k)) = on_proc (\<lambda>p. if m = 0 then p else add_offset fd (of_nat m) p) k"
    and "run_of (fst (snd (file_read fd buf (of_nat n) k))) 0 m = take n (file_rest fd k)"
proof -
  let ?ino = "get_inode_ptr fd (k_proc k)" and ?pos = "get_file_position fd (k_proc k)"
  let ?sz = "file_size (k_fs k) (unat ?ino)"
  have ok: "?ino < num_inodes (k_fs k)" "sound_inode (k_fs k) (unat ?ino)" "?sz < 2 ^ 30" "unat ?pos \<le> ?sz"
    using assms(1) by (auto simp: file_fd_ok_def)
  have n: "unat (of_nat n :: u32) = n" using assms(2) by (simp add: unat_of_nat)
  have len: "length (file_rest fd k) = ?sz - unat ?pos" by (simp add: file_rest_def contents_def)
  have rd: "read_data (k_fs k) ?ino ?pos buf (of_nat n) = (of_nat m, delivered (k_fs k) (unat ?ino) (unat ?pos) 0 m buf)"
    using read_data_delivered [OF ok(1,2), of ?pos "of_nat n" buf] ok assms(2) n len by (simp add: Let_def m_def)
  have m: "m < 2 ^ 30" using assms(2) by (simp add: m_def)
  then have z: "(of_nat m :: u32) > 0 \<longleftrightarrow> m \<noteq> 0"
    by (simp add: word_less_nat_alt unat_of_nat)
  show "fst (file_read fd buf (of_nat n) k) = of_nat m"
    by (simp add: file_read_def rd)
  show "snd (snd (file_read fd buf (of_nat n) k)) = on_proc (\<lambda>p. if m = 0 then p else add_offset fd (of_nat m) p) k"
    using z by (simp add: file_read_def rd) (simp add: on_proc_def)
  show "run_of (fst (snd (file_read fd buf (of_nat n) k))) 0 m = take n (file_rest fd k)"
    by (rule nth_equalityI)
      (auto simp: file_read_def rd delivered_def len m_def file_rest_def contents_def)
qed

lemma file_bytes_step:
  assumes "file_fd_ok fd k" "n < 2 ^ 30"
  shows "fst (file_bytes fd n k) = take n (file_rest fd k)"
    and "file_rest fd (snd (file_bytes fd n k)) = drop n (file_rest fd k)"
    and "file_fd_ok fd (snd (file_bytes fd n k))"
proof -
  let ?m = "min n (length (file_rest fd k))"
  note r = file_read_sound [OF assms, of "\<lambda>_. NUL"]
  have m: "unat (of_nat ?m :: u32) = ?m" using assms(2) by (simp add: unat_of_nat)
  show "fst (file_bytes fd n k) = take n (file_rest fd k)"
    using r(1,3) m by (simp add: file_bytes_def Let_def case_prod_beta)
  have k1: "snd (file_bytes fd n k) = on_proc (\<lambda>p. if ?m = 0 then p else add_offset fd (of_nat ?m) p) k"
    using r(2) by (simp add: file_bytes_def Let_def case_prod_beta)
  have b: "\<not> bad_index fd" using assms(1) by (simp add: file_fd_ok_def)
  let ?pos = "get_file_position fd (k_proc k)"
  have len: "length (file_rest fd k) = file_size (k_fs k) (unat (get_inode_ptr fd (k_proc k))) - unat ?pos"
    by (simp add: file_rest_def contents_def)
  have pos: "unat (get_file_position fd (k_proc (snd (file_bytes fd n k)))) = unat ?pos + ?m"
  proof -
    have "unat ?pos + ?m < 2 ^ 32" using assms len by (auto simp: file_fd_ok_def)
    then have "unat (?pos + of_nat ?m) = unat ?pos + ?m" using m by (simp add: unat_word_ariths)
    then show ?thesis unfolding k1 by (simp add: add_offset_fields [OF b])
  qed
  have ino: "get_inode_ptr fd (k_proc (snd (file_bytes fd n k))) = get_inode_ptr fd (k_proc k)"
    "k_fs (snd (file_bytes fd n k)) = k_fs k"
    unfolding k1 by (simp_all add: add_offset_fields [OF b])
  have "file_rest fd (snd (file_bytes fd n k)) = drop (unat ?pos + ?m) (contents (k_fs k) (unat (get_inode_ptr fd (k_proc k))))"
    unfolding file_rest_def [of fd "snd (file_bytes fd n k)"] pos ino ..
  also have "\<dots> = drop ?m (file_rest fd k)" unfolding file_rest_def [of fd k] drop_drop by (simp only: add.commute)
  also have "\<dots> = drop n (file_rest fd k)" by (cases "n \<le> length (file_rest fd k)") simp_all
  finally show "file_rest fd (snd (file_bytes fd n k)) = drop n (file_rest fd k)" .
  show "file_fd_ok fd (snd (file_bytes fd n k))"
    using assms(1) len unfolding file_fd_ok_def pos ino by auto
qed

interpretation file_stream: stream_reader "file_bytes fd" "file_rest fd" "file_fd_ok fd" "\<lambda>n. n < 2 ^ 30" for fd
  by unfold_locales (auto intro: file_bytes_step)

section \<open>Output\<close>

lemma on_con_comp: "on_con g (on_con f k) = on_con (\<lambda>t s. g t (f t s)) k"
  by (simp add: on_con_def cur_term_def)

lemma write_loop_eq: "write_loop buf i n k = on_con (print_bytes (run_of buf i n)) k"
proof (induction n arbitrary: i k)
  case 0
  show ?case by (simp add: on_con_def)
next
  case (Suc n)
  then show ?case by (simp add: on_con_comp run_of_Suc)
qed

section \<open>A concrete kernel\<close>

definition demo_keyboard :: keyboard where
  "demo_keyboard = \<lparr>caps_shift_flag = (\<lambda>_. 0), ctrl_flag = 0, alt_flag = 0, buffer_index = (\<lambda>_. 0), buffer = (\<lambda>_ _. 0),
     kbdr_flag = 0, CTR3 = 0, CTR4 = 14, save_buff = (\<lambda>_ _. 0)\<rparr>"

definition demo_kernel :: kernel where
  "demo_kernel = \<lparr>k_con = blank_console, k_fs = demo_fs 127, k_proc = fops_table_init boot_procs, k_pg = paging_init demo_paging,
     k_pic = i8259_init reset_pic, k_rtc = demo_rtc, k_kbd = demo_keyboard, k_idt = (\<lambda>_. zero_gate), k_ram = (\<lambda>_. 0),
     tss_esp0 = 0x800000, tss_ss0 = KERNEL_DS, reg_esp = 0x7FFF00, reg_ebp = 0x7FFF40, stack_bytes = (\<lambda>_. 7),
     stack_dentry = \<lparr>file_name = (\<lambda>_. 0), file_type = 0, inode_idx = 0\<rparr>\<rparr>"

lemma demo_kernel_fds: "k_fds demo_kernel = fd_table_init (\<lambda>_. empty_fd)"
  by (simp add: k_fds_def demo_kernel_def cur_fds_def cur_pcb_def cur_ptr_def fops_table_init_def boot_procs_def boot_pcb_def)

section \<open>Properties\<close>

text \<open>
  A process can hold six open files: starting from the table a new process gets, the
  open calls return the descriptors 2, 3, 4, 5, 6, 7 in this order and every further call -1.
\<close>

theorem open_sequence:
  assumes "k_fds k = fd_table_init ft"
  shows "fst (open_many file_open names k) =
    take (length names) [2, 3, 4, 5, 6, 7] @ replicate (length names - 6) (- 1)"
proof -
  have "map of_nat (take n [2, 3, 4, 5, 6, 7 :: nat]) = take n [2, 3, 4, 5, 6, 7 :: s32]" for n
    by (simp flip: take_map)
  then show ?thesis
    using file_dev.open_many_fds [of names k] by (simp add: assms fd_table_init_free)
qed

theorem open_sequence_witness:
  "fst (open_many file_open (replicate 7 (cstr ''sh'')) demo_kernel) = [2, 3, 4, 5, 6, 7, - 1]"
  using open_sequence [OF demo_kernel_fds, of "replicate 7 (cstr ''sh'')"] by simp

text \<open>
  Reading a file in pieces of any sizes gives the file: the bytes of successive reads
  through one descriptor, put together, are the file's bytes from the position on.
\<close>

theorem file_read_sequence:
  assumes "file_fd_ok fd k" "\<forall>n\<in>set ns. n < 2 ^ 30"
  shows "fst (read_many (file_bytes fd) ns k) = take (sum_list ns) (file_rest fd k)"
  using file_stream.read_many_stream [OF assms] by simp

text \<open>The concrete kernel with descriptor 2 open on inode \<open>i\<close>.\<close>

definition demo_open :: "s32 \<Rightarrow> kernel" where
  "demo_open i = on_proc (\<lambda>p. snd (set_fd_info 2 \<lparr>fd_jump = filesys_ops_table, inode_ptr = i, file_position = 0, flags = FD_ON\<rparr> p)) demo_kernel"

lemma demo_open_fields:
  "\<not> bad_index 2" "get_inode_ptr 2 (k_proc (demo_open i)) = i" "get_file_position 2 (k_proc (demo_open i)) = 0"
  "k_fs (demo_open i) = demo_fs 127"
  by (simp_all add: demo_open_def set_fd_info_def bad_index_def get_inode_ptr_def get_file_position_def fd_consts demo_kernel_def)

theorem file_read_sequence_witness:
  "fst (read_many (file_bytes 2) [3, 100, 5] (demo_open 0)) = contents (demo_fs 127) 0"
proof -
  have ok: "file_fd_ok 2 (demo_open 0)"
    by (simp add: file_fd_ok_def demo_open_fields demo_fs_fields demo_fs_sound demo_fs_size)
  have "file_rest 2 (demo_open 0) = contents (demo_fs 127) 0" "length (contents (demo_fs 127) 0) = 40"
    by (simp_all add: file_rest_def demo_open_fields contents_def demo_fs_size)
  then show ?thesis using file_read_sequence [OF ok, of "[3, 100, 5]"] by simp
qed

lemma dir_read_lists:
  "dir_read fd buf nbytes k =
     (let i = get_file_position fd (k_proc k);
          name = takeWhile (\<lambda>c. c \<noteq> NUL) (run_of (entry_file_name (k_fs k) (unat i)) 0 (min (nat (sint nbytes)) 32))
      in if i < num_entries (k_fs k)
         then (of_nat (length name), \<lambda>j. if j < length name then name ! j else buf j, on_proc (add_offset fd 1) k)
         else (0, buf, k))"
proof -
  have "scan (\<lambda>i. name i \<noteq> NUL) 0 n = length (takeWhile (\<lambda>c. c \<noteq> NUL) (run_of name 0 n))" for name n
    by (rule scan_run_of [where P = "\<lambda>c. c \<noteq> NUL"])
  moreover have "copy_run buf 0 name 0 (length (takeWhile (\<lambda>c. c \<noteq> NUL) (run_of name 0 n))) =
      (\<lambda>j. if j < length (takeWhile (\<lambda>c. c \<noteq> NUL) (run_of name 0 n)) then takeWhile (\<lambda>c. c \<noteq> NUL) (run_of name 0 n) ! j else buf j)"
    for name n
    using length_takeWhile_le [of "\<lambda>c. c \<noteq> NUL" "run_of name 0 n"]
    by (auto simp: copy_run_eq fun_eq_iff takeWhile_nth)
  ultimately show ?thesis
    by (simp add: dir_read_def Let_def fs_consts not_le cong: if_cong)
qed

text \<open>
  \<^verbatim>\<open>dir_read\<close> lists the directory: at position \<open>i\<close> it delivers the name of entry \<open>i\<close>, as much
  as fits, and moves to the next entry; past the last entry it delivers nothing and stays.
\<close>

theorem dir_read_entry:
  "dir_read fd buf nbytes k =
     (let i = get_file_position fd (k_proc k);
          name = takeWhile (\<lambda>c. c \<noteq> NUL) (run_of (entry_file_name (k_fs k) (unat i)) 0 (min (nat (sint nbytes)) 32))
      in if i < num_entries (k_fs k)
         then (of_nat (length name), \<lambda>j. if j < length name then name ! j else buf j, on_proc (add_offset fd 1) k)
         else (0, buf, k))"
  by (rule dir_read_lists)

text \<open>
  \<^verbatim>\<open>terminal_write\<close> puts exactly the bytes of the buffer on the screen, in order, and
  reports their number; nothing but the console changes, and nothing off the screen.
\<close>

theorem terminal_write_prints:
  assumes "ptr \<noteq> 0" "screen_ok (k_con k)" "cur_term k < MAX_TERMINAL"
  shows "terminal_write fd ptr buf nbytes k =
      (of_nat (nat (sint nbytes)), k\<lparr>k_con := print_bytes (run_of buf 0 (nat (sint nbytes))) (cur_term k) (k_con k)\<rparr>) \<and>
    screen_ok (k_con (snd (terminal_write fd ptr buf nbytes k))) \<and>
    off_screen (k_con (snd (terminal_write fd ptr buf nbytes k))) = off_screen (k_con k)"
  using assms print_bytes_ok [OF assms(2,3)]
  by (simp add: terminal_write_def write_loop_eq on_con_def)

theorem terminal_write_prints_witness:
  "fst (terminal_write 1 4 (cstr ''hi'') 2 demo_kernel) = 2"
proof -
  have "screen_ok (k_con demo_kernel)" "cur_term demo_kernel < MAX_TERMINAL"
    by (simp_all add: demo_kernel_def blank_console_ok cur_term_def fops_table_init_def boot_procs_def con_consts)
  then show ?thesis using terminal_write_prints [of 4 demo_kernel 1 "cstr ''hi''" 2] by simp
qed

text \<open>
  A failed \<^verbatim>\<open>file_read\<close> moves the descriptor: the error code is tested as an unsigned
  number, so the position goes back by one.
\<close>

theorem file_read_error_moves:
  assumes "\<not> bad_index fd" "get_inode_ptr fd (k_proc k) \<ge> num_inodes (k_fs k)"
  shows "fst (file_read fd buf n k) = - 1 \<and>
    get_file_position fd (k_proc (snd (snd (file_read fd buf n k)))) = get_file_position fd (k_proc k) - 1"
proof -
  have "read_data (k_fs k) (get_inode_ptr fd (k_proc k)) (get_file_position fd (k_proc k)) buf n = (- 1, buf)"
    using assms(2) by (simp add: read_data_def)
  moreover have "(- 1 :: u32) > 0" by (simp add: word_gt_0)
  ultimately show ?thesis by (simp add: file_read_def add_offset_fields [OF assms(1)])
qed

theorem file_read_error_moves_witness:
  "get_file_position 2 (k_proc (snd (snd (file_read 2 (\<lambda>_. 0) 10 (demo_open 5))))) = - 1"
  using file_read_error_moves [of 2 "demo_open 5" "\<lambda>_. 0" 10] by (simp add: demo_open_fields demo_fs_fields)

end
