(* ===== verification/Process.thy ===== *)
theory Process
  imports Drivers
begin

text \<open>
  Processes: parsing a command line, \<^verbatim>\<open>execute\<close> and \<^verbatim>\<open>halt\<close> (\<^verbatim>\<open>syscall.c\<close>)
  and the exception handler (\<^verbatim>\<open>exceptions.c\<close>). A routine that leaves by
  switching stacks says so in its \<open>control\<close> result; \<open>None\<close> would be a loop that does not
  end, and \<open>execute_returns\<close> shows that there is none.
\<close>

unbundle bit_operations_syntax

section \<open>Command lines\<close>

definition parse_cmd_args :: "bytes \<Rightarrow> bytes \<Rightarrow> procs \<Rightarrow> bytes \<times> procs" where
  "parse_cmd_args buf comm p =
     (let t = curr_terminal p;
          i = scan (\<lambda>i. comm i \<noteq> SPACE \<and> comm i \<noteq> NUL) 0 TERM_BUFF_SIZE;
          buf = (copy_run buf 0 comm 0 i)(i := NUL);
          i = scan (\<lambda>i. comm i = SPACE \<and> comm i \<noteq> NUL) i (TERM_BUFF_SIZE - i);
          arg_cnt = scan (\<lambda>j. comm j \<noteq> NUL) i (TERM_BUFF_SIZE - i);
          arg = (copy_run (cmd_args p t) 0 comm i (arg_cnt - i))(arg_cnt - i := NUL)
      in (buf, p\<lparr>cmd_args := (cmd_args p)(t := arg)\<rparr>))"

section \<open>Starting a process\<close>

definition FILE_NAME_LENGTH :: nat where "FILE_NAME_LENGTH = 32"
definition BYTES_TO_READ :: u32 where "BYTES_TO_READ = 28"
definition PROGRAM_START :: u32 where "PROGRAM_START = 0x08048000"
definition PROGRAM_PAGE :: u32 where "PROGRAM_PAGE = 0x08000000"
definition USER_PAGE_SIZE :: u32 where "USER_PAGE_SIZE = 0x00400000"

definition magic_numbers :: "u8 list" where
  "magic_numbers = [0x7f, 0x45, 0x4c, 0x46]"

text \<open>The file name at the front of the command; \<open>None\<close> when it is longer than 31 characters.\<close>

definition get_file_name :: "bytes \<Rightarrow> bytes \<Rightarrow> bytes option" where
  "get_file_name command fname =
     (let more = (\<lambda>i. command i \<noteq> SPACE \<and> command i \<noteq> NUL \<and> command i \<noteq> NEWLINE);
          i = scan more 0 (FILE_NAME_LENGTH - 1)
      in if more i then None else Some ((copy_run fname 0 command 0 i)(i := NUL)))"

fun find_slot :: "(int \<Rightarrow> int) \<Rightarrow> nat \<Rightarrow> nat \<Rightarrow> nat option" where
  "find_slot used i 0 = None"
| "find_slot used i (Suc k) = (if used (int i) = 0 then Some i else find_slot used (Suc i) k)"

definition pcb_addr :: "nat \<Rightarrow> u32" where
  "pcb_addr i = K_STACK_BOTTOM - PROCESS_SIZE * (1 + of_nat i)"

definition start_process :: "nat \<Rightarrow> procs \<Rightarrow> procs option" where
  "start_process i p =
     (let t = curr_terminal p;
          p = p\<lparr>in_use := (in_use p)(int i := 1)\<rparr>;
          ptr = pcb_addr i;
          p = p\<lparr>process_array := (process_array p)(int i := ptr)\<rparr>;
          b = (pcbs p ptr)\<lparr>process_id := of_nat i, parent_id := (if i < 3 then - 1 else current_process p t)\<rparr>;
          p = p\<lparr>pcbs := (pcbs p)(ptr := b), current_process := (current_process p)(t := int i)\<rparr>
      in Option.bind (strcpy (pcb_args (cur_pcb p)) (cmd_args p t))
           (\<lambda>a. let p = set_cur_pcb ((cur_pcb p)\<lparr>pcb_args := a\<rparr>) p
                in Some (p\<lparr>pcbs := (pcbs p)(ptr := (pcbs p ptr)\<lparr>fd_table := fd_table_init (fd_table (pcbs p ptr))\<rparr>)\<rparr>)))"

definition entry_point :: "bytes \<Rightarrow> u32" where
  "entry_point buf = foldl (\<lambda>e j. e OR push_bit (8 * (j - 24)) (ucast (buf j))) 0 [24, 25, 26, 27]"

text \<open>The kernel stack a process runs on in the kernel.\<close>

definition kernel_stack :: "int \<Rightarrow> u32" where
  "kernel_stack i = K_STACK_BOTTOM - PROCESS_SIZE * of_int i - 8 div 2"

text \<open>
  The second half of \<^verbatim>\<open>execute\<close>, from the test of the magic number on. The program is read to
  the physical memory behind \<^verbatim>\<open>PROGRAM_START\<close>, which one large page maps contiguously.
\<close>

definition run_program :: "bytes \<Rightarrow> bytes \<Rightarrow> nat \<Rightarrow> kernel \<Rightarrow> control \<times> kernel" where
  "run_program fname buf i k =
     (if \<not> list_all (\<lambda>j. buf j = magic_numbers ! j) [0, 1, 2, 3] then (Return FAIL, k)
      else let entry = entry_point buf;
               k = on_pg (add_process (ucast (process_id (pcbs (k_proc k) (pcb_addr i))))) k;
               (r, dentry) = read_dentry_by_name (k_fs k) fname (stack_dentry k)
           in if r = - 1 then (Return FAIL, k)
              else let base = phys_of k PROGRAM_START;
                       (r, prog) = read_data (k_fs k) (inode_idx dentry) 0 (view (get_phys k) base)
                                     (inode_file_size (k_fs k) (unat (inode_idx dentry)));
                       k = set_phys (unview base prog) k
                   in if r = - 1 then (Return FAIL, k)
                      else let cur = current_process (k_proc k) (cur_term k);
                               k = k\<lparr>tss_esp0 := kernel_stack cur, tss_ss0 := KERNEL_DS\<rparr>;
                               k = on_proc (\<lambda>p. set_cur_pcb ((cur_pcb p)\<lparr>current_esp := reg_esp k, current_ebp := reg_ebp k\<rparr>) p) k
                           in (Enter_user entry, k))"

definition execute :: "u32 \<Rightarrow> bytes \<Rightarrow> kernel \<Rightarrow> (control \<times> kernel) option" where
  "execute ptr comm k =
     (if ptr = 0 then Some (Return FAIL, k)
      else let (command, p) = parse_cmd_args (stack_bytes k) comm (k_proc k);
               k = k\<lparr>k_proc := p\<rparr>
           in case get_file_name command (stack_bytes k) of
                None \<Rightarrow> Some (Return FAIL, k)
              | Some fname \<Rightarrow>
                  let (r, file_dentry) = read_dentry_by_name (k_fs k) fname (stack_dentry k)
                  in if r = - 1 then Some (Return FAIL, k)
                     else if file_type file_dentry \<noteq> 2 then Some (Return FAIL, k)
                     else let (r, buf) = read_data (k_fs k) (inode_idx file_dentry) 0 (stack_bytes k) BYTES_TO_READ
                          in if r = - 1 then Some (Return FAIL, k)
                             else case find_slot (in_use (k_proc k)) 0 MAX_PROCESSES of
                                    None \<Rightarrow> Some (Return FAIL, say (line ''Maximum Possible Processes. Stop and Reconsider.'') k)
                                  | Some i \<Rightarrow>
                                      Option.bind (start_process i (k_proc k))
                                        (\<lambda>p. Some (run_program fname buf i (k\<lparr>k_proc := p\<rparr>))))"

section \<open>Ending a process\<close>

text \<open>The end of \<^verbatim>\<open>halt\<close>: back to the parent's suspended \<^verbatim>\<open>execute\<close>.\<close>

definition leave_process :: "u8 \<Rightarrow> kernel \<Rightarrow> control \<times> kernel" where
  "leave_process status k =
     (let status32 = (0xFF AND ucast status) + exception_flag (k_proc k);
          k = on_proc (\<lambda>p. p\<lparr>extended_status := status32, exception_flag := 0\<rparr>) k;
          esp = current_esp (cur_pcb (k_proc k));
          ebp = current_ebp (cur_pcb (k_proc k));
          t = cur_term k;
          cur = current_process (k_proc k) t;
          k = on_proc (\<lambda>p. p\<lparr>in_use := (in_use p)(cur := 0)\<rparr>) k;
          k = on_proc (\<lambda>p. p\<lparr>current_process := (current_process p)(t := parent_id (cur_pcb p))\<rparr>) k;
          k = on_pg (add_process (of_int (current_process (k_proc k) t))) k;
          k = k\<lparr>tss_esp0 := current_esp (cur_pcb (k_proc k)), tss_ss0 := KERNEL_DS\<rparr>
      in (Leave_execute esp ebp (extended_status (k_proc k)), k))"

text \<open>The address of the literal \<^verbatim>\<open>"shell"\<close>: any address but null.\<close>

definition shell_ptr :: u32 where "shell_ptr = 0x400000"

definition halt :: "u8 \<Rightarrow> kernel \<Rightarrow> (control \<times> kernel) option" where
  "halt status k =
     (let k = on_proc close_all_fd k;
          pid = process_id (cur_pcb (k_proc k))
      in if pid < 3
         then Option.bind (execute shell_ptr (cstr ''shell'') (on_proc (\<lambda>p. p\<lparr>in_use := (in_use p)(uint pid := 0)\<rparr>) k))
                (\<lambda>(c, k). case c of Return r \<Rightarrow> Some (leave_process status k) | _ \<Rightarrow> Some (c, k))
         else Some (leave_process status k))"

section \<open>Exceptions\<close>

definition exception_names :: "string list" where
  "exception_names =
     [''Divide Error Exception'', ''Debug Exception'', ''NMI Interrupt'', ''Breakpoint Exception'', ''Overflow Exception'',
      ''BOUND Range Exceeded Exception'', ''Invalid Opcode Exception'', ''Device Not Available Exception'',
      ''Double Fault Exception'', ''Coprocessor Segment Overrun'', ''Invalid TSS Exception'', ''Segment Not Present'',
      ''Stack Fault Exception'', ''General Protection Exception'', ''Page-Fault Exception'', ''Reserved'',
      ''x87 FPU Floating-Point Error'', ''Alignment Check Exception'', ''Machine-Check Exception'',
      ''SIMD Floating-Point Exception'', ''Reserved'', ''Reserved'', ''Reserved'', ''Reserved'', ''Reserved'', ''Reserved'',
      ''Reserved'', ''Reserved'', ''Reserved'', ''Reserved'', ''Reserved'', ''Reserved'']"

definition print_cr2 :: "u32 \<Rightarrow> kernel \<Rightarrow> kernel option" where
  "print_cr2 cr2 k = k_printf (line ''Suspected Address in CR2: %x'') [cr2] k"

definition exception_handler :: "u32 \<Rightarrow> nat \<Rightarrow> kernel \<Rightarrow> (control \<times> kernel) option" where
  "exception_handler cr2 i k =
     (let k = on_con clear k;
          k = (if i < 32 then say (line (exception_names ! i)) k else k)
      in Option.bind (if i = 14 then print_cr2 cr2 k else Some k)
           (\<lambda>k. halt 255 (on_proc (\<lambda>p. p\<lparr>exception_flag := 1\<rparr>) k)))"

text \<open>\<^verbatim>\<open>exception_0\<close> to \<^verbatim>\<open>exception_31\<close>: what the gate with the stub's name runs.\<close>

definition exception_stub :: "u32 \<Rightarrow> handler \<Rightarrow> kernel \<Rightarrow> (control \<times> kernel) option" where
  "exception_stub cr2 h k = (case h of Exception_stub i \<Rightarrow> exception_handler cr2 i k | _ \<Rightarrow> None)"

section \<open>Starting a process: lemmas\<close>

lemma parse_frame [simp]:
  "curr_terminal (snd (parse_cmd_args buf comm p)) = curr_terminal p"
  "current_process (snd (parse_cmd_args buf comm p)) = current_process p"
  "in_use (snd (parse_cmd_args buf comm p)) = in_use p"
  "process_array (snd (parse_cmd_args buf comm p)) = process_array p"
  "pcbs (snd (parse_cmd_args buf comm p)) = pcbs p"
  by (simp_all add: parse_cmd_args_def Let_def)

lemma scan_upto: "i \<le> m \<Longrightarrow> scan P i (m - i) \<le> m"
  using scan_bounds(2) [of P i "m - i"] by simp

lemma parse_args_cstring: "\<exists>n\<le>128. is_cstring (cmd_args (snd (parse_cmd_args buf comm p)) (curr_terminal p)) n"
proof -
  let ?a = "cmd_args (snd (parse_cmd_args buf comm p)) (curr_terminal p)"
  obtain m where "m \<le> 128" "?a m = NUL"
  proof -
    let ?i0 = "scan (\<lambda>i. comm i \<noteq> SPACE \<and> comm i \<noteq> NUL) 0 128"
    let ?i = "scan (\<lambda>i. comm i = SPACE \<and> comm i \<noteq> NUL) ?i0 (128 - ?i0)"
    let ?n = "scan (\<lambda>j. comm j \<noteq> NUL) ?i (128 - ?i)"
    have "?n \<le> 128" using scan_upto [of 0 128] by (intro scan_upto) simp
    then show thesis by (intro that [of "?n - ?i"]) (auto simp: parse_cmd_args_def Let_def kbd_consts)
  qed
  then show ?thesis using nul_is_cstring [of ?a m] by (meson le_trans)
qed

text \<open>The block of a new process.\<close>

definition new_pcb :: "nat \<Rightarrow> nat \<Rightarrow> procs \<Rightarrow> pcb" where
  "new_pcb i n p =
     (let b = pcbs p (pcb_addr i); a = cmd_args p (curr_terminal p)
      in b\<lparr>process_id := of_nat i, parent_id := (if i < 3 then - 1 else current_process p (curr_terminal p)),
           pcb_args := (\<lambda>j. if j < n then a j else if j = n then NUL else pcb_args b j),
           fd_table := fd_table_init (fd_table b)\<rparr>)"

lemma new_pcb_fields:
  "process_id (new_pcb i n p) = of_nat i"
  "parent_id (new_pcb i n p) = (if i < 3 then - 1 else current_process p (curr_terminal p))"
  "fd_table (new_pcb i n p) = fd_table_init (fd_table (pcbs p (pcb_addr i)))"
  by (simp_all add: new_pcb_def Let_def)

lemma start_process_eq:
  assumes "is_cstring (cmd_args p (curr_terminal p)) n"
  shows "start_process i p = Some (p\<lparr>in_use := (in_use p)(int i := 1), process_array := (process_array p)(int i := pcb_addr i),
    current_process := (current_process p)(curr_terminal p := int i), pcbs := (pcbs p)(pcb_addr i := new_pcb i n p)\<rparr>)"
  by (simp add: start_process_def Let_def cur_pcb_def cur_ptr_def set_cur_pcb_def strcpy_cstring [OF assms] new_pcb_def)

lemma find_slot_SomeD: "find_slot used i k = Some j \<Longrightarrow> i \<le> j \<and> j < i + k \<and> used (int j) = 0 \<and> (\<forall>l. i \<le> l \<and> l < j \<longrightarrow> used (int l) \<noteq> 0)"
proof (induction k arbitrary: i)
  case (Suc k)
  show ?case
  proof (cases "used (int i) = 0")
    case False
    then have ih: "Suc i \<le> j \<and> j < Suc i + k \<and> used (int j) = 0 \<and> (\<forall>l. Suc i \<le> l \<and> l < j \<longrightarrow> used (int l) \<noteq> 0)"
      using Suc.IH [of "Suc i"] Suc.prems by simp
    have "used (int l) \<noteq> 0" if "i \<le> l" "l < j" for l
      using that ih False by (cases "l = i") auto
    then show ?thesis using ih by auto
  qed (use Suc.prems in auto)
qed simp

text \<open>What has to hold for \<^verbatim>\<open>execute\<close> to get as far as a new process.\<close>

definition loadable :: "u32 \<Rightarrow> bytes \<Rightarrow> kernel \<Rightarrow> bytes \<Rightarrow> dentry_t \<Rightarrow> nat \<Rightarrow> bool" where
  "loadable ptr comm k fname d i \<longleftrightarrow>
     ptr \<noteq> 0 \<and> get_file_name (fst (parse_cmd_args (stack_bytes k) comm (k_proc k))) (stack_bytes k) = Some fname \<and>
     read_dentry_by_name (k_fs k) fname (stack_dentry k) = (0, d) \<and> file_type d = 2 \<and>
     inode_idx d < num_inodes (k_fs k) \<and> sound_inode (k_fs k) (unat (inode_idx d)) \<and>
     28 \<le> file_size (k_fs k) (unat (inode_idx d)) \<and> file_size (k_fs k) (unat (inode_idx d)) < 0x3B8000 \<and>
     find_slot (in_use (k_proc k)) 0 MAX_PROCESSES = Some i"

text \<open>The kernel in which the new process exists but its program is not loaded.\<close>

definition started :: "bytes \<Rightarrow> nat \<Rightarrow> nat \<Rightarrow> kernel \<Rightarrow> kernel" where
  "started comm i n k =
     (let p = snd (parse_cmd_args (stack_bytes k) comm (k_proc k))
      in k\<lparr>k_proc := p\<lparr>in_use := (in_use p)(int i := 1), process_array := (process_array p)(int i := pcb_addr i),
           current_process := (current_process p)(curr_terminal p := int i), pcbs := (pcbs p)(pcb_addr i := new_pcb i n p)\<rparr>\<rparr>)"

lemma small_not_fail32: "n < 2 ^ 30 \<Longrightarrow> (of_nat n :: s32) \<noteq> - 1"
proof
  assume n: "n < 2 ^ 30" and e: "(of_nat n :: s32) = - 1"
  have "sint (of_nat n :: s32) = int n" using n by (simp add: signed_of_nat signed_take_bit_int_eq_self)
  then show False unfolding e by simp
qed

lemma execute_starts:
  assumes "loadable ptr comm k fname d i"
  obtains n buf where "execute ptr comm k = Some (run_program fname buf i (started comm i n k))"
    "\<And>j. j < 28 \<Longrightarrow> buf j = contents (k_fs k) (unat (inode_idx d)) ! j"
    "is_cstring (cmd_args (snd (parse_cmd_args (stack_bytes k) comm (k_proc k))) (cur_term k)) n"
proof -
  let ?C = "contents (k_fs k) (unat (inode_idx d))"
  obtain n where n: "is_cstring (cmd_args (snd (parse_cmd_args (stack_bytes k) comm (k_proc k))) (curr_terminal (k_proc k))) n"
    using parse_args_cstring by blast
  define buf where "buf = delivered (k_fs k) (unat (inode_idx d)) 0 0 28 (stack_bytes k)"
  have rd: "read_data (k_fs k) (inode_idx d) 0 (stack_bytes k) BYTES_TO_READ = (28, buf)"
    using assms read_data_delivered [of "inode_idx d" "k_fs k" 0 28 "stack_bytes k"]
    by (simp add: loadable_def BYTES_TO_READ_def buf_def Let_def min_def)
  have b: "buf j = ?C ! j" if "j < 28" for j
    using that assms by (simp add: buf_def delivered_def contents_def loadable_def)
  have "execute ptr comm k = Some (run_program fname buf i (started comm i n k))"
    using assms n rd start_process_eq [of "snd (parse_cmd_args (stack_bytes k) comm (k_proc k))" n i]
    by (simp add: execute_def loadable_def case_prod_beta Let_def started_def)
  then show thesis using that [of buf n] b n by (simp add: cur_term_def)
qed

lemma phys_of_program:
  assumes "k_pg k = add_process i p"
  shows "phys_of k PROGRAM_START = frame i OR 0x48000"
proof -
  have "pd_index PROGRAM_START = PROCESS_IDX" "PROGRAM_START AND 0x3FFFFF = 0x48000"
    by (simp_all add: pd_index_def PROGRAM_START_def PROCESS_IDX_def)
  then show ?thesis using assms by (simp add: phys_of_def add_process_page_walk)
qed

lemma entry_point_le32: "entry_point buf = le32 (buf 24) (buf 25) (buf 26) (buf 27)"
  by (simp add: entry_point_def le32_def or.assoc)

text \<open>Memory with the program in place, and everything else as it was.\<close>

definition with_program :: "u32 \<Rightarrow> u8 list \<Rightarrow> mem \<Rightarrow> mem" where
  "with_program base prog m = (\<lambda>a. if unat (a - base) < length prog then prog ! unat (a - base) else m a)"

lemma unview_delivered:
  assumes "n = file_size fs i"
  shows "unview base (delivered fs i 0 0 n (view m base)) = with_program base (contents fs i) m"
  by (auto simp: unview_def delivered_def with_program_def contents_def view_def assms fun_eq_iff)

lemma run_program_ok:
  assumes "read_dentry_by_name (k_fs k) fname (stack_dentry k) = (0, d)"
    and "inode_idx d < num_inodes (k_fs k)" "sound_inode (k_fs k) (unat (inode_idx d))"
    and "file_size (k_fs k) (unat (inode_idx d)) < 0x3B8000"
    and "list_all (\<lambda>j. buf j = magic_numbers ! j) [0, 1, 2, 3]"
    and "process_id (pcbs (k_proc k) (pcb_addr i)) = of_nat i" "i < 8"
  shows "\<exists>k'. run_program fname buf i k = (Enter_user (entry_point buf), k') \<and>
    k_pg k' = add_process (of_nat i) (k_pg k) \<and>
    get_phys k' = with_program (frame (of_nat i) OR 0x48000) (contents (k_fs k) (unat (inode_idx d))) (get_phys k) \<and>
    k_proc k' = set_cur_pcb ((cur_pcb (k_proc k))\<lparr>current_esp := reg_esp k, current_ebp := reg_ebp k\<rparr>) (k_proc k) \<and>
    tss_esp0 k' = kernel_stack (current_process (k_proc k) (cur_term k)) \<and> k_fs k' = k_fs k"
proof -
  let ?ino = "unat (inode_idx d)" and ?base = "frame (of_nat i) OR 0x48000"
  define k1 where "k1 = on_pg (add_process (of_nat i)) k"
  have id: "(ucast (of_nat i :: u8) :: u32) = of_nat i"
    using assms(7) by (simp add: word_unat_eq_iff unat_of_nat unsigned_ucast_eq take_bit_nat_eq_self)
  have base: "phys_of k1 PROGRAM_START = ?base"
    using phys_of_program [of k1 "of_nat i" "k_pg k"] by (simp add: k1_def)
  have sz: "unat (inode_file_size (k_fs k) ?ino) = file_size (k_fs k) ?ino" by (simp add: file_size_def)
  have k1: "get_phys k1 = get_phys k" "k_fs k1 = k_fs k" "stack_dentry k1 = stack_dentry k"
    "k_proc k1 = k_proc k" "cur_term k1 = cur_term k"
    unfolding k1_def by (simp_all, simp add: on_pg_def)
  have rd: "read_data (k_fs k) (inode_idx d) 0 (view (get_phys k) ?base) (inode_file_size (k_fs k) ?ino) =
      (of_nat (file_size (k_fs k) ?ino), delivered (k_fs k) ?ino 0 0 (file_size (k_fs k) ?ino) (view (get_phys k) ?base))"
    using read_data_delivered [OF assms(2,3), of 0 "inode_file_size (k_fs k) ?ino" "view (get_phys k) ?base"] sz
      unat_u32_less [of "inode_file_size (k_fs k) ?ino"] by (simp add: Let_def)
  have nf: "(of_nat (file_size (k_fs k) ?ino) :: s32) \<noteq> - 1" using assms(4) by (intro small_not_fail32) simp
  define k2 where "k2 = set_phys (with_program ?base (contents (k_fs k) ?ino) (get_phys k)) k1"
  have fields: "k_proc k2 = k_proc k" "k_pg k2 = add_process (of_nat i) (k_pg k)" "k_fs k2 = k_fs k" "cur_term k2 = cur_term k"
    "reg_esp k2 = reg_esp k" "reg_ebp k2 = reg_ebp k"
    "get_phys k2 = with_program ?base (contents (k_fs k) ?ino) (get_phys k)"
    unfolding k2_def k1_def get_set_phys by (simp_all add: set_phys_def on_pg_def cur_term_def)
  have run: "run_program fname buf i k = (Enter_user (entry_point buf),
      on_proc (\<lambda>p. set_cur_pcb ((cur_pcb p)\<lparr>current_esp := reg_esp k, current_ebp := reg_ebp k\<rparr>) p)
        (k2\<lparr>tss_esp0 := kernel_stack (current_process (k_proc k) (cur_term k)), tss_ss0 := KERNEL_DS\<rparr>))"
    using assms(1,5,6) rd nf base k1 fields
    by (simp add: run_program_def Let_def id unview_delivered k1_def [symmetric] k2_def [symmetric])
  show ?thesis
    unfolding run using fields by (simp, simp add: on_proc_def)
qed

section \<open>The command and the file name\<close>

text \<open>The first word of a command line: the characters before the first space or the end.\<close>

definition first_word :: "bytes \<Rightarrow> nat \<Rightarrow> bool" where
  "first_word comm n \<longleftrightarrow> (\<forall>j\<in>{0..<n}. comm j \<noteq> SPACE \<and> comm j \<noteq> NUL) \<and> (comm n = SPACE \<or> comm n = NUL)"

lemma parse_command:
  assumes "first_word comm n" "n < 128"
  shows "fst (parse_cmd_args buf comm p) = (copy_run buf 0 comm 0 n)(n := NUL)"
proof -
  have "scan (\<lambda>i. comm i \<noteq> SPACE \<and> comm i \<noteq> NUL) 0 TERM_BUFF_SIZE = n"
    by (rule scan_unique) (use assms in \<open>auto simp: first_word_def kbd_consts\<close>)
  then show ?thesis by (simp add: parse_cmd_args_def Let_def)
qed

lemma get_file_name_word:
  assumes "first_word comm n" "n < 32" "\<forall>j\<in>{0..<n}. comm j \<noteq> NEWLINE"
  shows "get_file_name ((copy_run buf 0 comm 0 n)(n := NUL)) buf' = Some ((copy_run buf' 0 comm 0 n)(n := NUL))"
proof -
  let ?c = "(copy_run buf 0 comm 0 n)(n := NUL)"
  have "scan (\<lambda>i. ?c i \<noteq> SPACE \<and> ?c i \<noteq> NUL \<and> ?c i \<noteq> NEWLINE) 0 (FILE_NAME_LENGTH - 1) = n"
    by (rule scan_unique) (use assms in \<open>auto simp: first_word_def copy_run_eq FILE_NAME_LENGTH_def\<close>)
  moreover have "copy_run buf' 0 ?c 0 n = copy_run buf' 0 comm 0 n" by (auto simp: copy_run_eq fun_eq_iff)
  ultimately show ?thesis by (simp add: get_file_name_def Let_def)
qed

definition demo_name :: bytes where
  "demo_name = (copy_run (\<lambda>_. 7) 0 (cstr ''sh'') 0 2)(2 := NUL)"

definition demo_with :: "u8 \<Rightarrow> kernel" where
  "demo_with m = demo_kernel\<lparr>k_fs := demo_fs m\<rparr>"

lemma demo_with_fields:
  "stack_bytes (demo_with m) = (\<lambda>_. 7)" "k_fs (demo_with m) = demo_fs m" "k_proc (demo_with m) = fops_table_init boot_procs"
  by (simp_all add: demo_with_def demo_kernel_def)

lemma demo_slot: "find_slot (in_use (fops_table_init boot_procs)) 0 MAX_PROCESSES = Some 3"
proof -
  have m: "MAX_PROCESSES = Suc (Suc (Suc (Suc 4)))" by (simp add: fd_consts)
  show ?thesis unfolding m find_slot.simps by (simp add: fops_table_init_def boot_procs_def)
qed

lemma demo_loadable_word:
  assumes "comm 0 = 115" "comm 1 = 104" "comm 2 = NUL \<or> comm 2 = SPACE"
  shows "loadable 4 comm (demo_with m) demo_name (fill_dentry (demo_fs m) 1 2 (stack_dentry (demo_with m))) 3"
proof -
  have c: "cstr ''sh'' 0 = 115" "cstr ''sh'' 1 = 104"
    by (simp_all add: cstr_def byte_of_char_def of_char_def)
  have w: "first_word comm 2" "\<forall>j\<in>{0..<2}. comm j \<noteq> NEWLINE"
    using assms by (auto simp: first_word_def less_2_cases_iff)
  have "demo_name 0 = 115" "demo_name 1 = 104" "demo_name 2 = NUL" using c by (simp_all add: demo_name_def copy_run_eq)
  note look = demo_fs_lookup [OF this]
  have "comm j = cstr ''sh'' j" if "j < 2" for j
    using less_2_cases [OF that] assms(1) c(1) assms(2) c(2) by auto
  then have "(copy_run (\<lambda>_. 7) 0 comm 0 2)(2 := NUL) = demo_name"
    by (auto simp: demo_name_def copy_run_eq fun_eq_iff)
  then show ?thesis
    unfolding loadable_def demo_with_fields parse_command [OF w(1), simplified] get_file_name_word [OF w(1) _ w(2), simplified]
    using look demo_slot by (simp add: fill_dentry_def demo_fs_fields demo_fs_sound demo_fs_size)
qed

lemma demo_loadable:
  "loadable 4 (cstr ''sh'') (demo_with m) demo_name (fill_dentry (demo_fs m) 1 2 (stack_dentry (demo_with m))) 3"
  by (rule demo_loadable_word) (simp_all add: cstr_def byte_of_char_def of_char_def)

lemma demo_contents: "j < 40 \<Longrightarrow> contents (demo_fs m) 0 ! j = demo_image m (8192 + j)" "length (contents (demo_fs m) 0) = 40"
  by (simp_all add: contents_def demo_fs_size file_byte_def data_byte_def demo_fs_inode demo_fs_fields fs_consts)

lemma demo_magic: "take 4 (contents (demo_fs m) 0) = [m, 0x45, 0x4c, 0x46]"
proof -
  have u: "[0..<4] = [0, 1, 2, 3 :: nat]" by (simp add: upt_rec)
  have "take 4 (contents (demo_fs m) 0) = map (\<lambda>j. contents (demo_fs m) 0 ! j) [0..<4]"
    by (rule nth_equalityI) (simp_all add: demo_contents(2))
  then show ?thesis unfolding u by (simp add: demo_contents demo_image_def)
qed

lemma demo_inode: "unat (inode_idx (fill_dentry (demo_fs m) 1 2 d)) = 0"
  using demo_fs_lookup(3) [of "\<lambda>i. if i = 0 then 115 else if i = 1 then 104 else 0"]
  by (simp add: fill_dentry_def)

lemma execute_enters:
  assumes "loadable ptr comm k fname d i"
    and "take 4 (contents (k_fs k) (unat (inode_idx d))) = [0x7f, 0x45, 0x4c, 0x46]"
  defines "C \<equiv> contents (k_fs k) (unat (inode_idx d))"
  obtains n k' where "execute ptr comm k = Some (Enter_user (le32 (C ! 24) (C ! 25) (C ! 26) (C ! 27)), k')"
    "k_proc k' = set_cur_pcb ((new_pcb i n (snd (parse_cmd_args (stack_bytes k) comm (k_proc k))))
       \<lparr>current_esp := reg_esp k, current_ebp := reg_ebp k\<rparr>) (k_proc (started comm i n k))"
    "k_pg k' = add_process (of_nat i) (k_pg k)"
    "get_phys k' = with_program (frame (of_nat i) OR 0x48000) C (get_phys k)" "i < 8"
    "is_cstring (cmd_args (snd (parse_cmd_args (stack_bytes k) comm (k_proc k))) (cur_term k)) n"
proof -
  obtain n buf where ex: "execute ptr comm k = Some (run_program fname buf i (started comm i n k))"
    and buf: "\<And>j. j < 28 \<Longrightarrow> buf j = C ! j"
    and str: "is_cstring (cmd_args (snd (parse_cmd_args (stack_bytes k) comm (k_proc k))) (cur_term k)) n"
    using execute_starts [OF assms(1)] unfolding C_def by blast
  let ?k = "started comm i n k"
  note l = assms(1) [unfolded loadable_def]
  have i: "i < 8" using l find_slot_SomeD [of "in_use (k_proc k)" 0 MAX_PROCESSES i] by (simp add: fd_consts)
  have magic: "list_all (\<lambda>j. buf j = magic_numbers ! j) [0, 1, 2, 3]"
  proof -
    have "C ! j = [0x7f, 0x45, 0x4c, 0x46] ! j" if "j < 4" for j
      using assms(2) that unfolding C_def [symmetric] by (metis nth_take)
    from this [of 0] this [of 1] this [of 2] this [of 3] show ?thesis by (simp add: buf magic_numbers_def)
  qed
  have st: "k_fs ?k = k_fs k" "stack_dentry ?k = stack_dentry k" "k_pg ?k = k_pg k" "get_phys ?k = get_phys k"
    "process_id (pcbs (k_proc ?k) (pcb_addr i)) = of_nat i" "cur_pcb (k_proc ?k) = new_pcb i n (snd (parse_cmd_args (stack_bytes k) comm (k_proc k)))"
    "reg_esp ?k = reg_esp k" "reg_ebp ?k = reg_ebp k"
    using new_pcb_fields(1) [of i n "snd (parse_cmd_args (stack_bytes k) comm (k_proc k))"]
    by (simp_all add: started_def Let_def cur_pcb_def cur_ptr_def cur_term_def)
  obtain k' where k': "run_program fname buf i ?k = (Enter_user (entry_point buf), k')"
    "k_pg k' = add_process (of_nat i) (k_pg k)" "get_phys k' = with_program (frame (of_nat i) OR 0x48000) C (get_phys k)"
    "k_proc k' = set_cur_pcb ((cur_pcb (k_proc ?k))\<lparr>current_esp := reg_esp ?k, current_ebp := reg_ebp ?k\<rparr>) (k_proc ?k)"
    using run_program_ok [of ?k fname d buf i] l magic i unfolding st C_def by auto
  have "entry_point buf = le32 (C ! 24) (C ! 25) (C ! 26) (C ! 27)" by (simp add: entry_point_le32 buf)
  then show thesis using ex k' st i str by (intro that [of k' n]) simp_all
qed

lemma started_fields:
  "in_use (k_proc (started comm i n k)) = (in_use (k_proc k))(int i := 1)"
  "current_process (k_proc (started comm i n k)) = (current_process (k_proc k))(cur_term k := int i)"
  "curr_terminal (k_proc (started comm i n k)) = cur_term k"
  "process_array (k_proc (started comm i n k)) = (process_array (k_proc k))(int i := pcb_addr i)"
  by (simp_all add: started_def Let_def cur_term_def)

section \<open>Properties of execute\<close>

lemma execute_total:
  "\<exists>k'. execute ptr comm k = Some (Return (- 1), k') \<or> (\<exists>entry. execute ptr comm k = Some (Enter_user entry, k'))"
proof -
  obtain n where n: "is_cstring (cmd_args (snd (parse_cmd_args (stack_bytes k) comm (k_proc k))) (curr_terminal (k_proc k))) n"
    using parse_args_cstring by blast
  have run: "\<exists>k2. run_program fname buf i k1 = (Return (- 1), k2) \<or> (\<exists>e. run_program fname buf i k1 = (Enter_user e, k2))"
    for fname buf i k1
    by (auto simp: run_program_def Let_def case_prod_beta)
  have "\<exists>q. start_process i (snd (parse_cmd_args (stack_bytes k) comm (k_proc k))) = Some q" for i
    using start_process_eq [of "snd (parse_cmd_args (stack_bytes k) comm (k_proc k))" n i] n by simp
  then obtain start where "start_process i (snd (parse_cmd_args (stack_bytes k) comm (k_proc k))) = Some (start i)" for i
    by metis
  then show ?thesis
    using run by (auto simp: execute_def Let_def case_prod_beta split: option.split)
qed

text \<open>
  \<^verbatim>\<open>execute\<close> always comes to an end, for every command, file system image and kernel
  state: it returns -1 or enters the program; it never loops.
\<close>

theorem execute_returns:
  "\<exists>k'. execute ptr comm k = Some (Return (- 1), k') \<or> (\<exists>entry. execute ptr comm k = Some (Enter_user entry, k'))"
  by (rule execute_total)

text \<open>
  C32. Starting a program: when the command names an executable file that fits the program
  page and a process slot is free, \<^verbatim>\<open>execute\<close> enters user mode at the entry point stored in
  bytes 24 to 27 of the file; the smallest free slot is taken and becomes the terminal's
  current process, with a fresh descriptor table and the caller as its parent; the program
  page is the new process's frame, the file's bytes are at its offset 0x48000, and no other
  byte of memory has changed.
\<close>

theorem execute_runs:
  assumes "loadable ptr comm k fname d i"
    and "take 4 (contents (k_fs k) (unat (inode_idx d))) = [0x7f, 0x45, 0x4c, 0x46]"
  defines "C \<equiv> contents (k_fs k) (unat (inode_idx d))"
  shows "\<exists>k'. execute ptr comm k = Some (Enter_user (le32 (C ! 24) (C ! 25) (C ! 26) (C ! 27)), k') \<and>
    in_use (k_proc k') = (in_use (k_proc k))(int i := 1) \<and>
    current_process (k_proc k') = (current_process (k_proc k))(cur_term k := int i) \<and>
    parent_id (cur_pcb (k_proc k')) = (if i < 3 then - 1 else current_process (k_proc k) (cur_term k)) \<and>
    fds_ok (cur_fds (k_proc k')) \<and> free_fds (cur_fds (k_proc k')) = [2, 3, 4, 5, 6, 7] \<and>
    k_pg k' = add_process (of_nat i) (k_pg k) \<and>
    get_phys k' = with_program (frame (of_nat i) OR 0x48000) C (get_phys k)"
proof -
  obtain n k' where "execute ptr comm k = Some (Enter_user (le32 (C ! 24) (C ! 25) (C ! 26) (C ! 27)), k')"
    "k_proc k' = set_cur_pcb ((new_pcb i n (snd (parse_cmd_args (stack_bytes k) comm (k_proc k))))
       \<lparr>current_esp := reg_esp k, current_ebp := reg_ebp k\<rparr>) (k_proc (started comm i n k))"
    "k_pg k' = add_process (of_nat i) (k_pg k)"
    "get_phys k' = with_program (frame (of_nat i) OR 0x48000) C (get_phys k)"
    using execute_enters [OF assms(1,2)] unfolding C_def by metis
  then show ?thesis
    by (simp add: started_fields cur_fds_def new_pcb_fields cur_term_def fd_table_init_ok fd_table_init_free)
qed

theorem execute_runs_witness:
  "\<exists>k'. execute 4 (cstr ''sh'') (demo_with 127) = Some (Enter_user 0x41414141, k') \<and>
    k_pg k' = add_process 3 (k_pg (demo_with 127))"
proof -
  have b: "contents (demo_fs 127) 0 ! 24 = 65" "contents (demo_fs 127) 0 ! 25 = 65" "contents (demo_fs 127) 0 ! 26 = 65"
    "contents (demo_fs 127) 0 ! 27 = 65"
    by (simp_all add: demo_contents demo_image_def)
  have "le32 65 65 65 65 = 0x41414141" by (simp add: le32_def)
  then show ?thesis
    using execute_runs [OF demo_loadable [of 127]] b unfolding demo_inode demo_with_fields demo_magic by auto
qed

text \<open>
  A command that names a file without the executable magic number is refused, but only
  after the process slot has been taken: the slot stays in use and the terminal's current
  process is one that does not run.
\<close>

theorem execute_bad_magic_leaks:
  assumes "loadable ptr comm k fname d i" "contents (k_fs k) (unat (inode_idx d)) ! 0 \<noteq> 0x7f"
  shows "\<exists>k'. execute ptr comm k = Some (Return (- 1), k') \<and>
    in_use (k_proc k') = (in_use (k_proc k))(int i := 1) \<and> current_process (k_proc k') (cur_term k) = int i"
proof -
  obtain n buf where ex: "execute ptr comm k = Some (run_program fname buf i (started comm i n k))"
    and buf: "\<And>j. j < 28 \<Longrightarrow> buf j = contents (k_fs k) (unat (inode_idx d)) ! j"
    using execute_starts [OF assms(1)] by blast
  have "run_program fname buf i (started comm i n k) = (Return (- 1), started comm i n k)"
    using buf [of 0] assms(2) by (simp add: run_program_def magic_numbers_def)
  then show ?thesis using ex by (simp add: started_def Let_def cur_term_def)
qed

theorem execute_bad_magic_leaks_witness:
  "\<exists>k'. execute 4 (cstr ''sh'') (demo_with 0) = Some (Return (- 1), k') \<and> in_use (k_proc k') 3 = 1"
proof -
  have "contents (demo_fs 0) 0 ! 0 \<noteq> 0x7f" by (simp add: demo_contents demo_image_def)
  then show ?thesis
    using execute_bad_magic_leaks [OF demo_loadable [of 0]] unfolding demo_inode demo_with_fields by auto
qed

section \<open>Properties of halt\<close>

lemma cleared_free: "free_fds (clear_fds ft 0 MAX_OPEN_FILES) = [2, 3, 4, 5, 6, 7]"
  by (simp add: free_fds_def clear_fds_eq empty_fd_def fd_consts)

lemma halt_program:
  assumes "3 \<le> process_id (cur_pcb (k_proc k))"
  shows "halt status k = Some (leave_process status (on_proc close_all_fd k))"
proof -
  have "cur_pcb (close_all_fd p) = (cur_pcb p)\<lparr>fd_table := clear_fds (cur_fds p) 0 MAX_OPEN_FILES\<rparr>" for p
    by (simp add: close_all_fd_def set_cur_fds_def)
  moreover have "\<not> process_id (cur_pcb (k_proc k)) < 3" using assms by (simp add: not_less)
  ultimately show ?thesis by (simp add: halt_def Let_def)
qed

lemma status_mask: "(0xFF :: u32) AND ucast (s :: u8) = ucast s"
proof -
  have m: "(0xFF :: u32) = mask 8" by (simp add: mask_eq_exp_minus_1)
  show ?thesis
    unfolding m by (rule bit_word_eqI) (auto simp: bit_and_iff bit_mask_iff bit_unsigned_iff dest: bit_imp_le_length)
qed

lemma leave_process_eq:
  obtains k' where "leave_process status k =
      (Leave_execute (current_esp (cur_pcb (k_proc k))) (current_ebp (cur_pcb (k_proc k))) (ucast status + exception_flag (k_proc k)), k')"
    "in_use (k_proc k') = (in_use (k_proc k))(current_process (k_proc k) (cur_term k) := 0)"
    "current_process (k_proc k') = (current_process (k_proc k))(cur_term k := parent_id (cur_pcb (k_proc k)))"
    "k_pg k' = add_process (of_int (parent_id (cur_pcb (k_proc k)))) (k_pg k)"
    "pcbs (k_proc k') = pcbs (k_proc k)" "exception_flag (k_proc k') = 0"
proof -
  have "k_proc k = p \<Longrightarrow> cur_pcb (p\<lparr>extended_status := e, exception_flag := f, in_use := u\<rparr>) = cur_pcb p"
    "k_proc k = p \<Longrightarrow> cur_pcb (p\<lparr>extended_status := e, exception_flag := f\<rparr>) = cur_pcb p" for p e f u
    by (simp_all add: cur_pcb_def cur_ptr_def)
  then show thesis
    by (intro that [of "snd (leave_process status k)"]) (simp_all add: leave_process_def Let_def status_mask on_proc_def on_pg_def cur_term_def)
qed

text \<open>
  A program that \<^verbatim>\<open>execute\<close> has started in slot \<open>i\<close> halts: \<open>k1\<close> is the state in which it was entered,
  \<open>k2\<close> the one in which it halts, and only its descriptors have changed in between.
\<close>

lemma halt_returns:
  assumes "k_proc k1 = set_cur_pcb ((new_pcb i n (snd (parse_cmd_args (stack_bytes k) comm (k_proc k))))\<lparr>current_esp := x, current_ebp := y\<rparr>)
      (k_proc (started comm i n k))"
    and "3 \<le> i" "i < 8" "in_use (k_proc k) (int i) = 0" "k_proc k2 = (set_cur_fds ft (k_proc k1))\<lparr>exception_flag := e\<rparr>"
  obtains k3 where "halt status k2 = Some (Leave_execute x y (ucast status + e), k3)" "k3 = snd (leave_process status (on_proc close_all_fd k2))"
    "in_use (k_proc k3) = in_use (k_proc k)" "current_process (k_proc k3) = current_process (k_proc k)"
    "k_pg k3 = add_process (of_int (current_process (k_proc k) (cur_term k))) (k_pg k2)"
    "free_fds (fd_table (pcbs (k_proc k3) (pcb_addr i))) = [2, 3, 4, 5, 6, 7]"
    "\<forall>a. a \<noteq> pcb_addr i \<longrightarrow> pcbs (k_proc k3) a = pcbs (k_proc k) a" "exception_flag (k_proc k3) = 0"
proof -
  let ?t = "cur_term k" and ?p0 = "snd (parse_cmd_args (stack_bytes k) comm (k_proc k))" and ?ft = "clear_fds ft 0 MAX_OPEN_FILES"
  let ?b = "(new_pcb i n ?p0)\<lparr>current_esp := x, current_ebp := y, fd_table := ?ft\<rparr>" and ?q = "close_all_fd (k_proc k2)"
  have id: "(3 :: u8) \<le> of_nat i" using assms(2,3) by (simp add: word_le_nat_alt unat_of_nat)
  have c2: "cur_ptr (k_proc k2) = pcb_addr i"
    unfolding assms(5,1) by (simp add: cur_ptr_def started_fields)
  have f: "cur_pcb (k_proc k2) = (new_pcb i n ?p0)\<lparr>current_esp := x, current_ebp := y, fd_table := ft\<rparr>"
    unfolding assms(5,1) by (simp add: cur_pcb_def cur_ptr_def set_cur_fds_def)
  have q: "cur_pcb ?q = ?b" "pcbs ?q (pcb_addr i) = ?b" "exception_flag ?q = e"
    "in_use ?q = (in_use (k_proc k))(int i := 1)" "current_process ?q = (current_process (k_proc k))(?t := int i)"
    "curr_terminal ?q = ?t"
    using f c2 by (simp_all add: close_all_fd_def set_cur_fds_def cur_fds_def assms(5,1) started_fields)
  have others: "pcbs ?q a = pcbs (k_proc k) a" if "a \<noteq> pcb_addr i" for a
    using that c2 unfolding assms(5,1)
    by (simp add: close_all_fd_def set_cur_fds_def set_cur_pcb_def cur_ptr_def started_fields) (simp add: started_def Let_def)
  obtain k3 where k3: "halt status k2 = Some (Leave_execute (current_esp (cur_pcb ?q)) (current_ebp (cur_pcb ?q)) (ucast status + exception_flag ?q), k3)"
    "k3 = snd (leave_process status (on_proc close_all_fd k2))" "in_use (k_proc k3) = (in_use ?q)(current_process ?q (curr_terminal ?q) := 0)"
    "current_process (k_proc k3) = (current_process ?q)(curr_terminal ?q := parent_id (cur_pcb ?q))"
    "k_pg k3 = add_process (of_int (parent_id (cur_pcb ?q))) (k_pg k2)" "pcbs (k_proc k3) = pcbs ?q" "exception_flag (k_proc k3) = 0"
    using leave_process_eq [of status "on_proc close_all_fd k2"] halt_program [of k2 status] id
    by (simp add: f new_pcb_fields cur_term_def) (metis snd_conv)
  have "parent_id ?b = current_process (k_proc k) ?t" using assms(2) by (simp add: new_pcb_fields cur_term_def)
  moreover have "(in_use (k_proc k))(int i := 1, int i := 0) = in_use (k_proc k)" using assms(4) by (simp add: fun_upd_idem)
  ultimately show thesis using k3 others unfolding q using q(2) cleared_free [of ft] by (intro that [of k3]) simp_all
qed

text \<open>
  C33. \<^verbatim>\<open>halt\<close> undoes \<^verbatim>\<open>execute\<close>: when a program that \<^verbatim>\<open>execute\<close> started above a base shell halts,
  whatever it has done to its descriptors, to memory or to the screen, the suspended
  \<^verbatim>\<open>execute\<close> returns on its own stack with the 8-bit status plus the exception flag;
  the process slots and the current processes are as before the call, the parent's page is
  mapped again, and the program's block holds no open descriptor.
\<close>

theorem halt_undoes_execute:
  assumes "loadable ptr comm k fname d i" "3 \<le> i"
    and "take 4 (contents (k_fs k) (unat (inode_idx d))) = [0x7f, 0x45, 0x4c, 0x46]"
  shows "\<exists>entry k1. execute ptr comm k = Some (Enter_user entry, k1) \<and>
    (\<forall>k2 ft e status. k_proc k2 = (set_cur_fds ft (k_proc k1))\<lparr>exception_flag := e\<rparr> \<longrightarrow>
      (\<exists>k3. halt status k2 = Some (Leave_execute (reg_esp k) (reg_ebp k) (ucast status + e), k3) \<and>
        in_use (k_proc k3) = in_use (k_proc k) \<and> current_process (k_proc k3) = current_process (k_proc k) \<and>
        k_pg k3 = add_process (of_int (current_process (k_proc k) (cur_term k))) (k_pg k2) \<and>
        free_fds (fd_table (pcbs (k_proc k3) (pcb_addr i))) = [2, 3, 4, 5, 6, 7]))"
proof -
  obtain n k1 entry where ex: "execute ptr comm k = Some (Enter_user entry, k1)"
    and p1: "k_proc k1 = set_cur_pcb ((new_pcb i n (snd (parse_cmd_args (stack_bytes k) comm (k_proc k))))\<lparr>current_esp := reg_esp k, current_ebp := reg_ebp k\<rparr>)
      (k_proc (started comm i n k))" and i: "i < 8"
    using execute_enters [OF assms(1,3)] by metis
  have "in_use (k_proc k) (int i) = 0"
    using assms(1) find_slot_SomeD [of "in_use (k_proc k)" 0 MAX_PROCESSES i] by (simp add: loadable_def)
  then show ?thesis using ex halt_returns [OF p1 assms(2) i] by metis
qed

theorem halt_undoes_execute_witness:
  "\<exists>entry k1 k3 e. execute 4 (cstr ''sh'') (demo_with 127) = Some (Enter_user entry, k1) \<and>
     halt 5 k1 = Some (Leave_execute 0x7FFF00 0x7FFF40 (5 + e), k3) \<and> in_use (k_proc k3) = in_use (k_proc (demo_with 127))"
proof -
  have r: "reg_esp (demo_with 127) = 0x7FFF00" "reg_ebp (demo_with 127) = 0x7FFF40"
    by (simp_all add: demo_with_def demo_kernel_def)
  have same: "k_proc k1 = (set_cur_fds (cur_fds (k_proc k1)) (k_proc k1))\<lparr>exception_flag := exception_flag (k_proc k1)\<rparr>" for k1
    by simp
  obtain entry k1 where ex: "execute 4 (cstr ''sh'') (demo_with 127) = Some (Enter_user entry, k1)"
    and all: "\<forall>k2 ft e status. k_proc k2 = (set_cur_fds ft (k_proc k1))\<lparr>exception_flag := e\<rparr> \<longrightarrow>
      (\<exists>k3. halt status k2 = Some (Leave_execute 0x7FFF00 0x7FFF40 (ucast status + e), k3) \<and>
        in_use (k_proc k3) = in_use (k_proc (demo_with 127)))"
    using halt_undoes_execute [OF demo_loadable [of 127]] unfolding r demo_inode demo_with_fields demo_magic by simp blast
  from all [rule_format, OF same, of 5] show ?thesis using ex by auto
qed

end
