(* ===== verification/Terminal.thy ===== *)
theory Terminal
  imports Process
begin

text \<open>
  The three terminals: \<^verbatim>\<open>terminal_switch\<close> of \<^verbatim>\<open>terminal.c\<close>. The terminal on display owns video
  memory; the screens of the others are in their backup pages. The lemmas state what the
  exchange of pages does to physical memory and, abstractly, that no screen is ever lost.
\<close>

unbundle bit_operations_syntax

section \<open>Switching terminals\<close>

definition FOURKiB :: u32 where "FOURKiB = 0x1000"

definition term_page :: "nat \<Rightarrow> u32" where
  "term_page t = VIRT_VID_TERM1 + of_nat t * FOURKiB"

text \<open>\<^verbatim>\<open>memcpy\<close> of one page between two page-aligned virtual addresses.\<close>

definition copy_page :: "u32 \<Rightarrow> u32 \<Rightarrow> kernel \<Rightarrow> kernel" where
  "copy_page dest src k = set_phys (memcpy (get_phys k) (phys_of k dest) (phys_of k src) FOURKiB) k"

text \<open>Exchanging the screens: the part of \<^verbatim>\<open>terminal_switch\<close> from the new \<^verbatim>\<open>curr_terminal\<close> to the cursor.\<close>

definition swap_screens :: "nat \<Rightarrow> nat \<Rightarrow> kernel \<Rightarrow> kernel" where
  "swap_screens old new k =
     (let k = on_pg (map_virt_to_phys (term_page old) (USER_BACK1 + of_nat old * FOURKiB)) k;
          k = copy_page (term_page old) VIDEO k;
          k = copy_page VIDEO (term_page new) k
      in on_pg (map_virt_to_phys (term_page new) USER_VIDEO_PAGE) k)"

text \<open>The end of \<^verbatim>\<open>terminal_switch\<close>: continue what runs in the new terminal.\<close>

definition resume_terminal :: "kernel \<Rightarrow> control \<times> kernel" where
  "resume_terminal k =
     (let cur = current_process (k_proc k) (cur_term k);
          k = on_pg (add_process (of_int cur)) k;
          k = k\<lparr>tss_esp0 := kernel_stack cur, tss_ss0 := KERNEL_DS\<rparr>
      in (Resume_switch (return_esp (cur_pcb (k_proc k))) (return_ebp (cur_pcb (k_proc k))), k))"

definition terminal_switch :: "u32 \<Rightarrow> kernel \<Rightarrow> (control \<times> kernel) option" where
  "terminal_switch new_terminal k =
     (if unat new_terminal = cur_term k then Some (Return 0, k)
      else if unat new_terminal \<ge> MAX_TERMINAL then Some (Return FAIL, k)
      else let old = cur_term k;
               new = unat new_terminal;
               k = on_proc (\<lambda>p. set_cur_pcb ((cur_pcb p)\<lparr>return_esp := reg_esp k, return_ebp := reg_ebp k\<rparr>) p) k;
               k = on_proc (\<lambda>p. p\<lparr>old_terminal := old, curr_terminal := new\<rparr>) k;
               k = on_con update_cursor (swap_screens old new k)
           in if current_process (k_proc k) new = - 1
              then Option.bind (execute shell_ptr (cstr ''shell'') (on_proc (\<lambda>p. p\<lparr>in_use := (in_use p)(int new := 0)\<rparr>) k))
                     (\<lambda>(c, k). case c of Return r \<Rightarrow> Some (resume_terminal k) | _ \<Rightarrow> Some (c, k))
              else Some (resume_terminal k))"

section \<open>Screens\<close>

definition backup_page :: "nat \<Rightarrow> u32" where
  "backup_page t = BACKUP_VID1 + of_nat t * 0x1000"

text \<open>The page of every terminal that is not on display is mapped to its backup.\<close>

definition screens_ok :: "nat \<Rightarrow> paging \<Rightarrow> bool" where
  "screens_ok cur p \<longleftrightarrow> paging_ok p \<and>
     (\<forall>t<3. t \<noteq> cur \<longrightarrow> entry_present (user_page_table p t) \<and> user_page_table p t AND 0xFFFFF000 = backup_page t)"

text \<open>The page that holds the screen of terminal \<open>t\<close>, and its contents.\<close>

definition screen_page :: "nat \<Rightarrow> nat \<Rightarrow> u32" where
  "screen_page cur t = (if t = cur then VIDEO else backup_page t)"

definition screen_of :: "kernel \<Rightarrow> nat \<Rightarrow> u8 list" where
  "screen_of k t = map (\<lambda>i. get_phys k (screen_page (cur_term k) t + of_nat i)) [0..<4096]"

lemma term_cases: "t < 3 \<Longrightarrow> t = 0 \<or> t = 1 \<or> t = (2 :: nat)" by auto

lemma backup_entry:
  assumes "t < 3"
  shows "entry_present (USER_BACK1 + of_nat t * FOURKiB OR RW_P_SET)"
    "(USER_BACK1 + of_nat t * FOURKiB OR RW_P_SET) AND 0xFFFFF000 = backup_page t"
  using term_cases [OF assms]
  by (auto simp: backup_page_def FOURKiB_def paging_consts entry_present_def bit_or_iff)

lemma term_page_walk:
  assumes "paging_ok p" "t < 3" "entry_present (user_page_table p t)"
  shows "page_walk p (term_page t) = Some (user_page_table p t AND 0xFFFFF000, entry_user (user_page_table p t))"
proof -
  have "term_page t AND 0xFFF = 0"
    using term_cases [OF assms(2)] by (auto simp: term_page_def FOURKiB_def paging_consts)
  then show ?thesis
    using assms vid_index [OF assms(2)] by (simp add: page_walk_ok term_page_def FOURKiB_def PROCESS_IDX_def Let_def)
qed

lemma video_walk: "paging_ok p \<Longrightarrow> page_walk p VIDEO = Some (VIDEO, False)"
  by (simp add: page_walk_ok) (simp add: pd_index_def pt_index_def paging_consts)

definition screen_pages :: "u32 set" where
  "screen_pages = {0xB8000, 0xB9000, 0xBA000, 0xBB000}"

lemma in_screen_pages:
  "VIDEO \<in> screen_pages" "t < 3 \<Longrightarrow> backup_page t \<in> screen_pages" "t < 3 \<Longrightarrow> screen_page cur t \<in> screen_pages"
  using term_cases [of t] by (auto simp: screen_pages_def screen_page_def backup_page_def paging_consts)

lemma page_off:
  assumes "P \<in> screen_pages" "Q \<in> screen_pages" "i < 4096"
  shows "unat (P + of_nat i - Q) < 4096 \<longleftrightarrow> P = Q"
proof -
  have c: "P + of_nat i - Q = (P - Q) + of_nat i" by simp
  have "unat (P + of_nat i - Q) = (unat (P - Q) + i) mod 4294967296"
    unfolding c unat_word_ariths unat_of_nat by (simp add: mod_add_right_eq)
  then show ?thesis using assms unfolding screen_pages_def by auto
qed

lemma screen_page_inj:
  assumes "t < 3" "u < 3" "t \<noteq> u"
  shows "screen_page cur t \<noteq> screen_page cur u"
  using term_cases [OF assms(1)] term_cases [OF assms(2)] assms(3)
  by (auto simp: screen_page_def backup_page_def paging_consts)

lemma copy_page_apply:
  assumes "page_walk (k_pg k) dest = Some (P, u)" "page_walk (k_pg k) src = Some (Q, v)"
    and "P \<in> screen_pages" "Q \<in> screen_pages" "P \<noteq> Q"
  shows "get_phys (copy_page dest src k) a = (if unat (a - P) < 4096 then get_phys k (Q + (a - P)) else get_phys k a)"
proof -
  have "P \<le> Q \<or> unat Q + unat FOURKiB \<le> unat P" "unat P + unat FOURKiB \<le> 2 ^ 32" "unat Q + unat FOURKiB \<le> 2 ^ 32"
    using assms(3-5) by (auto simp: screen_pages_def FOURKiB_def)
  then show ?thesis
    using memcpy_apply [of P FOURKiB Q "get_phys k" a] assms(1,2) by (simp add: copy_page_def phys_of_def FOURKiB_def)
qed

lemma copy_page_frame [simp]: "k_pg (copy_page d s k) = k_pg k" "k_proc (copy_page d s k) = k_proc k"
  by (simp_all add: copy_page_def)

lemma swap_screens_memory:
  assumes "screens_ok old (k_pg k)" "old < 3" "new < 3" "old \<noteq> new"
  shows "get_phys (swap_screens old new k) a =
    (if unat (a - VIDEO) < 4096 then get_phys k (backup_page new + (a - VIDEO))
     else if unat (a - backup_page old) < 4096 then get_phys k (VIDEO + (a - backup_page old)) else get_phys k a)"
    and "k_pg (swap_screens old new k) = map_virt_to_phys (term_page new) USER_VIDEO_PAGE
      (map_virt_to_phys (term_page old) (USER_BACK1 + of_nat old * FOURKiB) (k_pg k))"
proof -
  define p1 where "p1 = map_virt_to_phys (term_page old) (USER_BACK1 + of_nat old * FOURKiB) (k_pg k)"
  define k1 where "k1 = on_pg (map_virt_to_phys (term_page old) (USER_BACK1 + of_nat old * FOURKiB)) k"
  define k2 where "k2 = copy_page (term_page old) VIDEO k1"
  have idx: "pd_index (term_page t) = 64" "pt_index (term_page t) = t" if "t < 3" for t
    using vid_index [OF that] by (simp_all add: term_page_def FOURKiB_def)
  have ok: "paging_ok p1" using assms(1) idx [OF assms(2)] by (simp add: p1_def screens_ok_def map_video_ok)
  have tab: "user_page_table p1 = (user_page_table (k_pg k))(old := USER_BACK1 + of_nat old * FOURKiB OR RW_P_SET)"
    using idx [OF assms(2)] by (simp add: p1_def map_virt_to_phys_def)
  have new: "entry_present (user_page_table p1 new)" "user_page_table p1 new AND 0xFFFFF000 = backup_page new"
    using assms(1,3,4) by (simp_all add: tab screens_ok_def)
  have pg: "k_pg k1 = p1" "k_pg k2 = p1" by (simp_all add: k1_def k2_def p1_def)
  obtain u v where w: "page_walk p1 (term_page old) = Some (backup_page old, u)" "page_walk p1 (term_page new) = Some (backup_page new, v)"
    using term_page_walk [OF ok assms(2)] term_page_walk [OF ok assms(3) new(1)] new(2) backup_entry [OF assms(2)]
    by (simp add: tab)
  have nv: "backup_page t \<noteq> VIDEO" if "t < 3" for t
    using term_cases [OF that] by (auto simp: backup_page_def paging_consts)
  note pages = in_screen_pages(1) in_screen_pages(2) [OF assms(2)] in_screen_pages(2) [OF assms(3)]
  have m2: "get_phys k2 b = (if unat (b - backup_page old) < 4096 then get_phys k (VIDEO + (b - backup_page old)) else get_phys k b)" for b
    unfolding k2_def using copy_page_apply [of k1 "term_page old" "backup_page old" u VIDEO VIDEO False b] w(1) video_walk [OF ok] pages nv [OF assms(2)]
    by (simp add: pg) (simp add: k1_def)
  have sw: "swap_screens old new k = on_pg (map_virt_to_phys (term_page new) USER_VIDEO_PAGE) (copy_page VIDEO (term_page new) k2)"
    by (simp add: swap_screens_def Let_def k1_def k2_def)
  have other: "\<not> unat (backup_page new + (a - VIDEO) - backup_page old) < 4096" if "unat (a - VIDEO) < 4096"
    using page_off [OF pages(3,2) that] screen_page_inj [OF assms(3,2), of 4] assms(2-4) by (simp add: screen_page_def)
  show "get_phys (swap_screens old new k) a =
    (if unat (a - VIDEO) < 4096 then get_phys k (backup_page new + (a - VIDEO))
     else if unat (a - backup_page old) < 4096 then get_phys k (VIDEO + (a - backup_page old)) else get_phys k a)"
    unfolding sw using copy_page_apply [of k2 VIDEO VIDEO False "term_page new" "backup_page new" v a] w(2) video_walk [OF ok] pages nv [OF assms(3)] other
    by (simp add: pg m2)
  show "k_pg (swap_screens old new k) = map_virt_to_phys (term_page new) USER_VIDEO_PAGE
      (map_virt_to_phys (term_page old) (USER_BACK1 + of_nat old * FOURKiB) (k_pg k))"
    unfolding sw by (simp add: pg p1_def)
qed

text \<open>The exchange keeps the invariant, and every screen: only its page changes.\<close>

lemma swap_screens_ok:
  assumes "screens_ok old (k_pg k)" "old < 3" "new < 3" "old \<noteq> new"
  shows "screens_ok new (k_pg (swap_screens old new k))"
proof -
  have idx: "pd_index (term_page t) = 64" "pt_index (term_page t) = t" if "t < 3" for t
    using vid_index [OF that] by (simp_all add: term_page_def FOURKiB_def)
  show ?thesis
    using assms idx [OF assms(2)] idx [OF assms(3)] backup_entry [OF assms(2)]
    unfolding swap_screens_memory(2) [OF assms] screens_ok_def
    by (auto intro!: map_video_ok) (auto simp: map_virt_to_phys_def)
qed

lemma swap_screens_page:
  assumes "screens_ok old (k_pg k)" "old < 3" "new < 3" "old \<noteq> new" "t < 3" "i < 4096"
  shows "get_phys (swap_screens old new k) (screen_page new t + of_nat i) = get_phys k (screen_page old t + of_nat i)"
proof -
  note pages = in_screen_pages(1) in_screen_pages(2) [OF assms(2)] in_screen_pages(3) [OF assms(5), of new]
  have nv: "backup_page t \<noteq> VIDEO" if "t < 3" for t
    using term_cases [OF that] by (auto simp: backup_page_def paging_consts)
  have inj: "backup_page t = backup_page old \<longleftrightarrow> t = old"
    using term_cases [OF assms(2)] term_cases [OF assms(5)] by (auto simp: backup_page_def paging_consts)
  show ?thesis
    unfolding swap_screens_memory(1) [OF assms(1-4)] page_off [OF pages(3,1) assms(6)] page_off [OF pages(3,2) assms(6)]
    using assms(4) nv [OF assms(5)] inj by (auto simp: screen_page_def)
qed

lemma paging_init_screens:
  assumes "tables_ok p"
  shows "screens_ok 0 (paging_init p)"
proof -
  have "entry_present (user_page_table (paging_init p) t) \<and> user_page_table (paging_init p) t AND 0xFFFFF000 = backup_page t"
    if "t < 3" for t
    using term_cases [OF that]
    by (auto simp: user_table_init backup_page_def entry_present_def paging_consts)
  then show ?thesis using paging_init_ok [OF assms] by (simp add: screens_ok_def)
qed

lemma get_phys_cursor [simp]: "get_phys (on_con update_cursor k) = get_phys k"
  by (simp add: get_phys_def on_con_def update_cursor_def Let_def cong: if_cong)

lemma screens_ok_add_process: "screens_ok t p \<Longrightarrow> i < 8 \<Longrightarrow> screens_ok t (add_process (of_nat i) p)"
  using add_process_ok [of p i] by (simp add: screens_ok_def) (simp add: add_process_def)

lemma swap_screens_proc [simp]: "k_proc (swap_screens old new k) = k_proc k" "cur_term (swap_screens old new k) = cur_term k"
  by (simp_all add: swap_screens_def Let_def cur_term_def)

section \<open>Properties\<close>

text \<open>
  C34. Switching terminals loses no screen: when the new terminal already runs a process,
  \<^verbatim>\<open>terminal_switch\<close> shows that terminal in video memory, keeps the screen of each of the three
  terminals and every byte of memory outside the four screen pages, and keeps the mapping
  of the terminals' pages; it saves the stack registers of the process it leaves and
  resumes the one of the new terminal with the registers saved there.
\<close>

theorem terminal_switch_screens:
  assumes "screens_ok (cur_term k) (k_pg k)" "cur_term k < 3" "unat n < 3" "unat n \<noteq> cur_term k"
    and "current_process (k_proc k) (unat n) = int i" "i < 8"
    and "process_array (k_proc k) (int i) \<noteq> cur_ptr (k_proc k)"
  defines "b \<equiv> pcbs (k_proc k) (process_array (k_proc k) (int i))"
  shows "\<exists>k'. terminal_switch n k = Some (Resume_switch (return_esp b) (return_ebp b), k') \<and>
    cur_term k' = unat n \<and> screens_ok (unat n) (k_pg k') \<and> (\<forall>t<3. screen_of k' t = screen_of k t) \<and>
    (\<forall>a. (\<forall>P\<in>screen_pages. \<not> unat (a - P) < 4096) \<longrightarrow> get_phys k' a = get_phys k a) \<and>
    return_esp (pcbs (k_proc k') (cur_ptr (k_proc k))) = reg_esp k \<and>
    return_ebp (pcbs (k_proc k') (cur_ptr (k_proc k))) = reg_ebp k"
proof -
  let ?old = "cur_term k" and ?new = "unat n"
  define q where "q = (set_cur_pcb ((cur_pcb (k_proc k))\<lparr>return_esp := reg_esp k, return_ebp := reg_ebp k\<rparr>) (k_proc k))
    \<lparr>old_terminal := ?old, curr_terminal := ?new\<rparr>"
  define k1 where "k1 = k\<lparr>k_proc := q\<rparr>"
  define k2 where "k2 = on_con update_cursor (swap_screens ?old ?new k1)"
  note sw = assms(1-3) assms(4) [symmetric]
  have k1: "k_pg k1 = k_pg k" "get_phys k1 = get_phys k" by (simp_all add: k1_def)
  have q: "current_process q ?new = int i" "process_array q = process_array (k_proc k)" "cur_ptr q = process_array (k_proc k) (int i)"
    "pcbs q = (pcbs (k_proc k))(cur_ptr (k_proc k) := (cur_pcb (k_proc k))\<lparr>return_esp := reg_esp k, return_ebp := reg_ebp k\<rparr>)"
    "curr_terminal q = ?new"
    using assms(5) by (simp_all add: q_def cur_ptr_def)
  have k2: "k_proc k2 = q" "cur_term k2 = ?new" "get_phys k2 = get_phys (swap_screens ?old ?new k1)"
    "k_pg k2 = k_pg (swap_screens ?old ?new k1)"
    by (simp_all add: k2_def k1_def cur_term_def q_def)
  obtain k' where res: "resume_terminal k2 = (Resume_switch (return_esp (cur_pcb q)) (return_ebp (cur_pcb q)), k')"
    and k': "k_proc k' = q" "get_phys k' = get_phys k2" "k_pg k' = add_process (of_nat i) (k_pg k2)" "cur_term k' = ?new"
    using k2 q by (simp add: resume_terminal_def Let_def cur_term_def)
  have "terminal_switch n k = Some (resume_terminal k2)"
    using assms(2-4) q by (simp add: terminal_switch_def Let_def on_proc_def k2_def k1_def q_def con_consts)
  moreover have "cur_pcb q = b" using assms(7) by (simp add: cur_pcb_def q b_def)
  moreover have "screens_ok ?new (k_pg k')"
    using screens_ok_add_process [OF swap_screens_ok [of ?old k1 ?new] assms(6)] sw k1 k' k2 by simp
  moreover have "screen_of k' t = screen_of k t" if "t < 3" for t
    using swap_screens_page [of ?old k1 ?new t] sw k1 k' k2 that by (simp add: screen_of_def)
  moreover have "get_phys k' a = get_phys k a" if "\<forall>P\<in>screen_pages. \<not> unat (a - P) < 4096" for a
    using swap_screens_memory(1) [of ?old k1 ?new a] sw k1 k' k2 that in_screen_pages by simp
  ultimately show ?thesis using res k' q by auto
qed

definition demo_terminals :: kernel where
  "demo_terminals = demo_kernel\<lparr>k_proc := boot_procs\<lparr>current_process := (\<lambda>t. if t = 0 then 0 else if t = 1 then 1 else -1),
     process_array := (\<lambda>i. if i = 0 then 0x7FE000 else 0x7FC000)\<rparr>\<rparr>"

theorem terminal_switch_screens_witness:
  "\<exists>k'. terminal_switch 1 demo_terminals = Some (Resume_switch 0 0, k') \<and> cur_term k' = 1 \<and>
    screen_of k' 0 = screen_of demo_terminals 0"
proof -
  have "cur_term demo_terminals = 0" "k_pg demo_terminals = paging_init demo_paging"
    "current_process (k_proc demo_terminals) 1 = 1" "process_array (k_proc demo_terminals) 1 = 0x7FC000"
    "cur_ptr (k_proc demo_terminals) = 0x7FE000" "pcbs (k_proc demo_terminals) = (\<lambda>_. boot_pcb)"
    "return_esp boot_pcb = 0" "return_ebp boot_pcb = 0"
    by (simp_all add: demo_terminals_def demo_kernel_def boot_procs_def cur_term_def cur_ptr_def boot_pcb_def)
  then show ?thesis
    using terminal_switch_screens [of demo_terminals 1 1] paging_init_screens [OF demo_paging_ok] by auto
qed

end
