(* ===== verification/Tty.thy ===== *)
theory Tty
  imports Terminal
begin

text \<open>
  Interrupts and blocking reads: the keyboard interrupt handler of \<^verbatim>\<open>keyboard.c\<close> with all its
  key bindings, the clock and timer interrupts, and the two reads that spin until an
  interrupt sets their flag (\<^verbatim>\<open>keyboard_read\<close>, \<^verbatim>\<open>rtc_read\<close>). The interrupts that arrive while a
  read waits are an explicit list; a read that is still waiting at its end is \<open>None\<close>.
\<close>

section \<open>The keyboard interrupt\<close>

definition KBD_IRQ :: u32 where "KBD_IRQ = 1"
definition ABC_LOW_SCANS :: u8 where "ABC_LOW_SCANS = 0x02"
definition ABC_HIGH_SCANS :: u8 where "ABC_HIGH_SCANS = 0x58"
definition L_SHIFT_MAKE :: u8 where "L_SHIFT_MAKE = 0x2A"
definition L_SHIFT_BREAK :: u8 where "L_SHIFT_BREAK = 0xAA"
definition R_SHIFT_MAKE :: u8 where "R_SHIFT_MAKE = 0x36"
definition R_SHIFT_BREAK :: u8 where "R_SHIFT_BREAK = 0xB6"
definition CTRL_MAKE :: u8 where "CTRL_MAKE = 0x1D"
definition CTRL_BREAK :: u8 where "CTRL_BREAK = 0x9D"
definition L_MAKE :: u8 where "L_MAKE = 0x26"
definition CAPS :: u8 where "CAPS = 0x3A"
definition BKSP :: u8 where "BKSP = 0x0E"
definition ENTER :: u8 where "ENTER = 0x1C"
definition ALT :: u8 where "ALT = 0x38"
definition FOUR_SCAN :: u8 where "FOUR_SCAN = 0x05"
definition THREE_SCAN :: u8 where "THREE_SCAN = 0x04"
definition ONE_SCAN :: u8 where "ONE_SCAN = 0x02"
definition fn1 :: u8 where "fn1 = 0x3B"
definition fn2 :: u8 where "fn2 = 0x3C"
definition fn3 :: u8 where "fn3 = 0x3D"

lemmas scan_codes = ABC_LOW_SCANS_def ABC_HIGH_SCANS_def L_SHIFT_MAKE_def L_SHIFT_BREAK_def R_SHIFT_MAKE_def
  R_SHIFT_BREAK_def CTRL_MAKE_def CTRL_BREAK_def L_MAKE_def CAPS_def BKSP_def ENTER_def ALT_def FOUR_SCAN_def
  THREE_SCAN_def ONE_SCAN_def fn1_def fn2_def fn3_def

definition keyboard_init :: "(handler \<Rightarrow> u32) \<Rightarrow> kernel \<Rightarrow> kernel" where
  "keyboard_init addr k =
     k\<lparr>k_idt := install_gate KBD_VECTOR_NUM (addr Keyboard_wrapper) (k_idt k),
       k_kbd := clear_buffers (k_kbd k) 0 MAX_TERMINAL,
       k_pic := enable_irq KBD_IRQ (k_pic k)\<rparr>"

definition keep :: "kernel \<Rightarrow> (control \<times> kernel) option" where
  "keep k = Some (Return 0, k)"

text \<open>Control and L: the screen again, with the prompt and the line typed so far.\<close>

definition redraw_line :: "kernel \<Rightarrow> kernel" where
  "redraw_line k =
     (let k = say ''391OS> '' (on_con clear k);
          b = buffer (k_kbd k) (cur_term k)
      in write_loop b 0 (scan (\<lambda>i. b i \<noteq> NUL) 0 BUFFER_SIZE) k)"

text \<open>
  Control and 3: the next file of the directory. The remainder by zero of an empty
  directory raises the divide error.
\<close>

definition show_next_file :: "kernel \<Rightarrow> (control \<times> kernel) option" where
  "show_next_file k =
     Option.bind (test_file_data (of_int (CTR3 (k_kbd k))) (on_con clear k))
       (\<lambda>k. let n = get_num_entries (k_fs k); c = (of_int (CTR3 (k_kbd k) + 1) :: u32)
            in if n = 0 then exception_handler 0 0 (on_kbd (\<lambda>t. CTR3_update (\<lambda>_. sint c)) k)
               else keep (on_kbd (\<lambda>t. CTR3_update (\<lambda>_. sint (c mod n))) k))"

text \<open>Control and 4: the next clock frequency.\<close>

definition show_next_freq :: "kernel \<Rightarrow> (control \<times> kernel) option" where
  "show_next_freq k =
     (let k = on_con clear k
      in if CTR4 (k_kbd k) = int (unat MAX_RATE) - 2
         then Option.bind (print_freq (of_nat NUM_FREQ) (on_kbd (\<lambda>t. CTR4_update (\<lambda>_. int NUM_FREQ)) k)) keep
         else Option.bind (print_freq (of_int (CTR4 (k_kbd k))) k)
                (\<lambda>k. keep (on_kbd (\<lambda>t. CTR4_update (\<lambda>c. c - 1)) k)))"

definition process_key :: "u8 \<Rightarrow> kernel \<Rightarrow> (control \<times> kernel) option" where
  "process_key key k =
     (let ctrl = ctrl_flag (k_kbd k) \<noteq> 0; alt = alt_flag (k_kbd k) \<noteq> 0; t = cur_term k
      in if key \<ge> ABC_LOW_SCANS \<and> key \<le> ABC_HIGH_SCANS
         then if key = L_MAKE \<and> ctrl then keep (redraw_line k)
              else if key = fn1 \<and> alt then terminal_switch 0 k
              else if key = fn2 \<and> alt then terminal_switch 1 k
              else if key = fn3 \<and> alt then terminal_switch 2 k
              else if key = THREE_SCAN \<and> ctrl then show_next_file k
              else if key = FOUR_SCAN \<and> ctrl then show_next_freq k
              else if key = ONE_SCAN \<and> ctrl then Option.bind (print_file_info (on_con clear k)) keep
              else if buffer_index (k_kbd k) t + 1 < int BUFFER_SIZE
              then let c = kbd_ascii_key_map (caps_shift_flag (k_kbd k) t) key
                   in keep (on_kbd (store_key c) (on_con (putc c) k))
              else keep k
         else keep k)"

definition handle_backspace :: "kernel \<Rightarrow> kernel" where
  "handle_backspace k =
     (if buffer_index (k_kbd k) (cur_term k) - 1 \<ge> 0 then on_kbd drop_key (on_con backspace k) else k)"

text \<open>The line buffer is passed by its address, which is not null.\<close>

definition handle_enter :: "kernel \<Rightarrow> kernel" where
  "handle_enter k =
     (let k = on_kbd (\<lambda>t. kbdr_flag_update (\<lambda>_. 1)) k;
          k = on_con scroll k;
          k = on_kbd (\<lambda>t b. snd (terminal_read 1 4 (buffer b t) (of_int (buffer_index b t)) t b)) k
      in on_kbd clear_buffer k)"

definition keyboard_handler :: "u8 \<Rightarrow> kernel \<Rightarrow> (control \<times> kernel) option" where
  "keyboard_handler key k =
     (let k = k\<lparr>k_pic := send_eoi KBD_IRQ (k_pic k)\<rparr>
      in if key = CAPS then keep (on_kbd toggle_caps k)
         else if key = L_SHIFT_MAKE \<or> key = R_SHIFT_MAKE then keep (on_kbd (toggle_shift True) k)
         else if key = L_SHIFT_BREAK \<or> key = R_SHIFT_BREAK then keep (on_kbd (toggle_shift False) k)
         else if key = CTRL_MAKE then keep (on_kbd (\<lambda>t. toggle_ctrl True) k)
         else if key = CTRL_BREAK then keep (on_kbd (\<lambda>t. toggle_ctrl False) k)
         else if key = BKSP then keep (handle_backspace k)
         else if key = ENTER then keep (handle_enter k)
         else if key = ALT then keep (on_kbd (\<lambda>t. toggle_alt True) k)
         else process_key key k)"

section \<open>Interrupts and waiting\<close>

datatype irq = Key u8 | Clock | Tick

definition interrupt :: "irq \<Rightarrow> kernel \<Rightarrow> (control \<times> kernel) option" where
  "interrupt e k =
     (case e of
        Key s \<Rightarrow> keyboard_handler s k
      | Clock \<Rightarrow> let (r, s) = rtc_handler (k_rtc k) (k_pic k) in keep (k\<lparr>k_rtc := r, k_pic := s\<rparr>)
      | Tick \<Rightarrow> keep (k\<lparr>k_pic := pit_handler (k_pic k)\<rparr>))"

text \<open>
  A spinning loop: while its condition fails, the next interrupt is served; when a handler
  does not return, the loop is suspended and the rest of the list goes to what runs next.
\<close>

fun spin :: "(kernel \<Rightarrow> bool) \<Rightarrow> irq list \<Rightarrow> kernel \<Rightarrow> (control \<times> irq list \<times> kernel) option" where
  "spin ready [] k = (if ready k then Some (Return 0, [], k) else None)"
| "spin ready (e # es) k =
     (if ready k then Some (Return 0, e # es, k)
      else Option.bind (interrupt e k)
             (\<lambda>(c, k). case c of Return r \<Rightarrow> spin ready es k | _ \<Rightarrow> Some (c, es, k)))"

definition keyboard_read ::
    "s32 \<Rightarrow> u32 \<Rightarrow> bytes \<Rightarrow> s32 \<Rightarrow> irq list \<Rightarrow> kernel \<Rightarrow> (control \<times> bytes \<times> irq list \<times> kernel) option" where
  "keyboard_read fd ptr buf nbytes es k =
     (let k = on_kbd (\<lambda>t. kbdr_flag_update (\<lambda>_. 0)) k
      in if ptr = 0 then Some (Return FAIL, buf, es, k)
         else Option.bind (spin (\<lambda>k. kbdr_flag (k_kbd k) = 1) es k)
                (\<lambda>(c, es, k). case c of
                   Return r \<Rightarrow> let (count, buf) = finish_read buf nbytes (cur_term k) (k_kbd k)
                               in Some (Return (of_nat count), buf, es, k)
                 | _ \<Rightarrow> Some (c, buf, es, k)))"

definition rtc_read :: "s32 \<Rightarrow> irq list \<Rightarrow> kernel \<Rightarrow> (control \<times> irq list \<times> kernel) option" where
  "rtc_read fd es k = spin (\<lambda>k. interrupt_flag (k_rtc k) \<noteq> 0) es (on_rtc (\<lambda>r. r\<lparr>interrupt_flag := 0\<rparr>) k)"

section \<open>The line editor, abstractly\<close>

text \<open>The keys of the editor, while neither Control nor Alt is down: all but those two and Enter.\<close>

definition edit_key :: "u8 \<Rightarrow> bool" where
  "edit_key key \<longleftrightarrow> key \<noteq> CTRL_MAKE \<and> key \<noteq> ALT \<and> key \<noteq> ENTER"

text \<open>What a key does to the mode and the line of the terminal on display.\<close>

definition edit :: "u8 \<Rightarrow> int \<times> u8 list \<Rightarrow> int \<times> u8 list" where
  "edit key = (\<lambda>(m, xs).
     if key = CAPS then (if m = 0 then 2 else if m = 1 then 3 else if m = 2 then 0 else 1, xs)
     else if key = L_SHIFT_MAKE \<or> key = R_SHIFT_MAKE then (if m = 0 then 1 else if m = 2 then 3 else m, xs)
     else if key = L_SHIFT_BREAK \<or> key = R_SHIFT_BREAK then (if m = 1 then 0 else if m = 3 then 2 else m, xs)
     else if key = BKSP then (m, butlast xs)
     else if 2 \<le> key \<and> key \<le> 0x58 \<and> length xs < 127 then (m, xs @ [kbd_ascii_key_map m key]) else (m, xs))"

definition line_state :: "kernel \<Rightarrow> int \<times> u8 list" where
  "line_state k = (caps_shift_flag (k_kbd k) (cur_term k), typed (cur_term k) (k_kbd k))"

definition tty_ok :: "kernel \<Rightarrow> bool" where
  "tty_ok k \<longleftrightarrow> keyboard_ok (k_kbd k) \<and> screen_ok (k_con k) \<and> cur_term k < MAX_TERMINAL \<and>
     ctrl_flag (k_kbd k) = 0 \<and> alt_flag (k_kbd k) = 0"

text \<open>What no key of the editor touches.\<close>

definition beyond_tty :: "kernel \<Rightarrow> procs \<times> paging \<times> filesystem \<times> rtc \<times> int" where
  "beyond_tty k = (k_proc k, k_pg k, k_fs k, k_rtc k, kbdr_flag (k_kbd k))"

lemma pic_frame [simp]:
  "cur_term (k\<lparr>k_pic := s\<rparr>) = cur_term k" "cur_term (k\<lparr>k_rtc := r\<rparr>) = cur_term k"
  by (simp_all add: cur_term_def)

lemma kbd_frames [simp]:
  "ctrl_flag (toggle_caps t b) = ctrl_flag b" "alt_flag (toggle_caps t b) = alt_flag b" "kbdr_flag (toggle_caps t b) = kbdr_flag b"
  "ctrl_flag (toggle_shift m t b) = ctrl_flag b" "alt_flag (toggle_shift m t b) = alt_flag b" "kbdr_flag (toggle_shift m t b) = kbdr_flag b"
  "ctrl_flag (store_key c t b) = ctrl_flag b" "alt_flag (store_key c t b) = alt_flag b" "kbdr_flag (store_key c t b) = kbdr_flag b"
  "ctrl_flag (drop_key t b) = ctrl_flag b" "alt_flag (drop_key t b) = alt_flag b" "kbdr_flag (drop_key t b) = kbdr_flag b"
  "ctrl_flag (clear_buffer t b) = ctrl_flag b" "alt_flag (clear_buffer t b) = alt_flag b" "kbdr_flag (clear_buffer t b) = kbdr_flag b"
  "ctrl_flag (snd (terminal_read fd p c' n t b)) = ctrl_flag b" "alt_flag (snd (terminal_read fd p c' n t b)) = alt_flag b"
  "kbdr_flag (snd (terminal_read fd p c' n t b)) = kbdr_flag b"
  "caps_shift_flag (store_key c t b) = caps_shift_flag b" "caps_shift_flag (drop_key t b) = caps_shift_flag b"
  by (simp_all add: toggle_caps_def toggle_shift_def store_key_def drop_key_def clear_buffer_def terminal_read_def Let_def)

lemma typed_toggles [simp]:
  "typed t (toggle_caps u b) = typed t b" "typed t (toggle_shift m u b) = typed t b" "typed t (toggle_ctrl m b) = typed t b"
  by (simp_all add: typed_def toggle_caps_def toggle_shift_def toggle_ctrl_def Let_def)

lemma typed_length: "keyboard_ok b \<Longrightarrow> t < MAX_TERMINAL \<Longrightarrow> int (length (typed t b)) = buffer_index b t"
  by (simp add: typed_def keyboard_ok_def)

text \<open>One key of the editor.\<close>

lemma edit_step:
  assumes "tty_ok k" "edit_key key"
  shows "\<exists>k'. keyboard_handler key k = Some (Return 0, k') \<and> tty_ok k' \<and> line_state k' = edit key (line_state k) \<and>
    beyond_tty k' = beyond_tty k"
proof -
  let ?t = "cur_term k" and ?b = "k_kbd k"
  note ok = assms(1) [unfolded tty_ok_def]
  have len: "int (length (typed ?t ?b)) = buffer_index ?b ?t" using ok by (simp add: typed_length)
  have idx: "0 \<le> buffer_index ?b ?t" using ok by (simp add: keyboard_ok_def)
  have emp: "typed ?t ?b = [] \<longleftrightarrow> \<not> buffer_index ?b ?t - 1 \<ge> 0" using len by (cases "typed ?t ?b") auto
  have full: "length (typed ?t ?b) < 127 \<longleftrightarrow> buffer_index ?b ?t + 1 < int BUFFER_SIZE"
    using len by (auto simp: kbd_consts)
  let ?a = "\<lambda>k'. tty_ok k' \<and> line_state k' = edit key (line_state k) \<and> beyond_tty k' = beyond_tty k"
  define k0 where "k0 = k\<lparr>k_pic := send_eoi KBD_IRQ (k_pic k)\<rparr>"
  have k0: "cur_term k0 = ?t" "k_kbd k0 = ?b" "k_con k0 = k_con k" "k_proc k0 = k_proc k" "k_pg k0 = k_pg k" "k_fs k0 = k_fs k" "k_rtc k0 = k_rtc k"
    by (simp_all add: k0_def)
  note defs = keyboard_handler_def Let_def keep_def k0_def [symmetric] tty_ok_def line_state_def beyond_tty_def edit_def k0
  consider (caps) "key = CAPS" | (down) "key = L_SHIFT_MAKE \<or> key = R_SHIFT_MAKE" | (up) "key = L_SHIFT_BREAK \<or> key = R_SHIFT_BREAK"
    | (ctrl) "key = CTRL_BREAK" | (bksp) "key = BKSP"
    | (char) "key \<notin> {CAPS, L_SHIFT_MAKE, R_SHIFT_MAKE, L_SHIFT_BREAK, R_SHIFT_BREAK, CTRL_BREAK, BKSP}"
    by blast
  then show ?thesis
  proof cases
    case caps
    then show ?thesis using ok toggles_ok(1) [of ?b ?t] by (simp add: defs) (simp add: toggle_caps_def Let_def kbd_consts)
  next
    case down
    then show ?thesis using ok toggles_ok(2) [of ?b True ?t]
      by (elim disjE) (simp_all add: defs scan_codes, simp_all add: toggle_shift_def Let_def kbd_consts)
  next
    case up
    then show ?thesis using ok toggles_ok(2) [of ?b False ?t]
      by (elim disjE) (simp_all add: defs scan_codes, simp_all add: toggle_shift_def Let_def kbd_consts)
  next
    case ctrl
    then show ?thesis using ok toggles_ok(3) [of ?b False]
      by (simp add: defs scan_codes) (simp add: toggle_ctrl_def)
  next
    case bksp
    then show ?thesis
      using ok drop_key_ok [of ?b ?t] backspace_ok [of "k_con k" ?t] typed_drop [of ?b ?t] emp
      by (cases "buffer_index ?b ?t - 1 \<ge> 0") (auto simp: defs scan_codes handle_backspace_def)
  next
    case char
    have h: "keyboard_handler key k = process_key key k0"
      using char assms(2) by (simp add: keyboard_handler_def Let_def k0_def edit_key_def)
    show ?thesis
      unfolding h
      using char ok store_key_ok [of ?b ?t] putc_ok [of "k_con k" ?t] typed_store [of ?b ?t] idx full
      by (auto simp: process_key_def defs) (auto simp: scan_codes)
  qed
qed

text \<open>Enter: the line goes to the saved line, and the reader's flag is set.\<close>

lemma enter_step:
  assumes "tty_ok k"
  defines "t \<equiv> cur_term k"
  shows "\<exists>k'. keyboard_handler ENTER k = Some (Return 0, k') \<and> tty_ok k' \<and> kbdr_flag (k_kbd k') = 1 \<and> cur_term k' = t \<and>
    save_buff (k_kbd k') t = save_buff (snd (terminal_read 1 4 (buffer (k_kbd k) t) (of_int (buffer_index (k_kbd k) t)) t (k_kbd k))) t \<and>
    k_proc k' = k_proc k \<and> line_state k' = (fst (line_state k), []) \<and> k_rtc k' = k_rtc k \<and> k_fs k' = k_fs k"
proof -
  note ok = assms(1) [unfolded tty_ok_def]
  have f: "keyboard_ok (b\<lparr>kbdr_flag := 1\<rparr>) = keyboard_ok b" for b by (simp add: keyboard_ok_def)
  have c: "save_buff (clear_buffer u b) = save_buff b" "caps_shift_flag (clear_buffer u b) = caps_shift_flag b" for u b
    by (simp_all add: clear_buffer_def)
  have r: "save_buff (snd (terminal_read fd p c' n u (b\<lparr>kbdr_flag := 1\<rparr>))) = save_buff (snd (terminal_read fd p c' n u b))"
    "caps_shift_flag (snd (terminal_read fd p c' n u b)) = caps_shift_flag b" for fd p c' n u b
    by (simp_all add: terminal_read_def Let_def)
  show ?thesis
    using ok clear_buffer_ok [OF terminal_read_ok] scroll_ok [of "k_con k" t]
    by (simp add: keyboard_handler_def handle_enter_def Let_def keep_def scan_codes tty_ok_def t_def f c r line_state_def typed_clear)
qed

section \<open>Waiting for an interrupt\<close>

text \<open>
  What a spinning read relies on: the interrupts it calls harmless return, keep the invariant
  and do not end the wait.
\<close>

locale waiter =
  fixes ok :: "kernel \<Rightarrow> bool" and ready :: "kernel \<Rightarrow> bool" and harmless :: "irq \<Rightarrow> bool"
    and state :: "kernel \<Rightarrow> 'v" and effect :: "irq \<Rightarrow> 'v \<Rightarrow> 'v"
  assumes step: "ok k \<Longrightarrow> harmless e \<Longrightarrow> \<not> ready k \<Longrightarrow>
    \<exists>k'. interrupt e k = Some (Return 0, k') \<and> ok k' \<and> \<not> ready k' \<and> state k' = effect e (state k)"
begin

lemma keeps_waiting:
  assumes "ok k" "\<not> ready k" "list_all harmless es"
  shows "\<exists>k'. spin ready (es @ rest) k = spin ready rest k' \<and> ok k' \<and> \<not> ready k' \<and> state k' = fold effect es (state k)"
  using assms
proof (induction es arbitrary: k)
  case (Cons e es)
  obtain k1 where k1: "interrupt e k = Some (Return 0, k1)" "ok k1" "\<not> ready k1" "state k1 = effect e (state k)"
    using step [of k e] Cons.prems by auto
  then show ?case using Cons.IH [of k1] Cons.prems by simp
qed auto

lemma never_ready: "ok k \<Longrightarrow> \<not> ready k \<Longrightarrow> list_all harmless es \<Longrightarrow> spin ready es k = None"
  using keeps_waiting [of k es "[]"] by auto

end

definition typing :: "irq \<Rightarrow> bool" where
  "typing e = (case e of Key s \<Rightarrow> edit_key s | _ \<Rightarrow> True)"

definition edit_irq :: "irq \<Rightarrow> int \<times> u8 list \<Rightarrow> int \<times> u8 list" where
  "edit_irq e = (case e of Key s \<Rightarrow> edit s | _ \<Rightarrow> id)"

definition not_clock :: "irq \<Rightarrow> bool" where
  "not_clock e = (case e of Key s \<Rightarrow> s \<noteq> CTRL_MAKE \<and> s \<noteq> ALT | Clock \<Rightarrow> False | Tick \<Rightarrow> True)"

lemma rtc_handler_flag: "interrupt_flag (fst (rtc_handler r s)) = 1"
  by (simp add: rtc_handler_def Let_def case_prod_beta read_cmos_def select_reg_def)

lemma clock_step:
  "tty_ok k \<Longrightarrow> \<exists>k'. interrupt Clock k = Some (Return 0, k') \<and> tty_ok k' \<and> line_state k' = line_state k \<and>
    k_kbd k' = k_kbd k \<and> k_proc k' = k_proc k \<and> k_fs k' = k_fs k \<and> interrupt_flag (k_rtc k') = 1"
  by (simp add: interrupt_def case_prod_beta keep_def tty_ok_def line_state_def rtc_handler_flag)

lemma tick_step:
  "tty_ok k \<Longrightarrow> \<exists>k'. interrupt Tick k = Some (Return 0, k') \<and> tty_ok k' \<and> line_state k' = line_state k \<and>
    k_kbd k' = k_kbd k \<and> k_proc k' = k_proc k \<and> k_fs k' = k_fs k \<and> k_rtc k' = k_rtc k"
  by (simp add: interrupt_def keep_def tty_ok_def line_state_def)

lemma typing_step:
  assumes "tty_ok k" "typing e"
  shows "\<exists>k'. interrupt e k = Some (Return 0, k') \<and> tty_ok k' \<and> line_state k' = edit_irq e (line_state k) \<and>
    k_proc k' = k_proc k \<and> k_fs k' = k_fs k \<and> kbdr_flag (k_kbd k') = kbdr_flag (k_kbd k)"
proof (cases e)
  case (Key s)
  then show ?thesis using edit_step [of k s] assms by (auto simp: typing_def edit_irq_def interrupt_def beyond_tty_def)
next
  case Clock
  then show ?thesis using clock_step [OF assms(1)] by (auto simp: edit_irq_def)
next
  case Tick
  then show ?thesis using tick_step [OF assms(1)] by (auto simp: edit_irq_def)
qed

interpretation line_wait: waiter tty_ok "\<lambda>k. kbdr_flag (k_kbd k) = 1" typing "\<lambda>k. (line_state k, k_proc k, k_fs k)"
  "\<lambda>e. map_prod (edit_irq e) id"
  by unfold_locales (use typing_step in fastforce)

lemma not_clock_step:
  assumes "tty_ok k" "not_clock e"
  shows "\<exists>k'. interrupt e k = Some (Return 0, k') \<and> tty_ok k' \<and> k_proc k' = k_proc k \<and> k_rtc k' = k_rtc k"
proof (cases e)
  case (Key s)
  then show ?thesis
    using edit_step [of k s] enter_step [of k] assms
    by (cases "s = ENTER") (auto simp: not_clock_def edit_key_def interrupt_def beyond_tty_def)
next
  case Tick
  then show ?thesis using tick_step [OF assms(1)] by auto
qed (use assms in \<open>simp add: not_clock_def\<close>)

interpretation clock_wait: waiter tty_ok "\<lambda>k. interrupt_flag (k_rtc k) \<noteq> 0" not_clock k_proc "\<lambda>e. id"
  by unfold_locales (use not_clock_step in fastforce)

text \<open>A blocking read of a line.\<close>

lemma read_line:
  assumes "tty_ok k" "ptr \<noteq> 0" "list_all typing es" "int (length (snd (fold edit_irq es (line_state k)))) < sint nbytes"
  defines "xs \<equiv> snd (fold edit_irq es (line_state k))"
  shows "\<exists>buf' k'. keyboard_read fd ptr buf nbytes (es @ Key ENTER # rest) k =
      Some (Return (of_nat (length (line_result xs))), buf', rest, k') \<and>
    run_of buf' 0 (length (line_result xs)) = line_result xs \<and>
    tty_ok k' \<and> line_state k' = (fst (fold edit_irq es (line_state k)), []) \<and> k_proc k' = k_proc k \<and> k_fs k' = k_fs k"
proof -
  let ?ready = "\<lambda>k. kbdr_flag (k_kbd k) = 1"
  define k0 where "k0 = on_kbd (\<lambda>t. kbdr_flag_update (\<lambda>_. 0)) k"
  have k0: "tty_ok k0" "line_state k0 = line_state k" "k_proc k0 = k_proc k" "k_fs k0 = k_fs k" "\<not> ?ready k0"
    using assms(1) by (simp_all add: k0_def tty_ok_def line_state_def keyboard_ok_def typed_def)
  have fold: "fold (\<lambda>e. map_prod (edit_irq e) id) es (s, p) = (fold edit_irq es s, p)" for s and p :: "procs \<times> filesystem"
    by (induction es arbitrary: s) auto
  obtain k1 where k1: "spin ?ready (es @ Key ENTER # rest) k0 = spin ?ready (Key ENTER # rest) k1" "tty_ok k1" "\<not> ?ready k1"
    "line_state k1 = fold edit_irq es (line_state k)" "k_proc k1 = k_proc k" "k_fs k1 = k_fs k"
    using line_wait.keeps_waiting [OF k0(1,5) assms(3), of "Key ENTER # rest"] k0 by (auto simp: fold)
  let ?t = "cur_term k1"
  have xs: "xs = typed ?t (k_kbd k1)" unfolding xs_def k1(4) [symmetric] by (simp add: line_state_def)
  obtain k2 where k2: "keyboard_handler ENTER k1 = Some (Return 0, k2)" "tty_ok k2" "?ready k2" "cur_term k2 = ?t"
    "save_buff (k_kbd k2) ?t = save_buff (snd (terminal_read 1 4 (buffer (k_kbd k1) ?t) (of_int (buffer_index (k_kbd k1) ?t)) ?t (k_kbd k1))) ?t"
    "k_proc k2 = k_proc k1" "line_state k2 = (fst (line_state k1), [])" "k_fs k2 = k_fs k1"
    using enter_step [OF k1(2)] by auto
  have "spin ?ready (Key ENTER # rest) k1 = Some (Return 0, rest, k2)"
    using k1(3) k2(1,3) by (cases rest) (auto simp: interrupt_def)
  then have rd: "keyboard_read fd ptr buf nbytes (es @ Key ENTER # rest) k =
      (let (count, buf') = finish_read buf nbytes ?t (k_kbd k2) in Some (Return (of_nat count), buf', rest, k2))"
    using assms(2) k1(1) k2(4) by (simp add: keyboard_read_def k0_def Let_def)
  have same: "finish_read buf nbytes ?t (k_kbd k2) = finish_read buf nbytes ?t b" if "save_buff (k_kbd k2) ?t = save_buff b ?t" for b
    using that by (simp add: finish_read_def terminal_retrieve_def)
  have kok: "keyboard_ok (k_kbd k1)" "?t < MAX_TERMINAL" using k1(2) by (simp_all add: tty_ok_def)
  have "fst (finish_read buf nbytes ?t (k_kbd k2)) = length (line_result xs)"
    "run_of (snd (finish_read buf nbytes ?t (k_kbd k2))) 0 (length (line_result xs)) = line_result xs"
    using finish_read_line [OF kok _ _ refl, of 4 nbytes buf 1] assms(4) same [OF k2(5)] xs by (auto simp: xs_def [symmetric])
  then show ?thesis using rd k2 k1(4-6) by (auto simp: case_prod_beta)
qed

section \<open>Properties\<close>

text \<open>
  C36. The keyboard handler implements a line editor: while neither Control nor Alt is down,
  every key but Enter returns, keeps the buffers and the screen well formed, and changes the
  mode and the line of the terminal on display exactly as the abstract editor does: caps
  lock and shift change the mode, backspace drops the last character, a key of the table
  appends its character unless the line has 127, and every other code does nothing.
\<close>

theorem keyboard_edits_line:
  assumes "tty_ok k" "edit_key key"
  shows "\<exists>k'. keyboard_handler key k = Some (Return 0, k') \<and> tty_ok k' \<and> line_state k' = edit key (line_state k) \<and>
    beyond_tty k' = beyond_tty k"
  using edit_step [OF assms] .

lemma demo_tty: "tty_ok demo_kernel" "line_state demo_kernel = (0, [])" "cur_term demo_kernel = 0"
  by (simp_all add: tty_ok_def line_state_def demo_kernel_def demo_keyboard_def keyboard_ok_def blank_console_ok cur_term_def
      fops_table_init_def boot_procs_def con_consts kbd_consts typed_def)

theorem keyboard_edits_line_witness:
  "\<exists>k'. keyboard_handler 0x1E demo_kernel = Some (Return 0, k') \<and> line_state k' = (0, [97])"
proof -
  have "edit_key 0x1E" "edit 0x1E (0, []) = (0, [97])"
    by (simp_all add: edit_key_def edit_def scan_codes kbd_ascii_key_map_def keys_none_def kbd_consts)
  then show ?thesis using keyboard_edits_line [OF demo_tty(1), of "0x1E"] demo_tty(2) by auto
qed



text \<open>
  \<^verbatim>\<open>rtc_read\<close> waits for the clock: whatever keys (but Control and Alt) and timer interrupts
  come first, it does not return before the next clock interrupt, and it returns 0 right
  after that one, without taking a later interrupt.
\<close>

theorem rtc_read_waits:
  assumes "tty_ok k" "list_all not_clock es"
  shows "rtc_read fd es k = None \<and>
    (\<exists>k'. rtc_read fd (es @ Clock # rest) k = Some (Return 0, rest, k') \<and> tty_ok k' \<and> k_proc k' = k_proc k)"
proof -
  let ?ready = "\<lambda>k. interrupt_flag (k_rtc k) \<noteq> 0"
  define k0 where "k0 = on_rtc (\<lambda>r. r\<lparr>interrupt_flag := 0\<rparr>) k"
  have k0: "tty_ok k0" "\<not> ?ready k0" "k_proc k0 = k_proc k"
    using assms(1) by (simp_all add: k0_def on_rtc_def tty_ok_def)
  have fold: "fold (\<lambda>e. id) es p = p" for p :: procs by (induction es) auto
  obtain k1 where k1: "spin ?ready (es @ Clock # rest) k0 = spin ?ready (Clock # rest) k1" "tty_ok k1" "\<not> ?ready k1" "k_proc k1 = k_proc k"
    using clock_wait.keeps_waiting [OF k0(1,2) assms(2), of "Clock # rest"] k0(3) unfolding fold by auto
  obtain k2 where k2: "interrupt Clock k1 = Some (Return 0, k2)" "tty_ok k2" "?ready k2" "k_proc k2 = k_proc k1"
    using clock_step [OF k1(2)] by auto
  have "spin ?ready (Clock # rest) k1 = Some (Return 0, rest, k2)" using k1(3) k2 by (cases rest) auto
  moreover have "spin ?ready es k0 = None" using clock_wait.never_ready [OF k0(1,2) assms(2)] .
  ultimately show ?thesis using k1 k2 by (simp add: rtc_read_def k0_def)
qed

theorem rtc_read_waits_witness:
  "rtc_read 2 [Tick, Key ENTER] demo_kernel = None \<and>
   (\<exists>k'. rtc_read 2 [Tick, Key ENTER, Clock, Tick] demo_kernel = Some (Return 0, [Tick], k'))"
proof -
  have "list_all not_clock [Tick, Key ENTER]" by (simp add: not_clock_def scan_codes)
  then show ?thesis using rtc_read_waits [OF demo_tty(1), of "[Tick, Key ENTER]" 2 "[Tick]"] by auto
qed

end
