(* ===== verification/Syscall.thy ===== *)
theory Syscall
  imports Tty
begin

text \<open>
  The system calls of \<^verbatim>\<open>syscall.c\<close> and their dispatcher in \<^verbatim>\<open>wrapper.S\<close>. A buffer argument is its
  address and what it points to; the contents afterwards are a result. The two calls that
  store through a user pointer (\<^verbatim>\<open>getargs\<close>, \<^verbatim>\<open>vidmap\<close>) work on physical memory, in which the
  program's page is contiguous. Calls that block take the interrupts that arrive.
\<close>

unbundle bit_operations_syntax

section \<open>Calls through the jump tables\<close>

text \<open>
  The function a descriptor's table holds. A table entry that is no function of its kind is
  \<open>None\<close> in the calls below: a jump to an unknown address. The invariant excludes it.
\<close>

definition jump_table :: "s32 \<Rightarrow> procs \<Rightarrow> fd_op_table_t" where
  "jump_table fd p = ops_tables p (fd_jump (cur_fds p (sint fd)))"

definition sys_read :: "s32 \<Rightarrow> u32 \<Rightarrow> bytes \<Rightarrow> s32 \<Rightarrow> irq list \<Rightarrow> kernel \<Rightarrow> (control \<times> bytes \<times> irq list \<times> kernel) option" where
  "sys_read fd ptr buf nbytes es k =
     (if check_valid_fd fd (k_proc k) = 0 then Some (Return FAIL, buf, es, say (line ''Invalid FD, sys_read'') k)
      else if ptr = 0 then Some (Return FAIL, buf, es, k)
      else case op_read (jump_table fd (k_proc k)) of
             Rtc_read \<Rightarrow> Option.bind (rtc_read fd es k) (\<lambda>(c, es, k). Some (c, buf, es, k))
           | File_read \<Rightarrow> let (r, buf, k) = file_read fd buf nbytes k in Some (Return r, buf, es, k)
           | Dir_read \<Rightarrow> let (r, buf, k) = dir_read fd buf nbytes k in Some (Return r, buf, es, k)
           | Terminal_read \<Rightarrow> let (r, b) = terminal_read fd ptr buf nbytes (cur_term k) (k_kbd k) in Some (Return r, buf, es, k\<lparr>k_kbd := b\<rparr>)
           | Keyboard_read \<Rightarrow> keyboard_read fd ptr buf nbytes es k
           | _ \<Rightarrow> None)"

definition sys_write :: "s32 \<Rightarrow> u32 \<Rightarrow> bytes \<Rightarrow> s32 \<Rightarrow> kernel \<Rightarrow> (s32 \<times> kernel) option" where
  "sys_write fd ptr buf nbytes k =
     (if check_valid_fd fd (k_proc k) = 0 then Some (FAIL, say (line ''Invalid FD, sys_write'') k)
      else if ptr = 0 then Some (FAIL, k)
      else case op_write (jump_table fd (k_proc k)) of
             Rtc_write \<Rightarrow> Some (rtc_write fd buf nbytes k)
           | File_write \<Rightarrow> Some (file_write fd k)
           | Dir_write \<Rightarrow> Some (dir_write fd k)
           | Terminal_write \<Rightarrow> Some (terminal_write fd ptr buf nbytes k)
           | Keyboard_write \<Rightarrow> Some (keyboard_write fd k)
           | _ \<Rightarrow> None)"

definition call_open :: "fop \<Rightarrow> bytes \<Rightarrow> kernel \<Rightarrow> (s32 \<times> kernel) option" where
  "call_open f filename k =
     (case f of
        Rtc_open \<Rightarrow> Some (rtc_open filename k)
      | File_open \<Rightarrow> Some (file_open filename k)
      | Dir_open \<Rightarrow> Some (dir_open filename k)
      | Terminal_open \<Rightarrow> Some (terminal_open filename k)
      | Keyboard_open \<Rightarrow> Some (keyboard_open filename k)
      | _ \<Rightarrow> None)"

definition sys_open :: "u32 \<Rightarrow> bytes \<Rightarrow> kernel \<Rightarrow> (s32 \<times> kernel) option" where
  "sys_open ptr filename k =
     (if ptr = 0 then Some (FAIL, say (line ''invalid pointer, sys_open'') k)
      else let (r, dentry) = read_dentry_by_name (k_fs k) filename (stack_dentry k)
           in if r = - 1 then Some (FAIL, k)
              else let tables = ops_tables (k_proc k)
                   in if file_type dentry = 0 then call_open (op_open (tables rtc_ops_table)) filename k
                      else if file_type dentry = 1 then call_open (op_open (tables dir_ops_table)) filename k
                      else call_open (op_open (tables filesys_ops_table)) filename k)"

definition sys_close :: "s32 \<Rightarrow> kernel \<Rightarrow> (s32 \<times> kernel) option" where
  "sys_close fd k =
     (if check_valid_fd fd (k_proc k) = 0 then Some (FAIL, say (line ''Invalid FD, sys_close'') k)
      else case op_close (jump_table fd (k_proc k)) of
             Rtc_close \<Rightarrow> Some (rtc_close fd k)
           | File_close \<Rightarrow> Some (file_close fd k)
           | Dir_close \<Rightarrow> Some (dir_close fd k)
           | Terminal_close \<Rightarrow> Some (terminal_close fd k)
           | Keyboard_close \<Rightarrow> Some (keyboard_close fd k)
           | _ \<Rightarrow> None)"

section \<open>Arguments and video memory\<close>

text \<open>
  The loop of \<^verbatim>\<open>getargs\<close> that removes blanks from the end. Its index is unsigned and the loop has
  no bound: it runs on below the buffer when there is nothing but blanks.
\<close>

partial_function (option) trim_back :: "u32 \<Rightarrow> u32 \<Rightarrow> mem \<Rightarrow> mem option" where
  "trim_back buf backwards m =
     (if m (buf + backwards) = SPACE \<or> m (buf + backwards) = NUL
      then trim_back buf (backwards - 1) (m(buf + backwards := NUL))
      else Some m)"

definition clean_args :: "u32 \<Rightarrow> u32 \<Rightarrow> mem \<Rightarrow> mem" where
  "clean_args buf nbytes m = unview buf (fill_run (view m buf) 0 NUL (unat nbytes))"

definition copy_args :: "u32 \<Rightarrow> bytes \<Rightarrow> nat \<Rightarrow> mem \<Rightarrow> mem" where
  "copy_args buf args n m = unview buf (copy_run (view m buf) 0 args 0 n)"

definition getargs :: "u32 \<Rightarrow> s32 \<Rightarrow> kernel \<Rightarrow> (s32 \<times> kernel) option" where
  "getargs ptr nbytes k =
     (if ptr = 0 then Some (FAIL, k)
      else let buf = phys_of k ptr;
               i = min (unat nbytes) TERM_BUFF_SIZE;
               m = copy_args buf (pcb_args (cur_pcb (k_proc k))) i (clean_args buf nbytes (get_phys k))
           in if i = unat nbytes then Some (FAIL, set_phys m k)
              else Option.bind (trim_back buf (nbytes - 1) m)
                     (\<lambda>m. Some (if m buf = NUL then FAIL else 0, set_phys m k)))"

definition vidmap :: "u32 \<Rightarrow> kernel \<Rightarrow> s32 \<times> kernel" where
  "vidmap screen_start k =
     (if screen_start = 0 then (FAIL, say (line ''invalid pointer, vidmap'') k)
      else if screen_start < PROGRAM_PAGE \<or> screen_start \<ge> PROGRAM_PAGE + USER_PAGE_SIZE
      then (FAIL, say (line ''pointer out of range, vidmap'') k)
      else let cell = phys_of k screen_start;
               old = u32_at (view (get_phys k) cell) 0;
               v = (if cur_term k = 0 then VIRT_VID_TERM1 else if cur_term k = 1 then VIRT_VID_TERM2
                    else if cur_term k = 2 then VIRT_VID_TERM3 else old);
               k = set_phys (put32 (get_phys k) cell v) k
           in (v, on_pg (map_virt_to_phys v USER_VIDEO_PAGE) k))"

definition set_handler :: "s32 \<Rightarrow> u32 \<Rightarrow> s32" where
  "set_handler signum handler_address = FAIL"

definition sigreturn :: s32 where
  "sigreturn = FAIL"

definition def_cmd :: s32 where
  "def_cmd = FAIL"

section \<open>The dispatcher\<close>

text \<open>
  \<^verbatim>\<open>syscall_handler_wrapper\<close>: the call number and the arguments are in registers; \<open>ubuf\<close> is what
  the pointer among them points to.
\<close>

definition plain :: "bytes \<Rightarrow> irq list \<Rightarrow> s32 \<times> kernel \<Rightarrow> (control \<times> bytes \<times> irq list \<times> kernel) option" where
  "plain ubuf es = (\<lambda>(r, k). Some (Return r, ubuf, es, k))"

definition leaving :: "bytes \<Rightarrow> irq list \<Rightarrow> control \<times> kernel \<Rightarrow> (control \<times> bytes \<times> irq list \<times> kernel) option" where
  "leaving ubuf es = (\<lambda>(c, k). Some (c, ubuf, es, k))"

definition syscall_handler ::
    "u32 \<Rightarrow> u32 \<Rightarrow> u32 \<Rightarrow> u32 \<Rightarrow> bytes \<Rightarrow> irq list \<Rightarrow> kernel \<Rightarrow> (control \<times> bytes \<times> irq list \<times> kernel) option" where
  "syscall_handler eax ebx ecx edx ubuf es k =
     (if eax \<ge> 10 then plain ubuf es (FAIL, k)
      else if eax \<le> 0 then plain ubuf es (FAIL, k)
      else if eax = 1 then Option.bind (halt (ucast ebx) k) (leaving ubuf es)
      else if eax = 2 then Option.bind (execute ebx ubuf k) (leaving ubuf es)
      else if eax = 3 then sys_read ebx ecx ubuf edx es k
      else if eax = 4 then Option.bind (sys_write ebx ecx ubuf edx k) (plain ubuf es)
      else if eax = 5 then Option.bind (sys_open ebx ubuf k) (plain ubuf es)
      else if eax = 6 then Option.bind (sys_close ebx k) (plain ubuf es)
      else if eax = 7 then Option.bind (getargs ebx ecx k) (plain ubuf es)
      else if eax = 8 then plain ubuf es (vidmap ebx k)
      else plain ubuf es (set_handler ebx ecx, k))"

section \<open>Descriptors under the system calls\<close>

definition tables_ready :: "procs \<Rightarrow> bool" where
  "tables_ready p \<longleftrightarrow>
     ops_tables p rtc_ops_table = \<lparr>op_open = Rtc_open, op_read = Rtc_read, op_write = Rtc_write, op_close = Rtc_close\<rparr> \<and>
     ops_tables p filesys_ops_table = \<lparr>op_open = File_open, op_read = File_read, op_write = File_write, op_close = File_close\<rparr> \<and>
     ops_tables p dir_ops_table = \<lparr>op_open = Dir_open, op_read = Dir_read, op_write = Dir_write, op_close = Dir_close\<rparr> \<and>
     ops_tables p term_ops_table = \<lparr>op_open = Terminal_open, op_read = Terminal_read, op_write = Terminal_write, op_close = Terminal_close\<rparr> \<and>
     ops_tables p kybd_ops_table = \<lparr>op_open = Keyboard_open, op_read = Keyboard_read, op_write = Keyboard_write, op_close = Keyboard_close\<rparr>"

lemma fops_table_init_ready: "tables_ready (fops_table_init p)"
  by (simp add: tables_ready_def fops_table_init_def)

definition fd_ready :: "kernel \<Rightarrow> bool" where
  "fd_ready k \<longleftrightarrow> fds_ok (k_fds k) \<and> tables_ready (k_proc k)"

text \<open>The table of a valid descriptor, and which descriptors have the tables of 0 and 1.\<close>

lemma valid_fd:
  assumes "fds_ok (cur_fds p)" "check_valid_fd fd p \<noteq> 0"
  shows "0 \<le> sint fd" "sint fd < 8" "\<not> bad_index fd" "check_valid_fd fd p = FD_ON"
    "fd_jump (cur_fds p (sint fd)) \<in> {rtc_ops_table, filesys_ops_table, dir_ops_table, kybd_ops_table, term_ops_table}"
    "fd_jump (cur_fds p (sint fd)) \<in> {rtc_ops_table, filesys_ops_table, dir_ops_table} \<Longrightarrow> 2 \<le> sint fd"
proof -
  have b: "\<not> bad_index fd" "flags (cur_fds p (sint fd)) \<noteq> 0"
    using assms(2) by (auto simp: check_valid_fd_def split: if_splits)
  then show i: "0 \<le> sint fd" "sint fd < 8" "\<not> bad_index fd" by (auto simp: bad_index_def fd_consts)
  have e: "fd_entry_ok (cur_fds p (sint fd))" using assms(1) i by (auto simp: fds_ok_def)
  then have on: "flags (cur_fds p (sint fd)) = FD_ON" "fd_jump (cur_fds p (sint fd)) \<noteq> NULL_ops"
    using b(2) by (auto simp: fd_entry_ok_def empty_fd_def fd_consts)
  then show "check_valid_fd fd p = FD_ON" using b(1) by (simp add: check_valid_fd_def)
  show "fd_jump (cur_fds p (sint fd)) \<in> {rtc_ops_table, filesys_ops_table, dir_ops_table, kybd_ops_table, term_ops_table}"
    using on(2) by (cases "fd_jump (cur_fds p (sint fd))") auto
  show "2 \<le> sint fd" if "fd_jump (cur_fds p (sint fd)) \<in> {rtc_ops_table, filesys_ops_table, dir_ops_table}"
  proof -
    have "sint fd \<noteq> 0" "sint fd \<noteq> 1" using that assms(1) by (auto simp: fds_ok_def)
    then show ?thesis using i by linarith
  qed
qed

lemma ops_tables_frame [simp]:
  "ops_tables (close_fd fd p) = ops_tables p" "ops_tables (snd (set_fd_info fd f p)) = ops_tables p"
  "ops_tables (add_offset fd n p) = ops_tables p"
  by (simp_all add: close_fd_def set_fd_info_def add_offset_def Let_def)

lemma tables_ready_frame [simp]:
  "tables_ready (close_fd fd p) = tables_ready p" "tables_ready (snd (set_fd_info fd f p)) = tables_ready p"
  "tables_ready (add_offset fd n p) = tables_ready p"
  by (simp_all add: tables_ready_def)

lemma dev_close:
  assumes "2 \<le> sint fd" "sint fd < 8"
  shows "fst (rtc_close fd k) = 0" "k_proc (snd (rtc_close fd k)) = close_fd fd (k_proc k)"
    "fst (file_close fd k) = 0" "k_proc (snd (file_close fd k)) = close_fd fd (k_proc k)"
    "fst (dir_close fd k) = 0" "k_proc (snd (dir_close fd k)) = close_fd fd (k_proc k)"
  using assms by (simp_all add: rtc_close_def file_close_def dir_close_def fd_consts Let_def)

lemma dev_open_ready:
  assumes "fd_ready k"
  shows "fd_ready (snd (rtc_open f k))" "fd_ready (snd (file_open f k))" "fd_ready (snd (dir_open f k))"
proof -
  have e: "fd_entry_ok rtc_info" "fd_entry_ok (file_info f k)" "fd_entry_ok dir_info"
    by (simp_all add: fd_entry_ok_def rtc_info_def file_info_def dir_info_def fd_consts)
  have t: "tables_ready (k_proc (snd (rtc_open f k)))" "tables_ready (k_proc (snd (file_open f k)))" "tables_ready (k_proc (snd (dir_open f k)))"
    using assms by (simp_all add: fd_ready_def rtc_open_def file_open_def dir_open_def Let_def)
  show "fd_ready (snd (rtc_open f k))" "fd_ready (snd (file_open f k))" "fd_ready (snd (dir_open f k))"
    using e t assms rtc_dev.opn_table [of f k] file_dev.opn_table [of f k] dir_dev.opn_table [of f k]
    by (simp_all add: fd_ready_def install_ok)
qed

lemma close_ready:
  assumes "fd_ready k" "check_valid_fd fd (k_proc k) \<noteq> 0"
  shows "\<exists>k'. sys_close fd k =
      Some (if fd_jump (k_fds k (sint fd)) \<in> {rtc_ops_table, filesys_ops_table, dir_ops_table} then 0 else - 1, k') \<and>
    k_proc k' = (if fd_jump (k_fds k (sint fd)) \<in> {rtc_ops_table, filesys_ops_table, dir_ops_table} then close_fd fd (k_proc k) else k_proc k)"
proof -
  note f = assms(1) [unfolded fd_ready_def k_fds_def tables_ready_def]
  note v = valid_fd [OF conjunct1 [OF f] assms(2)]
  have two: "2 \<le> sint fd \<and> sint fd < 8" if "fd_jump (cur_fds (k_proc k) (sint fd)) \<in> {rtc_ops_table, filesys_ops_table, dir_ops_table}"
    using v that by blast
  show ?thesis
    using v(5) f assms(2) dev_close [of fd k] two
    by (auto simp: sys_close_def jump_table_def k_fds_def terminal_close_def keyboard_close_def prod_eq_iff)
qed

lemma close_keeps_ready:
  assumes "fd_ready k"
  shows "\<exists>r k'. sys_close fd k = Some (r, k') \<and> fd_ready k' \<and> k_fs k' = k_fs k \<and> (\<forall>i. i \<noteq> sint fd \<longrightarrow> k_fds k' i = k_fds k i)"
proof (cases "check_valid_fd fd (k_proc k) = 0")
  case True
  then show ?thesis using assms by (auto simp: sys_close_def fd_ready_def k_fds_def)
next
  case False
  have "fds_ok (cur_fds (close_fd fd (k_proc k)))" if "fd_jump (k_fds k (sint fd)) \<in> {rtc_ops_table, filesys_ops_table, dir_ops_table}"
    using that assms valid_fd(6) [OF _ False] by (simp add: fd_ready_def k_fds_def close_fd_ok)
  moreover obtain r k' where c: "sys_close fd k = Some (r, k')"
    "k_proc k' = (if fd_jump (k_fds k (sint fd)) \<in> {rtc_ops_table, filesys_ops_table, dir_ops_table} then close_fd fd (k_proc k) else k_proc k)"
    using close_ready [OF assms False] by metis
  moreover have "k_fs k' = k_fs k"
    using c(1) by (auto simp: sys_close_def rtc_close_def file_close_def dir_close_def terminal_close_def keyboard_close_def split: if_splits fop.splits)
  moreover have "cur_fds (close_fd fd (k_proc k)) i = cur_fds (k_proc k) i" if "i \<noteq> sint fd" for i using that by (simp add: close_fd_def)
  ultimately show ?thesis using assms by (auto simp: fd_ready_def k_fds_def split: if_splits)
qed

text \<open>The descriptor an opened file gets, and that the device calls leave the processes alone.\<close>

definition opened_info :: "bytes \<Rightarrow> dentry_t \<Rightarrow> kernel \<Rightarrow> fd_t" where
  "opened_info name d k = (if file_type d = 0 then rtc_info else if file_type d = 1 then dir_info else file_info name k)"

lemma sys_open_eq:
  assumes "fd_ready k" "ptr \<noteq> 0" "read_dentry_by_name (k_fs k) name (stack_dentry k) = (0, d)"
  shows "\<exists>k'. sys_open ptr name k = Some (fst (install (opened_info name d k) (k_fds k)), k') \<and> fd_ready k' \<and>
    k_fds k' = snd (install (opened_info name d k) (k_fds k)) \<and>
    sys_open ptr name k = Some (if file_type d = 0 then rtc_open name k else if file_type d = 1 then dir_open name k else file_open name k)"
proof -
  have t: "op_open (ops_tables (k_proc k) rtc_ops_table) = Rtc_open" "op_open (ops_tables (k_proc k) dir_ops_table) = Dir_open"
    "op_open (ops_tables (k_proc k) filesys_ops_table) = File_open"
    using assms(1) by (simp_all add: fd_ready_def tables_ready_def)
  have o: "sys_open ptr name k = Some (if file_type d = 0 then rtc_open name k else if file_type d = 1 then dir_open name k else file_open name k)"
    using assms(2,3) by (simp add: sys_open_def t call_open_def)
  then show ?thesis
    using dev_open_ready [OF assms(1), of name] rtc_dev.opn_install [of name k] dir_dev.opn_install [of name k] file_dev.opn_install [of name k]
    by (auto simp: opened_info_def prod_eq_iff)
qed

lemma dentry_search_result: "fst (dentry_search fs name n d i m) \<in> {0, - 1}"
  by (induction m arbitrary: i) (simp_all add: Let_def)

lemma lookup_result: "fst (read_dentry_by_name fs name d) \<in> {0, - 1}"
  using dentry_search_result by (simp add: read_dentry_by_name_def Let_def)

lemma sys_open_cases:
  obtains (fails) k' where "sys_open ptr name k = Some (- 1, k')" "k_proc k' = k_proc k"
  | (found) d where "ptr \<noteq> 0" "read_dentry_by_name (k_fs k) name (stack_dentry k) = (0, d)"
proof (cases "read_dentry_by_name (k_fs k) name (stack_dentry k)")
  case (Pair r d)
  then have "r = 0 \<or> r = - 1" using lookup_result [of "k_fs k" name "stack_dentry k"] by simp
  then show thesis
    using Pair fails [of "if ptr = 0 then say (line ''invalid pointer, sys_open'') k else k"] found
    by (cases "ptr = 0") (auto simp: sys_open_def)
qed

lemma k_proc_print [simp]: "k_proc (write_loop b i n k) = k_proc k"
  by (induction b i n k rule: write_loop.induct) auto

lemma write_frame:
  "k_proc (snd (rtc_write fd buf n k)) = k_proc k" "k_proc (snd (file_write fd k)) = k_proc k" "k_proc (snd (dir_write fd k)) = k_proc k"
  "k_proc (snd (terminal_write fd ptr buf n k)) = k_proc k" "k_proc (snd (keyboard_write fd k)) = k_proc k"
  by (simp_all add: rtc_write_def file_write_def dir_write_def terminal_write_def keyboard_write_def Let_def)

lemma write_ready:
  assumes "fd_ready k"
  shows "\<exists>r k'. sys_write fd ptr buf nbytes k = Some (r, k') \<and> k_proc k' = k_proc k"
proof (cases "check_valid_fd fd (k_proc k) = 0 \<or> ptr = 0")
  case True
  then show ?thesis by (auto simp: sys_write_def)
next
  case False
  note f = assms [unfolded fd_ready_def k_fds_def tables_ready_def]
  have "fd_jump (cur_fds (k_proc k) (sint fd)) \<in> {rtc_ops_table, filesys_ops_table, dir_ops_table, kybd_ops_table, term_ops_table}"
    using valid_fd(5) [OF conjunct1 [OF f]] False by blast
  then show ?thesis
    using f False write_frame(1) [of fd buf nbytes k] write_frame(2,3,5) [of fd k] write_frame(4) [of fd ptr buf nbytes k]
    by (auto simp: sys_write_def jump_table_def prod_eq_iff)
qed

lemma read_file_ready:
  assumes "fd_ready k" "check_valid_fd fd (k_proc k) \<noteq> 0" "ptr \<noteq> 0" "fd_jump (k_fds k (sint fd)) \<in> {filesys_ops_table, dir_ops_table}"
  shows "\<exists>r b k'. sys_read fd ptr buf nbytes es k = Some (Return r, b, es, k') \<and> fd_ready k'"
proof -
  note f = assms(1) [unfolded fd_ready_def k_fds_def tables_ready_def]
  note ok = conjunct1 [OF f]
  have on: "check_valid_fd fd (k_proc k) = FD_ON" using valid_fd(4) [OF ok assms(2)] .
  have a: "fds_ok (cur_fds (add_offset fd n (k_proc k)))" for n using add_offset_ok [OF ok on] .
  have "fd_ready (snd (snd (file_read fd buf nbytes k)))" "fd_ready (snd (snd (dir_read fd buf nbytes k)))"
    using assms(1) a by (simp_all add: file_read_def dir_read_def Let_def case_prod_beta fd_ready_def k_fds_def)
  then show ?thesis
    using f assms(2-4) by (auto simp: sys_read_def jump_table_def k_fds_def case_prod_beta)
qed

section \<open>Properties of the file calls\<close>


lemma demo_fd_ready: "fd_ready demo_kernel"
  using fops_table_init_ready [of boot_procs]
  by (simp add: fd_ready_def demo_kernel_fds fd_table_init_ok) (simp add: demo_kernel_def)


text \<open>
  C38. \<^verbatim>\<open>close\<close> undoes \<^verbatim>\<open>open\<close>: a successful \<^verbatim>\<open>open\<close>, of whatever kind of file, returns a descriptor
  from 2 to 7 that was free, and closing it returns 0 and gives back the descriptor table
  from before the \<^verbatim>\<open>open\<close>.
\<close>

theorem open_close_roundtrip:
  assumes "fd_ready k" "sys_open ptr name k = Some (r, k1)" "r \<noteq> - 1"
  shows "2 \<le> sint r \<and> sint r < 8 \<and> k_fds k (sint r) = empty_fd \<and> (\<exists>k2. sys_close r k1 = Some (0, k2) \<and> k_fds k2 = k_fds k)"
proof -
  obtain d where d: "read_dentry_by_name (k_fs k) name (stack_dentry k) = (0, d)" "ptr \<noteq> 0"
    using assms(2,3) by (cases rule: sys_open_cases [of ptr name k]) auto
  let ?f = "opened_info name d k"
  have o: "r = fst (install ?f (k_fds k))" "k_fds k1 = snd (install ?f (k_fds k))" "fd_ready k1"
    using sys_open_eq [OF assms(1) d(2,1)] assms(2) by auto
  obtain j js where j: "free_fds (k_fds k) = j # js"
    using o(1) assms(3) by (cases "free_fds (k_fds k)") (auto simp: install_def)
  then have "j \<in> set (free_fds (k_fds k))" by simp
  then have jr: "2 \<le> j" "j < 8" "flags (k_fds k (int j)) = FD_OFF" using free_fds_range by (auto simp: free_fds_def)
  have r: "sint r = int j" "k_fds k1 = (k_fds k)(int j := ?f)" using o j jr by (simp_all add: install_def sint_small)
  have "fd_entry_ok (k_fds k (int j))" using assms(1) jr by (simp add: fd_ready_def fds_ok_def)
  then have e: "k_fds k (int j) = empty_fd" using jr(3) by (simp add: fd_entry_ok_def fd_consts)
  have f: "flags ?f = FD_ON" "fd_jump ?f \<in> {rtc_ops_table, filesys_ops_table, dir_ops_table}"
    by (simp_all add: opened_info_def rtc_info_def dir_info_def file_info_def fd_consts)
  have v: "check_valid_fd r (k_proc k1) \<noteq> 0" "\<not> bad_index r"
    using r jr f by (auto simp: check_valid_fd_def bad_index_def fd_consts k_fds_def)
  obtain k2 where "sys_close r k1 = Some (0, k2)" "k_proc k2 = close_fd r (k_proc k1)"
    using close_ready [OF o(3) v(1)] r f(2) by auto
  moreover have "cur_fds (close_fd r (k_proc k1)) = (k_fds k1)(int j := empty_fd)"
    using v(2) r by (simp add: close_fd_def k_fds_def)
  ultimately show ?thesis using r jr e by (auto simp: k_fds_def fun_upd_idem)
qed

theorem open_close_roundtrip_witness:
  "\<exists>k1 k2. sys_open 4 demo_name demo_kernel = Some (2, k1) \<and> sys_close 2 k1 = Some (0, k2) \<and> k_fds k2 = k_fds demo_kernel"
proof -
  have n: "demo_name 0 = 115" "demo_name 1 = 104" "demo_name 2 = NUL"
    by (simp_all add: demo_name_def copy_run_eq cstr_def byte_of_char_def of_char_def)
  have fs: "k_fs demo_kernel = demo_fs 127" by (simp add: demo_kernel_def)
  obtain k1 where o: "sys_open 4 demo_name demo_kernel = Some (2, k1)"
    using sys_open_eq [OF demo_fd_ready, of 4 demo_name] demo_fs_lookup(1) [OF n, of 127]
    by (auto simp: fs demo_kernel_fds install_def fd_table_init_free)
  show ?thesis using open_close_roundtrip [OF demo_fd_ready o] o by auto
qed

section \<open>Video memory for programs\<close>



end
