(* ===== verification/Args.thy ===== *)
theory Args
  imports Syscall
begin

text \<open>
  Command line arguments on their way from the shell's \<^verbatim>\<open>execute\<close> to the program's \<^verbatim>\<open>getargs\<close>:
  what \<^verbatim>\<open>parse_cmd_args\<close> saves, what \<^verbatim>\<open>getargs\<close> delivers to the program's buffer, and where
  \<^verbatim>\<open>getargs\<close> fails or reaches outside the buffer.
\<close>

section \<open>What getargs does to memory\<close>

definition blank :: "u8 \<Rightarrow> bool" where
  "blank c \<longleftrightarrow> c = SPACE \<or> c = NUL"

lemma trim_back_step:
  "trim_back buf i m = (if blank (m (buf + i)) then trim_back buf (i - 1) (m(buf + i := NUL)) else Some m)"
  by (subst trim_back.simps) (simp add: blank_def)

lemma unat_sub_left: "unat (buf + of_nat n - buf :: u32) = n" if "n < 2 ^ 32"
  using that by (simp add: unat_of_nat)

lemma addr_offset: "n < 2 ^ 32 \<Longrightarrow> a = buf + of_nat n \<longleftrightarrow> unat (a - buf) = n" for a buf :: u32
proof -
  assume n: "n < 2 ^ 32"
  have "a = buf + of_nat n \<longleftrightarrow> a - buf = of_nat n" by (auto simp: algebra_simps)
  also have "\<dots> \<longleftrightarrow> unat (a - buf) = n" using n by (auto simp: word_unat_eq_iff unat_of_nat)
  finally show ?thesis .
qed

text \<open>With a character to stop at, the loop clears exactly the blanks after it.\<close>

lemma trim_back_stops:
  assumes "\<not> blank (m (buf + of_nat l))" "l \<le> n" "n < 2 ^ 32"
    and "\<And>j. l < j \<Longrightarrow> j \<le> n \<Longrightarrow> blank (m (buf + of_nat j))"
  shows "trim_back buf (of_nat n) m = Some (\<lambda>a. if l < unat (a - buf) \<and> unat (a - buf) \<le> n then NUL else m a)"
  using assms
proof (induction "n - l" arbitrary: n m)
  case 0
  then have "n = l" by simp
  then show ?case using 0 by (subst trim_back_step) (auto simp: fun_eq_iff)
next
  case (Suc d)
  then obtain n' where n: "n = Suc n'" by (cases n) auto
  let ?m = "m(buf + of_nat n := NUL)"
  have ne: "buf + of_nat j \<noteq> buf + (of_nat n :: u32)" if "j < n" for j
    using that Suc.prems(3) by (auto dest!: arg_cong [where f = unat] simp: unat_of_nat)
  have b: "blank (m (buf + of_nat n))" using Suc by auto
  have e: "a = buf + of_nat n \<longleftrightarrow> unat (a - buf) = n" for a
    using addr_offset Suc.prems(3) .
  have "trim_back buf (of_nat n) m = trim_back buf (of_nat n') ?m"
    using b by (subst trim_back_step) (simp add: n)
  also have "\<dots> = Some (\<lambda>a. if l < unat (a - buf) \<and> unat (a - buf) \<le> n' then NUL else ?m a)"
  proof (rule Suc.hyps(1))
    show "d = n' - l" using Suc.hyps(2) n by simp
    show "\<not> blank (?m (buf + of_nat l))" using Suc.prems(1) Suc.hyps(2) ne [of l] by simp
    show "l \<le> n'" "n' < 2 ^ 32" using Suc.hyps(2) Suc.prems(3) n by simp_all
    show "blank (?m (buf + of_nat j))" if "l < j" "j \<le> n'" for j
      using that Suc.prems(4) [of j] n by (simp add: blank_def)
  qed
  also have "(\<lambda>a. if l < unat (a - buf) \<and> unat (a - buf) \<le> n' then NUL else ?m a) =
      (\<lambda>a. if l < unat (a - buf) \<and> unat (a - buf) \<le> n then NUL else m a)"
    using Suc.hyps(2) n unfolding fun_upd_def e by (auto simp: fun_eq_iff)
  finally show ?case .
qed

text \<open>Without one, it clears them all and goes on below the buffer.\<close>

lemma trim_back_all:
  assumes "n < 2 ^ 32" "\<And>j. j \<le> n \<Longrightarrow> blank (m (buf + of_nat j))"
  shows "trim_back buf (of_nat n) m = trim_back buf (- 1) (\<lambda>a. if unat (a - buf) \<le> n then NUL else m a)"
  using assms
proof (induction n arbitrary: m)
  case 0
  have "m(buf := NUL) = (\<lambda>a. if unat (a - buf) \<le> 0 then NUL else m a)"
    using addr_offset [of 0 _ buf] by (auto simp: fun_eq_iff)
  then show ?case using 0 by (subst trim_back_step) simp
next
  case (Suc n)
  let ?m = "m(buf + of_nat (Suc n) := NUL)"
  have "trim_back buf (of_nat (Suc n)) m = trim_back buf (of_nat n) ?m"
    using Suc.prems(2) [of "Suc n"] by (subst trim_back_step) simp
  also have "\<dots> = trim_back buf (- 1) (\<lambda>a. if unat (a - buf) \<le> n then NUL else ?m a)"
    using Suc.prems by (intro Suc.IH) (auto simp: blank_def)
  also have "(\<lambda>a. if unat (a - buf) \<le> n then NUL else ?m a) = (\<lambda>a. if unat (a - buf) \<le> Suc n then NUL else m a)"
    using addr_offset [OF Suc.prems(1), of _ buf] by (auto simp: fun_eq_iff le_Suc_eq simp del: of_nat_Suc)
  finally show ?case .
qed

lemma clean_args_apply: "clean_args buf nbytes m a = (if unat (a - buf) < unat nbytes then NUL else m a)"
  by (simp add: clean_args_def unview_def fill_run_eq view_def)

lemma copy_args_apply: "copy_args buf args n m a = (if unat (a - buf) < n then args (unat (a - buf)) else m a)"
  by (simp add: copy_args_def unview_def copy_run_eq view_def)

text \<open>The last character of the saved arguments that is not blank.\<close>

definition last_char :: "bytes \<Rightarrow> nat \<Rightarrow> bool" where
  "last_char args l \<longleftrightarrow> l < 128 \<and> \<not> blank (args l) \<and> (\<forall>j\<in>{Suc l..<128}. blank (args j))"

lemma getargs_memory:
  assumes "ptr \<noteq> 0" "128 < unat nbytes" "last_char (pcb_args (cur_pcb (k_proc k))) l"
  defines "args \<equiv> pcb_args (cur_pcb (k_proc k))" and "buf \<equiv> phys_of k ptr"
  shows "getargs ptr nbytes k = Some (if args 0 = NUL then - 1 else 0,
    set_phys (\<lambda>a. if unat (a - buf) < unat nbytes then (if unat (a - buf) \<le> l then args (unat (a - buf)) else NUL) else get_phys k a) k)"
proof -
  define m where "m = copy_args buf args 128 (clean_args buf nbytes (get_phys k))"
  have l: "l < 128" "\<not> blank (args l)" "\<And>j. l < j \<Longrightarrow> j < 128 \<Longrightarrow> blank (args j)"
    using assms(3) by (auto simp: last_char_def args_def)
  have m: "m a = (if unat (a - buf) < 128 then args (unat (a - buf)) else if unat (a - buf) < unat nbytes then NUL else get_phys k a)" for a
    by (simp add: m_def copy_args_apply clean_args_apply)
  have mj: "m (buf + of_nat j) = (if j < 128 then args j else NUL)" if "j < unat nbytes" for j
    using that unat_u32_less [of nbytes] by (simp add: m unat_of_nat)
  have nb: "nbytes - 1 = of_nat (unat nbytes - 1)" using assms(2) by (simp add: of_nat_diff)
  have "trim_back buf (of_nat (unat nbytes - 1)) m =
      Some (\<lambda>a. if l < unat (a - buf) \<and> unat (a - buf) \<le> unat nbytes - 1 then NUL else m a)"
    using assms(2) l unat_u32_less [of nbytes] by (intro trim_back_stops) (auto simp: mj blank_def)
  moreover have "(\<lambda>a. if l < unat (a - buf) \<and> unat (a - buf) \<le> unat nbytes - 1 then NUL else m a) =
      (\<lambda>a. if unat (a - buf) < unat nbytes then (if unat (a - buf) \<le> l then args (unat (a - buf)) else NUL) else get_phys k a)"
    using assms(2) l(1) by (auto simp: m fun_eq_iff)
  moreover have "getargs ptr nbytes k = Option.bind (trim_back buf (nbytes - 1) m) (\<lambda>m. Some (if m buf = NUL then FAIL else 0, set_phys m k))"
    using assms(1,2) by (simp add: getargs_def Let_def kbd_consts args_def buf_def m_def)
  ultimately show ?thesis unfolding nb using assms(2) by simp
qed

section \<open>A program with arguments\<close>

definition demo_program :: "bytes \<Rightarrow> mem \<Rightarrow> kernel" where
  "demo_program args m = demo_kernel\<lparr>k_proc := set_cur_pcb ((cur_pcb (k_proc demo_kernel))\<lparr>pcb_args := args\<rparr>) (k_proc demo_kernel),
     k_pg := add_process 0 (k_pg demo_kernel), k_ram := m\<rparr>"

lemma demo_program_fields:
  "pcb_args (cur_pcb (k_proc (demo_program args m))) = args" "phys_of (demo_program args m) 0x08100000 = 0x900000"
  "a \<ge> 0x100000 \<Longrightarrow> get_phys (demo_program args m) a = m a"
proof -
  have "pd_index 0x08100000 = PROCESS_IDX" by (simp add: pd_index_def PROCESS_IDX_def)
  then have "page_walk (add_process 0 (k_pg demo_kernel)) 0x08100000 = Some (frame 0 OR (0x08100000 AND 0x3FFFFF), True)"
    by (simp add: add_process_page_walk)
  then show "phys_of (demo_program args m) 0x08100000 = 0x900000"
    by (simp add: phys_of_def demo_program_def frame_push)
  show "pcb_args (cur_pcb (k_proc (demo_program args m))) = args" by (simp add: demo_program_def)
  show "get_phys (demo_program args m) a = m a" if "a \<ge> 0x100000"
  proof -
    have "\<not> a < VIDEO + 0x1000" using that by (simp add: paging_consts not_less word_le_nat_alt)
    then show ?thesis by (simp add: get_phys_def in_video_def demo_program_def)
  qed
qed

section \<open>Properties of getargs\<close>

text \<open>
  \<^verbatim>\<open>getargs\<close> with room for more than 128 bytes delivers the saved arguments: the buffer holds
  them up to their last character that is not blank, then only NUL; it returns 0 unless
  they start with NUL, and no byte outside the buffer changes.
\<close>

theorem getargs_delivers:
  assumes "ptr \<noteq> 0" "128 < unat nbytes" "last_char (pcb_args (cur_pcb (k_proc k))) l"
  shows "\<exists>k'. getargs ptr nbytes k = Some (if pcb_args (cur_pcb (k_proc k)) 0 = NUL then - 1 else 0, k') \<and> k_proc k' = k_proc k \<and>
    (\<forall>a. get_phys k' a =
      (let j = unat (a - phys_of k ptr)
       in if j \<le> l then pcb_args (cur_pcb (k_proc k)) j else if j < unat nbytes then NUL else get_phys k a))"
proof -
  have "l < 128" using assms(3) by (simp add: last_char_def)
  then show ?thesis using getargs_memory [OF assms] assms(2) by (auto simp: Let_def)
qed

theorem getargs_delivers_witness:
  "\<exists>k'. getargs 0x08100000 1024 (demo_program (cstr ''ab'') (\<lambda>_. 7)) = Some (0, k') \<and>
     get_phys k' 0x900000 = 97 \<and> get_phys k' 0x900001 = 98 \<and> get_phys k' 0x900002 = NUL \<and> get_phys k' 0x900400 = 7"
proof -
  have c: "cstr ''ab'' 0 = 97" "cstr ''ab'' (Suc 0) = 98" "\<And>j. 2 \<le> j \<Longrightarrow> cstr ''ab'' j = NUL"
    by (simp_all add: cstr_def byte_of_char_def of_char_def)
  have "last_char (cstr ''ab'') 1" using c by (auto simp: last_char_def blank_def)
  then show ?thesis
    using getargs_delivers [of "0x08100000" 1024 "demo_program (cstr ''ab'') (\<lambda>_. 7)" 1] c
    by (auto simp: demo_program_fields Let_def)
qed

text \<open>
  \<^verbatim>\<open>getargs\<close> refuses every buffer of 128 bytes or less: it fills it and returns -1, however short
  the arguments are.
\<close>

theorem getargs_small_buffer:
  assumes "unat nbytes \<le> 128"
  shows "\<exists>k'. getargs ptr nbytes k = Some (- 1, k')"
  using assms by (auto simp: getargs_def Let_def kbd_consts min_def)

theorem getargs_small_buffer_witness: "\<exists>k'. getargs 0x08100000 100 demo_kernel = Some (- 1, k')"
  using getargs_small_buffer [of 100 "0x08100000" demo_kernel] by simp

text \<open>
  C19. Without arguments \<^verbatim>\<open>getargs\<close> reaches below the buffer: when all saved bytes are blank, it
  returns -1, but a space right below the caller's buffer has become a NUL.
\<close>

theorem getargs_underflow:
  assumes "ptr \<noteq> 0" "128 < unat nbytes" "\<forall>j\<in>{0..<128}. blank (pcb_args (cur_pcb (k_proc k)) j)"
    and "get_phys k (phys_of k ptr - 1) = SPACE" "\<not> blank (get_phys k (phys_of k ptr - 2))" "unat nbytes + 2 < 2 ^ 32"
  shows "\<exists>k'. getargs ptr nbytes k = Some (- 1, k') \<and> get_phys k' (phys_of k ptr - 1) = NUL"
proof -
  define buf where "buf = phys_of k ptr"
  define args where "args = pcb_args (cur_pcb (k_proc k))"
  define m where "m = copy_args buf args 128 (clean_args buf nbytes (get_phys k))"
  have m: "m a = (if unat (a - buf) < 128 then args (unat (a - buf)) else if unat (a - buf) < unat nbytes then NUL else get_phys k a)" for a
    by (simp add: m_def copy_args_apply clean_args_apply)
  have "blank (m (buf + of_nat j))" if "j \<le> unat nbytes - 1" for j
  proof -
    have "unat (buf + of_nat j - buf) = j" using that unat_u32_less [of nbytes] by (intro unat_sub_left) simp
    then show ?thesis using that assms(2,3) unfolding m by (auto simp: args_def blank_def)
  qed
  then have "trim_back buf (of_nat (unat nbytes - 1)) m = trim_back buf (- 1) (\<lambda>a. if unat (a - buf) \<le> unat nbytes - 1 then NUL else m a)"
    using unat_u32_less [of nbytes] by (intro trim_back_all) auto
  also have "\<dots> = Some ((\<lambda>a. if unat (a - buf) \<le> unat nbytes - 1 then NUL else m a)(buf - 1 := NUL))" (is "_ = Some ?m")
  proof -
    have "unat (- 1 :: u32) = 2 ^ 32 - 1" by (simp add: unsigned_minus_1_eq_mask mask_eq_exp_minus_1)
    then have u: "unat (buf - 1 - buf) = 2 ^ 32 - 1" "unat (buf - 2 - buf) = 2 ^ 32 - 2" by simp_all
    define M where "M = (\<lambda>a. if unat (a - buf) \<le> unat nbytes - 1 then NUL else m a)"
    have "M (buf - 1) = SPACE" "\<not> blank (M (buf - 2))"
      unfolding M_def m u using assms(2,4-6) by (auto simp: buf_def)
    then have "blank (M (buf + - 1))" "\<not> blank ((M(buf - 1 := NUL)) (buf + - 2))" by (simp_all add: blank_def)
    then show ?thesis unfolding M_def [symmetric] by (subst trim_back_step, subst trim_back_step) simp
  qed
  finally have t: "trim_back buf (of_nat (unat nbytes - 1)) m = Some ?m" .
  have nb: "nbytes - 1 = of_nat (unat nbytes - 1)" using assms(2) by (simp add: of_nat_diff)
  have "getargs ptr nbytes k = Option.bind (trim_back buf (nbytes - 1) m) (\<lambda>m. Some (if m buf = NUL then FAIL else 0, set_phys m k))"
    using assms(1,2) by (simp add: getargs_def Let_def kbd_consts args_def buf_def m_def)
  then show ?thesis unfolding nb t by (simp add: buf_def)
qed

theorem getargs_underflow_witness:
  "\<exists>k'. getargs 0x08100000 1024 (demo_program (\<lambda>_. NUL) (\<lambda>a. if a = 0x8FFFFF then SPACE else 65)) = Some (- 1, k') \<and>
     get_phys k' 0x8FFFFF = NUL"
  using getargs_underflow [of "0x08100000" 1024 "demo_program (\<lambda>_. NUL) (\<lambda>a. if a = 0x8FFFFF then SPACE else 65)"]
  by (simp add: demo_program_fields blank_def)

section \<open>From the command line to the program\<close>

text \<open>A command line: a word, some spaces and the arguments.\<close>

definition command_line :: "u8 list \<Rightarrow> nat \<Rightarrow> u8 list \<Rightarrow> bool" where
  "command_line w n A \<longleftrightarrow> list_all (\<lambda>c. c \<noteq> SPACE \<and> c \<noteq> NUL) w \<and> 0 < n \<and> A \<noteq> [] \<and> list_all (\<lambda>c. c \<noteq> NUL) A \<and>
     hd A \<noteq> SPACE \<and> last A \<noteq> SPACE \<and> length w + n + length A < 128"

abbreviation "command w n A \<equiv> bytes_of (w @ replicate n SPACE @ A)"

lemma parse_arguments:
  assumes "command_line w n A"
  shows "cmd_args (snd (parse_cmd_args buf (command w n A) p)) (curr_terminal p) =
    (copy_run (cmd_args p (curr_terminal p)) 0 (bytes_of A) 0 (length A))(length A := NUL)"
proof -
  let ?c = "command w n A" and ?i1 = "length w" and ?i2 = "length w + n" and ?i3 = "length w + n + length A"
  have A: "A ! 0 \<noteq> SPACE" "\<And>j. j < length A \<Longrightarrow> A ! j \<noteq> NUL" "length A > 0"
    using assms by (auto simp: command_line_def list_all_length hd_conv_nth)
  have w: "\<And>j. j < length w \<Longrightarrow> w ! j \<noteq> SPACE \<and> w ! j \<noteq> NUL" using assms by (simp add: command_line_def list_all_length)
  have len: "?i3 < 128" "0 < n" using assms by (simp_all add: command_line_def)
  have 1: "scan (\<lambda>i. ?c i \<noteq> SPACE \<and> ?c i \<noteq> NUL) 0 TERM_BUFF_SIZE = ?i1"
    by (rule scan_unique) (use w len in \<open>auto simp: bytes_of_def nth_append kbd_consts\<close>)
  have 2: "scan (\<lambda>i. ?c i = SPACE \<and> ?c i \<noteq> NUL) ?i1 (TERM_BUFF_SIZE - ?i1) = ?i2"
    by (rule scan_unique) (use A len in \<open>auto simp: bytes_of_def nth_append kbd_consts\<close>)
  have 3: "scan (\<lambda>j. ?c j \<noteq> NUL) ?i2 (TERM_BUFF_SIZE - ?i2) = ?i3"
    by (rule scan_unique) (use A len in \<open>auto simp: bytes_of_def nth_append kbd_consts\<close>)
  have "copy_run m 0 ?c ?i2 (length A) = copy_run m 0 (bytes_of A) 0 (length A)" for m
    by (auto simp: copy_run_eq bytes_of_def nth_append fun_eq_iff)
  then show ?thesis by (simp add: parse_cmd_args_def Let_def 1 2 3)
qed

lemma last_char_exists:
  assumes "j < 128" "\<not> blank (args j)"
  obtains l where "j \<le> l" "last_char args l"
proof -
  let ?S = "{l. l < 128 \<and> \<not> blank (args l)}"
  have f: "finite ?S" by simp
  have "Max ?S \<in> ?S" using assms f by (intro Max_in) auto
  moreover have "j \<le> Max ?S" using assms f by (intro Max_ge) auto
  moreover have "blank (args i)" if "Suc (Max ?S) \<le> i" "i < 128" for i
    using that Max_ge [OF f, of i] by fastforce
  ultimately show thesis by (intro that [of "Max ?S"]) (auto simp: last_char_def)
qed

text \<open>What \<^verbatim>\<open>execute\<close> leaves in the block of the new process.\<close>

lemma execute_saves_args:
  assumes "loadable ptr (command w n A) k fname d i" "command_line w n A"
    and "take 4 (contents (k_fs k) (unat (inode_idx d))) = [0x7f, 0x45, 0x4c, 0x46]"
  obtains entry k1 where "execute ptr (command w n A) k = Some (Enter_user entry, k1)"
    "\<And>j. j \<le> length A \<Longrightarrow> pcb_args (cur_pcb (k_proc k1)) j = bytes_of A j"
proof -
  let ?p = "snd (parse_cmd_args (stack_bytes k) (command w n A) (k_proc k))"
  obtain m k1 entry where k1: "execute ptr (command w n A) k = Some (Enter_user entry, k1)"
    "k_proc k1 = set_cur_pcb ((new_pcb i m ?p)\<lparr>current_esp := reg_esp k, current_ebp := reg_ebp k\<rparr>) (k_proc (started (command w n A) i m k))"
    "is_cstring (cmd_args ?p (cur_term k)) m"
    using execute_enters [OF assms(1,3)] by metis
  have c: "cmd_args ?p (cur_term k) j = bytes_of A j" if "j \<le> length A" for j
    using that parse_arguments [OF assms(2), of "stack_bytes k" "k_proc k"] by (auto simp: cur_term_def copy_run_eq bytes_of_def)
  have nn: "bytes_of A j \<noteq> NUL" if "j < length A" for j
    using that assms(2) by (simp add: command_line_def list_all_length bytes_of_def)
  have m: "m = length A"
  proof (rule linorder_cases [of m "length A"])
    assume "m < length A"
    then show ?thesis using k1(3) c [of m] nn [of m] by (simp add: is_cstring_def)
  next
    assume "length A < m"
    then show ?thesis using k1(3) c [of "length A"] by (simp add: is_cstring_def bytes_of_def)
  qed
  have "pcb_args (cur_pcb (k_proc k1)) j = bytes_of A j" if "j \<le> length A" for j
    using that c [of j] by (simp add: k1(2) new_pcb_def Let_def m cur_term_def bytes_of_def)
  with k1(1) show thesis by (rule that)
qed

text \<open>
  C11. The arguments reach the program: when \<^verbatim>\<open>execute\<close> is given a word, spaces and arguments that
  neither begin nor end with a space, \<^verbatim>\<open>getargs\<close> called by the new program with a large enough
  buffer returns 0 and the buffer holds exactly these arguments as a string, whatever an
  earlier process has left in the same slot.
\<close>

theorem args_reach_program:
  assumes "loadable ptr (command w n A) k fname d i" "command_line w n A"
    and "take 4 (contents (k_fs k) (unat (inode_idx d))) = [0x7f, 0x45, 0x4c, 0x46]"
    and "buf \<noteq> 0" "128 < unat nbytes"
  shows "\<exists>entry k1. execute ptr (command w n A) k = Some (Enter_user entry, k1) \<and>
    (\<forall>k2. pcb_args (cur_pcb (k_proc k2)) = pcb_args (cur_pcb (k_proc k1)) \<longrightarrow>
      (\<exists>k3. getargs buf nbytes k2 = Some (0, k3) \<and>
        run_of (view (get_phys k3) (phys_of k2 buf)) 0 (Suc (length A)) = A @ [NUL]))"
proof -
  obtain entry k1 where ex: "execute ptr (command w n A) k = Some (Enter_user entry, k1)"
    and args: "\<And>j. j \<le> length A \<Longrightarrow> pcb_args (cur_pcb (k_proc k1)) j = bytes_of A j"
    using execute_saves_args [OF assms(1-3)] by metis
  let ?a = "pcb_args (cur_pcb (k_proc k1))"
  have A: "A \<noteq> []" "last A \<noteq> SPACE" "NUL \<notin> set A" "length A < 128"
    using assms(2) by (auto simp: command_line_def list_all_iff)
  have "?a (length A - 1) = last A" using A(1) args [of "length A - 1"] by (simp add: bytes_of_def last_conv_nth)
  then have "\<not> blank (?a (length A - 1))" using A last_in_set [OF A(1)] by (metis blank_def)
  then obtain l where l: "length A - 1 \<le> l" "last_char ?a l" using A(4) by (elim last_char_exists [rotated]) simp_all
  have "?a 0 = A ! 0" "A ! 0 \<noteq> NUL" using A args [of 0] by (auto simp: bytes_of_def in_set_conv_nth)
  then have z: "?a 0 \<noteq> NUL" by simp
  have "\<exists>k3. getargs buf nbytes k2 = Some (0, k3) \<and> run_of (view (get_phys k3) (phys_of k2 buf)) 0 (Suc (length A)) = A @ [NUL]"
    if k2: "pcb_args (cur_pcb (k_proc k2)) = ?a" for k2
  proof -
    let ?m = "\<lambda>a. if unat (a - phys_of k2 buf) < unat nbytes
      then (if unat (a - phys_of k2 buf) \<le> l then ?a (unat (a - phys_of k2 buf)) else NUL) else get_phys k2 a"
    have g: "getargs buf nbytes k2 = Some (0, set_phys ?m k2)"
      using getargs_memory [OF assms(4,5), of k2 l] l(2) z unfolding k2 by simp
    have "view ?m (phys_of k2 buf) j = (A @ [NUL]) ! j" if "j < Suc (length A)" for j
    proof -
      have "unat (phys_of k2 buf + of_nat j - phys_of k2 buf) = j" using that A(4) by (intro unat_sub_left) simp
      then show ?thesis
        using that A(4) assms(5) l(1) args [of j] unfolding view_def by (auto simp: bytes_of_def nth_append)
    qed
    then have "run_of (view ?m (phys_of k2 buf)) 0 (Suc (length A)) = A @ [NUL]" by (intro nth_equalityI) auto
    then show ?thesis using g by simp
  qed
  then show ?thesis using ex by blast
qed

theorem args_reach_program_witness:
  "\<exists>entry k1 k3. execute 4 (command [115, 104] 1 [97]) (demo_with 127) = Some (Enter_user entry, k1) \<and>
     getargs 0x08100000 1024 k1 = Some (0, k3) \<and> run_of (view (get_phys k3) (phys_of k1 0x08100000)) 0 2 = [97, NUL]"
proof -
  have l: "loadable 4 (command [115, 104] 1 [97]) (demo_with 127) demo_name (fill_dentry (demo_fs 127) 1 2 (stack_dentry (demo_with 127))) 3"
    by (rule demo_loadable_word) (simp_all add: bytes_of_def)
  have c: "command_line [115, 104] 1 [97]" by (simp add: command_line_def)
  obtain entry k1 where "execute 4 (command [115, 104] 1 [97]) (demo_with 127) = Some (Enter_user entry, k1)"
    "\<exists>k3. getargs 0x08100000 1024 k1 = Some (0, k3) \<and> run_of (view (get_phys k3) (phys_of k1 0x08100000)) 0 (Suc (Suc 0)) = [97, NUL]"
    using args_reach_program [OF l c, of "0x08100000" 1024] unfolding demo_inode demo_with_fields demo_magic by auto
  then show ?thesis unfolding numeral_2_eq_2 by blast
qed

end
