(* ===== verification/Invariant.thy ===== *)
theory Invariant
  imports Args
begin

text \<open>
  The invariant of the running kernel and its preservation by printing, by the drivers, by
  \<^verbatim>\<open>execute\<close>, \<^verbatim>\<open>halt\<close> and the exception handler. It joins the invariants of the components:
  cursors on screen, line buffers in range, page tables of the right shape, descriptor tables
  without dangling jump tables, and a table of processes in which every current process and
  every parent is a process that exists. It relies on one property of the file system image:
  that it holds a program named \<^verbatim>\<open>shell\<close>.
\<close>

section \<open>Processes\<close>

definition started_slot :: "procs \<Rightarrow> int \<Rightarrow> bool" where
  "started_slot p i \<longleftrightarrow> 0 \<le> i \<and> i < 8 \<and> process_array p i \<noteq> 0"

text \<open>A descriptor that is on has a jump table.\<close>

definition fd_safe :: "fd_t \<Rightarrow> bool" where
  "fd_safe f \<longleftrightarrow> flags f = FD_OFF \<or> flags f = FD_ON \<and> fd_jump f \<noteq> NULL_ops"

definition fds_safe :: "fd_table_t \<Rightarrow> bool" where
  "fds_safe ft \<longleftrightarrow> (\<forall>j\<in>{0..7}. fd_safe (ft j))"

text \<open>A control block: at its address, with its own number, with safe descriptors, and a parent that exists.\<close>

definition pcb_ok :: "procs \<Rightarrow> int \<Rightarrow> bool" where
  "pcb_ok p i \<longleftrightarrow> process_array p i = pcb_addr (nat i) \<and> process_id (pcbs p (pcb_addr (nat i))) = of_int i \<and>
     fds_safe (fd_table (pcbs p (pcb_addr (nat i)))) \<and>
     (3 \<le> i \<longrightarrow> started_slot p (parent_id (pcbs p (pcb_addr (nat i)))))"

text \<open>What holds also while a base shell is about to be started, and what holds otherwise.\<close>

definition procs_base :: "procs \<Rightarrow> bool" where
  "procs_base p \<longleftrightarrow> curr_terminal p < 3 \<and> tables_ready p \<and>
     (\<forall>t<3. current_process p t = - 1 \<or> started_slot p (current_process p t)) \<and>
     (\<forall>i. started_slot p i \<longrightarrow> pcb_ok p i)"

definition procs_ok :: "procs \<Rightarrow> bool" where
  "procs_ok p \<longleftrightarrow> procs_base p \<and> started_slot p (current_process p (curr_terminal p)) \<and> (\<forall>i\<in>{0..2}. in_use p i \<noteq> 0)"

text \<open>These depend on the array of blocks, the blocks and the jump tables only.\<close>

lemma procs_cong:
  assumes "process_array q = process_array p" "pcbs q = pcbs p" "ops_tables q = ops_tables p"
  shows "started_slot q = started_slot p" "pcb_ok q = pcb_ok p" "tables_ready q = tables_ready p"
  using assms by (simp_all add: started_slot_def pcb_ok_def tables_ready_def fun_eq_iff)

lemma fds_ok_safe: "fds_ok ft \<Longrightarrow> fds_safe ft"
  by (auto simp: fds_ok_def fds_safe_def fd_entry_ok_def fd_safe_def empty_fd_def)

lemma pcb_addr_inj:
  assumes "i < 8" "j < 8" "pcb_addr i = pcb_addr j"
  shows "i = j"
proof -
  have "unat (PROCESS_SIZE * (1 + of_nat n)) = 0x2000 * (n + 1)" if "n < 8" for n
    using that by (simp add: PROCESS_SIZE_def unat_word_ariths unat_of_nat)
  moreover have "PROCESS_SIZE * (1 + of_nat i) = PROCESS_SIZE * (1 + (of_nat j :: u32))"
    using assms(3) by (simp add: pcb_addr_def)
  ultimately show ?thesis using assms(1,2) by (metis add_right_cancel mult_left_cancel zero_neq_numeral)
qed

lemma pcb_addr_nonzero: "i < 8 \<Longrightarrow> pcb_addr i \<noteq> 0"
proof
  assume "i < 8" "pcb_addr i = 0"
  then have "(0x800000 :: u32) = 0x2000 * (1 + of_nat i)" by (simp add: pcb_addr_def K_STACK_BOTTOM_def PROCESS_SIZE_def)
  then have "unat (0x800000 :: u32) = unat (0x2000 * (1 + of_nat i) :: u32)" by simp
  then show False using \<open>i < 8\<close> by (simp add: unat_word_ariths unat_of_nat)
qed

text \<open>Starting a process establishes the invariant from the base.\<close>

lemma start_process_ok:
  assumes "procs_base p" "is_cstring (cmd_args p (curr_terminal p)) n" "i < 8"
    and "3 \<le> i \<Longrightarrow> started_slot p (current_process p (curr_terminal p))"
    and "\<forall>j\<in>{0..2}. j = int i \<or> in_use p j \<noteq> 0"
  shows "\<exists>q. start_process i p = Some q \<and> procs_ok q"
proof -
  let ?q = "p\<lparr>in_use := (in_use p)(int i := 1), process_array := (process_array p)(int i := pcb_addr i),
    current_process := (current_process p)(curr_terminal p := int i), pcbs := (pcbs p)(pcb_addr i := new_pcb i n p)\<rparr>"
  have st: "started_slot ?q j \<longleftrightarrow> j = int i \<or> started_slot p j" for j
    using assms(3) pcb_addr_nonzero [of i] by (auto simp: started_slot_def)
  have new: "pcb_ok ?q (int i)"
    using assms(3,4) st fds_ok_safe [OF fd_table_init_ok, of "fd_table (pcbs p (pcb_addr i))"]
    by (auto simp: pcb_ok_def new_pcb_fields)
  have old: "pcb_ok ?q j" if "started_slot p j" "j \<noteq> int i" for j
  proof -
    have j: "0 \<le> j" "j < 8" using that by (auto simp: started_slot_def)
    then have "nat j \<noteq> i" "nat j < 8" using that by auto
    then have "pcb_addr (nat j) \<noteq> pcb_addr i" using pcb_addr_inj [of "nat j" i] assms(3) by auto
    moreover have "pcb_ok p j" using assms(1) that by (simp add: procs_base_def)
    ultimately show ?thesis using that st by (auto simp: pcb_ok_def)
  qed
  have "procs_ok ?q"
    unfolding procs_ok_def procs_base_def
    using assms(1,5) st new old by (auto simp: procs_base_def tables_ready_def)
  then show ?thesis using start_process_eq [OF assms(2)] by blast
qed

text \<open>Changes of a control block and of a descriptor table.\<close>

lemma base_set_pcb:
  assumes "procs_base p" "process_id b = process_id (cur_pcb p)" "parent_id b = parent_id (cur_pcb p)" "fds_safe (fd_table b)"
  shows "procs_base (set_cur_pcb b p)"
proof -
  have st: "started_slot (set_cur_pcb b p) = started_slot p" by (simp add: started_slot_def fun_eq_iff)
  have "pcb_ok (set_cur_pcb b p) i" if "started_slot p i" for i
  proof -
    have "pcb_ok p i" using assms(1) that by (simp add: procs_base_def)
    then show ?thesis using assms(2-4) st by (auto simp: pcb_ok_def cur_pcb_def)
  qed
  then show ?thesis using assms(1) st by (auto simp: procs_base_def tables_ready_def)
qed

lemma ok_set_pcb:
  assumes "procs_ok p" "process_id b = process_id (cur_pcb p)" "parent_id b = parent_id (cur_pcb p)" "fds_safe (fd_table b)"
  shows "procs_ok (set_cur_pcb b p)"
  using base_set_pcb [of p b] assms by (simp add: procs_ok_def started_slot_def)

lemma cur_fds_safe: "procs_ok p \<Longrightarrow> fds_safe (cur_fds p)"
  by (auto simp: procs_ok_def procs_base_def pcb_ok_def cur_fds_def cur_pcb_def cur_ptr_def)

lemma ok_set_fds: "procs_ok p \<Longrightarrow> fds_safe ft \<Longrightarrow> procs_ok (set_cur_fds ft p)"
  by (simp add: set_cur_fds_def ok_set_pcb)

lemma fds_safe_upd: "fds_safe ft \<Longrightarrow> fd_safe f \<Longrightarrow> fds_safe (ft(i := f))"
  by (simp add: fds_safe_def)

lemma ok_fd_ops:
  assumes "procs_ok p"
  shows "procs_ok (close_fd fd p)" "fd_safe f \<Longrightarrow> procs_ok (snd (set_fd_info fd f p))" "procs_ok (add_offset fd n p)"
proof -
  note s = cur_fds_safe [OF assms]
  have e: "fd_safe empty_fd" by (simp add: fd_safe_def empty_fd_def)
  show "procs_ok (close_fd fd p)" using assms s e by (simp add: close_fd_def ok_set_fds fds_safe_upd)
  show "procs_ok (snd (set_fd_info fd f p))" if "fd_safe f"
    using assms s that by (simp add: set_fd_info_def ok_set_fds fds_safe_upd)
  have "fd_safe ((cur_fds p (sint fd))\<lparr>file_position := x\<rparr>)" if "\<not> bad_index fd" for x
    using s that by (auto simp: fds_safe_def fd_safe_def bad_index_def fd_consts)
  then show "procs_ok (add_offset fd n p)"
    using assms s by (simp add: add_offset_def Let_def ok_set_fds fds_safe_upd)
qed

lemma close_all_base: "procs_ok p \<Longrightarrow> procs_ok (close_all_fd p)"
proof -
  assume p: "procs_ok p"
  have "fds_safe (clear_fds ft 0 MAX_OPEN_FILES)" for ft
    by (simp add: clear_fds_eq fds_safe_def fd_safe_def empty_fd_def fd_consts)
  then show ?thesis using p by (simp add: close_all_fd_def ok_set_fds)
qed

lemma curr_terminal_fd_ops [simp]:
  "curr_terminal (close_fd fd p) = curr_terminal p" "curr_terminal (snd (set_fd_info fd f p)) = curr_terminal p"
  "curr_terminal (add_offset fd n p) = curr_terminal p" "curr_terminal (close_all_fd p) = curr_terminal p"
  by (simp_all add: close_fd_def set_fd_info_def add_offset_def close_all_fd_def Let_def)

section \<open>Printing\<close>

text \<open>Whatever it is asked to print, the console's invariant holds when a routine returns.\<close>

lemma puts_from_ok:
  assumes "puts_from str i t s = Some r" "screen_ok s" "t < MAX_TERMINAL"
  shows "screen_ok (snd r)"
proof -
  have "screen_ok s \<and> t < MAX_TERMINAL \<longrightarrow> screen_ok (snd r)"
    using assms(1)
  proof (induction rule: puts_from.raw_induct [rotated, consumes 1, case_names step])
    case (step f str i t s r)
    then show ?case using putc_ok [of s t] by (auto split: if_splits)
  qed
  then show ?thesis using assms(2,3) by blast
qed

lemma puts_ok: "puts str t s = Some (n, s') \<Longrightarrow> screen_ok s \<Longrightarrow> t < MAX_TERMINAL \<Longrightarrow> screen_ok s'"
  by (auto simp: puts_def dest: puts_from_ok)

lemma puts_at_ok: "puts_at b off t s = Some s' \<Longrightarrow> screen_ok s \<Longrightarrow> t < MAX_TERMINAL \<Longrightarrow> screen_ok s'"
  by (auto simp: puts_at_def bind_eq_Some_conv intro: puts_ok)

lemma printf_conv_ok:
  "printf_conv c alt arg junk t s = Some (n, s') \<Longrightarrow> screen_ok s \<Longrightarrow> t < MAX_TERMINAL \<Longrightarrow> screen_ok s'"
  by (auto simp: printf_conv_def printf_hex_def printf_hex_alt_def printf_unsigned_def printf_signed_def bind_eq_Some_conv
      split: if_splits intro: puts_at_ok puts_ok putc_ok)

lemma printf_from_ok:
  assumes "printf_from format i mode args esp junk t s = Some r" "screen_ok s" "t < MAX_TERMINAL"
  shows "screen_ok (snd r)"
proof -
  have "screen_ok s \<and> t < MAX_TERMINAL \<longrightarrow> screen_ok (snd r)"
    using assms(1)
  proof (induction rule: printf_from.raw_induct [rotated, consumes 1, case_names step])
    case (step f format i mode args esp junk t s r)
    obtain n' s' where r: "r = (n', s')" by (cases r)
    show ?case
    proof (cases mode)
      case Text
      then show ?thesis using step putc_ok [of s t] by (auto split: if_splits)
    next
      case (Conv a)
      show ?thesis
        using step.IH [where b = "snd (the (printf_conv (format i) a (args esp) junk t s))"] step.IH [where b = s] step.hyps
          printf_conv_ok [of "format i" a "args esp" junk t s]
        by (fastforce simp: Conv r bind_eq_Some_conv split: if_splits)
    qed
  qed
  then show ?thesis using assms(2,3) by blast
qed

lemma message_ok: "screen_ok s \<Longrightarrow> t < MAX_TERMINAL \<Longrightarrow> screen_ok (message msg t s)"
  by (auto simp: message_def printf_def split: option.split dest: printf_from_ok)

section \<open>The invariant of the kernel\<close>

definition kernel_base :: "filesystem \<Rightarrow> kernel \<Rightarrow> bool" where
  "kernel_base fs k \<longleftrightarrow> k_fs k = fs \<and> screen_ok (k_con k) \<and> keyboard_ok (k_kbd k) \<and> procs_base (k_proc k) \<and>
     screens_ok (cur_term k) (k_pg k)"

definition kernel_inv :: "filesystem \<Rightarrow> kernel \<Rightarrow> bool" where
  "kernel_inv fs k \<longleftrightarrow> kernel_base fs k \<and> procs_ok (k_proc k)"

named_theorems inv_kernel \<open>preservation of the kernel's invariant\<close>

lemma kernel_cong:
  assumes "k_con k' = k_con k" "k_kbd k' = k_kbd k" "k_proc k' = k_proc k" "k_pg k' = k_pg k" "k_fs k' = k_fs k"
  shows "kernel_base fs k' = kernel_base fs k" "kernel_inv fs k' = kernel_inv fs k"
  using assms by (simp_all add: kernel_base_def kernel_inv_def cur_term_def)

lemma kernel_fields [simp]:
  "kernel_inv fs (k\<lparr>k_pic := s\<rparr>) = kernel_inv fs k" "kernel_inv fs (k\<lparr>k_rtc := r\<rparr>) = kernel_inv fs k"
  "kernel_inv fs (k\<lparr>tss_esp0 := e\<rparr>) = kernel_inv fs k" "kernel_inv fs (k\<lparr>tss_ss0 := x\<rparr>) = kernel_inv fs k"
  "kernel_inv fs (on_rtc g k) = kernel_inv fs k"
  "kernel_base fs (k\<lparr>tss_esp0 := e\<rparr>) = kernel_base fs k" "kernel_base fs (k\<lparr>tss_ss0 := x\<rparr>) = kernel_base fs k"
  by (rule kernel_cong; simp)+

lemma kernel_terms: "kernel_base fs k \<Longrightarrow> cur_term k < MAX_TERMINAL" "kernel_base fs k \<Longrightarrow> curr_terminal (k_proc k) < 3"
  "kernel_inv fs k \<Longrightarrow> cur_term k < MAX_TERMINAL"
  by (auto simp: kernel_base_def kernel_inv_def procs_base_def cur_term_def con_consts)

lemma base_con:
  "kernel_base fs k \<Longrightarrow> (\<And>t s. t < MAX_TERMINAL \<Longrightarrow> screen_ok s \<Longrightarrow> screen_ok (f t s)) \<Longrightarrow> kernel_base fs (on_con f k)"
  using kernel_terms(1) [of fs k] by (simp add: kernel_base_def)

lemma inv_con:
  "kernel_inv fs k \<Longrightarrow> (\<And>t s. t < MAX_TERMINAL \<Longrightarrow> screen_ok s \<Longrightarrow> screen_ok (f t s)) \<Longrightarrow> kernel_inv fs (on_con f k)"
  using base_con [of fs k f] by (simp add: kernel_inv_def)

lemma inv_kbd:
  "kernel_inv fs k \<Longrightarrow> (\<And>t b. t < MAX_TERMINAL \<Longrightarrow> keyboard_ok b \<Longrightarrow> keyboard_ok (f t b)) \<Longrightarrow> kernel_inv fs (on_kbd f k)"
  using kernel_terms(3) [of fs k] by (simp add: kernel_base_def kernel_inv_def)

lemma inv_say [inv_kernel]: "kernel_inv fs k \<Longrightarrow> kernel_inv fs (say msg k)"
  unfolding say_def by (rule inv_con) (simp_all add: message_ok)

lemma inv_write_loop [inv_kernel]: "kernel_inv fs k \<Longrightarrow> kernel_inv fs (write_loop b i n k)"
  by (induction b i n k rule: write_loop.induct) (simp_all add: inv_con putc_ok)

lemma inv_printf [inv_kernel]:
  assumes "k_printf fmt ws k = Some k'" "kernel_inv fs k"
  shows "kernel_inv fs k'"
proof -
  obtain n s' where p: "printf (cstr fmt) (\<lambda>i. num_arg (if i < length ws then ws ! i else 0)) (stack_bytes k) (cur_term k) (k_con k) = Some (n, s')"
    "k' = k\<lparr>k_con := s'\<rparr>"
    using assms(1) by (auto simp: k_printf_def bind_eq_Some_conv)
  then have "screen_ok s'"
    using assms(2) kernel_terms(3) [OF assms(2)] by (auto simp: printf_def kernel_inv_def kernel_base_def dest: printf_from_ok)
  moreover have "cur_term k' = cur_term k" using p(2) by (simp add: cur_term_def)
  ultimately show ?thesis using assms(2) p(2) by (simp add: kernel_inv_def kernel_base_def)
qed

lemma inv_phys [simp]: "kernel_inv fs (set_phys m k) = kernel_inv fs k"
proof -
  have "screen_ok (k_con (set_phys m k)) = screen_ok (k_con k)" by (simp add: set_phys_def screen_ok_def)
  then show ?thesis by (simp add: kernel_inv_def kernel_base_def)
qed

lemma inv_proc:
  assumes "kernel_inv fs k" "procs_ok (f (k_proc k))" "curr_terminal (f (k_proc k)) = curr_terminal (k_proc k)"
  shows "kernel_inv fs (on_proc f k)"
proof -
  have "cur_term (on_proc f k) = cur_term k" using assms(3) by (simp add: cur_term_def)
  then show ?thesis using assms by (simp add: kernel_inv_def kernel_base_def procs_ok_def)
qed

lemma inv_add_process [inv_kernel]:
  assumes "kernel_inv fs k" "0 \<le> i" "i < 8"
  shows "kernel_inv fs (on_pg (add_process (of_int i)) k)"
proof -
  have "(of_int i :: u32) = of_nat (nat i)" using assms(2) by simp
  then show ?thesis
    using assms screens_ok_add_process [of "cur_term k" "k_pg k" "nat i"] by (simp add: kernel_inv_def kernel_base_def)
qed

section \<open>Drivers\<close>

lemma inv_offset: "kernel_inv fs k \<Longrightarrow> kernel_inv fs (on_proc (add_offset fd n) k)"
  using ok_fd_ops(3) by (intro inv_proc) (auto simp: kernel_inv_def)

lemma inv_close_fd: "kernel_inv fs k \<Longrightarrow> kernel_inv fs (on_proc (close_fd fd) k)"
  using ok_fd_ops(1) by (intro inv_proc) (auto simp: kernel_inv_def)

lemma inv_set_fd: "kernel_inv fs k \<Longrightarrow> fd_safe f \<Longrightarrow> kernel_inv fs (on_proc (\<lambda>p. snd (set_fd_info fd f p)) k)"
  using ok_fd_ops(2) by (intro inv_proc) (auto simp: kernel_inv_def)

lemma inv_open [inv_kernel]:
  assumes "kernel_inv fs k"
  shows "kernel_inv fs (snd (dir_open f k))" "kernel_inv fs (snd (file_open f k))" "kernel_inv fs (snd (rtc_open f k))"
proof -
  have "fd_safe dir_info" "fd_safe (file_info f k)" "fd_safe rtc_info"
    by (simp_all add: fd_safe_def dir_info_def file_info_def rtc_info_def fd_consts)
  then show "kernel_inv fs (snd (dir_open f k))" "kernel_inv fs (snd (file_open f k))" "kernel_inv fs (snd (rtc_open f k))"
    using assms by (simp_all add: dir_open_def file_open_def rtc_open_def Let_def inv_set_fd inv_say)
qed

lemma inv_close [inv_kernel]:
  "kernel_inv fs k \<Longrightarrow> kernel_inv fs (snd (dir_close fd k))" "kernel_inv fs k \<Longrightarrow> kernel_inv fs (snd (file_close fd k))"
  "kernel_inv fs k \<Longrightarrow> kernel_inv fs (snd (rtc_close fd k))"
  by (simp_all add: dir_close_def file_close_def rtc_close_def inv_close_fd inv_say)

lemma inv_read [inv_kernel]:
  "kernel_inv fs k \<Longrightarrow> kernel_inv fs (snd (snd (dir_read fd b n k)))"
  "kernel_inv fs k \<Longrightarrow> kernel_inv fs (snd (snd (file_read fd b n k)))"
  by (simp_all add: dir_read_def file_read_def Let_def case_prod_beta inv_offset)

lemma inv_write [inv_kernel]:
  "kernel_inv fs k \<Longrightarrow> kernel_inv fs (snd (rtc_write fd b n k))" "kernel_inv fs k \<Longrightarrow> kernel_inv fs (snd (file_write fd k))"
  "kernel_inv fs k \<Longrightarrow> kernel_inv fs (snd (dir_write fd k))" "kernel_inv fs k \<Longrightarrow> kernel_inv fs (snd (terminal_write fd p b n k))"
  "kernel_inv fs k \<Longrightarrow> kernel_inv fs (snd (keyboard_write fd k))"
  by (simp_all add: rtc_write_def file_write_def dir_write_def terminal_write_def keyboard_write_def Let_def inv_say inv_write_loop)

lemma inv_clear [inv_kernel]: "kernel_inv fs k \<Longrightarrow> kernel_inv fs (on_con clear k)"
  by (rule inv_con) (simp_all add: clear_ok)

lemma inv_file_info_loop:
  assumes "file_info_loop fd b i d k = Some k'" "kernel_inv fs k"
  shows "kernel_inv fs k'"
proof -
  have "kernel_inv fs k \<longrightarrow> kernel_inv fs k'"
    using assms(1)
  proof (induction rule: file_info_loop.raw_induct [rotated, consumes 1, case_names step])
    case (step f fd b i d k k')
    then show ?case
      by (auto simp: Let_def case_prod_beta bind_eq_Some_conv intro!: inv_close inv_say inv_read split: if_splits)
        (meson step.IH inv_printf inv_write_loop inv_write(4) inv_say inv_read(1))
  qed
  then show ?thesis using assms(2) by blast
qed

lemma inv_print_file_info [inv_kernel]: "print_file_info k = Some k' \<Longrightarrow> kernel_inv fs k \<Longrightarrow> kernel_inv fs k'"
  by (auto simp: print_file_info_def Let_def case_prod_beta intro: inv_file_info_loop inv_kernel)

lemma inv_file_text_loop:
  assumes "file_text_loop fd b n k = Some k'" "kernel_inv fs k"
  shows "kernel_inv fs k'"
proof -
  have "kernel_inv fs k \<longrightarrow> kernel_inv fs k'"
    using assms(1)
  proof (induction rule: file_text_loop.raw_induct [rotated, consumes 1, case_names step])
    case (step f fd b n k k')
    then show ?case
      by (auto simp: Let_def case_prod_beta intro!: inv_read split: if_splits) (blast intro: step.IH [rule_format] inv_kernel)
  qed
  then show ?thesis using assms(2) by blast
qed

lemma inv_test_file_data [inv_kernel]: "test_file_data i k = Some k' \<Longrightarrow> kernel_inv fs k \<Longrightarrow> kernel_inv fs k'"
  by (auto simp: test_file_data_def print_file_text_def print_name_def Let_def case_prod_beta bind_eq_Some_conv
      intro!: inv_say inv_write_loop inv_open inv_close split: if_splits) (blast intro: inv_file_text_loop inv_kernel)

lemma inv_print_freq [inv_kernel]: "print_freq r k = Some k' \<Longrightarrow> kernel_inv fs k \<Longrightarrow> kernel_inv fs k'"
  by (auto simp: print_freq_def Let_def case_prod_beta bind_eq_Some_conv intro!: inv_say inv_open inv_close inv_write split: if_splits)
    (blast intro: inv_kernel)

section \<open>Processes under execute and halt\<close>

text \<open>The image holds a program \<open>w\<close>, an executable file with the contents \<open>C\<close> that fits the program page.\<close>

definition program_file :: "filesystem \<Rightarrow> u8 list \<Rightarrow> u8 list \<Rightarrow> bool" where
  "program_file fs w C \<longleftrightarrow> w \<noteq> [] \<and>
     (case List.find (\<lambda>e. entry_name fs e = w) [0..<MAX_ENTRIES] of
        None \<Rightarrow> False
      | Some e \<Rightarrow> let ino = unat (entry_inode_idx fs e)
          in entry_file_type fs e = 2 \<and> entry_inode_idx fs e < num_inodes fs \<and> sound_inode fs ino \<and>
             28 \<le> file_size fs ino \<and> file_size fs ino < 0x3B8000 \<and> contents fs ino = C \<and> take 4 C = [0x7f, 0x45, 0x4c, 0x46])"

lemma program_loadable:
  assumes "counts_ok (k_fs k)" "program_file (k_fs k) w C" "find_slot (in_use (k_proc k)) 0 MAX_PROCESSES = Some i" "ptr \<noteq> 0"
    and "first_word comm (length w)" "run_of comm 0 (length w) = w" "NEWLINE \<notin> set w" "length w < 32"
  obtains fname d where "loadable ptr comm k fname d i" "contents (k_fs k) (unat (inode_idx d)) = C" "take 4 C = [0x7f, 0x45, 0x4c, 0x46]"
proof -
  let ?fs = "k_fs k" and ?n = "length w"
  define fname where "fname = (copy_run (stack_bytes k) 0 comm 0 ?n)(?n := NUL)"
  obtain e where e: "List.find (\<lambda>e. entry_name ?fs e = w) [0..<MAX_ENTRIES] = Some e"
    using assms(2) by (auto simp: program_file_def split: option.splits)
  define d where "d = fill_dentry ?fs e (length (given_name fname)) (stack_dentry k)"
  have c: "comm j = w ! j" if "j < ?n" for j using assms(6) that by (metis add_0 nth_run_of)
  then have nl: "\<forall>j\<in>{0..<?n}. comm j \<noteq> NEWLINE" using assms(7) by (auto simp: in_set_conv_nth)
  have w: "fname j = comm j" if "j < ?n" for j using that by (simp add: fname_def copy_run_eq)
  then have "given_name fname = run_of fname 0 ?n"
    using assms(5,8) by (intro given_name_run) (auto simp: first_word_def fname_def fs_consts)
  also have "\<dots> = w" by (rule nth_equalityI) (simp_all add: w c)
  finally have "read_dentry_by_name ?fs fname (stack_dentry k) = (0, d)"
    using lookup_eq [OF assms(1), of fname "stack_dentry k"] e assms(2) by (simp add: d_def program_file_def)
  moreover have "get_file_name (fst (parse_cmd_args (stack_bytes k) comm (k_proc k))) (stack_bytes k) = Some fname"
    using assms(8) parse_command [OF assms(5)] get_file_name_word [OF assms(5,8) nl] by (simp add: fname_def)
  ultimately have "loadable ptr comm k fname d i" "contents ?fs (unat (inode_idx d)) = C" "take 4 C = [0x7f, 0x45, 0x4c, 0x46]"
    using assms(2-4) e by (simp_all add: loadable_def program_file_def Let_def d_def fill_dentry_def)
  then show thesis by (rule that)
qed

text \<open>What the kernel relies on: the image holds a program named \<^verbatim>\<open>shell\<close>.\<close>

definition shell_ok :: "filesystem \<Rightarrow> bool" where
  "shell_ok fs \<longleftrightarrow> counts_ok fs \<and>
     (case List.find (\<lambda>e. entry_name fs e = map byte_of_char ''shell'') [0..<MAX_ENTRIES] of
        None \<Rightarrow> False
      | Some e \<Rightarrow> let ino = unat (entry_inode_idx fs e)
          in entry_file_type fs e = 2 \<and> entry_inode_idx fs e < num_inodes fs \<and> sound_inode fs ino \<and>
             28 \<le> file_size fs ino \<and> file_size fs ino < 0x3B8000 \<and> take 4 (contents fs ino) = [0x7f, 0x45, 0x4c, 0x46])"

lemma shell_ok_iff: "shell_ok fs \<longleftrightarrow> counts_ok fs \<and> (\<exists>C. program_file fs (map byte_of_char ''shell'') C)"
  by (auto simp: shell_ok_def program_file_def Let_def split: option.splits)

lemma shell_word: "first_word (cstr ''shell'') 5" "run_of (cstr ''shell'') 0 5 = map byte_of_char ''shell''"
  "NEWLINE \<notin> set (map byte_of_char ''shell'')"
proof -
  have five: "{0..<5} = {0, 1, 2, 3, 4 :: nat}" "[0..<5] = [0, 1, 2, 3, 4 :: nat]" by (auto simp: upt_rec)
  show "first_word (cstr ''shell'') 5"
    unfolding first_word_def five by (simp_all add: cstr_def byte_of_char_def of_char_def)
  show "run_of (cstr ''shell'') 0 5 = map byte_of_char ''shell''"
    unfolding run_of_def by (simp add: five(2) cstr_def)
  show "NEWLINE \<notin> set (map byte_of_char ''shell'')" by (simp add: byte_of_char_def of_char_def)
qed

lemma shell_ptr_nonzero: "shell_ptr \<noteq> 0"
  by (simp add: shell_ptr_def)

lemma shell_loadable:
  assumes "shell_ok (k_fs k)" "find_slot (in_use (k_proc k)) 0 MAX_PROCESSES = Some i"
  obtains fname d where "loadable shell_ptr (cstr ''shell'') k fname d i"
    "take 4 (contents (k_fs k) (unat (inode_idx d))) = [0x7f, 0x45, 0x4c, 0x46]"
    "program_file (k_fs k) (map byte_of_char ''shell'') (contents (k_fs k) (unat (inode_idx d)))"
proof -
  define w where "w = map byte_of_char ''shell''"
  have w: "length w = 5" "run_of (cstr ''shell'') 0 5 = w" "NEWLINE \<notin> set w" using shell_word(2,3) by (simp_all add: w_def)
  obtain C where "counts_ok (k_fs k)" "program_file (k_fs k) w C" using assms(1) by (auto simp: shell_ok_iff w_def)
  then obtain fname d where "loadable shell_ptr (cstr ''shell'') k fname d i" "contents (k_fs k) (unat (inode_idx d)) = C" "take 4 C = [0x7f, 0x45, 0x4c, 0x46]"
    "program_file (k_fs k) w C"
    using program_loadable [OF _ _ assms(2), of w C shell_ptr "cstr ''shell''"] shell_word(1) shell_ptr_nonzero w by auto
  then show thesis using that by (simp add: w_def)
qed

text \<open>The program page after loading, and the state in which the processor is about to run the shell's code.\<close>

lemma loaded_view:
  assumes "k_pg k = add_process i p" "get_phys k = with_program (frame i OR 0x48000) C g" "length C < 2 ^ 32" "j < length C"
  shows "view (get_phys k) (phys_of k PROGRAM_START) j = C ! j"
proof -
  have "unat ((frame i OR 0x48000) + of_nat j - (frame i OR 0x48000)) = j" using assms(3,4) by (intro unat_sub_left) simp
  then show ?thesis using assms(4) phys_of_program [OF assms(1)] by (simp add: view_def assms(2) with_program_def)
qed

definition shell_loaded :: "filesystem \<Rightarrow> u32 \<Rightarrow> kernel \<Rightarrow> bool" where
  "shell_loaded fs e k \<longleftrightarrow> (\<exists>C. program_file fs (map byte_of_char ''shell'') C \<and> e = le32 (C ! 24) (C ! 25) (C ! 26) (C ! 27) \<and>
     (\<forall>j<length C. view (get_phys k) (phys_of k PROGRAM_START) j = C ! j))"

lemma run_program_inv:
  assumes "kernel_inv fs k" "process_id (pcbs (k_proc k) (pcb_addr i)) = of_nat i" "i < 8"
  shows "kernel_inv fs (snd (run_program fname buf i k))"
proof -
  have id: "(ucast (of_nat i :: u8) :: u32) = of_int (int i)"
    using assms(3) by (simp add: word_unat_eq_iff unat_of_nat unsigned_ucast_eq take_bit_nat_eq_self)
  have pcb: "kernel_inv fs (on_proc (\<lambda>p. set_cur_pcb ((cur_pcb p)\<lparr>current_esp := x, current_ebp := y\<rparr>) p) k')" if "kernel_inv fs k'" for k' x y
    using that cur_fds_safe [of "k_proc k'"]
    by (intro inv_proc ok_set_pcb) (auto simp: kernel_inv_def cur_fds_def)
  show ?thesis
    using inv_add_process [OF assms(1), of "int i"] assms
    unfolding run_program_def Let_def by (simp add: id case_prod_beta pcb)
qed

lemma base_cmd_args [simp]:
  "procs_base (snd (parse_cmd_args buf comm p)) = procs_base p" "procs_ok (snd (parse_cmd_args buf comm p)) = procs_ok p"
  using procs_cong [of "snd (parse_cmd_args buf comm p)" p]
  by (simp_all add: procs_base_def procs_ok_def) (simp_all add: parse_cmd_args_def Let_def)

text \<open>The new process takes over, whichever invariant held before.\<close>

lemma started_inv:
  assumes "kernel_base fs k" "find_slot (in_use (k_proc k)) 0 MAX_PROCESSES = Some i"
    and "is_cstring (cmd_args (snd (parse_cmd_args (stack_bytes k) comm (k_proc k))) (cur_term k)) n"
    and "3 \<le> i \<Longrightarrow> started_slot (k_proc k) (current_process (k_proc k) (cur_term k))"
    and "\<forall>j\<in>{0..2}. j = int i \<or> in_use (k_proc k) j \<noteq> 0"
  shows "kernel_inv fs (started comm i n k)" "process_id (pcbs (k_proc (started comm i n k)) (pcb_addr i)) = of_nat i" "i < 8"
proof -
  define p where "p = snd (parse_cmd_args (stack_bytes k) comm (k_proc k))"
  show i: "i < 8" using find_slot_SomeD [OF assms(2)] by (simp add: fd_consts)
  have "\<exists>q. start_process i p = Some q \<and> procs_ok q"
    using assms i by (intro start_process_ok) (auto simp: p_def kernel_base_def cur_term_def started_slot_def)
  moreover have st: "start_process i p = Some (k_proc (started comm i n k))"
    using assms(3) start_process_eq [of p n i] by (simp add: p_def started_def Let_def cur_term_def)
  moreover have "cur_term (started comm i n k) = cur_term k" by (simp add: started_def Let_def cur_term_def)
  ultimately show "kernel_inv fs (started comm i n k)"
    using assms(1) by (simp add: kernel_inv_def kernel_base_def) (simp add: started_def Let_def procs_ok_def)
  show "process_id (pcbs (k_proc (started comm i n k)) (pcb_addr i)) = of_nat i"
    by (simp add: started_def Let_def new_pcb_fields)
qed

text \<open>Everything but processes, page tables, memory and what the processor keeps for traps.\<close>

definition same_rest :: "kernel \<Rightarrow> kernel \<Rightarrow> bool" where
  "same_rest k k' \<longleftrightarrow> k_fs k' = k_fs k \<and> k_kbd k' = k_kbd k \<and> k_rtc k' = k_rtc k \<and> reg_esp k' = reg_esp k \<and> reg_ebp k' = reg_ebp k \<and>
     stack_bytes k' = stack_bytes k \<and> stack_dentry k' = stack_dentry k"

lemma same_rest_refl [simp]: "same_rest k k"
  by (simp add: same_rest_def)

lemma same_rest_trans: "same_rest k1 k2 \<Longrightarrow> same_rest k2 k3 \<Longrightarrow> same_rest k1 k3"
  by (simp add: same_rest_def)

text \<open>The console is that of before up to what is in video memory.\<close>

lemma run_program_rest:
  "same_rest k (snd (run_program fname buf i k))"
  "\<exists>v. k_con (snd (run_program fname buf i k)) = (k_con k)\<lparr>video_mem := v\<rparr> \<and> (\<forall>j. \<not> (0 \<le> j \<and> j < 4096) \<longrightarrow> v j = video_mem (k_con k) j)"
  by (simp_all add: run_program_def Let_def case_prod_beta same_rest_def on_pg_def on_proc_def set_phys_def cur_term_def)
    (auto intro: exI [of _ "video_mem (k_con k)"])

lemma started_rest: "same_rest k (started comm i n k)" "k_con (started comm i n k) = k_con k" "exception_flag (k_proc (started comm i n k)) = exception_flag (k_proc k)"
  by (simp_all add: started_def Let_def same_rest_def) (simp add: parse_cmd_args_def Let_def)

lemma execute_shell_inv:
  assumes "kernel_base fs k" "shell_ok fs" "x \<in> {0..2}" "in_use (k_proc k) x = 0" "\<forall>j\<in>{0..2}. j = x \<or> in_use (k_proc k) j \<noteq> 0"
  shows "\<exists>e k'. execute shell_ptr (cstr ''shell'') k = Some (Enter_user e, k') \<and> kernel_inv fs k' \<and> cur_term k' = cur_term k \<and>
    current_process (k_proc k') = (current_process (k_proc k))(cur_term k := x) \<and> free_fds (k_fds k') = [2, 3, 4, 5, 6, 7] \<and>
    fd_ready k' \<and> in_use (k_proc k') = (in_use (k_proc k))(x := 1) \<and> exception_flag (k_proc k') = exception_flag (k_proc k) \<and> same_rest k k' \<and>
    shell_loaded fs e k'"
proof -
  have fs: "k_fs k = fs" using assms(1) by (simp add: kernel_base_def)
  have x: "x = 0 \<or> x = 1 \<or> x = 2" using assms(3) by auto
  have m: "MAX_PROCESSES = Suc (Suc (Suc 5))" by (simp add: fd_consts)
  have slot: "find_slot (in_use (k_proc k)) 0 MAX_PROCESSES = Some (nat x)"
    unfolding m find_slot.simps
    using x assms(4) bspec [OF assms(5), of 0] bspec [OF assms(5), of 1] bspec [OF assms(5), of 2]
    by (elim disjE) (auto simp: numeral_2_eq_2)
  obtain fname d where l: "loadable shell_ptr (cstr ''shell'') k fname d (nat x)" and magic: "take 4 (contents (k_fs k) (unat (inode_idx d))) = [0x7f, 0x45, 0x4c, 0x46]"
    and pf: "program_file (k_fs k) (map byte_of_char ''shell'') (contents (k_fs k) (unat (inode_idx d)))"
    using shell_loadable [of k "nat x"] assms(2) fs slot by auto
  define C where "C = contents fs (unat (inode_idx d))"
  obtain n buf where ex: "execute shell_ptr (cstr ''shell'') k = Some (run_program fname buf (nat x) (started (cstr ''shell'') (nat x) n k))"
    and n: "is_cstring (cmd_args (snd (parse_cmd_args (stack_bytes k) (cstr ''shell'') (k_proc k))) (cur_term k)) n"
    using execute_starts [OF l] by metis
  obtain k' m where en: "execute shell_ptr (cstr ''shell'') k = Some (Enter_user (le32 (C ! 24) (C ! 25) (C ! 26) (C ! 27)), k')"
    and pg: "k_pg k' = add_process (of_nat (nat x)) (k_pg k)" and ph: "get_phys k' = with_program (frame (of_nat (nat x)) OR 0x48000) C (get_phys k)"
    and pr: "k_proc k' = set_cur_pcb ((new_pcb (nat x) m (snd (parse_cmd_args (stack_bytes k) (cstr ''shell'') (k_proc k))))
       \<lparr>current_esp := reg_esp k, current_ebp := reg_ebp k\<rparr>) (k_proc (started (cstr ''shell'') (nat x) m k))"
    using execute_enters [OF l magic] unfolding C_def fs by metis
  have "length C < 2 ^ 32" using unat_u32_less by (simp add: C_def contents_def file_size_def)
  then have load: "shell_loaded fs (le32 (C ! 24) (C ! 25) (C ! 26) (C ! 27)) k'"
    using pf loaded_view [OF pg ph] by (auto simp: shell_loaded_def C_def fs)
  have k': "k' = snd (run_program fname buf (nat x) (started (cstr ''shell'') (nat x) n k))" using ex en by (metis option.inject snd_conv)
  have inv: "kernel_inv fs k'" unfolding k' by (rule run_program_inv [OF started_inv]) (use assms slot n x in auto)
  have "same_rest k k'" unfolding k' by (rule same_rest_trans [OF started_rest(1) run_program_rest(1)])
  moreover have "cur_term k' = cur_term k \<and> current_process (k_proc k') = (current_process (k_proc k))(cur_term k := x) \<and>
      free_fds (k_fds k') = [2, 3, 4, 5, 6, 7] \<and> fds_ok (k_fds k') \<and> in_use (k_proc k') = (in_use (k_proc k))(x := 1) \<and>
      exception_flag (k_proc k') = exception_flag (k_proc k)"
    unfolding cur_term_def [of k'] k_fds_def pr using x
    by (auto simp: started_fields started_rest cur_fds_def new_pcb_fields fd_table_init_free fd_table_init_ok)
  moreover have "tables_ready (k_proc k')" using inv by (simp add: kernel_inv_def procs_ok_def procs_base_def)
  ultimately show ?thesis using en inv load by (auto simp: fd_ready_def)
qed

lemma inv_execute [inv_kernel]:
  assumes "execute ptr comm k = Some (c, k')" "kernel_inv fs k"
  shows "kernel_inv fs k'"
proof -
  obtain n where n: "is_cstring (cmd_args (snd (parse_cmd_args (stack_bytes k) comm (k_proc k))) (cur_term k)) n"
    using parse_args_cstring [of "stack_bytes k" comm "k_proc k"] by (auto simp: cur_term_def)
  define k1 where "k1 = k\<lparr>k_proc := snd (parse_cmd_args (stack_bytes k) comm (k_proc k))\<rparr>"
  have "k1 = on_proc (\<lambda>p. snd (parse_cmd_args (stack_bytes k) comm p)) k" by (simp add: k1_def on_proc_def)
  then have k1: "kernel_inv fs k1" using inv_proc [OF assms(2)] assms(2) by (simp add: kernel_inv_def)
  have run: "kernel_inv fs k'" if "find_slot (in_use (k_proc k)) 0 MAX_PROCESSES = Some i" "run_program fname buf i (started comm i n k) = (c, k')"
    for fname buf i
  proof -
    have "kernel_inv fs (snd (run_program fname buf i (started comm i n k)))"
      by (intro run_program_inv [OF started_inv]) (use assms(2) that(1) n in \<open>auto simp: kernel_inv_def procs_ok_def cur_term_def\<close>)
    then show ?thesis using that(2) by simp
  qed
  have st: "start_process i (k_proc k1) = Some (k_proc (started comm i n k))" "k1\<lparr>k_proc := k_proc (started comm i n k)\<rparr> = started comm i n k" for i
    using n start_process_eq [of "k_proc k1" n i] by (simp_all add: k1_def started_def Let_def cur_term_def)
  show ?thesis
    using assms run k1 st inv_say [OF k1] unfolding execute_def
    by (auto simp: Let_def case_prod_beta k1_def [symmetric] split: if_splits option.splits) (auto simp: k1_def)
qed

lemma base_in_use [simp]: "kernel_base fs (on_proc (\<lambda>p. p\<lparr>in_use := f p\<rparr>) k) = kernel_base fs k"
  using procs_cong [of "(k_proc k)\<lparr>in_use := f (k_proc k)\<rparr>" "k_proc k"]
  by (simp add: kernel_base_def procs_base_def cur_term_def)

lemma inv_cur:
  assumes "kernel_inv fs k"
  defines "i \<equiv> current_process (k_proc k) (cur_term k)"
  shows "0 \<le> i" "i < 8" "process_id (cur_pcb (k_proc k)) = of_int i"
    "3 \<le> i \<Longrightarrow> started_slot (k_proc k) (parent_id (cur_pcb (k_proc k)))"
proof -
  have st: "started_slot (k_proc k) i" "pcb_ok (k_proc k) i"
    using assms(1) by (auto simp: kernel_inv_def procs_ok_def procs_base_def i_def cur_term_def)
  then show "0 \<le> i" "i < 8" by (auto simp: started_slot_def)
  have "cur_pcb (k_proc k) = pcbs (k_proc k) (pcb_addr (nat i))"
    using st(2) by (simp add: cur_pcb_def cur_ptr_def pcb_ok_def i_def cur_term_def)
  then show "process_id (cur_pcb (k_proc k)) = of_int i" "3 \<le> i \<Longrightarrow> started_slot (k_proc k) (parent_id (cur_pcb (k_proc k)))"
    using st(2) by (simp_all add: pcb_ok_def)
qed

lemma leave_process_inv:
  assumes "kernel_inv fs k" "3 \<le> current_process (k_proc k) (cur_term k)"
  shows "kernel_inv fs (snd (leave_process status k))"
proof -
  let ?t = "cur_term k" and ?p = "k_proc k"
  define f where "f = (\<lambda>p. p\<lparr>extended_status := (0xFF AND ucast status) + exception_flag p, exception_flag := 0,
    in_use := (in_use p)(current_process p ?t := 0), current_process := (current_process p)(?t := parent_id (cur_pcb p))\<rparr>)"
  have par: "started_slot ?p (parent_id (cur_pcb ?p))" using inv_cur(4) [OF assms] .
  then have r: "0 \<le> parent_id (cur_pcb ?p)" "parent_id (cur_pcb ?p) < 8" by (auto simp: started_slot_def)
  have ok: "procs_ok ?p" using assms(1) by (simp add: kernel_inv_def)
  have st: "started_slot (f p) = started_slot p" "pcb_ok (f p) = pcb_ok p" "tables_ready (f p) = tables_ready p" for p
    by (rule procs_cong; simp add: f_def)+
  have "procs_ok (f ?p)"
    using ok par assms(2) unfolding procs_ok_def procs_base_def st by (auto simp: f_def cur_term_def)
  then have "kernel_inv fs (on_proc f k)" by (intro inv_proc assms(1)) (simp_all add: f_def)
  then have "kernel_inv fs (on_pg (add_process (of_int (parent_id (cur_pcb ?p)))) (on_proc f k))"
    using r by (rule inv_add_process)
  moreover have "cur_pcb (p\<lparr>extended_status := e, exception_flag := g, in_use := u\<rparr>) = cur_pcb p"
    "cur_pcb (p\<lparr>extended_status := e, exception_flag := g\<rparr>) = cur_pcb p" for p e g u
    by (simp_all add: cur_pcb_def cur_ptr_def)
  then have "\<exists>e x. snd (leave_process status k) =
      (on_pg (add_process (of_int (parent_id (cur_pcb ?p)))) (on_proc f k))\<lparr>tss_esp0 := e, tss_ss0 := x\<rparr>"
    by (intro exI) (simp add: leave_process_def Let_def on_proc_def on_pg_def cur_term_def f_def)
  ultimately show ?thesis by auto
qed

lemma inv_close_all: "kernel_inv fs k \<Longrightarrow> kernel_inv fs (on_proc close_all_fd k)"
  using close_all_base by (intro inv_proc) (auto simp: kernel_inv_def)

lemma close_all_cur [simp]: "current_process (close_all_fd p) = current_process p" "cur_term (on_proc close_all_fd k) = cur_term k"
  by (simp_all add: close_all_fd_def cur_term_def)

lemma halt_base:
  assumes "kernel_inv fs k" "shell_ok fs"
  defines "i \<equiv> current_process (k_proc k) (cur_term k)"
  assumes "i < 3"
  shows "\<exists>e k'. halt status k = Some (Enter_user e, k') \<and> kernel_inv fs k' \<and> cur_term k' = cur_term k \<and>
    current_process (k_proc k') = (current_process (k_proc k))(cur_term k := i) \<and> free_fds (k_fds k') = [2, 3, 4, 5, 6, 7] \<and>
    fd_ready k' \<and> in_use (k_proc k') = (in_use (k_proc k))(i := 1) \<and> exception_flag (k_proc k') = exception_flag (k_proc k) \<and> same_rest k k' \<and>
    shell_loaded fs e k'"
proof -
  define k1 where "k1 = on_proc close_all_fd k"
  have k1: "kernel_inv fs k1" using assms(1) by (simp add: k1_def inv_close_all)
  have i: "current_process (k_proc k1) (cur_term k1) = i" by (simp add: k1_def i_def)
  note cur = inv_cur [OF k1, unfolded i]
  have u: "uint (of_int i :: u8) = i" using cur(1,2) by (simp add: uint_word_of_int take_bit_int_eq_self)
  then have lt: "(of_int i :: u8) < 3" using assms(4) by (simp add: word_less_def)
  define k2 where "k2 = on_proc (\<lambda>p. p\<lparr>in_use := (in_use p)(i := 0)\<rparr>) k1"
  have "kernel_base fs k2" using k1 by (simp add: k2_def kernel_inv_def)
  moreover have "\<forall>j\<in>{0..2}. j = i \<or> in_use (k_proc k2) j \<noteq> 0" "in_use (k_proc k2) i = 0" "i \<in> {0..2}"
    using k1 cur(1) assms(4) by (auto simp: k2_def kernel_inv_def procs_ok_def)
  ultimately obtain e k3 where "execute shell_ptr (cstr ''shell'') k2 = Some (Enter_user e, k3)" "kernel_inv fs k3" "cur_term k3 = cur_term k2"
    "current_process (k_proc k3) = (current_process (k_proc k2))(cur_term k2 := i)" "free_fds (k_fds k3) = [2, 3, 4, 5, 6, 7]" "same_rest k2 k3"
    "fd_ready k3" "in_use (k_proc k3) = (in_use (k_proc k2))(i := 1)" "exception_flag (k_proc k3) = exception_flag (k_proc k2)"
    "shell_loaded fs e k3"
    using execute_shell_inv [of fs k2 i] assms(2) by auto
  moreover have "cur_term k2 = cur_term k" "current_process (k_proc k2) = current_process (k_proc k)" "same_rest k k2"
    "in_use (k_proc k1) = in_use (k_proc k)" "exception_flag (k_proc k2) = exception_flag (k_proc k)"
    by (simp_all add: k2_def k1_def cur_term_def same_rest_def on_proc_def close_all_fd_def set_cur_fds_def set_cur_pcb_def)
  ultimately show ?thesis
    using lt u same_rest_trans unfolding halt_def k1_def [symmetric] by (simp add: Let_def cur(3) k2_def)
qed

lemma inv_halt [inv_kernel]:
  assumes "halt status k = Some (c, k')" "kernel_inv fs k" "shell_ok fs"
  shows "kernel_inv fs k'"
proof (cases "current_process (k_proc k) (cur_term k) < 3")
  case True
  then show ?thesis using halt_base [OF assms(2,3), of status] assms(1) by auto
next
  case False
  let ?i = "current_process (k_proc k) (cur_term k)"
  note cur = inv_cur [OF assms(2)]
  have "uint (of_int ?i :: u8) = ?i" using cur(1,2) by (simp add: uint_word_of_int take_bit_int_eq_self)
  then have "3 \<le> process_id (cur_pcb (k_proc k))" using False by (simp add: cur(3) word_le_def)
  then have "halt status k = Some (leave_process status (on_proc close_all_fd k))" by (rule halt_program)
  moreover have "kernel_inv fs (snd (leave_process status (on_proc close_all_fd k)))"
    using False assms(2) by (intro leave_process_inv inv_close_all) simp_all
  ultimately show ?thesis using assms(1) by (metis option.inject snd_conv)
qed

lemma inv_exception [inv_kernel]:
  assumes "exception_handler cr2 i k = Some (c, k')" "kernel_inv fs k" "shell_ok fs"
  shows "kernel_inv fs k'"
proof -
  have flag: "kernel_inv fs (on_proc (\<lambda>p. p\<lparr>exception_flag := 1\<rparr>) k')" if "kernel_inv fs k'" for k'
    using that procs_cong [of "(k_proc k')\<lparr>exception_flag := 1\<rparr>" "k_proc k'"]
    by (intro inv_proc) (simp_all add: kernel_inv_def procs_ok_def procs_base_def)
  define k1 where "k1 = (if i < 32 then say (line (exception_names ! i)) (on_con clear k) else on_con clear k)"
  have k1: "kernel_inv fs k1" using assms(2) by (simp add: k1_def inv_say inv_clear)
  obtain k2 where k2: "(if i = 14 then print_cr2 cr2 k1 else Some k1) = Some k2" "halt 255 (on_proc (\<lambda>p. p\<lparr>exception_flag := 1\<rparr>) k2) = Some (c, k')"
    using assms(1) unfolding exception_handler_def Let_def k1_def [symmetric] by (auto simp: bind_eq_Some_conv)
  have "kernel_inv fs k2" using k2(1) k1 inv_printf [OF _ k1] by (auto simp: print_cr2_def split: if_splits)
  then show ?thesis using inv_halt [OF k2(2) flag assms(3)] by blast
qed

end
