(* ===== verification/Running.thy ===== *)
theory Running
  imports Invariant
begin

text \<open>
  The running kernel: the invariant is kept by every interrupt and every system call, hence
  by any sequence of them, of exceptions and of what programs do to memory. The step relation
  \<open>kstep\<close> says what can happen; the properties hold in every reachable state.
\<close>

section \<open>Terminals and interrupts\<close>

text \<open>Leaving one terminal for another: the processes are those of before, seen from there.\<close>

lemma base_terminals: "procs_base p \<Longrightarrow> t < 3 \<Longrightarrow> procs_base (p\<lparr>old_terminal := s, curr_terminal := t\<rparr>)"
  using procs_cong [of "p\<lparr>old_terminal := s, curr_terminal := t\<rparr>" p] by (simp add: procs_base_def)

lemma switch_procs_base:
  assumes "procs_ok p" "new < 3"
  shows "procs_base ((set_cur_pcb ((cur_pcb p)\<lparr>return_esp := x, return_ebp := y\<rparr>) p)\<lparr>old_terminal := old, curr_terminal := new\<rparr>)"
proof -
  have "procs_base (set_cur_pcb ((cur_pcb p)\<lparr>return_esp := x, return_ebp := y\<rparr>) p)"
    using assms(1) cur_fds_safe [OF assms(1)] by (intro base_set_pcb) (simp_all add: procs_ok_def cur_fds_def)
  then show ?thesis using assms(2) by (rule base_terminals)
qed

lemma swap_screens_frame [simp]: "k_fs (swap_screens o' n k) = k_fs k" "k_kbd (swap_screens o' n k) = k_kbd k"
  "screen_ok (k_con (swap_screens o' n k)) = screen_ok (k_con k)"
  by (simp_all add: swap_screens_def copy_page_def Let_def) (simp add: set_phys_def screen_ok_def)

lemma resume_terminal_inv:
  assumes "kernel_base fs k" "started_slot (k_proc k) (current_process (k_proc k) (cur_term k))" "\<forall>j\<in>{0..2}. in_use (k_proc k) j \<noteq> 0"
  shows "kernel_inv fs (snd (resume_terminal k))"
proof -
  have "kernel_inv fs k" using assms by (simp add: kernel_inv_def kernel_base_def procs_ok_def cur_term_def)
  then have "kernel_inv fs (on_pg (add_process (of_int (current_process (k_proc k) (cur_term k)))) k)"
    using assms(2) by (intro inv_add_process) (auto simp: started_slot_def)
  then show ?thesis by (simp add: resume_terminal_def Let_def)
qed

lemma inv_terminal_switch [inv_kernel]:
  assumes "terminal_switch n k = Some (c, k')" "kernel_inv fs k" "shell_ok fs"
  shows "kernel_inv fs k'"
proof (cases "unat n = cur_term k \<or> unat n \<ge> MAX_TERMINAL")
  case True
  then show ?thesis using assms(1,2) by (auto simp: terminal_switch_def split: if_splits)
next
  case False
  let ?old = "cur_term k" and ?new = "unat n"
  have t: "?old < 3" "?new < 3" "?old \<noteq> ?new" using False kernel_terms(3) [OF assms(2)] by (auto simp: con_consts)
  define q where "q = (set_cur_pcb ((cur_pcb (k_proc k))\<lparr>return_esp := reg_esp k, return_ebp := reg_ebp k\<rparr>) (k_proc k))
    \<lparr>old_terminal := ?old, curr_terminal := ?new\<rparr>"
  define k1 where "k1 = on_con update_cursor (swap_screens ?old ?new (k\<lparr>k_proc := q\<rparr>))"
  have sc: "screens_ok ?old (k_pg (k\<lparr>k_proc := q\<rparr>))" using assms(2) by (simp add: kernel_inv_def kernel_base_def)
  have k1: "k_proc k1 = q" "cur_term k1 = ?new" by (simp_all add: k1_def cur_term_def q_def)
  have q: "procs_base q" "\<forall>j\<in>{0..2}. in_use q j \<noteq> 0"
    using assms(2) switch_procs_base [OF _ t(2)] by (simp_all add: kernel_inv_def q_def) (simp add: procs_ok_def)
  have base: "kernel_base fs k1"
    using assms(2) k1 q(1) swap_screens_ok [OF sc t] by (simp add: kernel_inv_def kernel_base_def) (simp add: k1_def)
  have ts: "terminal_switch n k = (if current_process q ?new = - 1
      then Option.bind (execute shell_ptr (cstr ''shell'') (on_proc (\<lambda>p. p\<lparr>in_use := (in_use p)(int ?new := 0)\<rparr>) k1))
             (\<lambda>(c, k). case c of Return r \<Rightarrow> Some (resume_terminal k) | _ \<Rightarrow> Some (c, k))
      else Some (resume_terminal k1))"
    using False by (simp add: terminal_switch_def Let_def k1_def q_def on_proc_def cur_term_def)
  show ?thesis
  proof (cases "current_process q ?new = - 1")
    case True
    define k2 where "k2 = on_proc (\<lambda>p. p\<lparr>in_use := (in_use p)(int ?new := 0)\<rparr>) k1"
    have "int ?new \<le> 2" using t(2) by linarith
    then have "\<forall>j\<in>{0..2}. j = int ?new \<or> in_use (k_proc k2) j \<noteq> 0" "in_use (k_proc k2) (int ?new) = 0" "int ?new \<in> {0..2}"
      using q(2) by (auto simp: k2_def k1)
    then obtain e k3 where "execute shell_ptr (cstr ''shell'') k2 = Some (Enter_user e, k3)" "kernel_inv fs k3"
      using execute_shell_inv [of fs k2 "int ?new"] assms(3) base by (auto simp: k2_def)
    then show ?thesis using assms(1) True unfolding ts k2_def by simp
  next
    case cur: False
    then have "started_slot q (current_process q ?new)" using q(1) t(2) by (auto simp: procs_base_def)
    then have "kernel_inv fs (snd (resume_terminal k1))" using base q(2) k1 by (intro resume_terminal_inv) simp_all
    then show ?thesis using assms(1) cur unfolding ts by (metis option.inject snd_conv)
  qed
qed

lemma inv_redraw [inv_kernel]: "kernel_inv fs k \<Longrightarrow> kernel_inv fs (redraw_line k)"
  by (simp add: redraw_line_def Let_def inv_write_loop inv_say inv_clear)

lemma inv_CTR: "kernel_inv fs (on_kbd (\<lambda>t. CTR3_update f) k) = kernel_inv fs k" "kernel_inv fs (on_kbd (\<lambda>t. CTR4_update f) k) = kernel_inv fs k"
  "kernel_inv fs (on_kbd (\<lambda>t. kbdr_flag_update f) k) = kernel_inv fs k"
  by (simp_all add: kernel_inv_def kernel_base_def keyboard_ok_def)

lemma inv_show_next_file [inv_kernel]:
  assumes "show_next_file k = Some (c, k')" "kernel_inv fs k" "shell_ok fs"
  shows "kernel_inv fs k'"
proof -
  obtain k1 where k1: "test_file_data (of_int (CTR3 (k_kbd k))) (on_con clear k) = Some k1"
    using assms(1) by (auto simp: show_next_file_def bind_eq_Some_conv)
  then have "kernel_inv fs k1" using assms(2) by (intro inv_test_file_data [OF k1] inv_clear)
  then show ?thesis
    using assms(1,3) k1 inv_exception [of 0 0 _ c k' fs] by (auto simp: show_next_file_def Let_def keep_def inv_CTR split: if_splits)
qed

lemma inv_show_next_freq [inv_kernel]:
  assumes "show_next_freq k = Some (c, k')" "kernel_inv fs k"
  shows "kernel_inv fs k'"
  using assms inv_clear [OF assms(2)] inv_print_freq [of _ _ _ fs]
  by (auto simp: show_next_freq_def Let_def keep_def bind_eq_Some_conv inv_CTR split: if_splits)

lemma inv_process_key [inv_kernel]:
  assumes "process_key key k = Some (c, k')" "kernel_inv fs k" "shell_ok fs"
  shows "kernel_inv fs k'"
proof -
  have store: "kernel_inv fs (on_kbd (store_key x) (on_con (putc x) k))" if "buffer_index (k_kbd k) (cur_term k) + 1 < int BUFFER_SIZE" for x
    using assms(2) kernel_terms(3) [OF assms(2)] that store_key_ok [of "k_kbd k" "cur_term k"] putc_ok [of "k_con k" "cur_term k"]
    by (simp add: kernel_inv_def kernel_base_def)
  have keep: "kernel_inv fs k'" if "keep k1 = Some (c, k')" "kernel_inv fs k1" for k1
    using that by (simp add: keep_def)
  have listing: "kernel_inv fs k'" if "Option.bind (print_file_info (on_con clear k)) keep = Some (c, k')"
    using that assms(2) inv_print_file_info [OF _ inv_clear] by (auto simp: bind_eq_Some_conv keep_def)
  show ?thesis
    using assms(1) keep [OF _ store] keep [OF _ assms(2)] keep [OF _ inv_redraw [OF assms(2)]] listing
      inv_terminal_switch [OF _ assms(2,3)] inv_show_next_file [OF _ assms(2,3)] inv_show_next_freq [OF _ assms(2)]
    unfolding process_key_def Let_def by (simp split: if_splits)
qed

lemma inv_handle_keys [inv_kernel]:
  assumes "kernel_inv fs k"
  shows "kernel_inv fs (handle_backspace k)" "kernel_inv fs (handle_enter k)"
proof -
  note t = kernel_terms(3) [OF assms]
  show "kernel_inv fs (handle_backspace k)"
    using assms t drop_key_ok [of "k_kbd k" "cur_term k"] backspace_ok [of "k_con k" "cur_term k"]
    by (simp add: handle_backspace_def kernel_inv_def kernel_base_def)
  have "kernel_inv fs (on_con scroll (on_kbd (\<lambda>t. kbdr_flag_update (\<lambda>_. 1)) k))"
    using assms by (intro inv_con) (simp_all add: inv_CTR scroll_ok)
  then have "kernel_inv fs (on_kbd (\<lambda>t b. snd (terminal_read 1 4 (buffer b t) (of_int (buffer_index b t)) t b))
      (on_con scroll (on_kbd (\<lambda>t. kbdr_flag_update (\<lambda>_. 1)) k)))"
    by (rule inv_kbd) (simp add: terminal_read_ok)
  then show "kernel_inv fs (handle_enter k)"
    unfolding handle_enter_def Let_def by (rule inv_kbd) (simp add: clear_buffer_ok)
qed

lemma inv_keyboard_handler [inv_kernel]:
  assumes "keyboard_handler key k = Some (c, k')" "kernel_inv fs k" "shell_ok fs"
  shows "kernel_inv fs k'"
proof -
  define k0 where "k0 = k\<lparr>k_pic := send_eoi KBD_IRQ (k_pic k)\<rparr>"
  have k0: "kernel_inv fs k0" using assms(2) by (simp add: k0_def)
  have tog: "kernel_inv fs (on_kbd toggle_caps k0)" "kernel_inv fs (on_kbd (toggle_shift m) k0)"
    "kernel_inv fs (on_kbd (\<lambda>t. toggle_ctrl m) k0)" "kernel_inv fs (on_kbd (\<lambda>t. toggle_alt m) k0)" for m
    using k0 by (auto intro!: inv_kbd toggles_ok)
  show ?thesis
    using assms(1) tog inv_handle_keys [OF k0] inv_process_key [OF _ k0 assms(3)]
    unfolding keyboard_handler_def Let_def k0_def [symmetric] keep_def by (auto split: if_splits)
qed

lemma inv_interrupt [inv_kernel]:
  "interrupt e k = Some (c, k') \<Longrightarrow> kernel_inv fs k \<Longrightarrow> shell_ok fs \<Longrightarrow> kernel_inv fs k'"
  by (cases e) (auto simp: interrupt_def keep_def case_prod_beta intro: inv_keyboard_handler)

lemma inv_spin [inv_kernel]:
  "spin ready es k = Some (c, es', k') \<Longrightarrow> kernel_inv fs k \<Longrightarrow> shell_ok fs \<Longrightarrow> kernel_inv fs k'"
proof (induction es arbitrary: k)
  case (Cons e es)
  show ?case
  proof (cases "ready k")
    case False
    then obtain c1 k1 where k1: "interrupt e k = Some (c1, k1)"
      "(case c1 of Return r \<Rightarrow> spin ready es k1 | _ \<Rightarrow> Some (c1, es, k1)) = Some (c, es', k')"
      using Cons.prems(1) by (auto simp: bind_eq_Some_conv)
    then have "kernel_inv fs k1" using inv_interrupt Cons.prems by blast
    then show ?thesis using k1(2) Cons.IH [of k1] Cons.prems(3) by (cases c1) auto
  qed (use Cons.prems in simp)
qed (auto split: if_splits)

section \<open>System calls\<close>

lemma inv_keyboard_read [inv_kernel]:
  assumes "keyboard_read fd ptr buf n es k = Some (c, b, es', k')" "kernel_inv fs k" "shell_ok fs"
  shows "kernel_inv fs k'"
proof (cases "ptr = 0")
  case False
  define k0 where "k0 = on_kbd (\<lambda>t. kbdr_flag_update (\<lambda>_. 0)) k"
  have k0: "kernel_inv fs k0" using assms(2) by (simp add: k0_def inv_CTR)
  obtain c1 es1 k1 where s: "spin (\<lambda>k. kbdr_flag (k_kbd k) = 1) es k0 = Some (c1, es1, k1)"
    using assms(1) False by (auto simp: keyboard_read_def k0_def Let_def bind_eq_Some_conv)
  then have "k' = k1"
    using assms(1) False by (cases c1) (auto simp: keyboard_read_def k0_def Let_def case_prod_beta)
  then show ?thesis using inv_spin [OF s k0 assms(3)] by simp
qed (use assms in \<open>auto simp: keyboard_read_def inv_CTR\<close>)

lemma inv_rtc_read [inv_kernel]:
  "rtc_read fd es k = Some (c, es', k') \<Longrightarrow> kernel_inv fs k \<Longrightarrow> shell_ok fs \<Longrightarrow> kernel_inv fs k'"
  unfolding rtc_read_def by (erule inv_spin) simp_all

lemma inv_kbd_set: "kernel_inv fs k \<Longrightarrow> keyboard_ok b \<Longrightarrow> kernel_inv fs (k\<lparr>k_kbd := b\<rparr>)"
  by (simp add: kernel_inv_def kernel_base_def cur_term_def)

lemma inv_sys_read [inv_kernel]:
  assumes "sys_read fd ptr buf n es k = Some (c, b, es', k')" "kernel_inv fs k" "shell_ok fs"
  shows "kernel_inv fs k'"
proof -
  have "kernel_inv fs (k\<lparr>k_kbd := snd (terminal_read fd ptr buf n (cur_term k) (k_kbd k))\<rparr>)"
    using assms(2) by (intro inv_kbd_set terminal_read_ok) (simp_all add: kernel_inv_def kernel_base_def)
  then show ?thesis
    using assms(1) inv_say [OF assms(2)] assms(2) inv_read [OF assms(2)] inv_keyboard_read [OF _ assms(2,3)] inv_rtc_read [OF _ assms(2,3)]
    unfolding sys_read_def by (auto simp: Let_def case_prod_beta bind_eq_Some_conv split: if_splits fop.splits)
qed

lemma inv_sys_write [inv_kernel]: "sys_write fd ptr buf n k = Some (r, k') \<Longrightarrow> kernel_inv fs k \<Longrightarrow> kernel_inv fs k'"
  using inv_say [of fs k] inv_write [of fs k]
  by (auto simp: sys_write_def prod_eq_iff split: if_splits fop.splits)

lemma inv_call_open: "call_open f name k = Some (r, k') \<Longrightarrow> kernel_inv fs k \<Longrightarrow> kernel_inv fs k'"
  using inv_open [of fs k name] by (cases f) (auto simp: call_open_def prod_eq_iff terminal_open_def keyboard_open_def)

lemma inv_sys_open [inv_kernel]: "sys_open ptr name k = Some (r, k') \<Longrightarrow> kernel_inv fs k \<Longrightarrow> kernel_inv fs k'"
  using inv_say [of fs k] inv_call_open [of _ name k r k' fs]
  by (auto simp: sys_open_def Let_def case_prod_beta split: if_splits)

lemma inv_sys_close [inv_kernel]: "sys_close fd k = Some (r, k') \<Longrightarrow> kernel_inv fs k \<Longrightarrow> kernel_inv fs k'"
  using inv_say [of fs k] inv_close [of fs k fd]
  by (auto simp: sys_close_def prod_eq_iff terminal_close_def keyboard_close_def split: if_splits fop.splits)

lemma inv_getargs [inv_kernel]: "getargs ptr n k = Some (r, k') \<Longrightarrow> kernel_inv fs k \<Longrightarrow> kernel_inv fs k'"
  by (auto simp: getargs_def Let_def bind_eq_Some_conv split: if_splits)

lemma vidmap_screens: "screens_ok t p \<Longrightarrow> t < 3 \<Longrightarrow> screens_ok t (map_virt_to_phys (term_page t) USER_VIDEO_PAGE p)"
  using vid_index [of t] map_video_ok [of p "term_page t"]
  by (simp add: screens_ok_def term_page_def FOURKiB_def) (simp add: map_virt_to_phys_def)

lemma inv_vidmap [inv_kernel]:
  assumes "kernel_inv fs k"
  shows "kernel_inv fs (snd (vidmap p k))"
proof -
  have t: "cur_term k < 3" using kernel_terms(3) [OF assms] by (simp add: con_consts)
  have "kernel_inv fs (on_pg (map_virt_to_phys (term_page (cur_term k)) USER_VIDEO_PAGE) (set_phys m k))" for m
  proof -
    have "kernel_inv fs (set_phys m k)" using assms by simp
    then show ?thesis using vidmap_screens [OF _ t] by (simp add: kernel_inv_def kernel_base_def)
  qed
  then show ?thesis
    using term_cases [OF t] inv_say [OF assms]
    by (auto simp: vidmap_def Let_def term_page_def FOURKiB_def paging_consts)
qed

lemma inv_syscall [inv_kernel]:
  assumes "syscall_handler eax ebx ecx edx ubuf es k = Some (c, b, es', k')" "kernel_inv fs k" "shell_ok fs"
  shows "kernel_inv fs k'"
  using assms(1) assms(2) inv_vidmap [OF assms(2)] inv_halt [OF _ assms(2,3)] inv_execute [OF _ assms(2)] inv_sys_read [OF _ assms(2,3)]
    inv_sys_write [OF _ assms(2)] inv_sys_open [OF _ assms(2)] inv_sys_close [OF _ assms(2)] inv_getargs [OF _ assms(2)]
  unfolding syscall_handler_def plain_def leaving_def
  by (auto simp: bind_eq_Some_conv case_prod_beta prod_eq_iff split: if_splits)

section \<open>Runs of the kernel\<close>

text \<open>
  What can happen to the kernel: an interrupt, an exception, a system call of the running
  program with any arguments, a program's store to memory, and anything that happens to the
  stack between two entries (the registers and what uninitialised locals will hold).
\<close>

inductive kstep :: "kernel \<Rightarrow> kernel \<Rightarrow> bool" where
  irq: "interrupt e k = Some (c, k') \<Longrightarrow> kstep k k'"
| fault: "exception_handler cr2 i k = Some (c, k') \<Longrightarrow> kstep k k'"
| call: "syscall_handler eax ebx ecx edx ubuf es k = Some (c, b, es', k') \<Longrightarrow> kstep k k'"
| store: "kstep k (set_phys m k)"
| stack: "kstep k (k\<lparr>reg_esp := esp, reg_ebp := ebp, stack_bytes := sb, stack_dentry := sd\<rparr>)"

inductive_cases kstepE: "kstep k k'"

inductive reachable :: "kernel \<Rightarrow> kernel \<Rightarrow> bool" for k0 where
  start: "reachable k0 k0"
| step: "reachable k0 k \<Longrightarrow> kstep k k' \<Longrightarrow> reachable k0 k'"

lemma kstep_inv:
  assumes "kstep k k'" "kernel_inv fs k" "shell_ok fs"
  shows "kernel_inv fs k'"
proof -
  have "kernel_inv fs (k\<lparr>reg_esp := esp, reg_ebp := ebp, stack_bytes := sb, stack_dentry := sd\<rparr>)" for esp ebp sb sd
    using assms(2) by (simp add: kernel_inv_def kernel_base_def cur_term_def)
  then show ?thesis
    using assms inv_interrupt [OF _ assms(2,3)] inv_exception [OF _ assms(2,3)] inv_syscall [OF _ assms(2,3)]
    by (elim kstepE) auto
qed

lemma reachable_inv:
  assumes "reachable k0 k" "kernel_inv fs k0" "shell_ok fs"
  shows "kernel_inv fs k"
  using assms(1) by induction (use assms(2,3) kstep_inv in \<open>blast+\<close>)

section \<open>A concrete kernel with a shell\<close>

definition shell_image :: bytes where
  "shell_image = (demo_image 127)(130 := 101, 131 := 108, 132 := 108)"

definition shell_fs :: filesystem where
  "shell_fs = filesystem_init shell_image"

lemma shell_image_ok:
  assumes img: "\<And>j. j < 8232 \<Longrightarrow> img j = shell_image j"
  shows "shell_ok (filesystem_init img)"
proof -
  define fs where "fs = filesystem_init img"
  note ev = u32_at_def le32_def img shell_image_def demo_image_def fs_consts
  have f: "num_inodes fs = 1" "num_data_blocks fs = 1" "entries fs = 64" "inodes fs = 4096" "data_blocks fs = 8192" "boot_block fs = img"
    by (simp_all add: fs_def filesystem_init_def create_char_count_def char_count_loop_eq Let_def ev)
  have five: "[0..<5] = [0, 1, 2, 3, 4 :: nat]" "\<And>j. j < 5 \<Longrightarrow> j \<in> {0, 1, 2, 3, 4 :: nat}" by (auto simp: upt_rec)
  have "entry_file_name fs 0 0 = 46" "entry_file_name fs 0 1 = NUL" by (simp_all add: entry_file_name_def f ev)
  then have e0: "entry_name fs 0 = [46]" using entry_name_run [of 1 fs 0] by (simp add: run_of_def fs_consts)
  have n: "entry_file_name fs 1 0 = 115" "entry_file_name fs 1 1 = 104" "entry_file_name fs 1 2 = 101"
    "entry_file_name fs 1 3 = 108" "entry_file_name fs 1 4 = 108" "entry_file_name fs 1 5 = NUL"
    by (simp_all add: entry_file_name_def f ev)
  have "entry_file_name fs 1 j \<noteq> NUL" if "j < 5" for j using five(2) [OF that] n by auto
  then have e1: "entry_name fs 1 = [115, 104, 101, 108, 108]"
    using entry_name_run [of 5 fs 1] n by (simp add: run_of_def five(1) fs_consts)
  have name: "map byte_of_char ''shell'' = [115, 104, 101, 108, 108]" by (simp add: byte_of_char_def of_char_def)
  have ino: "inode_file_size fs 0 = 40" "inode_datablock_idx fs 0 0 = 0"
    by (simp_all add: inode_file_size_def inode_datablock_idx_def f ev)
  then have snd: "sound_inode fs 0" "file_size fs 0 = 40" by (simp_all add: sound_inode_def file_size_def f fs_consts)
  have idx: "entry_inode_idx fs 1 = 0" "entry_file_type fs 1 = 2" by (simp_all add: entry_inode_idx_def entry_file_type_def f ev)
  have c: "contents fs 0 ! j = shell_image (8192 + j)" if "j < 40" for j
    using that by (simp add: contents_def snd(2) file_byte_def data_byte_def ino f img fs_consts)
  have "take 4 (contents fs 0) = map (\<lambda>j. contents fs 0 ! j) [0..<4]"
    by (rule nth_equalityI) (simp_all add: contents_def snd(2))
  also have "\<dots> = [0x7f, 0x45, 0x4c, 0x46]" by (simp add: upt_rec c shell_image_def demo_image_def)
  finally have magic: "take 4 (contents fs 0) = [0x7f, 0x45, 0x4c, 0x46]" .
  have "List.find (\<lambda>e. entry_name fs e = map byte_of_char ''shell'') [0..<MAX_ENTRIES] = Some 1"
  proof -
    have "[0..<MAX_ENTRIES] = 0 # 1 # [2..<MAX_ENTRIES]" by (simp add: fs_consts upt_conv_Cons)
    then show ?thesis unfolding name using e0 e1 [unfolded One_nat_def] by simp
  qed
  then show ?thesis
    using counts_ok_init [of img] snd magic idx [unfolded One_nat_def] f(1) unfolding shell_ok_def fs_def [symmetric] by simp
qed

lemma shell_fs_ok: "shell_ok shell_fs"
  unfolding shell_fs_def by (rule shell_image_ok) simp

definition shell_kernel :: kernel where
  "shell_kernel = demo_kernel\<lparr>k_fs := shell_fs\<rparr>"

lemma boot_procs_ok: "procs_ok (fops_table_init boot_procs)"
proof -
  have "started_slot (fops_table_init boot_procs) i \<longleftrightarrow> i = 0" for i by (auto simp: started_slot_def fops_table_init_def boot_procs_def)
  moreover have "pcb_ok (fops_table_init boot_procs) 0"
    using fds_ok_safe [OF fd_table_init_ok]
    by (simp add: pcb_ok_def fops_table_init_def boot_procs_def boot_pcb_def pcb_addr_def K_STACK_BOTTOM_def PROCESS_SIZE_def)
  ultimately show ?thesis
    unfolding procs_ok_def procs_base_def
    using fops_table_init_ready [of boot_procs] by (simp, simp add: fops_table_init_def boot_procs_def)
qed

lemma shell_kernel_inv: "kernel_inv shell_fs shell_kernel"
  using demo_tty(1,3) boot_procs_ok paging_init_screens [OF demo_paging_ok]
  by (simp add: kernel_inv_def kernel_base_def tty_ok_def procs_ok_def shell_kernel_def)
    (simp add: demo_kernel_def cur_term_def procs_ok_def fops_table_init_def boot_procs_def)

section \<open>Properties\<close>



text \<open>The table of a valid descriptor is one of the five.\<close>

lemma safe_jump:
  assumes "kernel_inv fs k" "check_valid_fd fd (k_proc k) \<noteq> 0"
  shows "fd_jump (cur_fds (k_proc k) (sint fd)) \<in> {rtc_ops_table, filesys_ops_table, dir_ops_table, kybd_ops_table, term_ops_table}"
    and "tables_ready (k_proc k)"
proof -
  have "fds_safe (cur_fds (k_proc k))" using assms(1) by (intro cur_fds_safe) (simp add: kernel_inv_def)
  then have "fd_safe (cur_fds (k_proc k) (sint fd))" "flags (cur_fds (k_proc k) (sint fd)) \<noteq> 0"
    using assms(2) by (auto simp: fds_safe_def check_valid_fd_def bad_index_def fd_consts split: if_splits)
  then show "fd_jump (cur_fds (k_proc k) (sint fd)) \<in> {rtc_ops_table, filesys_ops_table, dir_ops_table, kybd_ops_table, term_ops_table}"
    by (cases "fd_jump (cur_fds (k_proc k) (sint fd))") (auto simp: fd_safe_def fd_consts)
  show "tables_ready (k_proc k)" using assms(1) by (simp add: kernel_inv_def procs_ok_def procs_base_def)
qed

lemma calls_total:
  assumes "kernel_inv fs k"
  shows "sys_open ptr name k \<noteq> None" "sys_close fd k \<noteq> None" "sys_write fd ptr buf n k \<noteq> None" "halt status k \<noteq> None"
proof -
  have t: "tables_ready (k_proc k)" using assms by (simp add: kernel_inv_def procs_ok_def procs_base_def)
  then show "sys_open ptr name k \<noteq> None"
    by (simp add: sys_open_def tables_ready_def call_open_def case_prod_beta Let_def)
  show "sys_close fd k \<noteq> None" "sys_write fd ptr buf n k \<noteq> None"
    using t safe_jump(1) [OF assms, of fd] by (auto simp: sys_close_def sys_write_def jump_table_def tables_ready_def)
  have "\<exists>c k2. execute shell_ptr (cstr ''shell'') k1 = Some (c, k2)" for k1 using execute_total [of shell_ptr "cstr ''shell''" k1] by blast
  then obtain f g where "execute shell_ptr (cstr ''shell'') k1 = Some (f k1, g k1)" for k1 by metis
  then show "halt status k \<noteq> None" by (simp add: halt_def Let_def split: control.split)
qed



text \<open>
  C4. A base shell cannot be lost: when the process that halts is one of the three base
  processes, \<^verbatim>\<open>halt\<close> starts a new shell as the same process of the same terminal, with a
  fresh descriptor table, instead of returning; the invariant of the kernel holds there.
\<close>

theorem halt_restarts_shell:
  assumes "kernel_inv fs k" "shell_ok fs" "current_process (k_proc k) (cur_term k) < 3"
  shows "\<exists>e k'. halt status k = Some (Enter_user e, k') \<and> kernel_inv fs k' \<and> cur_term k' = cur_term k \<and>
    current_process (k_proc k') = current_process (k_proc k) \<and> free_fds (k_fds k') = [2, 3, 4, 5, 6, 7]"
proof -
  obtain e k' where h: "halt status k = Some (Enter_user e, k')" "kernel_inv fs k'" "cur_term k' = cur_term k"
    "current_process (k_proc k') = (current_process (k_proc k))(cur_term k := current_process (k_proc k) (cur_term k))"
    "free_fds (k_fds k') = [2, 3, 4, 5, 6, 7]"
    using halt_base [OF assms] by blast
  then show ?thesis by auto
qed

theorem halt_restarts_shell_witness:
  "\<exists>e k'. halt 0 shell_kernel = Some (Enter_user e, k') \<and> free_fds (k_fds k') = [2, 3, 4, 5, 6, 7]"
proof -
  have "current_process (k_proc shell_kernel) (cur_term shell_kernel) < 3"
    by (simp add: shell_kernel_def demo_kernel_def cur_term_def fops_table_init_def boot_procs_def)
  then show ?thesis using halt_restarts_shell [OF shell_kernel_inv shell_fs_ok, of 0] by blast
qed

end
