(* ===== verification/Boot.thy ===== *)
theory Boot
  imports Running
begin

text \<open>
  Booting: \<^verbatim>\<open>entry\<close> of \<^verbatim>\<open>kernel.c\<close>. It prints the boot loader's information structure
  (\<^verbatim>\<open>multiboot.h\<close>), mounts the file system module, builds the segment descriptors, initialises
  the components and starts the first shell. The main result is that it ends in a state
  with the invariant of the running kernel.
\<close>

unbundle bit_operations_syntax

section \<open>The boot loader's information\<close>

definition MULTIBOOT_BOOTLOADER_MAGIC :: u32 where "MULTIBOOT_BOOTLOADER_MAGIC = 0x2BADB002"

definition CHECK_FLAG :: "u32 \<Rightarrow> nat \<Rightarrow> bool" where
  "CHECK_FLAG fl b \<longleftrightarrow> (fl AND push_bit b 1) \<noteq> 0"

definition peek32 :: "u32 \<Rightarrow> kernel \<Rightarrow> u32" where
  "peek32 a k = u32_at (view (get_phys k) a) 0"

text \<open>The fields of \<^verbatim>\<open>multiboot_info_t\<close>, \<^verbatim>\<open>module_t\<close> and \<^verbatim>\<open>memory_map_t\<close>, by their offsets.\<close>

definition mbi_flags :: "u32 \<Rightarrow> u32" where "mbi_flags a = a"
definition mem_lower :: "u32 \<Rightarrow> u32" where "mem_lower a = a + 4"
definition mem_upper :: "u32 \<Rightarrow> u32" where "mem_upper a = a + 8"
definition boot_device :: "u32 \<Rightarrow> u32" where "boot_device a = a + 12"
definition cmdline :: "u32 \<Rightarrow> u32" where "cmdline a = a + 16"
definition mods_count :: "u32 \<Rightarrow> u32" where "mods_count a = a + 20"
definition mods_addr :: "u32 \<Rightarrow> u32" where "mods_addr a = a + 24"
definition elf_sec :: "u32 \<Rightarrow> u32" where "elf_sec a = a + 28"
definition mmap_length :: "u32 \<Rightarrow> u32" where "mmap_length a = a + 44"
definition mmap_addr :: "u32 \<Rightarrow> u32" where "mmap_addr a = a + 48"
definition mod_start :: "u32 \<Rightarrow> u32" where "mod_start a = a"
definition mod_end :: "u32 \<Rightarrow> u32" where "mod_end a = a + 4"
definition mod_string :: "u32 \<Rightarrow> u32" where "mod_string a = a + 8"
definition sizeof_module :: u32 where "sizeof_module = 16"

lemmas mbi_offsets = mbi_flags_def mem_lower_def mem_upper_def boot_device_def cmdline_def mods_count_def mods_addr_def
  elf_sec_def mmap_length_def mmap_addr_def mod_start_def mod_end_def mod_string_def sizeof_module_def

definition k_prints :: "string \<Rightarrow> u32 \<Rightarrow> kernel \<Rightarrow> kernel option" where
  "k_prints fmt p k =
     Option.bind (printf (cstr fmt) (\<lambda>i. \<lparr>arg_word = p, arg_str = view (get_phys k) p\<rparr>) (stack_bytes k) (cur_term k) (k_con k))
       (\<lambda>(n, s). Some (k\<lparr>k_con := s\<rparr>))"

text \<open>The lines for flags 0, 1 and 2.\<close>

definition print_basic :: "u32 \<Rightarrow> kernel \<Rightarrow> kernel option" where
  "print_basic mbi k =
     Option.bind (k_printf (line ''flags = 0x%#x'') [peek32 (mbi_flags mbi) k] k) (\<lambda>k.
     Option.bind (if CHECK_FLAG (peek32 (mbi_flags mbi) k) 0
                  then k_printf (line ''mem_lower = %uKB, mem_upper = %uKB'') [peek32 (mem_lower mbi) k, peek32 (mem_upper mbi) k] k
                  else Some k) (\<lambda>k.
     Option.bind (if CHECK_FLAG (peek32 (mbi_flags mbi) k) 1
                  then k_printf (line ''boot_device = 0x%#x'') [peek32 (boot_device mbi) k] k else Some k) (\<lambda>k.
     if CHECK_FLAG (peek32 (mbi_flags mbi) k) 2 then k_prints (line ''cmdline = %s'') (peek32 (cmdline mbi) k) k else Some k)))"

text \<open>The first bytes of a module, each printed as a signed character.\<close>

fun module_bytes :: "u32 \<Rightarrow> nat \<Rightarrow> nat \<Rightarrow> kernel \<Rightarrow> kernel option" where
  "module_bytes md i 0 k = Some k"
| "module_bytes md i (Suc n) k =
     Option.bind (k_printf ''0x%x '' [scast (get_phys k (peek32 (mod_start md) k + of_nat i))] k) (module_bytes md (Suc i) n)"

definition filesys_name :: string where "filesys_name = ''/filesys_img''"
definition filesys_name_length :: nat where "filesys_name_length = 12"

definition mount :: "u32 \<Rightarrow> kernel \<Rightarrow> kernel" where
  "mount boot_addr k = k\<lparr>k_fs := filesystem_init (view (get_phys k) boot_addr), k_proc := fops_table_init (k_proc k)\<rparr>"

partial_function (option) module_loop :: "u32 \<Rightarrow> u32 \<Rightarrow> u32 \<Rightarrow> kernel \<Rightarrow> kernel option" where
  "module_loop mbi md mod_count k =
     (if mod_count < peek32 (mods_count mbi) k
      then Option.bind (k_printf (line ''Module %d loaded at address: 0x%#x'') [mod_count, peek32 (mod_start md) k] k) (\<lambda>k.
           Option.bind (k_printf (line ''Module %d ends at address: 0x%#x'') [mod_count, peek32 (mod_end md) k] k) (\<lambda>k.
           Option.bind (module_bytes md 0 16 (say (line ''First few bytes of module:'') k)) (\<lambda>k.
           let k = (if strncmp (view (get_phys k) (peek32 (mod_string md) k)) (cstr filesys_name) filesys_name_length = 0
                    then mount (peek32 (mod_start md) k) k else k)
           in module_loop mbi (md + sizeof_module) (mod_count + 1) (say [CHR 0x0A] k))))
      else Some k)"

definition print_elf :: "u32 \<Rightarrow> kernel \<Rightarrow> kernel option" where
  "print_elf mbi k =
     (let e = elf_sec mbi
      in k_printf (line ''elf_sec: num = %u, size = 0x%#x, addr = 0x%#x, shndx = 0x%#x'')
           [peek32 e k, peek32 (e + 4) k, peek32 (e + 8) k, peek32 (e + 12) k] k)"

partial_function (option) mmap_loop :: "u32 \<Rightarrow> u32 \<Rightarrow> kernel \<Rightarrow> kernel option" where
  "mmap_loop mbi mmap k =
     (if mmap < peek32 (mmap_addr mbi) k + peek32 (mmap_length mbi) k
      then Option.bind (k_printf (line '' size = 0x%x,     base_addr = 0x%#x%#x'' @ line ''     type = 0x%x,  length    = 0x%#x%#x'')
               [peek32 mmap k, peek32 (mmap + 8) k, peek32 (mmap + 4) k, peek32 (mmap + 20) k, peek32 (mmap + 16) k, peek32 (mmap + 12) k] k)
             (\<lambda>k. mmap_loop mbi (mmap + peek32 mmap k + 4) k)
      else Some k)"

definition print_mmap :: "u32 \<Rightarrow> kernel \<Rightarrow> kernel option" where
  "print_mmap mbi k =
     Option.bind (k_printf (line ''mmap_addr = 0x%#x, mmap_length = 0x%x'') [peek32 (mmap_addr mbi) k, peek32 (mmap_length mbi) k] k)
       (\<lambda>k. mmap_loop mbi (peek32 (mmap_addr mbi) k) k)"

section \<open>Initialisation\<close>

text \<open>
  What the linker decides: the addresses of the handlers, of the local descriptor table and
  of the task state segment; and the processor state beside the kernel's own.
\<close>

record layout =
  handler_addr :: "handler \<Rightarrow> u32"
  ldt_addr :: u32
  ldt_size :: u32
  tss_addr :: u32
  tss_size :: u32

record machine =
  mach_kernel :: kernel
  ldt_desc_ptr :: seg_desc_t
  tss_desc_ptr :: seg_desc_t
  tss_ldt_segment_selector :: u16
  reg_ldtr :: u16
  reg_tr :: u16
  interrupts_on :: bool

definition KERNEL_TSS :: u16 where "KERNEL_TSS = 0x0030"

definition set_descriptors :: "layout \<Rightarrow> machine \<Rightarrow> machine" where
  "set_descriptors l m =
     m\<lparr>ldt_desc_ptr := the_ldt_desc (ldt_addr l) (ldt_size l) (ldt_desc_ptr m), reg_ldtr := KERNEL_LDT,
       tss_desc_ptr := the_tss_desc (tss_addr l) (tss_size l) (tss_desc_ptr m), tss_ldt_segment_selector := KERNEL_LDT,
       mach_kernel := (mach_kernel m)\<lparr>tss_ss0 := KERNEL_DS, tss_esp0 := 0x800000\<rparr>, reg_tr := KERNEL_TSS\<rparr>"

definition all_inits :: "(handler \<Rightarrow> u32) \<Rightarrow> kernel \<Rightarrow> kernel" where
  "all_inits addr k =
     (let k = k\<lparr>k_idt := idt_init addr (k_idt k)\<rparr>;
          k = k\<lparr>k_pic := i8259_init (k_pic k)\<rparr>;
          k = keyboard_init addr k;
          (r, idt, s) = rtc_init addr (k_rtc k) (k_idt k) (k_pic k);
          k = k\<lparr>k_rtc := r, k_idt := idt, k_pic := s\<rparr>;
          k = on_pg paging_init k;
          k = on_proc pc_init k;
          k = on_proc (\<lambda>p. snd (terminal_init p)) k;
          (idt, s) = pit_init addr (k_idt k, k_pic k)
      in k\<lparr>k_idt := idt, k_pic := s\<rparr>)"

text \<open>How \<^verbatim>\<open>entry\<close> ends: it returns to \<^verbatim>\<open>boot.S\<close>, it enters the shell, or it stays in its last loop.\<close>

datatype boot_end = Returned | Entered u32 | Idle

definition start_system :: "layout \<Rightarrow> machine \<Rightarrow> (boot_end \<times> machine) option" where
  "start_system l m =
     (let m = set_descriptors l m;
          k = all_inits (handler_addr l) (mach_kernel m);
          k = on_con clear (say (line ''Enabling Interrupts'') k)
      in Option.bind (execute shell_ptr (cstr ''shell'') k)
           (\<lambda>(c, k). Some (case c of Enter_user e \<Rightarrow> Entered e | _ \<Rightarrow> Idle, m\<lparr>mach_kernel := k, interrupts_on := True\<rparr>)))"

definition entry :: "layout \<Rightarrow> u32 \<Rightarrow> u32 \<Rightarrow> machine \<Rightarrow> (boot_end \<times> machine) option" where
  "entry l magic mbi m =
     (let k = on_con clear (mach_kernel m); back = (\<lambda>k. Some (Returned, m\<lparr>mach_kernel := k\<rparr>))
      in if magic \<noteq> MULTIBOOT_BOOTLOADER_MAGIC
         then Option.bind (k_printf (line ''Invalid magic number: 0x%#x'') [magic] k) back
         else Option.bind (print_basic mbi k) (\<lambda>k.
              Option.bind (if CHECK_FLAG (peek32 (mbi_flags mbi) k) 3 then module_loop mbi (peek32 (mods_addr mbi) k) 0 k else Some k) (\<lambda>k.
              if CHECK_FLAG (peek32 (mbi_flags mbi) k) 4 \<and> CHECK_FLAG (peek32 (mbi_flags mbi) k) 5
              then back (say (line ''Both bits 4 and 5 are set.'') k)
              else Option.bind (if CHECK_FLAG (peek32 (mbi_flags mbi) k) 5 then print_elf mbi k else Some k) (\<lambda>k.
                   Option.bind (if CHECK_FLAG (peek32 (mbi_flags mbi) k) 6 then print_mmap mbi k else Some k) (\<lambda>k.
                   start_system l (m\<lparr>mach_kernel := k\<rparr>))))))"

section \<open>What booting leaves alone\<close>

text \<open>A state of the boot phase: only the screen, the file system and the jump tables have changed.\<close>

definition booting :: "kernel \<Rightarrow> kernel \<Rightarrow> bool" where
  "booting k0 k \<longleftrightarrow> k_ram k = k_ram k0 \<and> k_pg k = k_pg k0 \<and> k_kbd k = k_kbd k0 \<and> k_idt k = k_idt k0 \<and>
     cur_term k = cur_term k0 \<and> screen_ok (k_con k) \<and> cur_term k < MAX_TERMINAL \<and> exception_flag (k_proc k) = exception_flag (k_proc k0)"

lemma booting_con: "booting k0 k \<Longrightarrow> (screen_ok (k_con k) \<Longrightarrow> screen_ok s) \<Longrightarrow> booting k0 (k\<lparr>k_con := s\<rparr>)"
  by (simp add: booting_def cur_term_def)

lemma booting_say: "booting k0 k \<Longrightarrow> booting k0 (say msg k)"
  by (simp add: booting_def say_def message_ok)

lemma booting_clear: "booting k0 k \<Longrightarrow> booting k0 (on_con clear k)"
  by (simp add: booting_def clear_ok)

definition complete :: "string \<Rightarrow> bool" where
  "complete fmt \<longleftrightarrow> NUL \<notin> set (map byte_of_char fmt) \<and> fmt_complete (map byte_of_char fmt) Text"

lemma cstr_string: "NUL \<notin> set (map byte_of_char s) \<Longrightarrow> is_cstring (cstr s) (length s)" "run_of (cstr s) 0 (length s) = map byte_of_char s"
  using is_cstring_list [of "map byte_of_char s" "cstr s"] by (auto simp: cstr_def run_of_eq_iff)

lemma k_printf_boots:
  assumes "complete fmt" "booting k0 k"
  shows "\<exists>k'. k_printf fmt ws k = Some k' \<and> booting k0 k' \<and> k_fs k' = k_fs k \<and> k_proc k' = k_proc k"
proof -
  have c: "is_cstring (cstr fmt) (length fmt)" "fmt_complete (run_of (cstr fmt) 0 (length fmt)) Text"
    using assms(1) cstr_string [of fmt] by (simp_all add: complete_def)
  have a: "is_cstring (arg_str (num_arg w)) 0" for w by (simp add: num_arg_def is_cstring_def)
  show ?thesis
    using printf_prints [OF c a, of "\<lambda>i. if i < length ws then ws ! i else 0" "stack_bytes k" "cur_term k" "k_con k"] assms(2)
    by (auto simp: k_printf_def booting_def print_bytes_ok intro!: booting_con)
qed

lemma k_prints_boots:
  assumes "complete fmt" "booting k0 k" "is_cstring (view (get_phys k) p) n"
  shows "\<exists>k'. k_prints fmt p k = Some k' \<and> booting k0 k' \<and> k_fs k' = k_fs k \<and> k_proc k' = k_proc k"
proof -
  have c: "is_cstring (cstr fmt) (length fmt)" "fmt_complete (run_of (cstr fmt) 0 (length fmt)) Text"
    using assms(1) cstr_string [of fmt] by (simp_all add: complete_def)
  show ?thesis
    using printf_prints [OF c, of "\<lambda>i. \<lparr>arg_word = p, arg_str = view (get_phys k) p\<rparr>" "\<lambda>_. n" "stack_bytes k" "cur_term k" "k_con k"] assms(2,3)
    by (auto simp: k_prints_def booting_def print_bytes_ok intro!: booting_con)
qed

text \<open>Memory outside the video page is as before.\<close>

definition word_safe :: "u32 \<Rightarrow> bool" where
  "word_safe a \<longleftrightarrow> \<not> in_video a \<and> \<not> in_video (a + 1) \<and> \<not> in_video (a + 2) \<and> \<not> in_video (a + 3)"

definition ram32 :: "mem \<Rightarrow> u32 \<Rightarrow> u32" where
  "ram32 r a = le32 (r a) (r (a + 1)) (r (a + 2)) (r (a + 3))"

lemma peek_booting: "booting k0 k \<Longrightarrow> word_safe a \<Longrightarrow> peek32 a k = ram32 (k_ram k0) a"
  by (simp add: peek32_def ram32_def u32_at_def view_def get_phys_def word_safe_def booting_def)

lemma formats_complete:
  "complete (line ''flags = 0x%#x'')" "complete (line ''mem_lower = %uKB, mem_upper = %uKB'')" "complete (line ''boot_device = 0x%#x'')"
  "complete (line ''cmdline = %s'')" "complete ''0x%x ''" "complete (line ''Module %d loaded at address: 0x%#x'')"
  "complete (line ''Module %d ends at address: 0x%#x'')" "complete (line ''elf_sec: num = %u, size = 0x%#x, addr = 0x%#x, shndx = 0x%#x'')"
  "complete (line '' size = 0x%x,     base_addr = 0x%#x%#x'' @ line ''     type = 0x%x,  length    = 0x%#x%#x'')"
  "complete (line ''mmap_addr = 0x%#x, mmap_length = 0x%x'')"
  by (simp_all add: complete_def line_def byte_of_char_def of_char_def)

section \<open>The loops of the boot phase end\<close>

definition is_image :: "mem \<Rightarrow> u32 \<Rightarrow> bool" where
  "is_image r md \<longleftrightarrow> strncmp (view r (ram32 r (mod_string md))) (cstr filesys_name) filesys_name_length = 0"

text \<open>The memory from \<open>a\<close> on is an image with the shell, whatever is on the screen.\<close>

definition holds_shell :: "mem \<Rightarrow> u32 \<Rightarrow> bool" where
  "holds_shell r a \<longleftrightarrow> (\<forall>b. (\<forall>j. \<not> in_video (a + of_nat j) \<longrightarrow> b j = r (a + of_nat j)) \<longrightarrow> shell_ok (filesystem_init b))"

definition module_ok :: "mem \<Rightarrow> u32 \<Rightarrow> bool" where
  "module_ok r md \<longleftrightarrow> word_safe (mod_start md) \<and> word_safe (mod_string md) \<and>
     (\<forall>j<filesys_name_length. \<not> in_video (ram32 r (mod_string md) + of_nat j)) \<and>
     (is_image r md \<longrightarrow> holds_shell r (ram32 r (mod_start md)))"

definition mounted :: "kernel \<Rightarrow> bool" where
  "mounted k \<longleftrightarrow> shell_ok (k_fs k) \<and> tables_ready (k_proc k)"

lemma mounted_say [simp]: "mounted (say msg k) = mounted k"
  by (simp add: mounted_def)

lemma strncmp_from_cong: "(\<And>j. j < n \<Longrightarrow> s (i + j) = s' (i + j)) \<Longrightarrow> strncmp_from s u i n = strncmp_from s' u i n"
proof (induction n arbitrary: i)
  case (Suc n)
  then have "s i = s' i" "strncmp_from s u (Suc i) n = strncmp_from s' u (Suc i) n"
    using Suc.prems [of 0] Suc.prems [of "Suc _"] by (auto intro!: Suc.IH)
  then show ?case by simp
qed simp

lemma module_bytes_boots:
  "booting k0 k \<Longrightarrow> \<exists>k'. module_bytes md i n k = Some k' \<and> booting k0 k' \<and> k_fs k' = k_fs k \<and> k_proc k' = k_proc k"
proof (induction n arbitrary: i k)
  case (Suc n)
  obtain k1 where "k_printf ''0x%x '' [scast (get_phys k (peek32 (mod_start md) k + of_nat i))] k = Some k1" "booting k0 k1"
    "k_fs k1 = k_fs k" "k_proc k1 = k_proc k"
    using k_printf_boots [OF formats_complete(5) Suc.prems] by metis
  then show ?case using Suc.IH [of k1 "Suc i"] by auto
qed simp

lemma mount_boots:
  assumes "booting k0 k" "holds_shell (k_ram k0) a"
  shows "booting k0 (mount a k)" "mounted (mount a k)"
proof -
  show "booting k0 (mount a k)" using assms(1) by (simp add: mount_def booting_def cur_term_def fops_table_init_def)
  have "shell_ok (filesystem_init (view (get_phys k) a))"
    using assms by (simp add: holds_shell_def view_def get_phys_def booting_def)
  then show "mounted (mount a k)" by (simp add: mount_def mounted_def fops_table_init_ready)
qed

lemma module_loop_boots:
  assumes "booting k0 k" "\<And>i. i < n \<Longrightarrow> module_ok (k_ram k0) (md + of_nat i * sizeof_module)"
    and "word_safe (mods_count mbi)" "unat c + n = unat (ram32 (k_ram k0) (mods_count mbi))"
  shows "\<exists>k'. module_loop mbi md c k = Some k' \<and> booting k0 k' \<and>
    (mounted k \<or> (\<exists>i<n. is_image (k_ram k0) (md + of_nat i * sizeof_module)) \<longrightarrow> mounted k')"
  using assms(1,2,4)
proof (induction n arbitrary: md c k)
  case 0
  then have "\<not> c < peek32 (mods_count mbi) k" using peek_booting [OF _ assms(3)] by (simp add: word_less_nat_alt)
  then show ?case using 0 by (subst module_loop.simps) simp
next
  case (Suc n)
  let ?r = "k_ram k0"
  have lt: "c < peek32 (mods_count mbi) k" using Suc.prems peek_booting [OF _ assms(3)] by (simp add: word_less_nat_alt)
  have mo: "module_ok ?r md" using Suc.prems(2) [of 0] by simp
  obtain k1 where k1: "k_printf (line ''Module %d loaded at address: 0x%#x'') [c, peek32 (mod_start md) k] k = Some k1" "booting k0 k1"
    "k_fs k1 = k_fs k" "k_proc k1 = k_proc k"
    using k_printf_boots [OF formats_complete(6) Suc.prems(1)] by metis
  obtain k2 where k2: "k_printf (line ''Module %d ends at address: 0x%#x'') [c, peek32 (mod_end md) k1] k1 = Some k2" "booting k0 k2"
    "k_fs k2 = k_fs k1" "k_proc k2 = k_proc k1"
    using k_printf_boots [OF formats_complete(7) k1(2)] by metis
  obtain k3 where k3: "module_bytes md 0 16 (say (line ''First few bytes of module:'') k2) = Some k3" "booting k0 k3"
    "k_fs k3 = k_fs k2" "k_proc k3 = k_proc k2"
    using module_bytes_boots [OF booting_say [OF k2(2)], of md 0 16 "line ''First few bytes of module:''"] by auto
  define k4 where "k4 = (if is_image ?r md then mount (ram32 ?r (mod_start md)) k3 else k3)"
  have st: "peek32 (mod_start md) k3 = ram32 ?r (mod_start md)" "peek32 (mod_string md) k3 = ram32 ?r (mod_string md)"
    using mo peek_booting [OF k3(2)] by (simp_all add: module_ok_def)
  have "strncmp (view (get_phys k3) (ram32 ?r (mod_string md))) (cstr filesys_name) filesys_name_length = 0 \<longleftrightarrow> is_image ?r md"
    unfolding is_image_def strncmp_def using mo k3(2)
    by (subst strncmp_from_cong [where s' = "view ?r (ram32 ?r (mod_string md))"]) (auto simp: view_def get_phys_def module_ok_def booting_def)
  then have loop: "module_loop mbi md c k = module_loop mbi (md + sizeof_module) (c + 1) (say [CHR 0x0A] k4)"
    using lt k1(1) k2(1) k3(1) by (subst module_loop.simps) (simp add: st k4_def)
  have k4: "booting k0 k4" "mounted k \<or> is_image ?r md \<longrightarrow> mounted k4"
    using mo k3 k2 k1 mount_boots [OF k3(2), of "ram32 ?r (mod_start md)"] by (auto simp: k4_def module_ok_def mounted_def)
  have c1: "unat (c + 1) + n = unat (ram32 ?r (mods_count mbi))"
  proof -
    have "unat c < unat (ram32 ?r (mods_count mbi))" using Suc.prems(3) by simp
    then have "unat (c + 1) = unat c + 1" using unat_u32_less [of "ram32 ?r (mods_count mbi)"] by (simp add: unat_word_ariths)
    then show ?thesis using Suc.prems(3) by simp
  qed
  have nx: "md + sizeof_module + of_nat i * sizeof_module = md + of_nat (Suc i) * sizeof_module" for i by (simp add: algebra_simps)
  obtain k' where k': "module_loop mbi (md + sizeof_module) (c + 1) (say [CHR 0x0A] k4) = Some k'" "booting k0 k'"
    "mounted k4 \<or> (\<exists>i<n. is_image ?r (md + of_nat (Suc i) * sizeof_module)) \<longrightarrow> mounted k'"
    using Suc.IH [OF booting_say [OF k4(1)] _ c1, of "md + sizeof_module" "[CHR 0x0A]"] Suc.prems(2) [of "Suc _"] unfolding nx by auto
  moreover have "(\<exists>i<Suc n. is_image ?r (md + of_nat i * sizeof_module)) \<longleftrightarrow>
      is_image ?r md \<or> (\<exists>i<n. is_image ?r (md + of_nat (Suc i) * sizeof_module))"
    by (simp only: Ex_less_Suc2) simp
  ultimately show ?case using loop k4(2) by auto
qed

text \<open>The memory map: the loader's entries end where the length says, after finitely many steps.\<close>

fun mmap_ends :: "mem \<Rightarrow> u32 \<Rightarrow> nat \<Rightarrow> u32 \<Rightarrow> bool" where
  "mmap_ends r stop 0 a \<longleftrightarrow> \<not> a < stop"
| "mmap_ends r stop (Suc n) a \<longleftrightarrow> (a < stop \<longrightarrow> word_safe a \<and> mmap_ends r stop n (a + ram32 r a + 4))"

lemma mmap_loop_boots:
  assumes "booting k0 k" "word_safe (mmap_addr mbi)" "word_safe (mmap_length mbi)"
    and "mmap_ends (k_ram k0) (ram32 (k_ram k0) (mmap_addr mbi) + ram32 (k_ram k0) (mmap_length mbi)) n a"
  shows "\<exists>k'. mmap_loop mbi a k = Some k' \<and> booting k0 k' \<and> k_fs k' = k_fs k \<and> k_proc k' = k_proc k"
  using assms(1,4)
proof (induction n arbitrary: a k)
  case 0
  then show ?case using peek_booting [OF 0(1)] assms(2,3) by (subst mmap_loop.simps) simp
next
  case (Suc n)
  let ?f = "line '' size = 0x%x,     base_addr = 0x%#x%#x'' @ line ''     type = 0x%x,  length    = 0x%#x%#x''"
  note st = peek_booting [OF Suc.prems(1) assms(2)] peek_booting [OF Suc.prems(1) assms(3)]
  show ?case
  proof (cases "a < ram32 (k_ram k0) (mmap_addr mbi) + ram32 (k_ram k0) (mmap_length mbi)")
    case True
    obtain k1 where k1: "k_printf ?f [peek32 a k, peek32 (a + 8) k, peek32 (a + 4) k, peek32 (a + 20) k, peek32 (a + 16) k, peek32 (a + 12) k] k = Some k1"
      "booting k0 k1" "k_fs k1 = k_fs k" "k_proc k1 = k_proc k"
      using k_printf_boots [OF formats_complete(9) Suc.prems(1)] by metis
    have "peek32 a k1 = ram32 (k_ram k0) a" using Suc.prems(2) True peek_booting [OF k1(2)] by simp
    then show ?thesis
      using Suc.IH [OF k1(2), of "a + ram32 (k_ram k0) a + 4"] Suc.prems(2) True k1 by (subst mmap_loop.simps) (simp add: st)
  qed (use Suc.prems(1) in \<open>subst mmap_loop.simps, simp add: st\<close>)
qed

section \<open>From the boot loader to the shell\<close>

text \<open>
  What the boot loader promises: the information structure is not in video memory, the command
  line is a string, the module descriptors are readable and one of the modules is the file
  system image, with the shell; the memory map has an end.
\<close>

definition boot_info_ok :: "mem \<Rightarrow> u32 \<Rightarrow> bool" where
  "boot_info_ok r mbi \<longleftrightarrow>
     (\<forall>a\<in>{mbi_flags mbi, cmdline mbi, mods_count mbi, mods_addr mbi, mmap_addr mbi, mmap_length mbi}. word_safe a) \<and>
     (CHECK_FLAG (ram32 r (mbi_flags mbi)) 2 \<longrightarrow>
        (\<exists>n. is_cstring (view r (ram32 r (cmdline mbi))) n \<and> (\<forall>j\<le>n. \<not> in_video (ram32 r (cmdline mbi) + of_nat j)))) \<and>
     CHECK_FLAG (ram32 r (mbi_flags mbi)) 3 \<and>
     (\<forall>i<unat (ram32 r (mods_count mbi)). module_ok r (ram32 r (mods_addr mbi) + of_nat i * sizeof_module)) \<and>
     (\<exists>i<unat (ram32 r (mods_count mbi)). is_image r (ram32 r (mods_addr mbi) + of_nat i * sizeof_module)) \<and>
     \<not> (CHECK_FLAG (ram32 r (mbi_flags mbi)) 4 \<and> CHECK_FLAG (ram32 r (mbi_flags mbi)) 5) \<and>
     (CHECK_FLAG (ram32 r (mbi_flags mbi)) 6 \<longrightarrow>
        (\<exists>n. mmap_ends r (ram32 r (mmap_addr mbi) + ram32 r (mmap_length mbi)) n (ram32 r (mmap_addr mbi))))"

lemma print_basic_boots:
  assumes "booting k0 k" "boot_info_ok (k_ram k0) mbi"
  shows "\<exists>k'. print_basic mbi k = Some k' \<and> booting k0 k' \<and> k_fs k' = k_fs k \<and> k_proc k' = k_proc k"
proof -
  let ?r = "k_ram k0" and ?same = "\<lambda>k'. booting k0 k' \<and> k_fs k' = k_fs k \<and> k_proc k' = k_proc k"
  have fl: "peek32 (mbi_flags mbi) k' = ram32 ?r (mbi_flags mbi)" if "booting k0 k'" for k'
    using assms(2) peek_booting [OF that] by (simp add: boot_info_ok_def)
  obtain k1 where k1: "k_printf (line ''flags = 0x%#x'') [peek32 (mbi_flags mbi) k] k = Some k1" "?same k1"
    using k_printf_boots [OF formats_complete(1) assms(1)] by metis
  obtain k2 where k2: "(if CHECK_FLAG (ram32 ?r (mbi_flags mbi)) 0
      then k_printf (line ''mem_lower = %uKB, mem_upper = %uKB'') [peek32 (mem_lower mbi) k1, peek32 (mem_upper mbi) k1] k1 else Some k1) = Some k2" "?same k2"
    using k_printf_boots [OF formats_complete(2), of k0 k1 "[peek32 (mem_lower mbi) k1, peek32 (mem_upper mbi) k1]"] k1(2)
    by (cases "CHECK_FLAG (ram32 ?r (mbi_flags mbi)) 0") auto
  obtain k3 where k3: "(if CHECK_FLAG (ram32 ?r (mbi_flags mbi)) 1
      then k_printf (line ''boot_device = 0x%#x'') [peek32 (boot_device mbi) k2] k2 else Some k2) = Some k3" "?same k3"
    using k_printf_boots [OF formats_complete(3), of k0 k2 "[peek32 (boot_device mbi) k2]"] k2(2)
    by (cases "CHECK_FLAG (ram32 ?r (mbi_flags mbi)) 1") auto
  let ?c = "ram32 ?r (cmdline mbi)"
  have c: "peek32 (cmdline mbi) k3 = ?c" using assms(2) k3(2) peek_booting [of k0 k3] by (simp add: boot_info_ok_def)
  have "\<exists>n. is_cstring (view (get_phys k3) ?c) n" if f2: "CHECK_FLAG (ram32 ?r (mbi_flags mbi)) 2"
  proof -
    obtain n where n: "is_cstring (view ?r ?c) n" "\<forall>j\<le>n. \<not> in_video (?c + of_nat j)"
      using assms(2) f2 unfolding boot_info_ok_def by blast
    then show ?thesis
      using k3(2) by (intro exI [of _ n]) (auto simp: is_cstring_def view_def get_phys_def booting_def)
  qed
  then obtain k4 where k4: "(if CHECK_FLAG (ram32 ?r (mbi_flags mbi)) 2 then k_prints (line ''cmdline = %s'') ?c k3 else Some k3) = Some k4" "?same k4"
    using k_prints_boots [OF formats_complete(4), of k0 k3 ?c] k3(2)
    by (cases "CHECK_FLAG (ram32 ?r (mbi_flags mbi)) 2") auto
  show ?thesis
    using k1 k2 k3 k4 unfolding print_basic_def by (auto simp: fl c)
qed

lemma print_mmap_boots:
  assumes "booting k0 k" "boot_info_ok (k_ram k0) mbi" "CHECK_FLAG (ram32 (k_ram k0) (mbi_flags mbi)) 6"
  shows "\<exists>k'. print_mmap mbi k = Some k' \<and> booting k0 k' \<and> k_fs k' = k_fs k \<and> k_proc k' = k_proc k"
proof -
  obtain k1 where k1: "k_printf (line ''mmap_addr = 0x%#x, mmap_length = 0x%x'') [peek32 (mmap_addr mbi) k, peek32 (mmap_length mbi) k] k = Some k1"
    "booting k0 k1" "k_fs k1 = k_fs k" "k_proc k1 = k_proc k"
    using k_printf_boots [OF formats_complete(10) assms(1)] by metis
  have "word_safe (mmap_addr mbi)" "word_safe (mmap_length mbi)"
    and "\<exists>n. mmap_ends (k_ram k0) (ram32 (k_ram k0) (mmap_addr mbi) + ram32 (k_ram k0) (mmap_length mbi)) n (ram32 (k_ram k0) (mmap_addr mbi))"
    using assms(2,3) by (auto simp: boot_info_ok_def)
  then show ?thesis
    using mmap_loop_boots [OF k1(2)] k1 peek_booting [OF k1(2), of "mmap_addr mbi"] by (auto simp: print_mmap_def)
qed

lemma clear_buffers_ok: "keyboard_ok b \<Longrightarrow> keyboard_ok (clear_buffers b t n)"
  by (induction n arbitrary: b t) (auto simp: keyboard_ok_def fill_run_eq kbd_consts)

lemma all_inits_base:
  assumes "booting k0 k" "mounted k" "keyboard_ok (k_kbd k0)" "tables_ok (k_pg k0)"
  shows "kernel_base (k_fs k) (all_inits addr k)" "cur_term (all_inits addr k) = 0"
    "in_use (k_proc (all_inits addr k)) = (in_use (pc_init (k_proc k)))(0 := 0, 1 := 1, 2 := 1)"
    "k_idt (all_inits addr k) = boot_idt addr (k_idt k)" "i \<in> {3..7} \<Longrightarrow> in_use (k_proc (all_inits addr k)) i = 0"
    "k_kbd (all_inits addr k) = clear_buffers (k_kbd k0) 0 MAX_TERMINAL" "exception_flag (k_proc (all_inits addr k)) = exception_flag (k_proc k0)"
proof -
  let ?k = "all_inits addr k" and ?p = "snd (terminal_init (pc_init (k_proc k)))"
  have f: "k_con ?k = k_con k" "k_fs ?k = k_fs k" "k_pg ?k = paging_init (k_pg k)" "k_kbd ?k = clear_buffers (k_kbd k) 0 MAX_TERMINAL" "k_proc ?k = ?p"
    by (simp_all add: all_inits_def keyboard_init_def Let_def case_prod_beta)
  have p: "curr_terminal ?p = 0" "\<And>t. t < 3 \<Longrightarrow> current_process ?p t = - 1" "\<And>i. started_slot ?p i = False" "ops_tables ?p = ops_tables (k_proc k)"
    by (auto simp: terminal_init_def pc_init_def clear_processes_eq clear_terminals_eq started_slot_def con_consts fd_consts)
  have "procs_base ?p" using p assms(2) by (simp add: procs_base_def mounted_def tables_ready_def)
  then show "kernel_base (k_fs k) ?k"
    using assms(1,3,4) p(1) clear_buffers_ok [of "k_kbd k" 0 MAX_TERMINAL] paging_init_screens [of "k_pg k"]
    by (simp add: kernel_base_def f cur_term_def) (simp add: booting_def)
  show "cur_term ?k = 0" using p(1) by (simp add: cur_term_def f)
  show u: "in_use (k_proc ?k) = (in_use (pc_init (k_proc k)))(0 := 0, 1 := 1, 2 := 1)" by (simp add: f terminal_init_def)
  show "i \<in> {3..7} \<Longrightarrow> in_use (k_proc ?k) i = 0" unfolding u by (auto simp: pc_init_def clear_processes_eq fd_consts)
  show "k_kbd ?k = clear_buffers (k_kbd k0) 0 MAX_TERMINAL" "exception_flag (k_proc ?k) = exception_flag (k_proc k0)"
    using assms(1) by (simp_all add: f booting_def terminal_init_def pc_init_def clear_processes_eq)
  show "k_idt ?k = boot_idt addr (k_idt k)"
    by (simp add: all_inits_def keyboard_init_def Let_def case_prod_beta rtc_init_def pit_init_def boot_idt_def on_pg_def on_proc_def)
qed

lemma start_system_shell:
  assumes "booting k0 (mach_kernel m)" "mounted (mach_kernel m)" "keyboard_ok (k_kbd k0)" "tables_ok (k_pg k0)"
  shows "\<exists>e m'. start_system l m = Some (Entered e, m') \<and> interrupts_on m' \<and> shell_ok (k_fs (mach_kernel m')) \<and>
    kernel_inv (k_fs (mach_kernel m')) (mach_kernel m') \<and> cur_term (mach_kernel m') = 0 \<and>
    current_process (k_proc (mach_kernel m')) 0 = 0 \<and> fd_ready (mach_kernel m') \<and> k_kbd (mach_kernel m') = clear_buffers (k_kbd k0) 0 MAX_TERMINAL \<and>
    exception_flag (k_proc (mach_kernel m')) = exception_flag (k_proc k0) \<and> in_use (k_proc (mach_kernel m')) 0 = 1 \<and>
    (\<forall>i\<in>{3..7}. in_use (k_proc (mach_kernel m')) i = 0) \<and> shell_loaded (k_fs (mach_kernel m')) e (mach_kernel m')"
proof -
  define k1 where "k1 = mach_kernel (set_descriptors l m)"
  have k1: "booting k0 k1" "mounted k1"
    using assms(1,2) by (simp_all add: k1_def set_descriptors_def booting_def mounted_def cur_term_def)
  define k2 where "k2 = on_con clear (say (line ''Enabling Interrupts'') (all_inits (handler_addr l) k1))"
  note i = all_inits_base [OF k1 assms(3,4), where addr = "handler_addr l"]
  have k2: "kernel_base (k_fs k1) k2" "cur_term k2 = 0" "k_proc k2 = k_proc (all_inits (handler_addr l) k1)" "k_kbd k2 = k_kbd (all_inits (handler_addr l) k1)"
    using i unfolding k2_def say_def by (auto intro!: base_con message_ok clear_ok)
  have u: "in_use (k_proc k2) 0 = 0" "in_use (k_proc k2) 1 \<noteq> 0" "in_use (k_proc k2) 2 \<noteq> 0" by (simp_all add: k2(3) i(3))
  have "{0..2} = {0, 1, 2 :: int}" by auto
  then have "\<forall>j\<in>{0..2}. j = 0 \<or> in_use (k_proc k2) j \<noteq> 0" using u by auto
  then obtain e k3 where k3: "execute shell_ptr (cstr ''shell'') k2 = Some (Enter_user e, k3)" "kernel_inv (k_fs k1) k3" "cur_term k3 = 0"
    "current_process (k_proc k3) 0 = 0" "fd_ready k3" "in_use (k_proc k3) = (in_use (k_proc k2))(0 := 1)"
    "exception_flag (k_proc k3) = exception_flag (k_proc k2)" "same_rest k2 k3" "shell_loaded (k_fs k1) e k3"
    using execute_shell_inv [OF k2(1), of 0] k1(2) k2(2) u(1) by (auto simp: mounted_def)
  then have "k_fs k3 = k_fs k1" by (simp add: kernel_inv_def kernel_base_def)
  then show ?thesis
    using k3 k1(2) i(5-7) k2(3,4) by (simp add: start_system_def Let_def k1_def [symmetric] k2_def [symmetric] mounted_def same_rest_def)
qed

lemma entry_boots:
  assumes "boot_info_ok (k_ram (mach_kernel m)) mbi"
    and "screen_ok (k_con (mach_kernel m))" "cur_term (mach_kernel m) < MAX_TERMINAL"
  shows "\<exists>k. entry l MULTIBOOT_BOOTLOADER_MAGIC mbi m = start_system l (m\<lparr>mach_kernel := k\<rparr>) \<and> booting (mach_kernel m) k \<and> mounted k"
proof -
  let ?k0 = "mach_kernel m" and ?r = "k_ram (mach_kernel m)"
  let ?fl = "ram32 (k_ram (mach_kernel m)) (mbi_flags mbi)"
  have b0: "booting ?k0 (on_con clear ?k0)" using assms(2,3) by (intro booting_clear) (simp add: booting_def)
  have safe: "word_safe (mbi_flags mbi)" "word_safe (mods_count mbi)" "word_safe (mods_addr mbi)"
    and f3: "CHECK_FLAG ?fl 3" and f45: "\<not> (CHECK_FLAG ?fl 4 \<and> CHECK_FLAG ?fl 5)"
    using assms(1) by (simp_all add: boot_info_ok_def)
  have fl: "peek32 (mbi_flags mbi) k = ?fl" if "booting ?k0 k" for k using peek_booting [OF that safe(1)] .
  obtain k1 where k1: "print_basic mbi (on_con clear ?k0) = Some k1" "booting ?k0 k1"
    using print_basic_boots [OF b0 assms(1)] by blast
  have "peek32 (mods_addr mbi) k1 = ram32 ?r (mods_addr mbi)" using peek_booting [OF k1(2) safe(3)] .
  then obtain k2 where k2: "module_loop mbi (peek32 (mods_addr mbi) k1) 0 k1 = Some k2" "booting ?k0 k2" "mounted k2"
    using module_loop_boots [OF k1(2) _ safe(2), of "unat (ram32 ?r (mods_count mbi))" "ram32 ?r (mods_addr mbi)" 0] assms(1)
    by (auto simp: boot_info_ok_def)
  have "\<exists>k3. (if CHECK_FLAG ?fl 5 then print_elf mbi k2 else Some k2) = Some k3 \<and> booting ?k0 k3 \<and> k_fs k3 = k_fs k2 \<and> k_proc k3 = k_proc k2"
    using k_printf_boots [OF formats_complete(8) k2(2)] k2(2) by (simp add: print_elf_def Let_def)
  then obtain k3 where k3: "(if CHECK_FLAG ?fl 5 then print_elf mbi k2 else Some k2) = Some k3" "booting ?k0 k3" "mounted k3"
    using k2(3) by (auto simp: mounted_def)
  have "\<exists>k4. (if CHECK_FLAG ?fl 6 then print_mmap mbi k3 else Some k3) = Some k4 \<and> booting ?k0 k4 \<and> k_fs k4 = k_fs k3 \<and> k_proc k4 = k_proc k3"
    using print_mmap_boots [OF k3(2) assms(1)] k3(2) by simp
  then obtain k4 where k4: "(if CHECK_FLAG ?fl 6 then print_mmap mbi k3 else Some k3) = Some k4" "booting ?k0 k4" "mounted k4"
    using k3(3) by (auto simp: mounted_def)
  have "entry l MULTIBOOT_BOOTLOADER_MAGIC mbi m = start_system l (m\<lparr>mach_kernel := k4\<rparr>)"
    using k1(1) k2(1) k3(1) k4(1) f3 f45 fl [OF k1(2)] fl [OF k2(2)] fl [OF k3(2)]
    by (auto simp: entry_def Let_def)
  then show ?thesis using k4 by blast
qed

section \<open>Properties\<close>

text \<open>
  C2. Booting ends in the shell: from the state of the memory that the boot loader promises,
  \<^verbatim>\<open>entry\<close> passes all its loops, mounts the image, initialises every component and enters the
  first shell, as process 0 of terminal 0 with interrupts on; the invariant of the kernel
  holds there and in every state that the running system can reach afterwards.
\<close>

theorem boot_starts_shell:
  assumes "boot_info_ok (k_ram (mach_kernel m)) mbi" "screen_ok (k_con (mach_kernel m))" "cur_term (mach_kernel m) < MAX_TERMINAL"
    and "keyboard_ok (k_kbd (mach_kernel m))" "tables_ok (k_pg (mach_kernel m))"
  shows "\<exists>e m'. entry l MULTIBOOT_BOOTLOADER_MAGIC mbi m = Some (Entered e, m') \<and> interrupts_on m' \<and>
    cur_term (mach_kernel m') = 0 \<and> current_process (k_proc (mach_kernel m')) 0 = 0 \<and>
    (\<forall>k. reachable (mach_kernel m') k \<longrightarrow> kernel_inv (k_fs (mach_kernel m')) k)"
proof -
  obtain k where k: "entry l MULTIBOOT_BOOTLOADER_MAGIC mbi m = start_system l (m\<lparr>mach_kernel := k\<rparr>)" "booting (mach_kernel m) k" "mounted k"
    using entry_boots [OF assms(1-3)] by blast
  obtain e m' where "start_system l (m\<lparr>mach_kernel := k\<rparr>) = Some (Entered e, m')" "interrupts_on m'" "shell_ok (k_fs (mach_kernel m'))"
    "kernel_inv (k_fs (mach_kernel m')) (mach_kernel m')" "cur_term (mach_kernel m') = 0" "current_process (k_proc (mach_kernel m')) 0 = 0"
    using start_system_shell [of "mach_kernel m" "m\<lparr>mach_kernel := k\<rparr>" l] k(2,3) assms(4,5) by auto
  then show ?thesis using k(1) reachable_inv by auto
qed

text \<open>
  A machine as the boot loader leaves it: the information structure at \<open>0x9000\<close> says that there
  is one module, its descriptor is at \<open>0x9100\<close>, its name at \<open>0x9200\<close> and the image at \<open>0x400000\<close>.
\<close>

definition boot_ram :: mem where
  "boot_ram a =
     (if a = 0x9000 then 8 else if a = 0x9014 then 1 else if a = 0x9019 then 0x91
      else if a = 0x9102 then 0x40 else if a = 0x9109 then 0x92
      else if 0x9200 \<le> a \<and> a < 0x920C then byte_of_char (filesys_name ! unat (a - 0x9200))
      else if 0x400000 \<le> a \<and> a < 0x403000 then shell_image (unat (a - 0x400000)) else 0)"

definition boot_machine :: machine where
  "boot_machine = \<lparr>mach_kernel = demo_kernel\<lparr>k_ram := boot_ram, k_pg := demo_paging\<rparr>, ldt_desc_ptr = zero_seg, tss_desc_ptr = zero_seg,
     tss_ldt_segment_selector = 0, reg_ldtr = 0, reg_tr = 0, interrupts_on = False\<rparr>"

lemma boot_ram_shell: "holds_shell boot_ram 0x400000"
  unfolding holds_shell_def
proof (intro allI impI)
  fix b assume b: "\<forall>j. \<not> in_video (0x400000 + of_nat j) \<longrightarrow> b j = boot_ram (0x400000 + of_nat j)"
  have "b j = shell_image j" if "j < 8232" for j
  proof -
    have u: "unat (of_nat j :: u32) = j" "unat (0x400000 + of_nat j :: u32) = 0x400000 + j"
      using that by (simp_all add: unat_word_ariths unat_of_nat)
    have "\<not> in_video (0x400000 + of_nat j)" using u(2) that by (simp add: in_video_def VIDEO_def word_less_nat_alt word_le_nat_alt)
    moreover have "boot_ram (0x400000 + of_nat j) = shell_image j"
      using u that by (simp add: boot_ram_def word_less_nat_alt word_le_nat_alt word_unat_eq_iff)
    ultimately show ?thesis using b by simp
  qed
  then show "shell_ok (filesystem_init b)" by (rule shell_image_ok)
qed

lemma boot_ram_ok: "boot_info_ok boot_ram 0x9000"
proof -
  have w: "ram32 boot_ram 0x9000 = 8" "ram32 boot_ram 0x9014 = 1" "ram32 boot_ram 0x9018 = 0x9100" "ram32 boot_ram 0x9100 = 0x400000"
    "ram32 boot_ram 0x9108 = 0x9200"
    by (simp_all add: ram32_def boot_ram_def le32_def)
  have v: "\<not> in_video (0x9200 + of_nat j)" if "j < 12" for j
    using that by (simp add: in_video_def VIDEO_def word_less_nat_alt word_le_nat_alt unat_word_ariths unat_of_nat)
  have "module_ok boot_ram 0x9100"
    using boot_ram_shell v by (simp add: module_ok_def mbi_offsets w word_safe_def in_video_def VIDEO_def filesys_name_length_def)
  moreover have "is_image boot_ram 0x9100"
  proof -
    have "view boot_ram 0x9200 j = cstr filesys_name j" if "j < 12" for j
    proof -
      have "unat (0x9200 + of_nat j :: u32) = 0x9200 + j" "unat (of_nat j :: u32) = j" using that by (simp_all add: unat_word_ariths unat_of_nat)
      then show ?thesis using that
        by (simp add: view_def boot_ram_def word_less_nat_alt word_le_nat_alt word_unat_eq_iff cstr_def filesys_name_def)
    qed
    then show ?thesis by (simp add: is_image_def mbi_offsets w strncmp_0_iff filesys_name_length_def)
  qed
  ultimately show ?thesis
    by (simp add: boot_info_ok_def mbi_offsets w CHECK_FLAG_def word_safe_def in_video_def VIDEO_def)
qed

theorem boot_starts_shell_witness:
  "\<exists>e m'. entry \<lparr>handler_addr = (\<lambda>_. 0x400000), ldt_addr = 0x401000, ldt_size = 31, tss_addr = 0x402000, tss_size = 103\<rparr>
      MULTIBOOT_BOOTLOADER_MAGIC 0x9000 boot_machine = Some (Entered e, m') \<and>
    kernel_inv (k_fs (mach_kernel m')) (mach_kernel m')"
proof -
  have "k_ram (mach_kernel boot_machine) = boot_ram" "k_con (mach_kernel boot_machine) = k_con demo_kernel"
    "cur_term (mach_kernel boot_machine) = cur_term demo_kernel" "k_kbd (mach_kernel boot_machine) = k_kbd demo_kernel"
    "k_pg (mach_kernel boot_machine) = demo_paging"
    by (simp_all add: boot_machine_def cur_term_def)
  then show ?thesis
    using boot_starts_shell [of boot_machine "0x9000"] boot_ram_ok demo_tty(1) demo_paging_ok reachable.start by (metis tty_ok_def)
qed

end
