(* ===== verification/User.thy ===== *)
theory User
  imports Args
begin

text \<open>
  The user level library: \<^verbatim>\<open>ece391support.c\<close> and the system call stubs of \<^verbatim>\<open>ece391syscall.S\<close>. A
  program runs against any system that answers its system calls; the kernel of this
  development is one. The interface a program relies on is a locale, interpreted on that
  kernel. The programs themselves are in the theories that import this one.
\<close>

section \<open>String routines\<close>

partial_function (option) ece391_strlen_from :: "bytes \<Rightarrow> nat \<Rightarrow> nat option" where
  "ece391_strlen_from s len = (if NUL \<noteq> s len then ece391_strlen_from s (Suc len) else Some len)"

definition ece391_strlen :: "bytes \<Rightarrow> nat option" where
  "ece391_strlen s = ece391_strlen_from s 0"

partial_function (option) ece391_strcpy_from :: "bytes \<Rightarrow> bytes \<Rightarrow> nat \<Rightarrow> bytes option" where
  "ece391_strcpy_from dst src i =
     (let dst = dst(i := src i) in if NUL \<noteq> dst i then ece391_strcpy_from dst src (Suc i) else Some dst)"

definition ece391_strcpy :: "bytes \<Rightarrow> bytes \<Rightarrow> bytes option" where
  "ece391_strcpy dst src = ece391_strcpy_from dst src 0"

text \<open>The characters are unsigned here, and the result is their difference.\<close>

partial_function (option) ece391_strcmp_from :: "bytes \<Rightarrow> bytes \<Rightarrow> nat \<Rightarrow> int option" where
  "ece391_strcmp_from s1 s2 i =
     (if s1 i = s2 i then if s1 i = NUL then Some 0 else ece391_strcmp_from s1 s2 (Suc i)
      else Some (uint (s1 i) - uint (s2 i)))"

definition ece391_strcmp :: "bytes \<Rightarrow> bytes \<Rightarrow> int option" where
  "ece391_strcmp s1 s2 = ece391_strcmp_from s1 s2 0"

fun ece391_strncmp_from :: "bytes \<Rightarrow> bytes \<Rightarrow> nat \<Rightarrow> nat \<Rightarrow> int" where
  "ece391_strncmp_from s1 s2 i 0 = 0"
| "ece391_strncmp_from s1 s2 i (Suc n) =
     (if s1 i = s2 i then if s1 i = NUL \<or> n = 0 then 0 else ece391_strncmp_from s1 s2 (Suc i) n
      else uint (s1 i) - uint (s2 i))"

definition ece391_strncmp :: "bytes \<Rightarrow> bytes \<Rightarrow> nat \<Rightarrow> int" where
  "ece391_strncmp s1 s2 n = ece391_strncmp_from s1 s2 0 n"

function ece391_strrev_loop :: "bytes \<Rightarrow> int \<Rightarrow> int \<Rightarrow> bytes" where
  "ece391_strrev_loop s b e =
     (if b < e then let tmp = s (nat e); s = s(nat e := s (nat b)); s = s(nat b := tmp) in ece391_strrev_loop s (b + 1) (e - 1) else s)"
  by pat_completeness auto
termination
  by (relation "measure (\<lambda>(s, b, e). nat (e - b))") auto

declare ece391_strrev_loop.simps [simp del]

definition ece391_strrev :: "bytes \<Rightarrow> bytes option" where
  "ece391_strrev s =
     Option.bind (ece391_strlen s) (\<lambda>n. let e = int n - 1 in Some (if e \<le> 0 then s else ece391_strrev_loop s 0 e))"

partial_function (option) ece391_itoa_loop :: "nat \<Rightarrow> nat \<Rightarrow> bytes \<Rightarrow> nat \<Rightarrow> (nat \<times> bytes) option" where
  "ece391_itoa_loop radix newval buf p =
     (if newval > 0
      then let i = newval mod radix in ece391_itoa_loop radix (newval div radix) (buf(p := lookup_digits ! i)) (Suc p)
      else Some (p, buf))"

definition ece391_itoa :: "u32 \<Rightarrow> bytes \<Rightarrow> nat \<Rightarrow> bytes option" where
  "ece391_itoa val buf radix =
     (if val = 0 then Some (buf(0 := byte_of_char CHR ''0'', 1 := NUL))
      else Option.bind (ece391_itoa_loop radix (unat val) buf 0) (\<lambda>(p, b). ece391_strrev (b(p := NUL))))"

section \<open>System calls of a program\<close>

text \<open>
  What a program sees of the system: the trap \<^verbatim>\<open>int $0x80\<close> with the call number and three
  registers. The bytes are those behind the pointer among the registers, before and after.
  \<open>ubuf\<close> is the address of the program's buffer. A call that does not come back is \<open>None\<close>.
\<close>

record 's os =
  int80 :: "u32 \<Rightarrow> u32 \<Rightarrow> u32 \<Rightarrow> u32 \<Rightarrow> bytes \<Rightarrow> 's \<Rightarrow> (s32 \<times> bytes \<times> 's) option"
  ubuf :: u32

definition ece391_execute :: "'s os \<Rightarrow> bytes \<Rightarrow> 's \<Rightarrow> (s32 \<times> 's) option" where
  "ece391_execute os cmd s = Option.bind (int80 os 2 (ubuf os) 0 0 cmd s) (\<lambda>(r, b, s). Some (r, s))"

definition ece391_read :: "'s os \<Rightarrow> s32 \<Rightarrow> bytes \<Rightarrow> s32 \<Rightarrow> 's \<Rightarrow> (s32 \<times> bytes \<times> 's) option" where
  "ece391_read os fd buf nbytes s = int80 os 3 fd (ubuf os) nbytes buf s"

definition ece391_write :: "'s os \<Rightarrow> s32 \<Rightarrow> bytes \<Rightarrow> s32 \<Rightarrow> 's \<Rightarrow> (s32 \<times> 's) option" where
  "ece391_write os fd buf nbytes s = Option.bind (int80 os 4 fd (ubuf os) nbytes buf s) (\<lambda>(r, b, s). Some (r, s))"

definition ece391_open :: "'s os \<Rightarrow> bytes \<Rightarrow> 's \<Rightarrow> (s32 \<times> 's) option" where
  "ece391_open os filename s = Option.bind (int80 os 5 (ubuf os) 0 0 filename s) (\<lambda>(r, b, s). Some (r, s))"

definition ece391_close :: "'s os \<Rightarrow> s32 \<Rightarrow> 's \<Rightarrow> (s32 \<times> 's) option" where
  "ece391_close os fd s = Option.bind (int80 os 6 fd 0 0 (\<lambda>_. NUL) s) (\<lambda>(r, b, s). Some (r, s))"

definition ece391_getargs :: "'s os \<Rightarrow> bytes \<Rightarrow> s32 \<Rightarrow> 's \<Rightarrow> (s32 \<times> bytes \<times> 's) option" where
  "ece391_getargs os buf nbytes s = int80 os 7 (ubuf os) nbytes 0 buf s"

definition ece391_vidmap :: "'s os \<Rightarrow> u32 \<Rightarrow> 's \<Rightarrow> (s32 \<times> 's) option" where
  "ece391_vidmap os screen_start s = Option.bind (int80 os 8 screen_start 0 0 (\<lambda>_. NUL) s) (\<lambda>(r, b, s). Some (r, s))"

definition ece391_fdputs :: "'s os \<Rightarrow> s32 \<Rightarrow> bytes \<Rightarrow> 's \<Rightarrow> 's option" where
  "ece391_fdputs os fd str s =
     Option.bind (ece391_strlen str) (\<lambda>n. Option.bind (ece391_write os fd str (of_nat n) s) (\<lambda>(r, s). Some s))"

text \<open>A string literal put out, and then the program ends with a status.\<close>

definition puts_literal :: "'s os \<Rightarrow> string \<Rightarrow> 's \<Rightarrow> 's option" where
  "puts_literal os msg s = ece391_fdputs os 1 (cstr msg) s"

definition give_up :: "'s os \<Rightarrow> string \<Rightarrow> s32 \<Rightarrow> 's \<Rightarrow> (s32 \<times> 's) option" where
  "give_up os msg status s = Option.bind (puts_literal os msg s) (\<lambda>s. Some (status, s))"

section \<open>The library routines agree with the kernel's\<close>

lemma ece391_strlen_cstring: "is_cstring s n \<Longrightarrow> ece391_strlen s = Some n"
proof -
  assume c: "is_cstring s n"
  have "ece391_strlen_from s i = Some n" if "i \<le> n" for i
    using that
  proof (induction rule: inc_induct)
    case base
    then show ?case using c by (subst ece391_strlen_from.simps) (simp add: is_cstring_def)
  next
    case (step i)
    then show ?case using c by (subst ece391_strlen_from.simps) (auto simp: is_cstring_def)
  qed
  then show ?thesis by (simp add: ece391_strlen_def)
qed

lemma ece391_strcpy_cstring: "is_cstring src n \<Longrightarrow> ece391_strcpy dst src = strcpy dst src"
proof -
  assume c: "is_cstring src n"
  have "ece391_strcpy_from dst src i = strcpy_from dst src i" if "i \<le> n" for i
    using that
  proof (induction arbitrary: dst rule: inc_induct)
    case base
    then show ?case
      using c by (subst ece391_strcpy_from.simps, subst strcpy_from.simps) (simp add: is_cstring_def)
  next
    case (step i)
    have "src i \<noteq> NUL" using step c by (simp add: is_cstring_def)
    then show ?case using step.IH by (subst ece391_strcpy_from.simps, subst strcpy_from.simps) (simp add: fun_upd_def)
  qed
  then show ?thesis by (simp add: ece391_strcpy_def strcpy_def)
qed

lemma ece391_strcmp_cstrings:
  assumes "is_cstring s1 n1" "is_cstring s2 n2"
  shows "\<exists>d. ece391_strcmp s1 s2 = Some d \<and> (d = 0 \<longleftrightarrow> run_of s1 0 n1 = run_of s2 0 n2)"
proof -
  have run: "run_of s1 0 n1 = run_of s2 0 n2 \<longleftrightarrow> n1 = n2 \<and> (\<forall>j<n1. s1 j = s2 j)"
    by (auto simp: list_eq_iff_nth_eq)
  have "\<exists>d. ece391_strcmp_from s1 s2 i = Some d \<and> (d = 0 \<longleftrightarrow> n1 = n2 \<and> (\<forall>j<n1. s1 j = s2 j))"
    if "i \<le> n1" "i \<le> n2" "\<forall>j<i. s1 j = s2 j" for i
    using that
  proof (induction "n1 - i" arbitrary: i)
    case 0
    then have i: "i = n1" "s1 i = NUL" using assms(1) by (auto simp: is_cstring_def)
    show ?case
    proof (cases "i = n2")
      case True
      then show ?thesis using i assms(2) 0 by (subst ece391_strcmp_from.simps) (simp add: is_cstring_def)
    next
      case False
      then have "s2 i \<noteq> NUL" using 0 assms(2) by (simp add: is_cstring_def)
      then show ?thesis using i False by (subst ece391_strcmp_from.simps) (auto simp: word_uint_eq_iff)
    qed
  next
    case (Suc d)
    then have i: "i < n1" "s1 i \<noteq> NUL" using assms(1) by (auto simp: is_cstring_def)
    show ?case
    proof (cases "s1 i = s2 i")
      case True
      then have "i < n2" using i Suc.prems assms(2) by (auto simp: is_cstring_def order_le_less)
      then show ?thesis
        using Suc.hyps(1) [of "Suc i"] Suc.hyps(2) Suc.prems i True by (subst ece391_strcmp_from.simps) (auto simp: less_Suc_eq)
    next
      case False
      then show ?thesis using i by (subst ece391_strcmp_from.simps) (auto simp: word_uint_eq_iff)
    qed
  qed
  from this [of 0] show ?thesis unfolding run by (simp add: ece391_strcmp_def)
qed

lemma ece391_strncmp_0_iff: "ece391_strncmp s1 s2 n = 0 \<longleftrightarrow> strncmp s1 s2 n = 0"
proof -
  have "ece391_strncmp_from s1 s2 i n = 0 \<longleftrightarrow> strncmp_from s1 s2 i n = 0" for i
    by (induction n arbitrary: i) (auto simp: sint_u8_eq_iff word_uint_eq_iff)
  then show ?thesis by (simp add: ece391_strncmp_def strncmp_def)
qed

lemma ece391_strrev_loop_eq: "ece391_strrev_loop s b e = strrev_loop s b e"
proof (induction s b e rule: strrev_loop.induct)
  case (1 s b e)
  then show ?case by (subst ece391_strrev_loop.simps, subst strrev_loop.simps) (simp add: Let_def fun_upd_def)
qed

lemma ece391_itoa_loop_eq:
  assumes "2 \<le> r"
  shows "ece391_itoa_loop r v buf p = itoa_loop r v buf p"
proof (induction v arbitrary: buf p rule: less_induct)
  case (less v)
  show ?case
  proof (cases "v = 0")
    case False
    then have "v div r < v" using assms by simp
    then show ?thesis using less.IH by (subst ece391_itoa_loop.simps, subst itoa_loop.simps) (simp add: Let_def fun_upd_def)
  qed (simp add: ece391_itoa_loop.simps itoa_loop.simps)
qed

section \<open>The interface of a program\<close>

text \<open>
  What a program relies on to talk to its user: \<^verbatim>\<open>write\<close> to descriptor 1 puts the bytes on the
  screen and returns their number; it changes nothing else a program can see (\<open>rest\<close>).
\<close>

locale screen_os =
  fixes os :: "'s os" and ok :: "'s \<Rightarrow> bool" and screen :: "'s \<Rightarrow> 'c" and print :: "u8 list \<Rightarrow> 'c \<Rightarrow> 'c" and rest :: "'s \<Rightarrow> 'r"
  assumes write_prints: "ok s \<Longrightarrow> n < 2 ^ 31 \<Longrightarrow>
      \<exists>s'. ece391_write os 1 buf (of_nat n) s = Some (of_nat n, s') \<and> ok s' \<and> screen s' = print (run_of buf 0 n) (screen s) \<and> rest s' = rest s"
    and print_append: "print (xs @ ys) c = print ys (print xs c)"
    and print_nil: "print [] c = c"
begin

lemma fdputs_prints:
  assumes "ok s" "is_cstring str n" "n < 2 ^ 31"
  shows "\<exists>s'. ece391_fdputs os 1 str s = Some s' \<and> ok s' \<and> screen s' = print (run_of str 0 n) (screen s) \<and> rest s' = rest s"
  using write_prints [OF assms(1,3), of str] ece391_strlen_cstring [OF assms(2)] by (auto simp: ece391_fdputs_def)

lemma puts_literal_prints:
  assumes "ok s" "NUL \<notin> set (map byte_of_char msg)" "length msg < 2 ^ 31"
  shows "\<exists>s'. puts_literal os msg s = Some s' \<and> ok s' \<and> screen s' = print (map byte_of_char msg) (screen s) \<and> rest s' = rest s"
proof -
  have "is_cstring (cstr msg) (length msg)" "run_of (cstr msg) 0 (length msg) = map byte_of_char msg"
    using is_cstring_list [of "map byte_of_char msg" "cstr msg"] assms(2) by (auto simp: cstr_def run_of_eq_iff)
  then show ?thesis using fdputs_prints [OF assms(1), of "cstr msg" "length msg"] assms(3) by (simp add: puts_literal_def)
qed

lemma give_up_ends:
  assumes "ok s" "NUL \<notin> set (map byte_of_char msg)" "length msg < 2 ^ 31"
  shows "\<exists>s'. give_up os msg status s = Some (status, s') \<and> ok s' \<and> screen s' = print (map byte_of_char msg) (screen s) \<and> rest s' = rest s"
  using puts_literal_prints [OF assms] by (auto simp: give_up_def)

end

text \<open>A program that also reads a descriptor piece by piece.\<close>

locale stream_os = screen_os +
  fixes fd :: s32 and data :: "'s \<Rightarrow> u8 list"
  assumes read_gives: "ok s \<Longrightarrow> n < 2 ^ 30 \<Longrightarrow>
      \<exists>buf' s'. ece391_read os fd buf (of_nat n) s = Some (of_nat (min n (length (data s))), buf', s') \<and>
        run_of buf' 0 (min n (length (data s))) = take n (data s) \<and> ok s' \<and> screen s' = screen s \<and> data s' = drop n (data s)"
    and data_rest: "rest s' = rest s \<Longrightarrow> data s' = data s"

section \<open>The kernel as the system of a program\<close>

definition kernel_int80 :: "u32 \<Rightarrow> u32 \<Rightarrow> u32 \<Rightarrow> u32 \<Rightarrow> bytes \<Rightarrow> irq list \<times> kernel \<Rightarrow> (s32 \<times> bytes \<times> irq list \<times> kernel) option" where
  "kernel_int80 eax ebx ecx edx b = (\<lambda>(es, k).
     Option.bind (syscall_handler eax ebx ecx edx b es k)
       (\<lambda>(c, b, es, k). case c of Return r \<Rightarrow> Some (r, if eax = 7 then view (get_phys k) (phys_of k ebx) else b, es, k) | _ \<Rightarrow> None))"

definition kernel_os :: "u32 \<Rightarrow> (irq list \<times> kernel) os" where
  "kernel_os p = \<lparr>int80 = kernel_int80, ubuf = p\<rparr>"

text \<open>The terminal on display, its console, and the interrupts still to come.\<close>

definition k_screen :: "irq list \<times> kernel \<Rightarrow> irq list \<times> nat \<times> console" where
  "k_screen = (\<lambda>(es, k). (es, cur_term k, k_con k))"

definition k_print :: "u8 list \<Rightarrow> irq list \<times> nat \<times> console \<Rightarrow> irq list \<times> nat \<times> console" where
  "k_print xs = (\<lambda>(es, t, c). (es, t, print_bytes xs t c))"

text \<open>Everything but the console.\<close>

definition k_rest :: "irq list \<times> kernel \<Rightarrow> irq list \<times> kernel" where
  "k_rest = (\<lambda>(es, k). (es, k\<lparr>k_con := blank_console\<rparr>))"

lemma kernel_calls:
  "ece391_write (kernel_os p) fd buf n (es, k) = Option.bind (sys_write fd p buf n k) (\<lambda>(r, k). Some (r, es, k))"
  "ece391_open (kernel_os p) name (es, k) = Option.bind (sys_open p name k) (\<lambda>(r, k). Some (r, es, k))"
  "ece391_close (kernel_os p) fd (es, k) = Option.bind (sys_close fd k) (\<lambda>(r, k). Some (r, es, k))"
  "ece391_read (kernel_os p) fd buf n (es, k) =
     Option.bind (sys_read fd p buf n es k) (\<lambda>(c, b, es, k). case c of Return r \<Rightarrow> Some (r, b, es, k) | _ \<Rightarrow> None)"
  "ece391_getargs (kernel_os p) buf n (es, k) =
     Option.bind (getargs p n k) (\<lambda>(r, k). Some (r, view (get_phys k) (phys_of k p), es, k))"
  "ece391_vidmap (kernel_os p) q (es, k) = Some (fst (vidmap q k), es, snd (vidmap q k))"
  by (simp_all add: ece391_write_def ece391_open_def ece391_close_def ece391_read_def ece391_getargs_def ece391_vidmap_def kernel_os_def
      kernel_int80_def syscall_handler_def plain_def case_prod_unfold bind_assoc word_le_nat_alt cong: control.case_cong)

lemma fd_one:
  assumes "fd_ready k"
  shows "check_valid_fd 1 (k_proc k) \<noteq> 0" "op_write (jump_table 1 (k_proc k)) = Terminal_write" "op_read (jump_table 1 (k_proc k)) = Terminal_read"
  using assms by (auto simp: fd_ready_def k_fds_def fds_ok_def tables_ready_def check_valid_fd_def bad_index_def jump_table_def fd_consts)

lemma sint_small31: "n < 2 ^ 31 \<Longrightarrow> sint (of_nat n :: s32) = int n"
  by (simp add: signed_of_nat signed_take_bit_int_eq_self)

lemma kernel_write_prints:
  assumes "fd_ready k" "p \<noteq> 0" "n < 2 ^ 31"
  shows "ece391_write (kernel_os p) 1 buf (of_nat n) (es, k) = Some (of_nat n, es, on_con (print_bytes (run_of buf 0 n)) k)"
  using fd_one [OF assms(1)] assms(2) sint_small31 [OF assms(3)]
  by (simp add: kernel_calls sys_write_def terminal_write_def write_loop_eq)

interpretation kernel_screen: screen_os "kernel_os p" "\<lambda>(es, k). p \<noteq> 0 \<and> fd_ready k" k_screen k_print k_rest for p
proof
  fix s :: "irq list \<times> kernel" and n buf
  assume "case s of (es, k) \<Rightarrow> p \<noteq> 0 \<and> fd_ready k" "n < (2 :: nat) ^ 31"
  then show "\<exists>s'. ece391_write (kernel_os p) 1 buf (of_nat n) s = Some (of_nat n, s') \<and> (case s' of (es, k) \<Rightarrow> p \<noteq> 0 \<and> fd_ready k) \<and>
      k_screen s' = k_print (run_of buf 0 n) (k_screen s) \<and> k_rest s' = k_rest s"
    by (cases s) (auto simp: kernel_write_prints fd_ready_def k_fds_def k_screen_def k_print_def k_rest_def on_con_def cur_term_def)
qed (simp_all add: k_print_def case_prod_beta print_bytes_append)

text \<open>
  What the calls of a program change as long as it does not wait: its own descriptors, the
  screen and memory.
\<close>

definition own_fds :: "kernel \<Rightarrow> kernel \<Rightarrow> bool" where
  "own_fds k k' \<longleftrightarrow> (\<exists>ft c m. k' = k\<lparr>k_proc := set_cur_fds ft (k_proc k), k_con := c, k_ram := m\<rparr>)"

lemma own_fds_refl [simp]: "own_fds k k"
  unfolding own_fds_def by (intro exI [of _ "cur_fds (k_proc k)"] exI [of _ "k_con k"] exI [of _ "k_ram k"]) simp

lemma own_fds_trans: "own_fds k1 k2 \<Longrightarrow> own_fds k2 k3 \<Longrightarrow> own_fds k1 k3"
  by (auto simp: own_fds_def set_cur_fds_def set_cur_pcb_def cur_pcb_def cur_ptr_def) metis

lemma own_fds_con [simp]: "own_fds k (on_con f k)"
  unfolding own_fds_def on_con_def
  by (intro exI [of _ "cur_fds (k_proc k)"] exI [of _ "f (cur_term k) (k_con k)"] exI [of _ "k_ram k"]) simp

lemma own_fds_proc: "f (k_proc k) = set_cur_fds ft (k_proc k) \<Longrightarrow> own_fds k (on_proc f k)"
  unfolding own_fds_def on_proc_def by (intro exI [of _ ft] exI [of _ "k_con k"] exI [of _ "k_ram k"]) simp

lemma own_fds_offset [simp]: "own_fds k (on_proc (add_offset fd n) k)"
  by (rule own_fds_proc [where ft = "cur_fds (add_offset fd n (k_proc k))"]) (simp add: add_offset_def Let_def)

lemma own_fds_info [simp]: "own_fds k (on_proc (\<lambda>p. snd (set_fd_info fd info p)) k)"
  by (rule own_fds_proc [where ft = "cur_fds (snd (set_fd_info fd info (k_proc k)))"]) (simp add: set_fd_info_def)

lemma own_fds_phys [simp]: "own_fds k (set_phys m k)"
  unfolding own_fds_def set_phys_def by (intro exI [of _ "cur_fds (k_proc k)"]) (auto intro!: exI)

text \<open>A descriptor that is open on a regular file.\<close>

definition file_ready :: "s32 \<Rightarrow> kernel \<Rightarrow> bool" where
  "file_ready fd k \<longleftrightarrow> fd_ready k \<and> file_fd_ok fd k \<and> flags (k_fds k (sint fd)) = FD_ON \<and> fd_jump (k_fds k (sint fd)) = filesys_ops_table"

lemma kernel_read_file:
  assumes "file_ready fd k" "p \<noteq> 0" "n < 2 ^ 30"
  shows "\<exists>buf' k'. ece391_read (kernel_os p) fd buf (of_nat n) (es, k) = Some (of_nat (min n (length (file_rest fd k))), buf', es, k') \<and>
    run_of buf' 0 (min n (length (file_rest fd k))) = take n (file_rest fd k) \<and> file_ready fd k' \<and>
    cur_term k' = cur_term k \<and> k_con k' = k_con k \<and> file_rest fd k' = drop n (file_rest fd k) \<and> own_fds k k'"
proof -
  let ?m = "min n (length (file_rest fd k))"
  obtain buf' k' where r: "file_read fd buf (of_nat n) k = (of_nat ?m, buf', k')"
    using file_read_sound(1) [of fd k n buf] assms(1,3) by (cases "file_read fd buf (of_nat n) k") (auto simp: file_ready_def)
  have ok: "file_fd_ok fd k" "\<not> bad_index fd" using assms(1) by (simp_all add: file_ready_def file_fd_ok_def)
  note fr = file_read_sound [OF ok(1) assms(3), of buf, unfolded r]
  have k': "k' = on_proc (\<lambda>p. if ?m = 0 then p else add_offset fd (of_nat ?m) p) k" using fr(2) by simp
  have bytes: "snd (file_bytes fd n k) = k'"
    using file_read_sound(2) [OF ok(1) assms(3), of "\<lambda>_. NUL"] by (simp add: file_bytes_def Let_def case_prod_beta k')
  have "fds_ok (cur_fds (add_offset fd x (k_proc k)))" for x
    using assms(1) ok(2) by (intro add_offset_ok) (auto simp: file_ready_def fd_ready_def k_fds_def check_valid_fd_def)
  then have ready: "fd_ready k'"
    using assms(1) by (simp add: k' file_ready_def fd_ready_def k_fds_def)
  have "flags (k_fds k' (sint fd)) = flags (k_fds k (sint fd))" "fd_jump (k_fds k' (sint fd)) = fd_jump (k_fds k (sint fd))"
    using ok(2) by (simp_all add: k' k_fds_def add_offset_def Let_def)
  then have "file_ready fd k'"
    using file_bytes_step(3) [OF ok(1) assms(3)] ready assms(1) unfolding bytes file_ready_def by simp
  moreover have "check_valid_fd fd (k_proc k) \<noteq> 0" "op_read (jump_table fd (k_proc k)) = File_read"
    using assms(1) ok(2) by (auto simp: file_ready_def check_valid_fd_def k_fds_def jump_table_def fd_ready_def tables_ready_def fd_consts)
  moreover have "own_fds k k'" unfolding k' by (rule own_fds_proc [where ft = "if ?m = 0 then cur_fds (k_proc k) else cur_fds (add_offset fd (of_nat ?m) (k_proc k))"])
    (simp add: add_offset_def Let_def)
  ultimately show ?thesis
    using r fr(3) assms(2) file_bytes_step(2) [OF ok(1) assms(3)] unfolding bytes
    by (auto simp: kernel_calls sys_read_def k' cur_term_def add_offset_def Let_def)
qed

interpretation kernel_stream: stream_os "kernel_os p" "\<lambda>(es, k). p \<noteq> 0 \<and> file_ready fd k \<and> own_fds k0 k" k_screen k_print k_rest fd "\<lambda>(es, k). file_rest fd k" for p k0 fd
proof
  have fr: "file_ready fd (on_con f k) = file_ready fd k" for f k
    by (simp add: file_ready_def fd_ready_def file_fd_ok_def k_fds_def)
  note fr = this [unfolded file_ready_def on_con_def]
  fix s :: "irq list \<times> kernel" and n buf
  assume "case s of (es, k) \<Rightarrow> p \<noteq> 0 \<and> file_ready fd k \<and> own_fds k0 k"
  then show "n < (2 :: nat) ^ 31 \<Longrightarrow> \<exists>s'. ece391_write (kernel_os p) 1 buf (of_nat n) s = Some (of_nat n, s') \<and> (case s' of (es, k) \<Rightarrow> p \<noteq> 0 \<and> file_ready fd k \<and> own_fds k0 k) \<and>
      k_screen s' = k_print (run_of buf 0 n) (k_screen s) \<and> k_rest s' = k_rest s"
    using fr kernel_write_prints [of "snd s" p n buf "fst s"] own_fds_trans [OF _ own_fds_con [of "snd s" "print_bytes (run_of buf 0 n)"], of k0]
    by (cases s) (auto simp: file_ready_def k_screen_def k_print_def k_rest_def on_con_def)
next
  fix s :: "irq list \<times> kernel" and n buf
  assume "case s of (es, k) \<Rightarrow> p \<noteq> 0 \<and> file_ready fd k \<and> own_fds k0 k" "n < (2 :: nat) ^ 30"
  then show "\<exists>buf' s'. ece391_read (kernel_os p) fd buf (of_nat n) s = Some (of_nat (min n (length (case s of (es, k) \<Rightarrow> file_rest fd k))), buf', s') \<and>
      run_of buf' 0 (min n (length (case s of (es, k) \<Rightarrow> file_rest fd k))) = take n (case s of (es, k) \<Rightarrow> file_rest fd k) \<and>
      (case s' of (es, k) \<Rightarrow> p \<noteq> 0 \<and> file_ready fd k \<and> own_fds k0 k) \<and> k_screen s' = k_screen s \<and>
      (case s' of (es, k) \<Rightarrow> file_rest fd k) = drop n (case s of (es, k) \<Rightarrow> file_rest fd k)"
    using kernel_read_file [of fd "snd s" p n buf "fst s"] own_fds_trans [of k0 "snd s"] by (cases s) (fastforce simp: k_screen_def)
next
  fix s s' :: "irq list \<times> kernel"
  assume "k_rest s' = k_rest s"
  then have "k_proc (snd s') = k_proc (snd s)" "k_fs (snd s') = k_fs (snd s)"
    by (auto simp: k_rest_def split: prod.splits dest: arg_cong [where f = k_proc] arg_cong [where f = k_fs])
  then show "(case s' of (es, k) \<Rightarrow> file_rest fd k) = (case s of (es, k) \<Rightarrow> file_rest fd k)"
    by (simp add: case_prod_beta file_rest_def)
qed (simp_all add: k_print_def case_prod_beta print_bytes_append)

section \<open>Properties\<close>



end
