(* ===== verification/Programs.thy ===== *)
theory Programs
  imports User
begin

text \<open>
  User programs of the directory \<^verbatim>\<open>syscalls\<close>: \<^verbatim>\<open>cat\<close>, \<^verbatim>\<open>ls\<close>, \<^verbatim>\<open>hello\<close>, \<^verbatim>\<open>testprint\<close>, \<^verbatim>\<open>counter\<close> and the
  \<^verbatim>\<open>shell\<close>. Each \<^verbatim>\<open>main\<close> is a function of the system it runs on; its local buffer is an argument,
  since it starts with whatever the stack holds. The lemmas about a program are proved
  against the interface and hold for the kernel by interpretation.
\<close>

section \<open>Definitions\<close>

text \<open>The output of the loops of \<^verbatim>\<open>cat\<close> and \<^verbatim>\<open>ls\<close> is the status that \<^verbatim>\<open>main\<close> returns.\<close>

partial_function (option) cat_loop :: "'s os \<Rightarrow> s32 \<Rightarrow> bytes \<Rightarrow> 's \<Rightarrow> (s32 \<times> 's) option" where
  "cat_loop os fd buf s =
     Option.bind (ece391_read os fd buf 1024 s) (\<lambda>(cnt, buf, s).
       if 0 \<noteq> cnt
       then if - 1 = cnt then give_up os (line ''file read failed'') 3 s
            else Option.bind (ece391_write os 1 buf cnt s) (\<lambda>(r, s). if - 1 = r then Some (3, s) else cat_loop os fd buf s)
       else Some (0, s))"

definition cat_main :: "'s os \<Rightarrow> bytes \<Rightarrow> 's \<Rightarrow> (s32 \<times> 's) option" where
  "cat_main os buf s =
     Option.bind (ece391_getargs os buf 1024 s) (\<lambda>(r, buf, s).
       if 0 \<noteq> r then give_up os (line ''could not read arguments'') 3 s
       else Option.bind (ece391_open os buf s) (\<lambda>(fd, s).
              if - 1 = fd then give_up os (line ''file not found'') 2 s else cat_loop os fd buf s))"

definition SBUFSIZE :: nat where "SBUFSIZE = 33"
definition BUFSIZE :: nat where "BUFSIZE = 1024"

partial_function (option) ls_loop :: "'s os \<Rightarrow> s32 \<Rightarrow> bytes \<Rightarrow> 's \<Rightarrow> (s32 \<times> 's) option" where
  "ls_loop os fd buf s =
     Option.bind (ece391_read os fd buf (of_nat (SBUFSIZE - 1)) s) (\<lambda>(cnt, buf, s).
       if 0 \<noteq> cnt
       then if - 1 = cnt then give_up os (line ''directory entry read failed'') 3 s
            else let buf = buf(unat cnt := NEWLINE)
                 in Option.bind (ece391_write os 1 buf (cnt + 1) s) (\<lambda>(r, s). if - 1 = r then Some (3, s) else ls_loop os fd buf s)
       else Some (0, s))"

definition ls_main :: "'s os \<Rightarrow> bytes \<Rightarrow> 's \<Rightarrow> (s32 \<times> 's) option" where
  "ls_main os buf s =
     Option.bind (ece391_open os (cstr ''.'') s) (\<lambda>(fd, s).
       if - 1 = fd then give_up os (line ''directory open failed'') 2 s else ls_loop os fd buf s)"

definition testprint_main :: "'s os \<Rightarrow> 's \<Rightarrow> (s32 \<times> 's) option" where
  "testprint_main os s =
     Option.bind (puts_literal os (line ''Hello, if this ran, the program was correct. Yay!'') s) (\<lambda>s. Some (0, s))"

definition hello_main :: "'s os \<Rightarrow> bytes \<Rightarrow> 's \<Rightarrow> (s32 \<times> 's) option" where
  "hello_main os buf s =
     Option.bind (puts_literal os ''Hi, what's your name? '' s) (\<lambda>s.
     Option.bind (ece391_read os 0 buf (of_nat (BUFSIZE - 1)) s) (\<lambda>(cnt, buf, s).
       if - 1 = cnt then give_up os (line ''Can't read name from keyboard.'') 3 s
       else let buf = buf(unat cnt := NUL)
            in Option.bind (puts_literal os ''Hello, '' s) (\<lambda>s.
               Option.bind (ece391_fdputs os 1 buf s) (\<lambda>s. Some (0, s)))))"

text \<open>The counting loop of \<^verbatim>\<open>counter\<close>: \<open>n\<close> numbers, from \<open>i + 1\<close> on.\<close>

fun count_loop :: "'s os \<Rightarrow> bytes \<Rightarrow> nat \<Rightarrow> nat \<Rightarrow> 's \<Rightarrow> 's option" where
  "count_loop os buf i 0 s = Some s"
| "count_loop os buf i (Suc n) s =
     Option.bind (ece391_itoa (of_nat i + 1) buf 10) (\<lambda>buf.
     Option.bind (ece391_fdputs os 1 buf s) (\<lambda>s.
     Option.bind (puts_literal os (line '''') s) (\<lambda>s. count_loop os buf (Suc i) n s)))"

definition counter_main :: "'s os \<Rightarrow> bytes \<Rightarrow> 's \<Rightarrow> (s32 \<times> 's) option" where
  "counter_main os buf s =
     Option.bind (puts_literal os (line ''Enter the Test Number: (0): 100, (1): 10000, (2): 100000'') s) (\<lambda>s.
     Option.bind (ece391_read os 0 buf (of_nat (BUFSIZE - 1)) s) (\<lambda>(cnt, buf, s).
       if - 1 = cnt then give_up os (line ''Can't read the number from keyboard.'') 3 s
       else let buf = buf(unat cnt := NUL)
            in Option.bind (ece391_strlen buf) (\<lambda>len.
                 if len > 1 \<or> len = 1 \<and> (buf 0 < byte_of_char CHR ''0'' \<or> buf 0 > byte_of_char CHR ''2'')
                 then give_up os (line ''Wrong Choice!'') 0 s
                 else let limit = (if buf 0 = byte_of_char CHR ''0'' then 100 else if buf 0 = byte_of_char CHR ''1'' then 10000
                                   else if buf 0 = byte_of_char CHR ''2'' then 100000 else 0)
                      in Option.bind (count_loop os buf 0 limit s) (\<lambda>s. Some (0, s)))))"

text \<open>One command of the shell: \<open>Inl\<close> the status with which \<^verbatim>\<open>main\<close> returns, \<open>Inr\<close> when it goes on.\<close>

definition shell_command :: "'s os \<Rightarrow> bytes \<Rightarrow> 's \<Rightarrow> ((s32, bytes) sum \<times> 's) option" where
  "shell_command os buf s =
     Option.bind (puts_literal os ''391OS> '' s) (\<lambda>s.
     Option.bind (ece391_read os 0 buf (of_nat (BUFSIZE - 1)) s) (\<lambda>(cnt, buf, s).
       if - 1 = cnt then Option.bind (give_up os (line ''read from keyboard failed'') 3 s) (\<lambda>(r, s). Some (Inl r, s))
       else let cnt = (if 0 <s cnt \<and> NEWLINE = buf (unat (cnt - 1)) then cnt - 1 else cnt);
                buf = buf(unat cnt := NUL)
            in Option.bind (ece391_strcmp buf (cstr ''exit'')) (\<lambda>d.
                 if 0 = d then Some (Inl 0, s)
                 else if NUL = buf 0 then Some (Inr buf, s)
                 else Option.bind (ece391_execute os buf s) (\<lambda>(rval, s).
                        Option.bind (if - 1 = rval then puts_literal os (line ''no such command'') s
                                     else if 256 = rval then puts_literal os (line ''program terminated by exception'') s
                                     else if 0 \<noteq> rval then puts_literal os (line ''program terminated abnormally'') s
                                     else Some s) (\<lambda>s. Some (Inr buf, s))))))"

partial_function (option) shell_loop :: "'s os \<Rightarrow> bytes \<Rightarrow> 's \<Rightarrow> (s32 \<times> 's) option" where
  "shell_loop os buf s =
     Option.bind (shell_command os buf s) (\<lambda>(r, s). case r of Inl status \<Rightarrow> Some (status, s) | Inr buf \<Rightarrow> shell_loop os buf s)"

definition shell_main :: "'s os \<Rightarrow> bytes \<Rightarrow> 's \<Rightarrow> (s32 \<times> 's) option" where
  "shell_main os buf s = Option.bind (puts_literal os (line ''Starting 391 Shell'') s) (\<lambda>s. shell_loop os buf s)"

section \<open>cat\<close>

context stream_os
begin

lemma cat_loop_prints:
  "ok s \<Longrightarrow> \<exists>s'. cat_loop os fd buf s = Some (0, s') \<and> ok s' \<and> screen s' = print (data s) (screen s)"
proof (induction "length (data s)" arbitrary: s buf rule: less_induct)
  case less
  let ?m = "min 1024 (length (data s))"
  obtain b1 s1 where r: "ece391_read os fd buf 1024 s = Some (of_nat ?m, b1, s1)" "run_of b1 0 ?m = take 1024 (data s)" "ok s1"
    "screen s1 = screen s" "data s1 = drop 1024 (data s)"
    using read_gives [OF less.prems, of 1024 buf] by auto
  show ?case
  proof (cases "data s = []")
    case True
    then show ?thesis using r by (subst cat_loop.simps) (auto simp: print_nil)
  next
    case False
    then have m: "0 < ?m" "?m < 2 ^ 31" "(of_nat ?m :: s32) \<noteq> - 1" using small_not_fail32 [of ?m] by auto
    have nz: "(of_nat ?m :: s32) \<noteq> 0" using m by (simp add: word_unat_eq_iff unat_of_nat)
    obtain s2 where w: "ece391_write os 1 b1 (of_nat ?m) s1 = Some (of_nat ?m, s2)" "ok s2" "screen s2 = print (take 1024 (data s)) (screen s)" "rest s2 = rest s1"
      using write_prints [OF r(3) m(2), of b1] r(2,4) by auto
    have d: "data s2 = drop 1024 (data s)" using data_rest [OF w(4)] r(5) by simp
    then have "length (data s2) < length (data s)" using False by simp
    then obtain s3 where "cat_loop os fd b1 s2 = Some (0, s3)" "ok s3" "screen s3 = print (data s2) (screen s2)"
      using less.hyps [of s2 b1] w(2) by blast
    then show ?thesis
      using r(1) w m(3) nz print_append [of "take 1024 (data s)" "drop 1024 (data s)"] d
      by (subst cat_loop.simps) (auto simp: eq_commute [of "- 1"] eq_commute [of 0])
  qed
qed

end

text \<open>A name in a buffer: what follows its terminator does not matter.\<close>

lemma takeWhile_run_cong:
  assumes "\<And>j. j \<le> n \<Longrightarrow> f j = g j" "g n = NUL" "\<not> P NUL"
  shows "takeWhile P (run_of f 0 m) = takeWhile P (run_of g 0 m)"
proof (cases "m \<le> n")
  case True
  then have "run_of f 0 m = run_of g 0 m" using assms(1) by (auto simp: run_of_eq_iff list_eq_iff_nth_eq)
  then show ?thesis by simp
next
  case False
  then obtain d where m: "m = Suc n + d" by (metis Suc_leI add.commute le_Suc_ex not_le)
  have split: "run_of h 0 (Suc n + d) = run_of h 0 (Suc n) @ run_of h (Suc n) d" for h :: bytes
    by (rule nth_equalityI) (auto simp: nth_append)
  have e: "run_of f 0 (Suc n) = run_of g 0 (Suc n)" by (rule nth_equalityI) (auto simp: assms(1))
  have "NUL \<in> set (run_of g 0 (Suc n))" using assms(2) by (auto simp: run_of_def)
  then show ?thesis unfolding m split e using takeWhile_append1 [of NUL "run_of g 0 (Suc n)" P] assms(3) by simp
qed

lemma given_name_cong:
  assumes "\<And>j. j \<le> n \<Longrightarrow> f j = g j" "g n = NUL"
  shows "given_name f = given_name g"
  unfolding given_name_def by (rule takeWhile_run_cong [of n]) (use assms in auto)

lemma lookup_cong:
  assumes "counts_ok fs" "\<And>j. j \<le> n \<Longrightarrow> f j = g j" "g n = NUL"
  shows "read_dentry_by_name fs f d = read_dentry_by_name fs g d"
proof -
  have "given_name f = given_name g" using given_name_cong [of n f g] assms(2,3) by blast
  then show ?thesis by (simp only: lookup_eq [OF assms(1)])
qed

text \<open>A store to memory that leaves video memory alone leaves the console alone.\<close>

lemma set_phys_con:
  assumes "\<And>a. in_video a \<Longrightarrow> m a = get_phys k a"
  shows "k_con (set_phys m k) = k_con k"
proof -
  have "m (VIDEO + of_int i) = video_mem (k_con k) i" if "0 \<le> i" "i < 4096" for i
  proof -
    have u: "uint (of_int i :: u32) = i" using that by (simp add: uint_word_of_int take_bit_int_eq_self)
    then have n: "unat (of_int i :: u32) < 4096" using that by (simp add: unat_eq_nat_uint)
    have "unat (VIDEO + of_int i) = unat VIDEO + unat (of_int i :: u32)" using n by (simp add: unat_word_ariths VIDEO_def)
    then have v: "in_video (VIDEO + of_int i)" using n by (simp add: in_video_def word_le_nat_alt word_less_nat_alt VIDEO_def)
    have "VIDEO + of_int i - VIDEO = (of_int i :: u32)" by simp
    then show ?thesis using assms [OF v] v u by (simp add: get_phys_def)
  qed
  then have "(\<lambda>i. if 0 \<le> i \<and> i < 4096 then m (VIDEO + of_int i) else video_mem (k_con k) i) = video_mem (k_con k)" by auto
  then show ?thesis by (simp add: set_phys_def)
qed

text \<open>Opening a regular file gives a descriptor on it, at its start.\<close>

lemma open_file_ready:
  assumes "fd_ready k" "p \<noteq> 0" "free_fds (k_fds k) \<noteq> []"
    and "read_dentry_by_name (k_fs k) name (stack_dentry k) = (0, d)" "file_type d \<noteq> 0" "file_type d \<noteq> 1"
    and "inode_idx d < num_inodes (k_fs k)" "sound_inode (k_fs k) (unat (inode_idx d))" "file_size (k_fs k) (unat (inode_idx d)) < 2 ^ 30"
  shows "\<exists>fd k'. ece391_open (kernel_os p) name (es, k) = Some (fd, es, k') \<and> fd \<noteq> - 1 \<and> file_ready fd k' \<and>
    file_rest fd k' = contents (k_fs k) (unat (inode_idx d)) \<and> cur_term k' = cur_term k \<and> k_con k' = k_con k \<and> own_fds k k'"
proof -
  let ?f = "file_info name k"
  obtain j js where j: "free_fds (k_fds k) = j # js" using assms(3) by (cases "free_fds (k_fds k)") auto
  then have jr: "2 \<le> j" "j < 8" using free_fds_range [of j "k_fds k"] by auto
  define k' where "k' = snd (file_open name k)"
  obtain k1 where o: "sys_open p name k = Some (of_nat j, k1)" "fd_ready k1" "k_fds k1 = (k_fds k)(int j := ?f)" "k1 = k'"
    using sys_open_eq [OF assms(1,2,4)] assms(5,6) j by (auto simp: opened_info_def install_def k'_def prod_eq_iff)
  have own: "own_fds k k'" using own_fds_con [of k] by (simp add: k'_def file_open_def Let_def say_def)
  have fr: "k_fs k' = k_fs k" "cur_term k' = cur_term k" "k_con k' = k_con k"
    using file_dev.opn_fails_iff [of name k] j
    by (auto simp: k'_def file_open_def Let_def cur_term_def set_fd_info_def)
  have fd: "sint (of_nat j :: s32) = int j" "\<not> bad_index (of_nat j)" "(of_nat j :: s32) \<noteq> - 1" using jr sint_small [of j] small_not_fail [of j] by auto
  have info: "inode_ptr ?f = inode_idx d" "file_position ?f = 0" "flags ?f = FD_ON" "fd_jump ?f = filesys_ops_table"
    using assms(4) by (simp_all add: file_info_def)
  have "get_inode_ptr (of_nat j) (k_proc k') = inode_idx d" "get_file_position (of_nat j) (k_proc k') = 0"
    using o(3,4) fd info by (simp_all add: get_inode_ptr_def get_file_position_def k_fds_def)
  then have "file_ready (of_nat j) k'" "file_rest (of_nat j) k' = contents (k_fs k) (unat (inode_idx d))"
    using o fd info assms(7-9) by (simp_all add: file_ready_def file_fd_ok_def fr file_rest_def)
  then show ?thesis using o fd fr own by (intro exI [of _ "of_nat j"]) (auto simp: kernel_calls)
qed

text \<open>The arguments of a program that are one name.\<close>

definition name_args :: "bytes \<Rightarrow> u8 list \<Rightarrow> bool" where
  "name_args args A \<longleftrightarrow> A \<noteq> [] \<and> NUL \<notin> set A \<and> last A \<noteq> SPACE \<and> length A < 128 \<and> (\<forall>j\<in>{0..length A}. args j = bytes_of A j)"

lemma getargs_name:
  assumes "name_args (pcb_args (cur_pcb (k_proc k))) A" "p \<noteq> 0" "\<forall>j\<in>{0..<1024}. \<not> in_video (phys_of k p + of_nat j)"
  shows "\<exists>k' b. ece391_getargs (kernel_os p) buf 1024 (es, k) = Some (0, b, es, k') \<and> (\<forall>j\<le>length A. b j = bytes_of A j) \<and>
    k_proc k' = k_proc k \<and> k_fs k' = k_fs k \<and> k_con k' = k_con k \<and> stack_dentry k' = stack_dentry k \<and> own_fds k k'"
proof -
  let ?a = "pcb_args (cur_pcb (k_proc k))" and ?b = "phys_of k p"
  note A = assms(1) [unfolded name_args_def]
  have "?a (length A - 1) = last A" using A by (auto simp: bytes_of_def last_conv_nth)
  then have "\<not> blank (?a (length A - 1))" using A by (metis blank_def last_in_set)
  then obtain l where l: "length A - 1 \<le> l" "last_char ?a l" using A by (elim last_char_exists [rotated]) auto
  have "?a 0 = A ! 0" "A ! 0 \<noteq> NUL" using A by (auto simp: bytes_of_def in_set_conv_nth)
  then have z: "?a 0 \<noteq> NUL" by simp
  define m where "m = (\<lambda>a. if unat (a - ?b) < 1024 then (if unat (a - ?b) \<le> l then ?a (unat (a - ?b)) else NUL) else get_phys k a)"
  have g: "getargs p 1024 k = Some (0, set_phys m k)"
    using getargs_memory [OF assms(2), of 1024 k l] l(2) z by (simp add: m_def)
  have b: "view m ?b j = bytes_of A j" if "j \<le> length A" for j
  proof -
    have "unat (?b + of_nat j - ?b) = j" using that A by (intro unat_sub_left) simp
    then show ?thesis using that A l(1) by (auto simp: view_def m_def bytes_of_def)
  qed
  have "m a = get_phys k a" if "in_video a" for a
  proof -
    have "\<not> unat (a - ?b) < 1024" using bspec [OF assms(3), of "unat (a - ?b)"] that by auto
    then show ?thesis by (simp add: m_def)
  qed
  then have "k_con (set_phys m k) = k_con k" by (rule set_phys_con)
  then show ?thesis using g b own_fds_phys [of k m] by (simp add: kernel_calls) (simp add: set_phys_def)
qed

text \<open>
  The same programs on another system that answers these calls as the kernel does (the system of a
  program that starts others is one).
\<close>

definition same_calls :: "(irq list \<times> kernel) os \<Rightarrow> u32 \<Rightarrow> bool" where
  "same_calls os p \<longleftrightarrow> ece391_write os = ece391_write (kernel_os p) \<and> ece391_read os = ece391_read (kernel_os p) \<and>
     ece391_open os = ece391_open (kernel_os p) \<and> ece391_getargs os = ece391_getargs (kernel_os p)"

lemma give_up_cong: "ece391_write os = ece391_write os' \<Longrightarrow> give_up os = give_up os'"
  by (simp add: fun_eq_iff give_up_def puts_literal_def ece391_fdputs_def)

lemma cat_loop_cong:
  assumes "ece391_write os = ece391_write os'" "ece391_read os = ece391_read os'" "cat_loop os fd buf s = Some r"
  shows "cat_loop os' fd buf s = Some r"
proof -
  have "ece391_write o1 = ece391_write os' \<longrightarrow> ece391_read o1 = ece391_read os' \<longrightarrow> cat_loop os' fd buf s = Some r"
    if "cat_loop o1 fd buf s = Some r" for o1
  proof (rule cat_loop.raw_induct [OF _ that], intro impI)
    fix cl and o2 :: "'a os" and fd buf s r
    assume ih: "\<And>o2 fd buf s r. cl o2 fd buf s = Some r \<Longrightarrow> ece391_write o2 = ece391_write os' \<longrightarrow> ece391_read o2 = ece391_read os' \<longrightarrow> cat_loop os' fd buf s = Some r"
      and body: "Option.bind (ece391_read o2 fd buf 1024 s) (\<lambda>(cnt, buf, s). if 0 \<noteq> cnt then if - 1 = cnt then give_up o2 (line ''file read failed'') 3 s
          else Option.bind (ece391_write o2 1 buf cnt s) (\<lambda>(r, s). if - 1 = r then Some (3, s) else cl o2 fd buf s) else Some (0, s)) = Some r"
      and eq: "ece391_write o2 = ece391_write os'" "ece391_read o2 = ece391_read os'"
    show "cat_loop os' fd buf s = Some r"
      using body ih [rule_format, OF _ eq] unfolding cat_loop.simps [of os' fd buf s] eq give_up_cong [OF eq(1)]
      by (cases r) (auto split: Option.bind_splits prod.splits if_splits)
  qed
  then show ?thesis using assms by blast
qed

lemma cat_kernel:
  assumes "fd_ready k" "p \<noteq> 0" "free_fds (k_fds k) \<noteq> []" "counts_ok (k_fs k)"
    and "name_args (pcb_args (cur_pcb (k_proc k))) A" "\<forall>j\<in>{0..<1024}. \<not> in_video (phys_of k p + of_nat j)"
    and "read_dentry_by_name (k_fs k) (bytes_of A) (stack_dentry k) = (0, d)" "file_type d = 2"
    and "inode_idx d < num_inodes (k_fs k)" "sound_inode (k_fs k) (unat (inode_idx d))" "file_size (k_fs k) (unat (inode_idx d)) < 2 ^ 30"
    and "same_calls os p"
  shows "\<exists>k'. cat_main os buf (es, k) = Some (0, es, k') \<and> own_fds k k' \<and> fd_ready k' \<and> cur_term k' = cur_term k \<and>
    k_con k' = print_bytes (contents (k_fs k) (unat (inode_idx d))) (cur_term k) (k_con k)"
proof -
  obtain k1 b where g: "ece391_getargs (kernel_os p) buf 1024 (es, k) = Some (0, b, es, k1)" "\<forall>j\<le>length A. b j = bytes_of A j"
    "k_proc k1 = k_proc k" "k_fs k1 = k_fs k" "k_con k1 = k_con k" "stack_dentry k1 = stack_dentry k" "own_fds k k1"
    using getargs_name [OF assms(5,2,6)] by metis
  have look: "read_dentry_by_name (k_fs k1) b (stack_dentry k1) = (0, d)"
    using lookup_cong [OF assms(4), of "length A" b "bytes_of A"] g assms(7) by (simp add: bytes_of_def)
  obtain fd k2 where o: "ece391_open (kernel_os p) b (es, k1) = Some (fd, es, k2)" "fd \<noteq> - 1" "file_ready fd k2"
    "file_rest fd k2 = contents (k_fs k) (unat (inode_idx d))" "cur_term k2 = cur_term k" "k_con k2 = k_con k" "own_fds k1 k2"
    using open_file_ready [of k1 p b d es] look assms g by (auto simp: fd_ready_def k_fds_def cur_term_def)
  obtain es' k3 where c: "cat_loop (kernel_os p) fd b (es, k2) = Some (0, es', k3)" "k_screen (es', k3) = k_print (file_rest fd k2) (k_screen (es, k2))"
    "file_ready fd k3" "own_fds k2 k3"
    using kernel_stream.cat_loop_prints [of p fd k2 "(es, k2)" b] assms(2) o(3) by auto
  have "cat_loop os fd b (es, k2) = Some (0, es', k3)"
    using cat_loop_cong [OF _ _ c(1), of os] assms(12) by (simp add: same_calls_def)
  then show ?thesis
    using g(1) o c own_fds_trans [OF own_fds_trans [OF g(7) o(7)] c(4)] assms(12)
    by (simp add: cat_main_def k_screen_def k_print_def same_calls_def file_ready_def)
qed

section \<open>ls\<close>

text \<open>A descriptor that is open on the directory, and the names still to be read.\<close>

definition dir_ready :: "s32 \<Rightarrow> kernel \<Rightarrow> bool" where
  "dir_ready fd k \<longleftrightarrow> fd_ready k \<and> \<not> bad_index fd \<and> flags (k_fds k (sint fd)) = FD_ON \<and> fd_jump (k_fds k (sint fd)) = dir_ops_table"

definition dir_names :: "s32 \<Rightarrow> kernel \<Rightarrow> u8 list list" where
  "dir_names fd k = map (entry_name (k_fs k)) [unat (get_file_position fd (k_proc k))..<unat (num_entries (k_fs k))]"

definition listing :: "u8 list list \<Rightarrow> u8 list" where
  "listing names = concat (map (\<lambda>x. x @ [NEWLINE]) names)"

lemma dir_read_name:
  assumes "dir_ready fd k" "p \<noteq> 0"
  shows "ece391_read (kernel_os p) fd buf 32 (es, k) =
    (case dir_names fd k of [] \<Rightarrow> Some (0, buf, es, k)
     | x # xs \<Rightarrow> Some (of_nat (length x), (\<lambda>j. if j < length x then x ! j else buf j), es, on_proc (add_offset fd 1) k))"
proof -
  have v: "check_valid_fd fd (k_proc k) \<noteq> 0" "op_read (jump_table fd (k_proc k)) = Dir_read"
    using assms(1) by (auto simp: dir_ready_def check_valid_fd_def k_fds_def jump_table_def fd_ready_def tables_ready_def fd_consts)
  let ?i = "get_file_position fd (k_proc k)"
  show ?thesis
  proof (cases "?i < num_entries (k_fs k)")
    case True
    then have "unat ?i < unat (num_entries (k_fs k))" by (simp add: word_less_nat_alt)
    then have n: "dir_names fd k = entry_name (k_fs k) (unat ?i) # map (entry_name (k_fs k)) [Suc (unat ?i)..<unat (num_entries (k_fs k))]"
      by (simp add: dir_names_def upt_conv_Cons)
    have "takeWhile (\<lambda>c. c \<noteq> NUL) (run_of (entry_file_name (k_fs k) (unat ?i)) 0 (min (nat (sint (32 :: s32))) 32)) = entry_name (k_fs k) (unat ?i)"
      by (simp add: entry_name_def fs_consts)
    then show ?thesis unfolding n using v assms(2) True by (simp add: kernel_calls sys_read_def dir_read_lists Let_def cong: if_cong)
  next
    case False
    then have "dir_names fd k = []" by (simp add: dir_names_def word_less_nat_alt)
    then show ?thesis using v assms(2) False by (simp add: kernel_calls sys_read_def dir_read_lists Let_def)
  qed
qed

lemma dir_next:
  assumes "dir_ready fd k" "dir_names fd k = x # xs"
  shows "dir_ready fd (on_proc (add_offset fd 1) k)" "dir_names fd (on_proc (add_offset fd 1) k) = xs"
proof -
  let ?i = "get_file_position fd (k_proc k)"
  have b: "\<not> bad_index fd" using assms(1) by (simp add: dir_ready_def)
  have "fds_ok (cur_fds (add_offset fd 1 (k_proc k)))"
    using assms(1) b by (intro add_offset_ok) (auto simp: dir_ready_def fd_ready_def k_fds_def check_valid_fd_def)
  then have "fd_ready (on_proc (add_offset fd 1) k)" using assms(1) by (simp add: dir_ready_def fd_ready_def k_fds_def)
  moreover have "flags (k_fds (on_proc (add_offset fd 1) k) (sint fd)) = flags (k_fds k (sint fd))"
    "fd_jump (k_fds (on_proc (add_offset fd 1) k) (sint fd)) = fd_jump (k_fds k (sint fd))"
    using b by (simp_all add: k_fds_def add_offset_def Let_def)
  ultimately show "dir_ready fd (on_proc (add_offset fd 1) k)" using assms(1) by (simp add: dir_ready_def)
  have lt: "unat ?i < unat (num_entries (k_fs k))" using assms(2) by (cases "unat ?i < unat (num_entries (k_fs k))") (auto simp: dir_names_def)
  then have "unat (?i + 1) = Suc (unat ?i)" using unat_u32_less [of "num_entries (k_fs k)"] by (simp add: unat_word_ariths)
  then show "dir_names fd (on_proc (add_offset fd 1) k) = xs"
    using assms(2) lt by (simp add: dir_names_def add_offset_fields [OF b] upt_conv_Cons)
qed

lemma ls_loop_kernel:
  assumes "dir_ready fd k" "p \<noteq> 0" "[] \<notin> set (dir_names fd k)" "same_calls os p"
  shows "\<exists>k'. ls_loop os fd buf (es, k) = Some (0, es, k') \<and> own_fds k k' \<and> fd_ready k' \<and> cur_term k' = cur_term k \<and>
    k_con k' = print_bytes (listing (dir_names fd k)) (cur_term k) (k_con k)"
  using assms(1,3)
proof (induction "dir_names fd k" arbitrary: k buf)
  case Nil
  then show ?case
    using dir_read_name [OF Nil(2) assms(2), of buf es] assms(4)
    by (subst ls_loop.simps) (simp add: SBUFSIZE_def listing_def same_calls_def dir_ready_def)
next
  case (Cons x xs)
  define k1 where "k1 = on_proc (add_offset fd 1) k"
  define b1 where "b1 = (\<lambda>j. if j < length x then x ! j else buf j)(length x := NEWLINE)"
  have names: "dir_names fd k = x # xs" using Cons.hyps(2) by simp
  then have "x \<in> set (map (entry_name (k_fs k)) [unat (get_file_position fd (k_proc k))..<unat (num_entries (k_fs k))])"
    unfolding dir_names_def by simp
  then have "length x \<le> 32" using length_takeWhile_le [of _ "run_of _ 0 MAX_NAME_CHARACTERS"] by (auto simp: entry_name_def fs_consts)
  then have x: "0 < length x" "length x \<le> 32" using Cons.prems(2) names by auto
  then have len: "unat (of_nat (length x) :: s32) = length x" "(of_nat (length x) :: s32) \<noteq> 0" "(of_nat (length x) :: s32) \<noteq> - 1"
    using small_not_fail [of "length x"] by (auto simp: unat_of_nat word_unat_eq_iff)
  have run: "run_of b1 0 (Suc (length x)) = x @ [NEWLINE]"
    by (rule nth_equalityI) (auto simp: b1_def nth_append less_Suc_eq)
  have k1: "dir_ready fd k1" "dir_names fd k1 = xs" using dir_next [OF Cons.prems(1) names] by (simp_all add: k1_def)
  have sc: "cur_term k1 = cur_term k" "k_con k1 = k_con k" by (simp_all add: k1_def cur_term_def add_offset_def Let_def)
  define k2 where "k2 = on_con (print_bytes (x @ [NEWLINE])) k1"
  have w: "ece391_write (kernel_os p) 1 b1 (of_nat (Suc (length x))) (es, k1) = Some (of_nat (Suc (length x)), es, k2)"
    using kernel_write_prints [of k1 p "Suc (length x)" b1 es] k1(1) assms(2) x(2) run by (simp add: dir_ready_def k2_def)
  have k2: "dir_ready fd k2" "dir_names fd k2 = xs" using k1 by (simp_all add: k2_def dir_ready_def dir_names_def fd_ready_def k_fds_def)
  obtain k3 where k3: "ls_loop os fd b1 (es, k2) = Some (0, es, k3)" "cur_term k3 = cur_term k2"
    "k_con k3 = print_bytes (listing xs) (cur_term k2) (k_con k2)" "own_fds k2 k3" "fd_ready k3"
    using Cons.hyps(1) [of k2 b1] k2 Cons.prems(2) names by auto
  have "(of_nat (Suc (length x)) :: s32) \<noteq> - 1" using small_not_fail [of "Suc (length x)"] x(2) by simp
  then have "ls_loop os fd buf (es, k) = Some (0, es, k3)"
    using dir_read_name [OF Cons.prems(1) assms(2), of buf es] names w k3(1) len assms(4)
    by (subst ls_loop.simps) (auto simp: SBUFSIZE_def same_calls_def k1_def [symmetric] b1_def [symmetric] add.commute)
  moreover have "own_fds k k3"
    using own_fds_trans [OF own_fds_offset own_fds_trans [OF own_fds_con k3(4) [unfolded k2_def k1_def]]] .
  ultimately show ?case using k3(2,3,5) sc names by (simp add: k2_def listing_def print_bytes_append)
qed

lemma ls_kernel:
  assumes "fd_ready k" "p \<noteq> 0" "free_fds (k_fds k) \<noteq> []"
    and "read_dentry_by_name (k_fs k) (cstr ''.'') (stack_dentry k) = (0, d)" "file_type d = 1"
    and "\<forall>i\<in>{0..<unat (num_entries (k_fs k))}. entry_name (k_fs k) i \<noteq> []" "same_calls os p"
  shows "\<exists>k'. ls_main os buf (es, k) = Some (0, es, k') \<and> own_fds k k' \<and> fd_ready k' \<and> cur_term k' = cur_term k \<and>
    k_con k' = print_bytes (listing (map (entry_name (k_fs k)) [0..<unat (num_entries (k_fs k))])) (cur_term k) (k_con k)"
proof -
  obtain j js where j: "free_fds (k_fds k) = j # js" using assms(3) by (cases "free_fds (k_fds k)") auto
  then have jr: "2 \<le> j" "j < 8" using free_fds_range [of j "k_fds k"] by auto
  define k1 where "k1 = snd (dir_open (cstr ''.'') k)"
  have o: "sys_open p (cstr ''.'') k = Some (of_nat j, k1)" "fd_ready k1" "k_fds k1 = (k_fds k)(int j := dir_info)"
    using sys_open_eq [OF assms(1,2,4)] assms(5) j by (auto simp: opened_info_def install_def k1_def prod_eq_iff)
  have own: "own_fds k k1" using own_fds_con [of k] by (simp add: k1_def dir_open_def Let_def say_def)
  have fr: "k_fs k1 = k_fs k" "cur_term k1 = cur_term k" "k_con k1 = k_con k"
    using dir_dev.opn_fails_iff [of "cstr ''.''" k] j
    by (auto simp: k1_def dir_open_def Let_def cur_term_def set_fd_info_def)
  have fd: "sint (of_nat j :: s32) = int j" "\<not> bad_index (of_nat j)" "(of_nat j :: s32) \<noteq> - 1" using jr sint_small [of j] small_not_fail [of j] by auto
  have ready: "dir_ready (of_nat j) k1" using o fd by (simp add: dir_ready_def dir_info_def)
  have names: "dir_names (of_nat j) k1 = map (entry_name (k_fs k)) [0..<unat (num_entries (k_fs k))]"
    using o(3) fd by (simp add: dir_names_def get_file_position_def fr k_fds_def dir_info_def)
  then have "[] \<notin> set (dir_names (of_nat j) k1)" using assms(6) by (auto simp: eq_commute [of "[]"])
  then obtain k2 where k2: "ls_loop os (of_nat j) buf (es, k1) = Some (0, es, k2)" "cur_term k2 = cur_term k1"
    "k_con k2 = print_bytes (listing (dir_names (of_nat j) k1)) (cur_term k1) (k_con k1)" "own_fds k1 k2" "fd_ready k2"
    using ls_loop_kernel [OF ready assms(2) _ assms(7), of buf es] by blast
  have "own_fds k k2" using own_fds_trans [OF own k2(4)] .
  then show ?thesis using k2 o fd fr names assms(7) by (simp add: ls_main_def same_calls_def kernel_calls)
qed

section \<open>Properties\<close>

text \<open>
  C8. \<^verbatim>\<open>cat\<close> prints the file: run by the kernel with the name of a regular file as its argument,
  it returns 0, and what has appeared on the screen is exactly the contents of the file,
  whatever its length; it takes no interrupt while doing so.
\<close>

theorem cat_prints_file:
  assumes "fd_ready k" "p \<noteq> 0" "free_fds (k_fds k) \<noteq> []" "counts_ok (k_fs k)"
    and "name_args (pcb_args (cur_pcb (k_proc k))) A" "\<forall>j\<in>{0..<1024}. \<not> in_video (phys_of k p + of_nat j)"
    and "read_dentry_by_name (k_fs k) (bytes_of A) (stack_dentry k) = (0, d)" "file_type d = 2"
    and "inode_idx d < num_inodes (k_fs k)" "sound_inode (k_fs k) (unat (inode_idx d))" "file_size (k_fs k) (unat (inode_idx d)) < 2 ^ 30"
  shows "\<exists>k'. cat_main (kernel_os p) buf (es, k) = Some (0, es, k') \<and> cur_term k' = cur_term k \<and>
    k_con k' = print_bytes (contents (k_fs k) (unat (inode_idx d))) (cur_term k) (k_con k)"
  using cat_kernel [OF assms, of "kernel_os p" buf es] by (auto simp: same_calls_def)

lemma demo_program_ready:
  "fd_ready (demo_program args m)" "k_fds (demo_program args m) = fd_table_init (\<lambda>_. empty_fd)" "k_fs (demo_program args m) = demo_fs 127"
  "cur_term (demo_program args m) = 0" "k_con (demo_program args m) = blank_console"
proof -
  show f: "k_fds (demo_program args m) = fd_table_init (\<lambda>_. empty_fd)"
    using demo_kernel_fds by (simp add: demo_program_def k_fds_def cur_fds_def)
  have "tables_ready (k_proc (demo_program args m))"
    using demo_fd_ready by (simp add: demo_program_def fd_ready_def tables_ready_def)
  then show "fd_ready (demo_program args m)" by (simp add: fd_ready_def f fd_table_init_ok)
  show "k_fs (demo_program args m) = demo_fs 127" "cur_term (demo_program args m) = 0" "k_con (demo_program args m) = blank_console"
    by (simp_all add: demo_program_def demo_kernel_def cur_term_def fops_table_init_def boot_procs_def)
qed

theorem cat_prints_file_witness:
  "\<exists>k'. cat_main (kernel_os 0x08100000) (\<lambda>_. 7) ([], demo_program (bytes_of [115, 104]) (\<lambda>_. 7)) = Some (0, [], k') \<and>
     k_con k' = print_bytes (contents (demo_fs 127) 0) 0 blank_console"
proof -
  let ?k = "demo_program (bytes_of [115, 104]) (\<lambda>_. 7)"
  have n: "name_args (pcb_args (cur_pcb (k_proc ?k))) [115, 104]" by (simp add: demo_program_fields name_args_def)
  have v: "\<forall>j\<in>{0..<1024}. \<not> in_video (phys_of ?k 0x08100000 + of_nat j)"
    by (auto simp: demo_program_fields in_video_def VIDEO_def word_less_nat_alt word_le_nat_alt unat_word_ariths unat_of_nat)
  have b: "bytes_of [115, 104] 0 = 115" "bytes_of [115, 104] 1 = 104" "bytes_of [115, 104] 2 = NUL" by (simp_all add: bytes_of_def)
  note look = demo_fs_lookup(1) [OF b, of 127 "stack_dentry ?k"] demo_fs_lookup(2,3) [OF b, of 127]
  have c: "counts_ok (demo_fs 127)" unfolding demo_fs_def by (rule counts_ok_init)
  show ?thesis
    using cat_prints_file [OF demo_program_ready(1) _ _ _ n v, of "fill_dentry (demo_fs 127) 1 2 (stack_dentry ?k)" "\<lambda>_. 7" "[]"] look c
    by (auto simp: demo_program_ready fd_table_init_free fill_dentry_def demo_fs_fields demo_fs_sound demo_fs_size)
qed

text \<open>
  C9. \<^verbatim>\<open>ls\<close> lists the directory: run by the kernel on an image without empty names, it returns 0
  and prints the names of all entries in their order, each followed by a newline.
\<close>

theorem ls_lists_directory:
  assumes "fd_ready k" "p \<noteq> 0" "free_fds (k_fds k) \<noteq> []"
    and "read_dentry_by_name (k_fs k) (cstr ''.'') (stack_dentry k) = (0, d)" "file_type d = 1"
    and "\<forall>i\<in>{0..<unat (num_entries (k_fs k))}. entry_name (k_fs k) i \<noteq> []"
  shows "\<exists>k'. ls_main (kernel_os p) buf (es, k) = Some (0, es, k') \<and> cur_term k' = cur_term k \<and>
    k_con k' = print_bytes (listing (map (entry_name (k_fs k)) [0..<unat (num_entries (k_fs k))])) (cur_term k) (k_con k)"
  using ls_kernel [OF assms, of "kernel_os p" buf es] by (auto simp: same_calls_def)

lemma demo_fs_names: "entry_name (demo_fs m) 0 = [46]" "entry_name (demo_fs m) 1 = [115, 104]"
  "read_dentry_by_name (demo_fs m) (cstr ''.'') d = (0, fill_dentry (demo_fs m) 0 1 d)" "entry_file_type (demo_fs m) 0 = 1"
proof -
  have n: "entry_file_name (demo_fs m) 1 0 = 115" "entry_file_name (demo_fs m) 1 1 = 104" "entry_file_name (demo_fs m) 1 2 = NUL"
    "entry_file_name (demo_fs m) 0 0 = 46" "entry_file_name (demo_fs m) 0 1 = NUL"
    by (simp_all add: entry_file_name_def demo_fs_fields demo_image_def)
  have "entry_file_name (demo_fs m) 1 j \<noteq> NUL" if "j < 2" for j using less_2_cases [OF that] n by auto
  then show "entry_name (demo_fs m) 1 = [115, 104]"
    using entry_name_run [of 2 "demo_fs m" 1] n by (simp add: run_of_def upt_rec fs_consts)
  show e0: "entry_name (demo_fs m) 0 = [46]" using entry_name_run [of 1 "demo_fs m" 0] n by (simp add: run_of_def fs_consts)
  show "entry_file_type (demo_fs m) 0 = 1" by (simp add: entry_file_type_def demo_fs_fields fs_consts u32_at_def le32_def demo_image_def)
  have "cstr ''.'' 0 = 46" "cstr ''.'' 1 = NUL" by (simp_all add: cstr_def byte_of_char_def of_char_def)
  then have g: "given_name (cstr ''.'') = [46]" using given_name_run [of 1 "cstr ''.''"] by (simp add: run_of_def fs_consts)
  have "[0..<MAX_ENTRIES] = 0 # [1..<MAX_ENTRIES]" by (simp add: fs_consts upt_conv_Cons)
  then show "read_dentry_by_name (demo_fs m) (cstr ''.'') d = (0, fill_dentry (demo_fs m) 0 1 d)"
    using lookup_eq [of "demo_fs m" "cstr ''.''" d] counts_ok_init [of "demo_image m"] by (simp add: g e0 demo_fs_def [symmetric])
qed

theorem ls_lists_directory_witness:
  "\<exists>k'. ls_main (kernel_os 4) (\<lambda>_. 7) ([], demo_program (\<lambda>_. 0) (\<lambda>_. 0)) = Some (0, [], k') \<and>
     k_con k' = print_bytes [46, 10, 115, 104, 10] 0 blank_console"
proof -
  let ?k = "demo_program (\<lambda>_. 0) (\<lambda>_. 0)"
  have two: "[0..<2] = [0, 1 :: nat]" by (simp add: upt_rec)
  have two_set: "{0..<2} = {0, 1 :: nat}" by auto
  have "listing (map (entry_name (demo_fs 127)) [0..<2]) = [46, 10, 115, 104, 10]"
    unfolding two by (simp add: listing_def demo_fs_names [unfolded One_nat_def])
  moreover have "\<forall>i\<in>{0..<2}. entry_name (demo_fs 127) i \<noteq> []" unfolding two_set by (simp add: demo_fs_names [unfolded One_nat_def])
  ultimately show ?thesis
    using ls_lists_directory [OF demo_program_ready(1), of 4 "\<lambda>_. 0" "\<lambda>_. 0" "fill_dentry (demo_fs 127) 0 1 (stack_dentry ?k)" "\<lambda>_. 7" "[]"]
    by (auto simp: demo_program_ready fd_table_init_free demo_fs_fields demo_fs_names fill_dentry_def)
qed

end
