(* ===== verification/Interactive.thy ===== *)
theory Interactive
  imports Programs
begin

text \<open>
  The programs that talk to their user: \<^verbatim>\<open>hello\<close>, \<^verbatim>\<open>counter\<close> and \<^verbatim>\<open>shell\<close>. What they rely on is that a
  read of descriptor 0 delivers the lines the user types, one by one; the kernel is shown to
  do so for every sequence of editing keys and interrupts.
\<close>

section \<open>The lines a user types\<close>

text \<open>
  \<open>pending\<close> are the typed lines that are still to be read, and \<open>deliver\<close> is what a reader with
  room for a line gets of it. A program's output does not change them; reading a line leaves
  the program's \<open>files\<close> alone.
\<close>

locale keyboard_os = screen_os +
  fixes pending :: "'s \<Rightarrow> u8 list list" and deliver :: "u8 list \<Rightarrow> u8 list" and files :: "'s \<Rightarrow> 'f"
  assumes read_line: "ok s \<Longrightarrow> pending s = xs # ys \<Longrightarrow> length xs < n \<Longrightarrow> n < 2 ^ 31 \<Longrightarrow>
      \<exists>buf' s'. ece391_read os 0 buf (of_nat n) s = Some (of_nat (length (deliver xs)), buf', s') \<and>
        run_of buf' 0 (length (deliver xs)) = deliver xs \<and> ok s' \<and> pending s' = ys \<and> files s' = files s"
    and pending_short: "ok s \<Longrightarrow> xs \<in> set (pending s) \<Longrightarrow> length xs < 128"
    and pending_rest: "rest s' = rest s \<Longrightarrow> pending s' = pending s"
    and deliver_short: "length (deliver xs) \<le> Suc (length xs)"
    and deliver_text: "NUL \<notin> set (deliver xs)"
begin

lemma read_pending:
  assumes "ok s" "pending s = xs # ys" "length xs < n" "n < 2 ^ 31"
  shows "\<exists>buf' s'. ece391_read os 0 buf (of_nat n) s = Some (of_nat (length (deliver xs)), buf', s') \<and>
    run_of buf' 0 (length (deliver xs)) = deliver xs \<and> ok s' \<and> pending s' = ys \<and> files s' = files s \<and>
    unat (of_nat (length (deliver xs)) :: s32) = length (deliver xs) \<and> (of_nat (length (deliver xs)) :: s32) \<noteq> - 1"
proof -
  have l: "length (deliver xs) < 200" using pending_short [OF assms(1), of xs] deliver_short [of xs] assms(2) by simp
  then have "unat (of_nat (length (deliver xs)) :: s32) = length (deliver xs)" by (simp add: unat_of_nat)
  moreover have "(of_nat (length (deliver xs)) :: s32) \<noteq> - 1" using l small_not_fail32 [of "length (deliver xs)"] by simp
  ultimately show ?thesis using read_line [OF assms, of buf] by auto
qed

lemma read_1023:
  assumes "ok s" "pending s = xs # ys"
  shows "\<exists>buf' s'. ece391_read os 0 buf 1023 s = Some (of_nat (length (deliver xs)), buf', s') \<and>
    run_of buf' 0 (length (deliver xs)) = deliver xs \<and> ok s' \<and> pending s' = ys \<and> files s' = files s \<and>
    unat (of_nat (length (deliver xs)) :: s32) = length (deliver xs) \<and> (of_nat (length (deliver xs)) :: s32) \<noteq> - 1"
  using read_pending [OF assms, of 1023 buf] pending_short [OF assms(1), of xs] assms(2) by simp

end

text \<open>The lines that a sequence of interrupts completes, from a state of the line editor on.\<close>

fun lines_of :: "irq list \<Rightarrow> int \<times> u8 list \<Rightarrow> u8 list list" where
  "lines_of [] st = []"
| "lines_of (e # es) st =
     (if e = Key ENTER then snd st # lines_of es (fst st, [])
      else if typing e then lines_of es (edit_irq e st) else [])"

lemma lines_of_Cons:
  assumes "lines_of es st = xs # ys"
  shows "\<exists>es1 es2. es = es1 @ Key ENTER # es2 \<and> list_all typing es1 \<and> xs = snd (fold edit_irq es1 st) \<and>
    ys = lines_of es2 (fst (fold edit_irq es1 st), [])"
  using assms
proof (induction es arbitrary: st)
  case (Cons e es)
  show ?case
  proof (cases "e = Key ENTER")
    case True
    then show ?thesis using Cons.prems by (intro exI [of _ "[]"] exI [of _ es]) simp
  next
    case False
    then have t: "typing e" "lines_of es (edit_irq e st) = xs # ys" using Cons.prems by (auto split: if_splits)
    then obtain es1 es2 where "es = es1 @ Key ENTER # es2 \<and> list_all typing es1 \<and> xs = snd (fold edit_irq es1 (edit_irq e st)) \<and>
        ys = lines_of es2 (fst (fold edit_irq es1 (edit_irq e st)), [])"
      using Cons.IH by blast
    then show ?thesis using t(1) by (intro exI [of _ "e # es1"] exI [of _ es2]) simp
  qed
qed simp

text \<open>A line is short, and what is delivered of it has no NUL.\<close>

lemma edit_irq_short: "length (snd st) \<le> 127 \<Longrightarrow> length (snd (edit_irq e st)) \<le> 127"
  by (cases e) (simp_all add: edit_irq_def edit_def case_prod_beta diff_le_self [THEN le_trans])

lemma line_result_length: "length (line_result xs) \<le> Suc (length xs)"
proof -
  have "length (stripped xs) \<le> length xs"
    unfolding stripped_def by (meson length_takeWhile_le length_dropWhile_le order_trans)
  then show ?thesis by (simp add: line_result_def)
qed

lemma lines_of_short: "length (snd st) \<le> 127 \<Longrightarrow> xs \<in> set (lines_of es st) \<Longrightarrow> length xs \<le> 127"
proof (induction es arbitrary: st)
  case (Cons e es)
  then show ?case
    using edit_irq_short [of st e] Cons.IH [of "(fst st, [])"] Cons.IH [of "edit_irq e st"]
    by (auto split: if_splits)
qed simp

lemma line_result_nul: "NUL \<notin> set (line_result xs)"
  by (auto simp: line_result_def stripped_def dest: set_takeWhileD)

text \<open>
  The kernel delivers them. \<open>Q\<close> is what else holds of the processes and the file system: talking
  to the user changes neither.
\<close>

definition talking :: "u32 \<Rightarrow> (procs \<Rightarrow> filesystem \<Rightarrow> bool) \<Rightarrow> irq list \<times> kernel \<Rightarrow> bool" where
  "talking p Q = (\<lambda>(es, k). p \<noteq> 0 \<and> fd_ready k \<and> tty_ok k \<and> Q (k_proc k) (k_fs k))"

definition mounted_fs :: "filesystem \<Rightarrow> procs \<Rightarrow> filesystem \<Rightarrow> bool" where
  "mounted_fs fs p fs' \<longleftrightarrow> fs' = fs \<and> counts_ok fs"

definition k_pending :: "irq list \<times> kernel \<Rightarrow> u8 list list" where
  "k_pending = (\<lambda>(es, k). lines_of es (line_state k))"

lemma fd_zero:
  assumes "fd_ready k"
  shows "check_valid_fd 0 (k_proc k) \<noteq> 0" "op_write (jump_table 0 (k_proc k)) = Keyboard_write" "op_read (jump_table 0 (k_proc k)) = Keyboard_read"
  using assms by (auto simp: fd_ready_def k_fds_def fds_ok_def tables_ready_def check_valid_fd_def bad_index_def jump_table_def fd_consts)

lemma kernel_read_line:
  assumes "p \<noteq> 0" "fd_ready k" "tty_ok k" "lines_of es (line_state k) = xs # ys" "length xs < n" "n < 2 ^ 31"
  shows "\<exists>buf' es' k'. ece391_read (kernel_os p) 0 buf (of_nat n) (es, k) = Some (of_nat (length (line_result xs)), buf', es', k') \<and>
    run_of buf' 0 (length (line_result xs)) = line_result xs \<and> fd_ready k' \<and> tty_ok k' \<and> lines_of es' (line_state k') = ys \<and>
    k_proc k' = k_proc k \<and> k_fs k' = k_fs k"
proof -
  obtain es1 es2 where e: "es = es1 @ Key ENTER # es2" "list_all typing es1" "xs = snd (fold edit_irq es1 (line_state k))"
    "ys = lines_of es2 (fst (fold edit_irq es1 (line_state k)), [])"
    using lines_of_Cons [OF assms(4)] by blast
  have n: "int (length (snd (fold edit_irq es1 (line_state k)))) < sint (of_nat n :: s32)"
    using sint_small31 [OF assms(6)] assms(5) e(3) by simp
  obtain buf' k' where "keyboard_read 0 p buf (of_nat n) es k = Some (Return (of_nat (length (line_result xs))), buf', es2, k')"
    "run_of buf' 0 (length (line_result xs)) = line_result xs" "tty_ok k'" "line_state k' = (fst (fold edit_irq es1 (line_state k)), [])"
    "k_proc k' = k_proc k" "k_fs k' = k_fs k"
    using read_line [OF assms(3,1) e(2) n, of 0 buf es2] unfolding e(1,3) by blast
  then show ?thesis
    using fd_zero [OF assms(2)] assms(1,2) e(4) by (auto simp: kernel_calls sys_read_def fd_ready_def k_fds_def)
qed

interpretation kernel_keyboard: keyboard_os "kernel_os p" "talking p Q" k_screen k_print k_rest k_pending line_result "\<lambda>(es, k). k_proc k" for p Q
proof
  fix s :: "irq list \<times> kernel" and n buf
  assume s: "talking p Q s" "n < (2 :: nat) ^ 31"
  then show "\<exists>s'. ece391_write (kernel_os p) 1 buf (of_nat n) s = Some (of_nat n, s') \<and> talking p Q s' \<and>
      k_screen s' = k_print (run_of buf 0 n) (k_screen s) \<and> k_rest s' = k_rest s"
    by (cases s) (auto simp: talking_def kernel_write_prints fd_ready_def k_fds_def k_screen_def k_print_def k_rest_def on_con_def cur_term_def
        tty_ok_def print_bytes_ok)
next
  fix s :: "irq list \<times> kernel" and xs ys n buf
  assume "talking p Q s" "k_pending s = xs # ys" "length xs < n" "n < (2 :: nat) ^ 31"
  then show "\<exists>buf' s'. ece391_read (kernel_os p) 0 buf (of_nat n) s = Some (of_nat (length (line_result xs)), buf', s') \<and>
        run_of buf' 0 (length (line_result xs)) = line_result xs \<and> talking p Q s' \<and> k_pending s' = ys \<and> (case s' of (es, k) \<Rightarrow> k_proc k) = (case s of (es, k) \<Rightarrow> k_proc k)"
    using kernel_read_line [of p "snd s" "fst s" xs ys n buf] by (cases s) (auto simp: talking_def k_pending_def)
next
  fix s :: "irq list \<times> kernel" and xs
  assume s: "talking p Q s" "xs \<in> set (k_pending s)"
  then have "length (snd (line_state (snd s))) \<le> 127"
    using typed_length [of "k_kbd (snd s)" "cur_term (snd s)"] by (auto simp: talking_def tty_ok_def line_state_def keyboard_ok_def kbd_consts split: prod.splits)
  then show "length xs < 128" using lines_of_short [of "line_state (snd s)" xs "fst s"] s(2) by (simp add: k_pending_def case_prod_beta)
next
  fix s s' :: "irq list \<times> kernel"
  assume r: "k_rest s' = k_rest s"
  then have "k_proc (snd s') = k_proc (snd s)" "k_kbd (snd s') = k_kbd (snd s)" "fst s' = fst s"
    by (auto simp: k_rest_def split: prod.splits dest: arg_cong [where f = k_proc] arg_cong [where f = k_kbd])
  then show "k_pending s' = k_pending s" by (simp add: k_pending_def case_prod_beta line_state_def cur_term_def)
qed (simp_all add: k_print_def case_prod_beta print_bytes_append line_result_length line_result_nul)

section \<open>hello and counter\<close>

text \<open>A buffer that holds a line, ended by a NUL.\<close>

lemma ended_line:
  assumes "run_of b 0 (length xs) = xs" "NUL \<notin> set xs"
  shows "is_cstring (b(length xs := NUL)) (length xs)" "run_of (b(length xs := NUL)) 0 (length xs) = xs"
proof -
  have "(b(length xs := NUL)) j = xs ! j" if "j < length xs" for j
    using assms(1) that by (metis fun_upd_other nat_neq_iff nth_run_of add_0)
  then show "is_cstring (b(length xs := NUL)) (length xs)" "run_of (b(length xs := NUL)) 0 (length xs) = xs"
    using assms(2) by (auto simp: is_cstring_def run_of_eq_iff in_set_conv_nth)
qed

context keyboard_os
begin

lemma literal: "NUL \<notin> set (map byte_of_char msg) \<Longrightarrow> length msg < 2 ^ 31 \<Longrightarrow> ok s \<Longrightarrow>
    \<exists>s'. puts_literal os msg s = Some s' \<and> ok s' \<and> screen s' = print (map byte_of_char msg) (screen s) \<and> pending s' = pending s"
  using puts_literal_prints [of s msg] pending_rest by metis

lemma hello_greets:
  assumes "ok s" "pending s = xs # ys"
  shows "\<exists>s1 s'. hello_main os buf s = Some (0, s') \<and> ok s' \<and> pending s' = ys \<and>
    screen s' = print (map byte_of_char ''Hello, '' @ deliver xs) (screen s1)"
proof -
  obtain s1 where s1: "puts_literal os ''Hi, what's your name? '' s = Some s1" "ok s1" "pending s1 = pending s"
    using literal [OF _ _ assms(1), of "''Hi, what's your name? ''"] by (auto simp: byte_of_char_def of_char_def)
  obtain b s2 where s2: "ece391_read os 0 buf 1023 s1 = Some (of_nat (length (deliver xs)), b, s2)" "run_of b 0 (length (deliver xs)) = deliver xs" "ok s2" "pending s2 = ys"
    "unat (of_nat (length (deliver xs)) :: s32) = length (deliver xs)" "(of_nat (length (deliver xs)) :: s32) \<noteq> - 1"
    using read_1023 [OF s1(2), of xs ys buf] s1(3) assms(2) by auto
  obtain s3 where s3: "puts_literal os ''Hello, '' s2 = Some s3" "ok s3" "screen s3 = print (map byte_of_char ''Hello, '') (screen s2)" "pending s3 = ys"
    using literal [OF _ _ s2(3), of "''Hello, ''"] s2(4) by (auto simp: byte_of_char_def of_char_def)
  note line = ended_line [OF s2(2) deliver_text]
  have "length (deliver xs) < 2 ^ 31" using pending_short [OF assms(1), of xs] deliver_short [of xs] assms(2) by simp
  then obtain s4 where s4: "ece391_fdputs os 1 (b(length (deliver xs) := NUL)) s3 = Some s4" "ok s4" "screen s4 = print (deliver xs) (screen s3)" "rest s4 = rest s3"
    using fdputs_prints [OF s3(2) line(1)] line(2) by auto
  have "pending s4 = ys" using pending_rest [OF s4(4)] s3(4) by simp
  moreover have "hello_main os buf s = Some (0, s4)"
    using s1(1) s2 s3(1) s4(1) by (simp add: hello_main_def BUFSIZE_def eq_commute [of "- 1"])
  ultimately show ?thesis using s4 s3(3) print_append by metis
qed

text \<open>The counter refuses everything but one digit from 0 to 2 without a newline.\<close>

lemma counter_refuses:
  assumes "ok s" "pending s = xs # ys" "1 < length (deliver xs) \<or> deliver xs = [NEWLINE]"
  shows "\<exists>s1 s'. counter_main os buf s = Some (0, s') \<and> ok s' \<and> pending s' = ys \<and>
    screen s' = print (map byte_of_char (line ''Wrong Choice!'')) (screen s1)"
proof -
  let ?q = "line ''Enter the Test Number: (0): 100, (1): 10000, (2): 100000''"
  obtain s1 where s1: "puts_literal os ?q s = Some s1" "ok s1" "pending s1 = pending s"
    using literal [OF _ _ assms(1), of ?q] by (auto simp: byte_of_char_def of_char_def line_def)
  obtain b s2 where s2: "ece391_read os 0 buf 1023 s1 = Some (of_nat (length (deliver xs)), b, s2)" "run_of b 0 (length (deliver xs)) = deliver xs" "ok s2" "pending s2 = ys"
    "unat (of_nat (length (deliver xs)) :: s32) = length (deliver xs)" "(of_nat (length (deliver xs)) :: s32) \<noteq> - 1"
    using read_1023 [OF s1(2), of xs ys buf] s1(3) assms(2) by auto
  obtain s3 where s3: "puts_literal os (line ''Wrong Choice!'') s2 = Some s3" "ok s3"
    "screen s3 = print (map byte_of_char (line ''Wrong Choice!'')) (screen s2)" "pending s3 = ys"
    using literal [OF _ _ s2(3), of "line ''Wrong Choice!''"] s2(4) by (auto simp: byte_of_char_def of_char_def line_def)
  define b' where "b' = b(length (deliver xs) := NUL)"
  have "ece391_strlen b' = Some (length (deliver xs))" using ended_line [OF s2(2) deliver_text] by (simp add: ece391_strlen_cstring b'_def)
  moreover have "length (deliver xs) > 1 \<or> length (deliver xs) = 1 \<and> (b' 0 < byte_of_char CHR ''0'' \<or> b' 0 > byte_of_char CHR ''2'')"
    using assms(3) s2(2) by (auto simp: run_of_Suc byte_of_char_def of_char_def b'_def)
  moreover have "- 1 \<noteq> (of_nat (length (deliver xs)) :: s32)" using s2(6) by simp
  ultimately have "counter_main os buf s = Some (0, s3)"
    using s1(1) s2(1,5) s3(1) by (simp add: counter_main_def BUFSIZE_def give_up_def Let_def b'_def [symmetric] del: fun_upd_apply)
  then show ?thesis using s3 by metis
qed

end

section \<open>The shell\<close>

text \<open>What of a command \<^verbatim>\<open>execute\<close> takes for the name of the program.\<close>

definition cmd_word :: "bytes \<Rightarrow> u8 list" where
  "cmd_word comm = takeWhile (\<lambda>c. c \<noteq> SPACE \<and> c \<noteq> NUL \<and> c \<noteq> NEWLINE) (run_of comm 0 32)"

lemma get_file_name_cmd:
  defines "P \<equiv> \<lambda>c :: u8. c \<noteq> SPACE \<and> c \<noteq> NUL \<and> c \<noteq> NEWLINE"
  shows "case get_file_name (fst (parse_cmd_args b comm p)) b' of None \<Rightarrow> True | Some f \<Rightarrow> given_name f = cmd_word comm"
proof -
  let ?m = "length (cmd_word comm)"
  let ?n = "scan (\<lambda>i. comm i \<noteq> SPACE \<and> comm i \<noteq> NUL) 0 128"
  let ?c = "(copy_run b 0 comm 0 ?n)(?n := NUL)"
  have w: "cmd_word comm = takeWhile P (run_of comm 0 32)" by (simp add: cmd_word_def P_def)
  then have m: "?m \<le> 32" using length_takeWhile_le [of P "run_of comm 0 32"] by simp
  have pre: "P (comm j)" if "j < ?m" for j
    using nth_mem [OF that] set_takeWhileD [of "cmd_word comm ! j" P "run_of comm 0 32"] takeWhile_nth [of j P "run_of comm 0 32"] that m
    unfolding w by simp
  have stop: "\<not> P (comm ?m)" if "?m < 32" using nth_length_takeWhile [of P "run_of comm 0 32"] that unfolding w by simp
  have n: "?m \<le> ?n"
  proof (rule ccontr)
    assume "\<not> ?m \<le> ?n"
    then have "P (comm ?n)" "?n < 0 + 128" using pre m by auto
    then show False using scan_stop [of "\<lambda>i. comm i \<noteq> SPACE \<and> comm i \<noteq> NUL" 0 128] by (simp add: P_def)
  qed
  have c: "?c j = comm j" if "j < ?m" for j using that n by (simp add: copy_run_eq)
  show ?thesis
  proof (cases "?m < 32")
    case True
    have cm: "\<not> P (?c ?m)" using stop [OF True] n by (auto simp: copy_run_eq P_def)
    have "scan (\<lambda>i. P (?c i)) 0 31 = ?m" by (rule scan_unique) (use True cm pre c in \<open>auto simp del: fun_upd_apply\<close>)
    then have g: "get_file_name ?c b' = Some ((copy_run b' 0 ?c 0 ?m)(?m := NUL))" (is "_ = Some ?f")
      using cm by (simp add: get_file_name_def Let_def P_def FILE_NAME_LENGTH_def del: fun_upd_apply)
    have f: "?f j = comm j" if "j < ?m" for j using that c [OF that] by (simp add: copy_run_eq)
    have "given_name ?f = run_of ?f 0 ?m"
      by (rule given_name_run) (use f pre True in \<open>auto simp: P_def fs_consts simp del: fun_upd_apply intro: fun_upd_same\<close>)
    also have "\<dots> = run_of comm 0 ?m" using f by (simp add: run_of_eq_iff del: fun_upd_apply)
    also have "\<dots> = cmd_word comm" using True unfolding w by (auto simp: run_of_eq_iff takeWhile_nth)
    finally show ?thesis using g by (simp add: parse_cmd_args_def Let_def kbd_consts)
  next
    case False
    then have "?m = 32" using m by simp
    then have "scan (\<lambda>i. P (?c i)) 0 31 = 31" "P (?c 31)"
      using pre c by (auto intro!: scan_unique simp del: fun_upd_apply)
    then show ?thesis by (simp add: parse_cmd_args_def Let_def kbd_consts get_file_name_def P_def FILE_NAME_LENGTH_def del: fun_upd_apply)
  qed
qed

definition unknown :: "filesystem \<Rightarrow> u8 list \<Rightarrow> bool" where
  "unknown fs cmd \<longleftrightarrow> (\<forall>i\<in>{0..<MAX_ENTRIES}. entry_name fs i \<noteq> cmd_word (bytes_of cmd))"

lemma cmd_word_cstring:
  assumes "is_cstring comm n"
  shows "cmd_word comm = cmd_word (bytes_of (run_of comm 0 n))"
  unfolding cmd_word_def
  by (rule takeWhile_run_cong [of n]) (use assms in \<open>auto simp: is_cstring_def bytes_of_def\<close>)

lemma execute_unknown:
  assumes "ptr \<noteq> 0" "counts_ok (k_fs k)" "is_cstring comm n" "unknown (k_fs k) (run_of comm 0 n)"
  shows "execute ptr comm k = Some (Return FAIL, k\<lparr>k_proc := snd (parse_cmd_args (stack_bytes k) comm (k_proc k))\<rparr>)"
proof -
  have "List.find (\<lambda>i. entry_name (k_fs k) i = cmd_word comm) [0..<MAX_ENTRIES] = None"
    using assms(4) by (simp add: find_None_iff unknown_def cmd_word_cstring [OF assms(3)])
  then have "fst (read_dentry_by_name (k_fs k) f d) = - 1" if "given_name f = cmd_word comm" for f d
    by (simp add: lookup_eq [OF assms(2)] that)
  then show ?thesis
    using assms(1) get_file_name_cmd [where b = "stack_bytes k" and comm = comm and p = "k_proc k" and b' = "stack_bytes k"]
    by (auto simp: execute_def case_prod_beta Let_def split: option.splits)
qed

text \<open>
  The shell relies on one more promise: a command whose name is not in the directory is
  refused, and nothing a program sees changes.
\<close>

locale shell_os = keyboard_os +
  fixes foreign :: "u8 list \<Rightarrow> bool"
  assumes refuses: "ok s \<Longrightarrow> is_cstring cmd n \<Longrightarrow> foreign (run_of cmd 0 n) \<Longrightarrow>
      \<exists>s'. ece391_execute os cmd s = Some (- 1, s') \<and> ok s' \<and> screen s' = screen s \<and> pending s' = pending s"

text \<open>The command in a line, and what the shell does with it.\<close>

definition chomp :: "u8 list \<Rightarrow> u8 list" where
  "chomp xs = (if xs \<noteq> [] \<and> last xs = NEWLINE then butlast xs else xs)"

definition EXIT :: "u8 list" where "EXIT = [101, 120, 105, 116]"

lemma chomp_buffer:
  assumes "run_of b 0 (length xs) = xs" "length xs < 2 ^ 31"
  shows "(if 0 <s (of_nat (length xs) :: s32) \<and> NEWLINE = b (unat (of_nat (length xs) - 1 :: s32)) then of_nat (length xs) - 1 else of_nat (length xs)) =
    (of_nat (length (chomp xs)) :: s32)"
    and "run_of b 0 (length (chomp xs)) = chomp xs" "unat (of_nat (length (chomp xs)) :: s32) = length (chomp xs)"
proof -
  have s: "0 <s (of_nat (length xs) :: s32) \<longleftrightarrow> xs \<noteq> []" using sint_small31 [OF assms(2)] by (simp add: word_sless_alt)
  have p: "of_nat (length xs) - 1 = (of_nat (length xs - 1) :: s32)" if "xs \<noteq> []" using that by (simp add: of_nat_diff Suc_leI)
  have u: "unat (of_nat (length xs - 1) :: s32) = length xs - 1" using assms(2) by (simp add: unat_of_nat)
  have l: "b (length xs - 1) = last xs" if "xs \<noteq> []"
    using assms(1) that by (metis add_0 diff_less last_conv_nth length_greater_0_conv nth_run_of zero_less_one)
  show "(if 0 <s (of_nat (length xs) :: s32) \<and> NEWLINE = b (unat (of_nat (length xs) - 1 :: s32)) then of_nat (length xs) - 1 else of_nat (length xs)) =
    (of_nat (length (chomp xs)) :: s32)"
    using s p u l by (cases "xs = []") (auto simp: chomp_def eq_commute [of NEWLINE])
  show "run_of b 0 (length (chomp xs)) = chomp xs"
    using assms(1) by (auto simp: chomp_def run_of_eq_iff nth_butlast)
  have "length (chomp xs) \<le> length xs" by (simp add: chomp_def)
  then show "unat (of_nat (length (chomp xs)) :: s32) = length (chomp xs)" using assms(2) by (simp add: unat_of_nat)
qed

context keyboard_os
begin

text \<open>The prompt, the line, and what the shell makes of it.\<close>

lemma shell_reads:
  assumes "ok s" "pending s = xs # ys"
  obtains b s1 cnt b0 s2 where "puts_literal os ''391OS> '' s = Some s1" "ece391_read os 0 buf 1023 s1 = Some (cnt, b0, s2)" "ok s2" "pending s2 = ys"
    "is_cstring b (length (chomp (deliver xs)))" "run_of b 0 (length (chomp (deliver xs))) = chomp (deliver xs)"
    "shell_command os buf s = (if chomp (deliver xs) = EXIT then Some (Inl 0, s2) else if chomp (deliver xs) = [] then Some (Inr b, s2)
      else Option.bind (ece391_execute os b s2) (\<lambda>(rval, s).
             Option.bind (if - 1 = rval then puts_literal os (line ''no such command'') s
                          else if 256 = rval then puts_literal os (line ''program terminated by exception'') s
                          else if 0 \<noteq> rval then puts_literal os (line ''program terminated abnormally'') s
                          else Some s) (\<lambda>s. Some (Inr b, s))))"
proof -
  obtain s1 where s1: "puts_literal os ''391OS> '' s = Some s1" "ok s1" "pending s1 = pending s"
    using literal [OF _ _ assms(1), of "''391OS> ''"] by (auto simp: byte_of_char_def of_char_def)
  obtain b s2 where s2: "ece391_read os 0 buf 1023 s1 = Some (of_nat (length (deliver xs)), b, s2)" "run_of b 0 (length (deliver xs)) = deliver xs" "ok s2" "pending s2 = ys"
    "unat (of_nat (length (deliver xs)) :: s32) = length (deliver xs)" "(of_nat (length (deliver xs)) :: s32) \<noteq> - 1"
    using read_1023 [OF s1(2), of xs ys buf] s1(3) assms(2) by auto
  have "length (deliver xs) < 2 ^ 31" using pending_short [OF assms(1), of xs] deliver_short [of xs] assms(2) by simp
  note c = chomp_buffer [OF s2(2) this]
  define b' where "b' = b(length (chomp (deliver xs)) := NUL)"
  have "NUL \<notin> set (chomp (deliver xs))" using deliver_text by (auto simp: chomp_def dest: in_set_butlastD)
  note line = ended_line [OF c(2) this, folded b'_def]
  have e: "is_cstring (cstr ''exit'') 4" "run_of (cstr ''exit'') 0 4 = EXIT" by (code_simp, code_simp)
  obtain d where d: "ece391_strcmp b' (cstr ''exit'') = Some d" "0 = d \<longleftrightarrow> chomp (deliver xs) = EXIT"
    using ece391_strcmp_cstrings [OF line(1) e(1)] line(2) e(2) by auto
  have nil: "NUL = b' 0 \<longleftrightarrow> chomp (deliver xs) = []" using line by (auto simp: is_cstring_def)
  have ne: "- 1 \<noteq> (of_nat (length (deliver xs)) :: s32)" "of_nat (BUFSIZE - 1) = (1023 :: s32)" using s2(6) by (simp_all add: BUFSIZE_def)
  show thesis
    by (rule that [OF s1(1) s2(1,3,4) line])
      (simp only: shell_command_def ne(2) s1(1) s2(1) d ne(1) bind.bind_lunit prod.case if_False simp_thms Let_def c(1,3) b'_def [symmetric] nil)
qed

end

context shell_os
begin

lemma shell_command_answers:
  assumes "ok s" "pending s = xs # ys"
    and "chomp (deliver xs) = [] \<or> chomp (deliver xs) = EXIT \<or> foreign (chomp (deliver xs))"
  shows "\<exists>b s1 s'. shell_command os buf s = Some (if chomp (deliver xs) = EXIT then Inl 0 else Inr b, s') \<and> ok s' \<and> pending s' = ys \<and>
    screen s' = print (if chomp (deliver xs) = [] \<or> chomp (deliver xs) = EXIT then [] else map byte_of_char (line ''no such command'')) (screen s1)"
proof -
  from shell_reads [OF assms(1,2), of buf] obtain b' s2 where s2: "ok s2" "pending s2 = ys"
    and line: "is_cstring b' (length (chomp (deliver xs)))" "run_of b' 0 (length (chomp (deliver xs))) = chomp (deliver xs)"
    and step: "shell_command os buf s = (if chomp (deliver xs) = EXIT then Some (Inl 0, s2) else if chomp (deliver xs) = [] then Some (Inr b', s2)
      else Option.bind (ece391_execute os b' s2) (\<lambda>(rval, s).
             Option.bind (if - 1 = rval then puts_literal os (line ''no such command'') s
                          else if 256 = rval then puts_literal os (line ''program terminated by exception'') s
                          else if 0 \<noteq> rval then puts_literal os (line ''program terminated abnormally'') s
                          else Some s) (\<lambda>s. Some (Inr b', s))))" by blast
  show ?thesis
  proof (cases "chomp (deliver xs) = [] \<or> chomp (deliver xs) = EXIT")
    case True
    then show ?thesis using step s2 print_nil by (cases "chomp (deliver xs) = EXIT") (auto simp: EXIT_def)
  next
    case False
    then obtain s3 where s3: "ece391_execute os b' s2 = Some (- 1, s3)" "ok s3" "pending s3 = ys"
      using refuses [OF s2(1) line(1)] line(2) assms(3) s2(2) by auto
    obtain s4 where s4: "puts_literal os (line ''no such command'') s3 = Some s4" "ok s4"
      "screen s4 = print (map byte_of_char (line ''no such command'')) (screen s3)" "pending s4 = ys"
      using literal [OF _ _ s3(2), of "line ''no such command''"] s3(3) by (auto simp: byte_of_char_def of_char_def line_def)
    then show ?thesis using step s3(1) False by auto
  qed
qed

text \<open>A session of foreign commands and empty lines that ends with \<^verbatim>\<open>exit\<close>.\<close>

lemma shell_session:
  assumes "ok s" "pending s = xss @ xs # ys" "chomp (deliver xs) = EXIT"
    and "\<forall>x\<in>set xss. chomp (deliver x) \<noteq> EXIT \<and> (chomp (deliver x) = [] \<or> foreign (chomp (deliver x)))"
  shows "\<exists>s'. shell_loop os buf s = Some (0, s') \<and> ok s' \<and> pending s' = ys"
  using assms
proof (induction xss arbitrary: s buf)
  case Nil
  then obtain s' where "shell_command os buf s = Some (Inl 0, s')" "ok s'" "pending s' = ys"
    using shell_command_answers [of s xs ys buf] by auto
  then show ?case by (subst shell_loop.simps) simp
next
  case (Cons x xss)
  then obtain b s' where "shell_command os buf s = Some (Inr b, s')" "ok s'" "pending s' = xss @ xs # ys"
    using shell_command_answers [of s x "xss @ xs # ys" buf] by auto
  then show ?case using Cons.IH [of s' b] Cons.prems by (subst shell_loop.simps) auto
qed

end

text \<open>The kernel refuses what is not in its directory.\<close>

lemma kernel_execute:
  "ece391_execute (kernel_os p) cmd (es, k) =
     Option.bind (execute p cmd k) (\<lambda>(c, k). case c of Return r \<Rightarrow> Some (r, es, k) | _ \<Rightarrow> None)"
  by (cases "execute p cmd k")
    (auto simp: ece391_execute_def kernel_os_def kernel_int80_def syscall_handler_def leaving_def word_le_nat_alt split: control.splits)

lemma parse_ready:
  fixes b comm :: bytes
  assumes "fd_ready k" "tty_ok k"
  defines "k' \<equiv> k\<lparr>k_proc := snd (parse_cmd_args b comm (k_proc k))\<rparr>"
  shows "fd_ready k'" "tty_ok k'" "line_state k' = line_state k" "cur_term k' = cur_term k"
proof -
  have "ops_tables (snd (parse_cmd_args b comm p)) = ops_tables p" for p by (simp add: parse_cmd_args_def Let_def)
  then show "fd_ready k'" using assms(1) by (simp add: k'_def fd_ready_def k_fds_def tables_ready_def cur_fds_def cur_pcb_def cur_ptr_def)
  show t: "cur_term k' = cur_term k" by (simp add: k'_def cur_term_def)
  show "tty_ok k'" "line_state k' = line_state k" using assms(2) t by (simp_all add: k'_def tty_ok_def line_state_def)
qed

interpretation kernel_shell: shell_os "kernel_os p" "talking p (mounted_fs fs)" k_screen k_print k_rest k_pending line_result "\<lambda>(es, k). k_proc k" "unknown fs" for p fs
proof
  fix s :: "irq list \<times> kernel" and cmd n
  assume s: "talking p (mounted_fs fs) s" "is_cstring cmd n" "unknown fs (run_of cmd 0 n)"
  obtain es k where k: "s = (es, k)" by (cases s)
  have "execute p cmd k = Some (Return FAIL, k\<lparr>k_proc := snd (parse_cmd_args (stack_bytes k) cmd (k_proc k))\<rparr>)"
    using execute_unknown [of p k cmd n] s by (simp add: k talking_def mounted_fs_def)
  then show "\<exists>s'. ece391_execute (kernel_os p) cmd s = Some (- 1, s') \<and> talking p (mounted_fs fs) s' \<and> k_screen s' = k_screen s \<and> k_pending s' = k_pending s"
    using s(1) parse_ready [of k "stack_bytes k" cmd]
    by (simp add: k kernel_execute talking_def mounted_fs_def k_screen_def k_pending_def)
qed

section \<open>Properties\<close>

text \<open>
  The shell on the kernel: whatever keys are typed and whatever clock and timer interrupts
  come in between, if the lines they make are empty or name no file of the directory, until
  one says \<^verbatim>\<open>exit\<close>, then the shell reads and answers all of them and returns 0 on that one, and
  what was typed after it is left for the next reader.
\<close>

theorem shell_runs_session:
  assumes "fd_ready k" "tty_ok k" "p \<noteq> 0" "counts_ok (k_fs k)"
    and "lines_of es (line_state k) = xss @ xs # ys" "chomp (line_result xs) = EXIT"
    and "\<forall>x\<in>set xss. chomp (line_result x) \<noteq> EXIT \<and> (chomp (line_result x) = [] \<or> unknown (k_fs k) (chomp (line_result x)))"
  shows "\<exists>es' k'. shell_main (kernel_os p) buf (es, k) = Some (0, es', k') \<and> lines_of es' (line_state k') = ys \<and>
    fd_ready k' \<and> tty_ok k' \<and> k_fs k' = k_fs k"
proof -
  let ?s = "(es, k)" and ?msg = "line ''Starting 391 Shell''"
  have t: "talking p (mounted_fs (k_fs k)) ?s" "k_pending ?s = xss @ xs # ys" using assms by (simp_all add: talking_def mounted_fs_def k_pending_def)
  obtain s1 where s1: "puts_literal (kernel_os p) ?msg ?s = Some s1" "talking p (mounted_fs (k_fs k)) s1" "k_pending s1 = xss @ xs # ys"
    using kernel_keyboard.literal [OF _ _ t(1), of ?msg] t(2) by (auto simp: byte_of_char_def of_char_def line_def)
  obtain s2 where "shell_loop (kernel_os p) buf s1 = Some (0, s2)" "talking p (mounted_fs (k_fs k)) s2" "k_pending s2 = ys"
    using kernel_shell.shell_session [OF s1(2,3) assms(6,7)] by blast
  then show ?thesis using s1(1) by (cases s2) (auto simp: shell_main_def talking_def mounted_fs_def k_pending_def)
qed

definition demo_keys :: "irq list" where
  "demo_keys = [Key 0x1F, Clock, Key 0x1E, Key ENTER, Key ENTER, Key 0x12, Tick, Key 0x2D, Key 0x17, Key 0x14, Key ENTER, Key 0x1E]"

lemma demo_keys_lines: "lines_of demo_keys (0, []) = [[115, 97], [], [101, 120, 105, 116]]"
proof -
  have e: "edit 0x1F (0, []) = (0, [115])" "edit 0x1E (0, [115]) = (0, [115, 97])" "edit 0x12 (0, []) = (0, [101])"
    "edit 0x2D (0, [101]) = (0, [101, 120])" "edit 0x17 (0, [101, 120]) = (0, [101, 120, 105])"
    "edit 0x14 (0, [101, 120, 105]) = (0, [101, 120, 105, 116])"
    by (simp_all add: edit_def scan_codes kbd_ascii_key_map_def keys_none_def kbd_consts)
  show ?thesis
    by (simp add: demo_keys_def ENTER_def typing_def edit_irq_def edit_key_def scan_codes e)
qed

lemma demo_talks: "tty_ok (demo_program args m)" "line_state (demo_program args m) = (0, [])" "counts_ok (k_fs (demo_program args m))"
proof -
  have "k_kbd (demo_program args m) = k_kbd demo_kernel" "k_con (demo_program args m) = k_con demo_kernel" "cur_term (demo_program args m) = cur_term demo_kernel"
    by (simp_all add: demo_program_def cur_term_def)
  then show "tty_ok (demo_program args m)" "line_state (demo_program args m) = (0, [])"
    using demo_tty by (simp_all add: tty_ok_def line_state_def)
  show "counts_ok (k_fs (demo_program args m))" unfolding demo_program_ready demo_fs_def by (rule counts_ok_init)
qed

lemma demo_entry_name: "i < MAX_ENTRIES \<Longrightarrow> entry_name (demo_fs m) i = (if i = 0 then [46] else if i = 1 then [115, 104] else [])"
proof -
  assume i: "i < MAX_ENTRIES"
  have "entry_name (demo_fs m) i = []" if "2 \<le> i"
  proof -
    have "entry_file_name (demo_fs m) i 0 = NUL"
      using that i by (simp add: entry_file_name_def demo_fs_fields demo_image_def fs_consts)
    then show ?thesis by (simp add: entry_name_def fs_consts run_of_def upt_conv_Cons)
  qed
  then show ?thesis using demo_fs_names [of m] by (cases "i = 0"; cases "i = 1") auto
qed

lemma demo_unknown: "cmd_word (bytes_of w) = [115, 97] \<Longrightarrow> unknown (demo_fs m) w"
  by (auto simp: unknown_def demo_entry_name)

theorem shell_runs_session_witness:
  "\<exists>es' k'. shell_main (kernel_os 4) (\<lambda>_. 7) (demo_keys, demo_program (\<lambda>_. 0) (\<lambda>_. 0)) = Some (0, es', k') \<and> lines_of es' (line_state k') = []"
proof -
  let ?k = "demo_program (\<lambda>_. 0) (\<lambda>_. 0)"
  have l: "lines_of demo_keys (line_state ?k) = [[115, 97], []] @ [101, 120, 105, 116] # []" by (simp add: demo_talks demo_keys_lines)
  have c: "chomp (line_result [115, 97]) = [115, 97]" "chomp (line_result []) = []" "chomp (line_result [101, 120, 105, 116]) = EXIT"
    by (simp_all add: chomp_def EXIT_def line_result_def stripped_def)
  have "unknown (k_fs ?k) [115, 97]" unfolding demo_program_ready by (rule demo_unknown) (simp add: cmd_word_def run_of_def bytes_of_def upt_rec)
  then show ?thesis
    using shell_runs_session [OF demo_program_ready(1) demo_talks(1) _ demo_talks(3) l c(3), of 4 "\<lambda>_. 7"] c by (auto simp: EXIT_def)
qed

text \<open>
  C18. The program \<^verbatim>\<open>counter\<close> never counts on this kernel: the line it reads always holds more than
  the digit it compares with (the kernel delivers the newline with the line), so it answers
  \<^verbatim>\<open>Wrong Choice!\<close> to every line and returns.
\<close>

theorem counter_always_refuses:
  assumes "fd_ready k" "tty_ok k" "p \<noteq> 0" "lines_of es (line_state k) = xs # ys"
  shows "\<exists>es' c k'. counter_main (kernel_os p) buf (es, k) = Some (0, es', k') \<and> lines_of es' (line_state k') = ys \<and>
    k_con k' = print_bytes (map byte_of_char (line ''Wrong Choice!'')) (cur_term k') c"
proof -
  have t: "talking p (\<lambda>_ _. True) (es, k)" "k_pending (es, k) = xs # ys" using assms by (simp_all add: talking_def k_pending_def)
  have x: "1 < length (line_result xs) \<or> line_result xs = [NEWLINE]"
    by (auto simp: line_result_def dest: arg_cong [where f = length])
  obtain s1 s' where "counter_main (kernel_os p) buf (es, k) = Some (0, s')" "k_pending s' = ys"
    "k_screen s' = k_print (map byte_of_char (line ''Wrong Choice!'')) (k_screen s1)"
    using kernel_keyboard.counter_refuses [OF t x] by blast
  then show ?thesis by (cases s'; cases s1) (auto simp: k_pending_def k_screen_def k_print_def)
qed

theorem counter_always_refuses_witness:
  "\<exists>es' k'. counter_main (kernel_os 4) (\<lambda>_. 7) (demo_keys, demo_program (\<lambda>_. 0) (\<lambda>_. 0)) = Some (0, es', k') \<and>
     lines_of es' (line_state k') = [[], [101, 120, 105, 116]]"
  using counter_always_refuses [OF demo_program_ready(1) demo_talks(1), of 4 demo_keys "\<lambda>_. 0" "\<lambda>_. 0" "[115, 97]" "[[], [101, 120, 105, 116]]" "\<lambda>_. 7"]
  by (auto simp: demo_talks demo_keys_lines)

end
