(* ===== verification/Session.thy ===== *)
theory Session
  imports Boot Interactive
begin

text \<open>
  Programs started by programs: the shell's \<^verbatim>\<open>execute\<close> loads and enters a program, the program makes
  its system calls, returns from \<^verbatim>\<open>main\<close> and halts, and the suspended \<^verbatim>\<open>execute\<close> returns to the shell.
  The results are that a command prints what its program prints and leaves the shell as it was,
  and that a session works from booting to the shell that follows an \<^verbatim>\<open>exit\<close>.
\<close>

section \<open>Definitions\<close>

text \<open>
  What the processor does in user mode is a parameter: \<open>img m e\<close> is the \<^verbatim>\<open>main\<close> function that
  runs when the program page holds the bytes \<open>m\<close> from \<^verbatim>\<open>PROGRAM_START\<close> on and the entry point is \<open>e\<close>.
\<close>

type_synonym session = "irq list \<times> kernel"
type_synonym code = "session os \<Rightarrow> session \<Rightarrow> (s32 \<times> session) option"
type_synonym image = "bytes \<Rightarrow> u32 \<Rightarrow> code"

text \<open>\<^verbatim>\<open>_start\<close> of \<^verbatim>\<open>ece391syscall.S\<close>: call \<^verbatim>\<open>main\<close>, then halt with its result.\<close>

definition start_code :: "code \<Rightarrow> session os \<Rightarrow> session \<Rightarrow> (control \<times> session) option" where
  "start_code main os s =
     Option.bind (main os s) (\<lambda>(r, es, k).
     Option.bind (syscall_handler 1 r 0 0 (\<lambda>_. NUL) es k) (\<lambda>(c, b, es, k). Some (c, es, k)))"

text \<open>
  A call of \<^verbatim>\<open>execute\<close> by a program. It returns at once, or it enters the new program, which runs
  with \<open>call\<close> for its system calls; then \<^verbatim>\<open>execute_return\<close> is reached with the stack registers of the
  suspended call, and the call returns the status.
\<close>

definition run_command ::
    "image \<Rightarrow> (u32 \<Rightarrow> u32 \<Rightarrow> u32 \<Rightarrow> u32 \<Rightarrow> bytes \<Rightarrow> session \<Rightarrow> (s32 \<times> bytes \<times> session) option) \<Rightarrow> u32 \<Rightarrow> bytes \<Rightarrow> session \<Rightarrow> (s32 \<times> bytes \<times> session) option" where
  "run_command img call ptr cmd = (\<lambda>(es, k).
     Option.bind (syscall_handler 2 ptr 0 0 cmd es k) (\<lambda>(c, b, es, k1).
       case c of
         Return r \<Rightarrow> Some (r, b, es, k1)
       | Enter_user e \<Rightarrow>
           Option.bind (start_code (img (view (get_phys k1) (phys_of k1 PROGRAM_START)) e) \<lparr>int80 = call, ubuf = 0\<rparr> (es, k1)) (\<lambda>(c, es, k2).
             case c of
               Leave_execute esp ebp v \<Rightarrow> if esp = reg_esp k \<and> ebp = reg_ebp k then Some (v, b, es, k2) else None
             | _ \<Rightarrow> None)
       | _ \<Rightarrow> None))"

text \<open>The system of a program that may start others, \<open>n\<close> levels deep.\<close>

fun session_int80 :: "image \<Rightarrow> nat \<Rightarrow> u32 \<Rightarrow> u32 \<Rightarrow> u32 \<Rightarrow> u32 \<Rightarrow> bytes \<Rightarrow> session \<Rightarrow> (s32 \<times> bytes \<times> session) option" where
  "session_int80 img 0 eax ebx ecx edx b s = kernel_int80 eax ebx ecx edx b s"
| "session_int80 img (Suc n) eax ebx ecx edx b s =
     (if eax = 2 then run_command img (session_int80 img n) ebx b s else kernel_int80 eax ebx ecx edx b s)"

definition session_os :: "image \<Rightarrow> nat \<Rightarrow> u32 \<Rightarrow> session os" where
  "session_os img n p = \<lparr>int80 = session_int80 img n, ubuf = p\<rparr>"

text \<open>
  The shells at the base of a terminal, one after the other: the processor runs the code that
  the program page holds, and when it halts, the kernel enters the next shell.
\<close>

fun base_sessions :: "image \<Rightarrow> nat \<Rightarrow> nat \<Rightarrow> u32 \<Rightarrow> session \<Rightarrow> (u32 \<times> session) option" where
  "base_sessions img n 0 e s = Some (e, s)"
| "base_sessions img n (Suc j) e (es, k) =
     Option.bind (start_code (img (view (get_phys k) (phys_of k PROGRAM_START)) e) (session_os img n 0) (es, k))
       (\<lambda>(c, s). case c of Enter_user e \<Rightarrow> base_sessions img n j e s | _ \<Rightarrow> None)"

section \<open>Calls that the kernel answers itself\<close>

lemma session_calls:
  "ece391_write (session_os img n p) = ece391_write (kernel_os p)"
  "ece391_read (session_os img n p) = ece391_read (kernel_os p)"
  "ece391_open (session_os img n p) = ece391_open (kernel_os p)"
  "ece391_close (session_os img n p) = ece391_close (kernel_os p)"
  "ece391_getargs (session_os img n p) = ece391_getargs (kernel_os p)"
proof -
  have "session_int80 img n eax = kernel_int80 eax" if "eax \<noteq> 2" for eax
    using that by (cases n) (simp_all add: fun_eq_iff)
  then show "ece391_write (session_os img n p) = ece391_write (kernel_os p)" "ece391_read (session_os img n p) = ece391_read (kernel_os p)"
    "ece391_open (session_os img n p) = ece391_open (kernel_os p)" "ece391_close (session_os img n p) = ece391_close (kernel_os p)"
    "ece391_getargs (session_os img n p) = ece391_getargs (kernel_os p)"
    by (simp_all add: fun_eq_iff ece391_write_def ece391_read_def ece391_open_def ece391_close_def ece391_getargs_def session_os_def kernel_os_def)
qed

lemma session_execute:
  "ece391_execute (session_os img (Suc n) p) cmd s = Option.bind (run_command img (session_int80 img n) p cmd s) (\<lambda>(r, b, s). Some (r, s))"
  by (simp add: ece391_execute_def session_os_def)

section \<open>What entering a program leaves alone\<close>

lemma con_eqI:
  assumes "k_con k' = (k_con k)\<lparr>video_mem := v\<rparr>" "\<And>j. \<not> (0 \<le> j \<and> j < 4096) \<Longrightarrow> v j = video_mem (k_con k) j"
    and "\<And>a. in_video a \<Longrightarrow> get_phys k' a = get_phys k a"
  shows "k_con k' = k_con k"
proof -
  have "v j = video_mem (k_con k) j" if "0 \<le> j" "j < 4096" for j
  proof -
    have u: "uint (of_int j :: u32) = j" using that by (simp add: uint_word_of_int take_bit_int_eq_self)
    then have n: "unat (of_int j :: u32) < 4096" using that by (simp add: unat_eq_nat_uint)
    have "unat (VIDEO + of_int j) = unat VIDEO + unat (of_int j :: u32)" using n by (simp add: unat_word_ariths VIDEO_def)
    then have "in_video (VIDEO + of_int j)" using n by (simp add: in_video_def word_le_nat_alt word_less_nat_alt VIDEO_def)
    then show ?thesis using assms(3) [of "VIDEO + of_int j"] u by (simp add: get_phys_def assms(1))
  qed
  then have "v = video_mem (k_con k)" using assms(2) by (metis ext)
  then show ?thesis using assms(1) by simp
qed

section \<open>Commands as strings\<close>

lemma scan_cong:
  assumes "\<And>j. j \<le> n \<Longrightarrow> P j = Q j" "\<not> Q n" "i \<le> n" "n < i + k"
  shows "scan P i k = scan Q i k"
proof (rule scan_unique)
  have "scan Q i k \<le> n" using scan_prefix [of i n Q k] assms(2,3) by force
  then show "scan Q i k = i + k \<or> \<not> P (scan Q i k)" "\<And>j. i \<le> j \<Longrightarrow> j < scan Q i k \<Longrightarrow> P j"
    using assms(1,4) scan_stop [of Q i k] scan_prefix [of i _ Q k] by auto
qed (use scan_bounds in auto)

lemma scan_le: "\<not> P n \<Longrightarrow> i \<le> n \<Longrightarrow> scan P i k \<le> n"
  using scan_prefix [of i n P k] by force

text \<open>\<^verbatim>\<open>execute\<close> reads its command as a string: what follows the terminator does not matter.\<close>

lemma execute_string:
  assumes "is_cstring comm n" "n < 128"
  shows "execute ptr comm k = execute ptr (bytes_of (run_of comm 0 n)) k"
proof -
  let ?c = "bytes_of (run_of comm 0 n)"
  have c: "comm j = ?c j" if "j \<le> n" for j using that assms(1) by (auto simp: bytes_of_def is_cstring_def)
  have z: "comm n = NUL" using assms(1) by (simp add: is_cstring_def)
  have "parse_cmd_args buf comm p = parse_cmd_args buf ?c p" for buf p
  proof -
    define i where "i = scan (\<lambda>i. ?c i \<noteq> SPACE \<and> ?c i \<noteq> NUL) 0 TERM_BUFF_SIZE"
    define i' where "i' = scan (\<lambda>i. ?c i = SPACE \<and> ?c i \<noteq> NUL) i (TERM_BUFF_SIZE - i)"
    define m where "m = scan (\<lambda>j. ?c j \<noteq> NUL) i' (TERM_BUFF_SIZE - i')"
    have i: "i \<le> n" "i' \<le> n" "m \<le> n" unfolding m_def i'_def i_def using c z by (intro scan_le; simp)+
    have 1: "scan (\<lambda>i. comm i \<noteq> SPACE \<and> comm i \<noteq> NUL) 0 TERM_BUFF_SIZE = i"
      unfolding i_def by (rule scan_cong [of n]) (use c z assms(2) in \<open>auto simp: kbd_consts\<close>)
    have 2: "scan (\<lambda>i. comm i = SPACE \<and> comm i \<noteq> NUL) i (TERM_BUFF_SIZE - i) = i'"
      unfolding i'_def by (rule scan_cong [of n]) (use c z assms(2) i in \<open>auto simp: kbd_consts\<close>)
    have 3: "scan (\<lambda>j. comm j \<noteq> NUL) i' (TERM_BUFF_SIZE - i') = m"
      unfolding m_def by (rule scan_cong [of n]) (use c z assms(2) i in \<open>auto simp: kbd_consts\<close>)
    have "copy_run b 0 comm 0 i = copy_run b 0 ?c 0 i" "copy_run b 0 comm i' (m - i') = copy_run b 0 ?c i' (m - i')" for b
      using c i by (auto simp: copy_run_eq fun_eq_iff)
    then show ?thesis
      unfolding parse_cmd_args_def Let_def 1 2 3 i_def [symmetric] i'_def [symmetric] m_def [symmetric] by simp
  qed
  then show ?thesis by (simp add: execute_def)
qed

text \<open>A command line: a word, or a word with arguments.\<close>

definition names_program :: "u8 list \<Rightarrow> u8 list \<Rightarrow> u8 list \<Rightarrow> bool" where
  "names_program cmd w A \<longleftrightarrow> list_all (\<lambda>c. c \<noteq> SPACE \<and> c \<noteq> NUL \<and> c \<noteq> NEWLINE) w \<and> length w < 32 \<and>
     (A = [] \<and> cmd = w \<or> (\<exists>n. command_line w n A \<and> cmd = w @ replicate n SPACE @ A))"

lemma names_program_word:
  assumes "names_program cmd w A"
  shows "first_word (bytes_of cmd) (length w)" "run_of (bytes_of cmd) 0 (length w) = w" "NEWLINE \<notin> set w" "length w < 32" "length cmd < 128"
proof -
  have w: "w ! j \<noteq> SPACE \<and> w ! j \<noteq> NUL" if "j < length w" for j using assms that by (simp add: names_program_def list_all_length)
  show "NEWLINE \<notin> set w" "length w < 32" using assms by (auto simp: names_program_def list_all_iff)
  have c: "cmd = w \<or> (\<exists>m A. cmd = w @ SPACE # m)"
    using assms by (auto simp: names_program_def command_line_def replicate_eq_replicate gr0_conv_Suc)
  then show "first_word (bytes_of cmd) (length w)" using w by (auto simp: first_word_def bytes_of_def nth_append)
  show "run_of (bytes_of cmd) 0 (length w) = w" using c by (auto simp: run_of_eq_iff bytes_of_def nth_append)
  show "length cmd < 128" using assms by (auto simp: names_program_def command_line_def)
qed

section \<open>The contract of a program\<close>

text \<open>The state in which a program is entered, with its arguments when it has any.\<close>

definition entered :: "filesystem \<Rightarrow> u8 list \<Rightarrow> kernel \<Rightarrow> bool" where
  "entered fs A k \<longleftrightarrow> kernel_inv fs k \<and> fd_ready k \<and> free_fds (k_fds k) = [2, 3, 4, 5, 6, 7] \<and>
     (A = [] \<or> (\<forall>j\<in>{0..length A}. pcb_args (cur_pcb (k_proc k)) j = bytes_of A j)) \<and>
     (\<exists>i<8. \<exists>p. k_pg k = add_process (of_nat i) p)"

text \<open>What a program may change beside the screen and its memory: its own descriptors.\<close>

definition framed :: "kernel \<Rightarrow> kernel \<Rightarrow> bool" where
  "framed k k' \<longleftrightarrow> same_rest k k' \<and> k_pg k' = k_pg k \<and> (\<exists>ft. fds_safe ft \<and> k_proc k' = set_cur_fds ft (k_proc k))"

text \<open>A program that prints \<open>out\<close> and returns 0, whatever the state in which it is entered.\<close>

definition obeys :: "session os \<Rightarrow> filesystem \<Rightarrow> code \<Rightarrow> u8 list \<Rightarrow> u8 list \<Rightarrow> bool" where
  "obeys os fs main A out \<longleftrightarrow> (\<forall>es k. entered fs A k \<longrightarrow>
     (\<exists>k'. main os (es, k) = Some (0, es, k') \<and> framed k k' \<and> k_con k' = print_bytes out (cur_term k) (k_con k)))"

text \<open>A command that runs such a program: \<open>img\<close> knows the file's contents for its compiled form.\<close>

definition runs :: "image \<Rightarrow> nat \<Rightarrow> filesystem \<Rightarrow> u8 list \<Rightarrow> u8 list \<Rightarrow> bool" where
  "runs img n fs cmd out \<longleftrightarrow> (\<exists>w A C. names_program cmd w A \<and> program_file fs w C \<and>
     (\<forall>m. (\<forall>j<length C. m j = C ! j) \<longrightarrow> obeys (session_os img n 0) fs (img m (le32 (C ! 24) (C ! 25) (C ! 26) (C ! 27))) A out))"

text \<open>Process \<open>i\<close> waits at its prompt and can start another program.\<close>

definition at_prompt :: "u32 \<Rightarrow> filesystem \<Rightarrow> int \<Rightarrow> session \<Rightarrow> bool" where
  "at_prompt p fs i = (\<lambda>(es, k). p \<noteq> 0 \<and> kernel_inv fs k \<and> shell_ok fs \<and> fd_ready k \<and> tty_ok k \<and> exception_flag (k_proc k) = 0 \<and>
     current_process (k_proc k) (cur_term k) = i \<and> in_use (k_proc k) i \<noteq> 0 \<and> (\<exists>j\<in>{3..7}. in_use (k_proc k) j = 0))"

lemma find_slot_NoneD: "find_slot used i k = None \<Longrightarrow> i \<le> l \<Longrightarrow> l < i + k \<Longrightarrow> used (int l) \<noteq> 0"
proof (induction k arbitrary: i)
  case (Suc k)
  then show ?case by (cases "l = i") (auto split: if_splits)
qed simp

lemma free_slot:
  assumes "\<forall>i\<in>{0..2}. used i \<noteq> 0" "\<exists>i\<in>{3..7}. used i = (0 :: int)"
  obtains i where "find_slot used 0 MAX_PROCESSES = Some i" "3 \<le> i" "i < 8" "used (int i) = 0"
proof -
  obtain i where "i \<in> {3..7}" "used i = 0" using assms(2) by blast
  then have "nat i < 0 + MAX_PROCESSES" "used (int (nat i)) = 0" by (auto simp: fd_consts)
  then obtain i where i: "find_slot used 0 MAX_PROCESSES = Some i"
    using find_slot_NoneD [of used 0 MAX_PROCESSES "nat i"] by (cases "find_slot used 0 MAX_PROCESSES") auto
  have u: "i < 8" "used (int i) = 0" using find_slot_SomeD [OF i] by (auto simp: fd_consts)
  have "3 \<le> i" using bspec [OF assms(1), of "int i"] u(2) by force
  with i u show thesis by (intro that)
qed

lemma frame_range:
  assumes "i < 8"
  shows "0x800000 \<le> unat (frame (of_nat i) OR (va AND 0x3FFFFF))" "unat (frame (of_nat i) OR (va AND 0x3FFFFF)) < 0x2C00000"
proof -
  let ?b = "frame (of_nat i) OR (va AND 0x3FFFFF)"
  have "(of_nat i :: u32) < 8" using assms by (simp add: word_less_nat_alt unat_of_nat)
  then have "unat ?b div 2 ^ 22 = unat (of_nat i + 2 :: u32)" using frame_part [of "of_nat i" va] by (metis unat_drop_bit_eq drop_bit_eq_div)
  also have "\<dots> = i + 2" using assms by (simp add: unat_word_ariths unat_of_nat)
  finally show "0x800000 \<le> unat ?b" "unat ?b < 0x2C00000" using assms by auto
qed

lemma program_page_clear: "i < 8 \<Longrightarrow> in_video a \<Longrightarrow> \<not> unat (a - (frame (of_nat i) OR 0x48000)) < 0x3B8000"
proof
  assume i: "i < 8" and a: "in_video a" and lt: "unat (a - (frame (of_nat i) OR 0x48000)) < 0x3B8000"
  let ?b = "frame (of_nat i) OR 0x48000"
  have b: "0x800000 \<le> unat ?b" "unat ?b < 0x2C00000" using frame_range [OF i, of "0x48000"] by simp_all
  have pow: "(2 :: int) ^ 32 = 4294967296" by simp
  have va: "unat a < 0xB9000" using a by (simp add: in_video_def VIDEO_def word_less_nat_alt)
  have "int (unat (a - ?b)) = (int (unat a) - int (unat ?b)) mod 2 ^ 32" by (simp add: uint_word_ariths)
  also have "\<dots> = (int (unat a) - int (unat ?b) + 2 ^ 32) mod 2 ^ 32" by simp
  also have "\<dots> = int (unat a) - int (unat ?b) + 2 ^ 32" by (intro mod_pos_pos_trivial) (use b va pow in linarith)+
  finally show False using b lt pow by linarith
qed

text \<open>From the shell's command to the entry of the program.\<close>

lemma execute_entered:
  assumes "kernel_inv fs k" "counts_ok fs" "names_program cmd w A" "program_file fs w C" "ptr \<noteq> 0"
    and "find_slot (in_use (k_proc k)) 0 MAX_PROCESSES = Some i" "i < 8"
  obtains n k1 where "execute ptr (bytes_of cmd) k = Some (Enter_user (le32 (C ! 24) (C ! 25) (C ! 26) (C ! 27)), k1)"
    "entered fs A k1" "same_rest k k1" "k_con k1 = k_con k" "cur_term k1 = cur_term k"
    "k_proc k1 = set_cur_pcb ((new_pcb i n (snd (parse_cmd_args (stack_bytes k) (bytes_of cmd) (k_proc k))))\<lparr>current_esp := reg_esp k, current_ebp := reg_ebp k\<rparr>)
       (k_proc (started (bytes_of cmd) i n k))"
    "\<forall>j<length C. view (get_phys k1) (phys_of k1 PROGRAM_START) j = C ! j"
proof -
  let ?c = "bytes_of cmd" and ?b = "frame (of_nat i) OR 0x48000 :: u32"
  have fs: "k_fs k = fs" using assms(1) by (simp add: kernel_inv_def kernel_base_def)
  note w = names_program_word [OF assms(3)]
  obtain fname d where l: "loadable ptr ?c k fname d i" "contents fs (unat (inode_idx d)) = C" "take 4 C = [0x7f, 0x45, 0x4c, 0x46]"
    using program_loadable [of k w C i ptr ?c] assms w fs by metis
  have magic: "take 4 (contents (k_fs k) (unat (inode_idx d))) = [0x7f, 0x45, 0x4c, 0x46]" using l fs by simp
  obtain n k1 where ex: "execute ptr ?c k = Some (Enter_user (le32 (C ! 24) (C ! 25) (C ! 26) (C ! 27)), k1)"
    and pr: "k_proc k1 = set_cur_pcb ((new_pcb i n (snd (parse_cmd_args (stack_bytes k) ?c (k_proc k))))\<lparr>current_esp := reg_esp k, current_ebp := reg_ebp k\<rparr>)
       (k_proc (started ?c i n k))"
    and pg: "k_pg k1 = add_process (of_nat i) (k_pg k)" and ph: "get_phys k1 = with_program ?b C (get_phys k)"
    using execute_enters [OF l(1) magic] l(2) fs by metis
  obtain m buf where st: "execute ptr ?c k = Some (run_program fname buf i (started ?c i m k))" using execute_starts [OF l(1)] by metis
  then have k1: "k1 = snd (run_program fname buf i (started ?c i m k))" using ex by (metis option.inject snd_conv)
  have rest: "same_rest k k1" unfolding k1 by (rule same_rest_trans [OF started_rest(1) run_program_rest(1)])
  have len: "length C < 0x3B8000" using l by (auto simp: loadable_def contents_def fs)
  have vid: "get_phys k1 a = get_phys k a" if "in_video a" for a
    using program_page_clear [OF assms(7) that] len by (simp add: ph with_program_def)
  obtain v where v: "k_con k1 = (k_con k)\<lparr>video_mem := v\<rparr>" "\<forall>j. \<not> (0 \<le> j \<and> j < 4096) \<longrightarrow> v j = video_mem (k_con k) j"
    using run_program_rest(2) [of fname buf i "started ?c i m k"] started_rest(2) unfolding k1 by metis
  have con: "k_con k1 = k_con k" by (rule con_eqI [OF v(1)]) (use v(2) vid in auto)
  have tm: "cur_term k1 = cur_term k" by (simp add: cur_term_def [of k1] pr started_fields)
  have "view (get_phys k1) (phys_of k1 PROGRAM_START) j = C ! j" if "j < length C" for j
    using loaded_view [OF pg ph _ that] len by simp
  moreover have "entered fs A k1"
  proof -
    have inv: "kernel_inv fs k1" using inv_execute [OF ex assms(1)] .
    have "A = [] \<or> (\<forall>j\<in>{0..length A}. pcb_args (cur_pcb (k_proc k1)) j = bytes_of A j)"
    proof (cases "A = []")
      case False
      then obtain p where cl: "command_line w p A" "cmd = w @ replicate p SPACE @ A" using assms(3) by (auto simp: names_program_def)
      obtain e' k1' where "execute ptr ?c k = Some (Enter_user e', k1')" "\<And>j. j \<le> length A \<Longrightarrow> pcb_args (cur_pcb (k_proc k1')) j = bytes_of A j"
        using execute_saves_args [OF l(1) [unfolded cl(2)] cl(1) magic] unfolding cl(2) by metis
      then show ?thesis using ex by auto
    qed simp
    moreover have "k_fds k1 = fd_table_init (fd_table (pcbs (k_proc k) (pcb_addr i)))"
      by (simp add: k_fds_def cur_fds_def pr new_pcb_fields)
    moreover have "tables_ready (k_proc k1)" using inv by (simp add: kernel_inv_def procs_ok_def procs_base_def)
    ultimately show ?thesis
      using inv pg assms(7) by (auto simp: entered_def fd_ready_def fd_table_init_ok fd_table_init_free)
  qed
  ultimately show thesis using that ex pr rest con tm by blast
qed

text \<open>From the end of the program back to the shell.\<close>

lemma leave_process_rest:
  "same_rest k (snd (leave_process status (on_proc close_all_fd k)))" "k_con (snd (leave_process status (on_proc close_all_fd k))) = k_con k"
  "cur_term (snd (leave_process status (on_proc close_all_fd k))) = cur_term k"
  by (simp_all add: leave_process_def Let_def same_rest_def on_proc_def on_pg_def cur_term_def close_all_fd_def)

lemma framed_inv:
  assumes "kernel_inv fs k" "framed k k'" "k_con k' = print_bytes out (cur_term k) (k_con k)"
  shows "kernel_inv fs k'" "cur_term k' = cur_term k"
proof -
  obtain ft where ft: "fds_safe ft" "k_proc k' = set_cur_fds ft (k_proc k)" using assms(2) by (auto simp: framed_def)
  show tm: "cur_term k' = cur_term k" by (simp add: cur_term_def ft(2))
  have "procs_ok (k_proc k')"
    using assms(1) ft unfolding ft(2) set_cur_fds_def by (intro ok_set_pcb) (simp_all add: kernel_inv_def)
  then show "kernel_inv fs k'"
    using assms kernel_terms(3) [OF assms(1)] tm by (simp add: kernel_inv_def kernel_base_def framed_def same_rest_def procs_ok_def print_bytes_ok)
qed

lemma current_block:
  assumes "kernel_inv fs k"
  shows "cur_pcb (k_proc k) = pcbs (k_proc k) (pcb_addr (nat (current_process (k_proc k) (cur_term k))))"
  using assms by (auto simp: kernel_inv_def procs_ok_def procs_base_def pcb_ok_def cur_pcb_def cur_ptr_def cur_term_def)

lemma halt_at_prompt:
  assumes "at_prompt p fs i (es, k)" "in_use (k_proc k) (int j) = 0" "j < 8" "kernel_inv fs k3" "same_rest k k3" "cur_term k3 = cur_term k"
    and "in_use (k_proc k3) = in_use (k_proc k)" "current_process (k_proc k3) = current_process (k_proc k)"
    and "\<forall>a. a \<noteq> pcb_addr j \<longrightarrow> pcbs (k_proc k3) a = pcbs (k_proc k) a" "exception_flag (k_proc k3) = 0"
  shows "at_prompt p fs i (es, k3)" "cur_pcb (k_proc k3) = cur_pcb (k_proc k)"
proof -
  let ?c = "current_process (k_proc k) (cur_term k)"
  have k: "kernel_inv fs k" "in_use (k_proc k) ?c \<noteq> 0" using assms(1) by (simp_all add: at_prompt_def)
  have c: "0 \<le> ?c" "?c < 8" using inv_cur(1,2) [OF k(1)] by simp_all
  have "nat ?c \<noteq> j" using k(2) assms(2) c by auto
  then have "pcb_addr (nat ?c) \<noteq> pcb_addr j" using pcb_addr_inj [of "nat ?c" j] c assms(3) by (auto simp: nat_less_iff)
  then show pcb: "cur_pcb (k_proc k3) = cur_pcb (k_proc k)"
    unfolding current_block [OF k(1)] current_block [OF assms(4)] assms(6,8) using assms(9) by simp
  have "fds_ok (k_fds k3)" using assms(1) pcb by (simp add: at_prompt_def fd_ready_def k_fds_def cur_fds_def)
  moreover have "tables_ready (k_proc k3)" "screen_ok (k_con k3)" using assms(4) by (simp_all add: kernel_inv_def kernel_base_def procs_base_def)
  ultimately show "at_prompt p fs i (es, k3)"
    using assms by (simp add: at_prompt_def fd_ready_def tty_ok_def same_rest_def)
qed

text \<open>A command runs its program: the output appears, and the caller finds everything else as it was.\<close>

lemma run_command_runs:
  assumes "at_prompt p fs i (es, k)" "is_cstring comm (length cmd)" "run_of comm 0 (length cmd) = cmd" "runs img n fs cmd out"
  shows "\<exists>b k'. run_command img (session_int80 img n) p comm (es, k) = Some (0, b, es, k') \<and> at_prompt p fs i (es, k') \<and>
    k_con k' = print_bytes out (cur_term k) (k_con k) \<and> cur_term k' = cur_term k \<and> k_kbd k' = k_kbd k \<and>
    in_use (k_proc k') = in_use (k_proc k) \<and> current_process (k_proc k') = current_process (k_proc k) \<and> cur_pcb (k_proc k') = cur_pcb (k_proc k)"
proof -
  obtain w A C where r: "names_program cmd w A" "program_file fs w C"
    "\<And>m. \<forall>j<length C. m j = C ! j \<Longrightarrow> obeys (session_os img n 0) fs (img m (le32 (C ! 24) (C ! 25) (C ! 26) (C ! 27))) A out"
    using assms(4) by (auto simp: runs_def)
  have k: "p \<noteq> 0" "kernel_inv fs k" "shell_ok fs" "exception_flag (k_proc k) = 0" "counts_ok fs" "\<exists>j\<in>{3..7}. in_use (k_proc k) j = 0"
    using assms(1) by (simp_all add: at_prompt_def shell_ok_def)
  have "\<forall>i\<in>{0..2}. in_use (k_proc k) i \<noteq> 0" using k(2) by (simp add: kernel_inv_def procs_ok_def)
  from free_slot [OF this k(6)] obtain j where i: "find_slot (in_use (k_proc k)) 0 MAX_PROCESSES = Some j" "3 \<le> j" "j < 8" "in_use (k_proc k) (int j) = 0"
    by blast
  obtain m k1 where k1: "execute p (bytes_of cmd) k = Some (Enter_user (le32 (C ! 24) (C ! 25) (C ! 26) (C ! 27)), k1)"
    "entered fs A k1" "same_rest k k1" "k_con k1 = k_con k" "cur_term k1 = cur_term k"
    "k_proc k1 = set_cur_pcb ((new_pcb j m (snd (parse_cmd_args (stack_bytes k) (bytes_of cmd) (k_proc k))))\<lparr>current_esp := reg_esp k, current_ebp := reg_ebp k\<rparr>)
       (k_proc (started (bytes_of cmd) j m k))"
    "\<forall>j<length C. view (get_phys k1) (phys_of k1 PROGRAM_START) j = C ! j"
    by (rule execute_entered [OF k(2,5) r(1,2) k(1) i(1,3)])
  let ?main = "img (view (get_phys k1) (phys_of k1 PROGRAM_START)) (le32 (C ! 24) (C ! 25) (C ! 26) (C ! 27))"
  obtain k2 where k2: "?main (session_os img n 0) (es, k1) = Some (0, es, k2)" "framed k1 k2" "k_con k2 = print_bytes out (cur_term k) (k_con k)"
    using r(3) [OF k1(7)] k1(2) unfolding obeys_def k1(4,5) [symmetric] by blast
  have inv2: "kernel_inv fs k2" "cur_term k2 = cur_term k" using framed_inv [OF _ k2(2)] k1(2,4,5) k2(3) by (auto simp: entered_def)
  obtain ft where ft: "k_proc k2 = set_cur_fds ft (k_proc k1)" "same_rest k1 k2" using k2(2) by (auto simp: framed_def)
  have "exception_flag (k_proc k1) = 0" using k(4) by (simp add: k1(6) started_rest)
  then have p2: "k_proc k2 = (set_cur_fds ft (k_proc k1))\<lparr>exception_flag := 0\<rparr>" unfolding ft by (simp add: set_cur_fds_def set_cur_pcb_def)
  obtain k3 where k3: "halt 0 k2 = Some (Leave_execute (reg_esp k) (reg_ebp k) (ucast (0 :: u8) + 0), k3)" "k3 = snd (leave_process 0 (on_proc close_all_fd k2))"
    "in_use (k_proc k3) = in_use (k_proc k)" "current_process (k_proc k3) = current_process (k_proc k)"
    "\<forall>a. a \<noteq> pcb_addr j \<longrightarrow> pcbs (k_proc k3) a = pcbs (k_proc k) a" "exception_flag (k_proc k3) = 0"
    by (rule halt_returns [OF k1(6) i(2,3,4) p2, of 0])
  have rest: "same_rest k2 k3" "k_con k3 = k_con k2" "cur_term k3 = cur_term k2" unfolding k3(2) by (rule leave_process_rest)+
  then have all: "same_rest k k3" "cur_term k3 = cur_term k" using same_rest_trans k1(3) ft(2) inv2(2) by metis+
  have "kernel_inv fs k3" using inv_halt [OF k3(1) inv2(1) k(3)] .
  note at = halt_at_prompt [OF assms(1) i(4,3) this all k3(3-6)]
  have "execute p comm k = Some (Enter_user (le32 (C ! 24) (C ! 25) (C ! 26) (C ! 27)), k1)"
    using execute_string [OF assms(2)] names_program_word(5) [OF r(1)] assms(3) k1(1) by simp
  then have "run_command img (session_int80 img n) p comm (es, k) = Some (0, comm, es, k3)"
    using k2(1) k3(1) by (simp add: run_command_def start_code_def syscall_handler_def leaving_def session_os_def word_le_nat_alt)
  then show ?thesis using at all k2(3) k3(3,4) rest(2) by (auto simp: same_rest_def)
qed

section \<open>A shell that runs programs\<close>

text \<open>
  What the shell relies on beyond the refusal of foreign commands: a command with a program behind
  it prints the program's output, returns 0, and the shell can go on.
\<close>

locale session_shell = shell_os +
  fixes known :: "u8 list \<Rightarrow> u8 list \<Rightarrow> bool"
  assumes starts: "ok s \<Longrightarrow> is_cstring cmd n \<Longrightarrow> known (run_of cmd 0 n) out \<Longrightarrow>
      \<exists>s'. ece391_execute os cmd s = Some (0, s') \<and> ok s' \<and> screen s' = print out (screen s) \<and> pending s' = pending s"
begin

lemma shell_command_runs:
  assumes "ok s" "pending s = xs # ys" "chomp (deliver xs) \<noteq> EXIT" "chomp (deliver xs) \<noteq> []" "known (chomp (deliver xs)) out"
  obtains b s1 cnt b0 s2 s' where "puts_literal os ''391OS> '' s = Some s1" "ece391_read os 0 buf 1023 s1 = Some (cnt, b0, s2)"
    "shell_command os buf s = Some (Inr b, s')" "ok s'" "pending s' = ys" "screen s' = print out (screen s2)"
proof -
  obtain b' s1 cnt b0 s2
    where s2: "puts_literal os ''391OS> '' s = Some s1" "ece391_read os 0 buf 1023 s1 = Some (cnt, b0, s2)" "ok s2" "pending s2 = ys"
    and line: "is_cstring b' (length (chomp (deliver xs)))" "run_of b' 0 (length (chomp (deliver xs))) = chomp (deliver xs)"
    and step: "shell_command os buf s = (if chomp (deliver xs) = EXIT then Some (Inl 0, s2) else if chomp (deliver xs) = [] then Some (Inr b', s2)
      else Option.bind (ece391_execute os b' s2) (\<lambda>(rval, s).
             Option.bind (if - 1 = rval then puts_literal os (line ''no such command'') s
                          else if 256 = rval then puts_literal os (line ''program terminated by exception'') s
                          else if 0 \<noteq> rval then puts_literal os (line ''program terminated abnormally'') s
                          else Some s) (\<lambda>s. Some (Inr b', s))))"
    by (rule shell_reads [OF assms(1,2), of buf])
  obtain s' where s': "ece391_execute os b' s2 = Some (0, s')" "ok s'" "screen s' = print out (screen s2)" "pending s' = ys"
    using starts [OF s2(3) line(1), of out] line(2) assms(5) s2(4) by auto
  then have "shell_command os buf s = Some (Inr b', s')" using step assms(3,4) by simp
  then show thesis using that s2(1,2) s' by blast
qed

lemma session_ends:
  assumes "ok s" "pending s = xss @ xs # ys" "chomp (deliver xs) = EXIT" "\<forall>x\<in>set xss. chomp (deliver x) \<noteq> EXIT \<and> (chomp (deliver x) = [] \<or> foreign (chomp (deliver x)) \<or> (\<exists>out. known (chomp (deliver x)) out))"
  shows "\<exists>s'. shell_loop os buf s = Some (0, s') \<and> ok s' \<and> pending s' = ys"
  using assms
proof (induction xss arbitrary: s buf)
  case Nil
  then obtain s' where "shell_command os buf s = Some (Inl 0, s')" "ok s'" "pending s' = ys"
    using shell_command_answers [of s xs ys buf] by auto
  then show ?case by (subst shell_loop.simps) simp
next
  case (Cons x xss)
  have x: "chomp (deliver x) \<noteq> EXIT" "chomp (deliver x) = [] \<or> foreign (chomp (deliver x)) \<or> (\<exists>out. known (chomp (deliver x)) out)"
    using Cons.prems(4) by auto
  have "\<exists>b s'. shell_command os buf s = Some (Inr b, s') \<and> ok s' \<and> pending s' = xss @ xs # ys"
  proof (cases "chomp (deliver x) = [] \<or> foreign (chomp (deliver x))")
    case True
    then show ?thesis using shell_command_answers [of s x "xss @ xs # ys" buf] Cons.prems x(1) by auto
  next
    case False
    then obtain out where "known (chomp (deliver x)) out" "chomp (deliver x) \<noteq> []" using x(2) by blast
    then show ?thesis
      using shell_command_runs [of s x "xss @ xs # ys" out buf] Cons.prems(1,2) x(1) by (metis append_Cons)
  qed
  then obtain b s' where "shell_command os buf s = Some (Inr b, s')" "ok s'" "pending s' = xss @ xs # ys" by blast
  then show ?case using Cons.IH [of s' b] Cons.prems by (subst shell_loop.simps) auto
qed

end

lemma at_prompt_con:
  assumes "at_prompt p fs i (es, k)"
  shows "at_prompt p fs i (es, on_con (print_bytes xs) k)"
  using assms inv_con [of fs k "print_bytes xs"]
  by (auto simp: at_prompt_def fd_ready_def k_fds_def tty_ok_def print_bytes_ok)

interpretation kernel_session: session_shell "session_os img (Suc n) p" "at_prompt p fs i" k_screen k_print k_rest k_pending line_result "\<lambda>(es, k). k_proc k"
  "unknown fs" "runs img n fs" for img n p fs i
proof
  fix s :: session and m buf
  assume s: "at_prompt p fs i s" "m < (2 :: nat) ^ 31"
  then show "\<exists>s'. ece391_write (session_os img (Suc n) p) 1 buf (of_nat m) s = Some (of_nat m, s') \<and> at_prompt p fs i s' \<and>
      k_screen s' = k_print (run_of buf 0 m) (k_screen s) \<and> k_rest s' = k_rest s"
    using kernel_write_prints [of "snd s" p m buf "fst s"] at_prompt_con [of p fs i "fst s" "snd s" "run_of buf 0 m"]
    by (cases s) (auto simp: session_calls at_prompt_def k_screen_def k_print_def k_rest_def on_con_def)
next
  fix s :: session and xs ys m buf
  assume s: "at_prompt p fs i s" "k_pending s = xs # ys" "length xs < m" "m < (2 :: nat) ^ 31"
  obtain es k where k: "s = (es, k)" by (cases s)
  obtain b es' k' where r: "ece391_read (kernel_os p) 0 buf (of_nat m) (es, k) = Some (of_nat (length (line_result xs)), b, es', k')"
    "run_of b 0 (length (line_result xs)) = line_result xs" "fd_ready k'" "tty_ok k'" "lines_of es' (line_state k') = ys" "k_proc k' = k_proc k" "k_fs k' = k_fs k"
    using kernel_read_line [of p k es xs ys m buf] s by (auto simp: k at_prompt_def k_pending_def)
  have "\<exists>c. sys_read 0 p buf (of_nat m) es k = Some (c, b, es', k')"
    using r(1) by (auto simp: kernel_calls split: Option.bind_splits control.splits)
  then have "kernel_inv fs k'" using inv_sys_read s(1) by (auto simp: k at_prompt_def)
  then show "\<exists>buf' s'. ece391_read (session_os img (Suc n) p) 0 buf (of_nat m) s = Some (of_nat (length (line_result xs)), buf', s') \<and>
        run_of buf' 0 (length (line_result xs)) = line_result xs \<and> at_prompt p fs i s' \<and> k_pending s' = ys \<and> (case s' of (es, k) \<Rightarrow> k_proc k) = (case s of (es, k) \<Rightarrow> k_proc k)"
    using r s(1) by (auto simp: k session_calls at_prompt_def k_pending_def cur_term_def)
next
  fix s :: session and xs
  assume "at_prompt p fs i s" "xs \<in> set (k_pending s)"
  then show "length xs < 128" using kernel_keyboard.pending_short [of p "\<lambda>_ _. True" s xs] by (cases s) (auto simp: at_prompt_def talking_def)
next
  fix s s' :: session
  assume "k_rest s' = k_rest s"
  then show "k_pending s' = k_pending s" by (rule kernel_keyboard.pending_rest)
next
  fix s :: session and cmd m
  assume s: "at_prompt p fs i s" "is_cstring cmd m" "unknown fs (run_of cmd 0 m)"
  obtain es k where k: "s = (es, k)" by (cases s)
  define k' where "k' = k\<lparr>k_proc := snd (parse_cmd_args (stack_bytes k) cmd (k_proc k))\<rparr>"
  have at: "p \<noteq> 0" "kernel_inv fs k" "fd_ready k" "tty_ok k" "shell_ok fs" using s(1) by (simp_all add: k at_prompt_def)
  have fs: "k_fs k = fs" "counts_ok fs" using at by (simp_all add: kernel_inv_def kernel_base_def shell_ok_def)
  have ex: "execute p cmd k = Some (Return FAIL, k')" using execute_unknown [of p k cmd m] s at fs by (simp add: k'_def)
  have "kernel_inv fs k'" using inv_execute [OF ex at(2)] .
  moreover have "exception_flag (k_proc k') = exception_flag (k_proc k)" "in_use (k_proc k') = in_use (k_proc k)" "current_process (k_proc k') = current_process (k_proc k)"
    by (simp_all add: k'_def) (simp add: parse_cmd_args_def Let_def)
  moreover note parse_ready [OF at(3,4), of "stack_bytes k" cmd, folded k'_def]
  ultimately have "at_prompt p fs i (es, k')" "k_screen (es, k') = k_screen (es, k)" "k_pending (es, k') = k_pending (es, k)"
    using s(1) by (simp_all add: k at_prompt_def k_screen_def k_pending_def) (simp add: k'_def)
  then show "\<exists>s'. ece391_execute (session_os img (Suc n) p) cmd s = Some (- 1, s') \<and> at_prompt p fs i s' \<and> k_screen s' = k_screen s \<and> k_pending s' = k_pending s"
    using ex by (simp add: k session_execute run_command_def syscall_handler_def leaving_def word_le_nat_alt)
next
  fix s :: session and cmd m out
  assume s: "at_prompt p fs i s" "is_cstring cmd m" "runs img n fs (run_of cmd 0 m) out"
  obtain es k where k: "s = (es, k)" by (cases s)
  obtain b k' where "run_command img (session_int80 img n) p cmd (es, k) = Some (0, b, es, k')" "at_prompt p fs i (es, k')"
    "k_con k' = print_bytes out (cur_term k) (k_con k)" "cur_term k' = cur_term k" "k_kbd k' = k_kbd k"
    using run_command_runs [of p fs i es k cmd "run_of cmd 0 m" img n out] s by (auto simp: k)
  then show "\<exists>s'. ece391_execute (session_os img (Suc n) p) cmd s = Some (0, s') \<and> at_prompt p fs i s' \<and> k_screen s' = k_print out (k_screen s) \<and> k_pending s' = k_pending s"
    by (simp add: k session_execute k_screen_def k_print_def k_pending_def line_state_def)
qed (simp_all add: k_print_def case_prod_beta print_bytes_append line_result_length line_result_nul)

end
