(* ===== verification/Commands.thy ===== *)
theory Commands
  imports Session
begin

text \<open>
  The commands \<^verbatim>\<open>cat\<close> and \<^verbatim>\<open>ls\<close> typed at the shell's prompt, and the shell that booting starts: the
  contracts of the programs are proved against the kernel and given to the shell, whose
  session then works from the first prompt to the shell that follows an \<^verbatim>\<open>exit\<close>.
\<close>

unbundle bit_operations_syntax

section \<open>The programs keep the contract\<close>

lemma own_framed:
  assumes "own_fds k k'" "fd_ready k'"
  shows "framed k k'"
proof -
  obtain ft c m where k': "k' = k\<lparr>k_proc := set_cur_fds ft (k_proc k), k_con := c, k_ram := m\<rparr>" using assms(1) by (auto simp: own_fds_def)
  have "k_fds k' = ft" by (simp add: k' k_fds_def)
  then show ?thesis using assms(2) fds_ok_safe [of ft] by (auto simp: framed_def k' same_rest_def fd_ready_def)
qed

text \<open>A buffer of the program lies in the program page, far from video memory.\<close>

lemma entered_buffer:
  assumes "entered fs A k" "pd_index q = PROCESS_IDX"
  shows "\<forall>j\<in>{0..<1024}. \<not> in_video (phys_of k q + of_nat j)" "q \<noteq> 0"
proof -
  obtain i p where i: "i < 8" "k_pg k = add_process (of_nat i) p" using assms(1) by (auto simp: entered_def)
  have ph: "phys_of k q = frame (of_nat i) OR (q AND 0x3FFFFF)" using i(2) assms(2) by (simp add: phys_of_def add_process_page_walk)
  show "\<forall>j\<in>{0..<1024}. \<not> in_video (phys_of k q + of_nat j)"
  proof
    fix j :: nat assume "j \<in> {0..<1024}"
    then have "unat (phys_of k q + of_nat j) = unat (phys_of k q) + j"
      using frame_range [OF i(1), of q] by (simp add: ph unat_word_ariths unat_of_nat)
    then show "\<not> in_video (phys_of k q + of_nat j)" using frame_range(1) [OF i(1), of q] by (simp add: ph in_video_def VIDEO_def word_less_nat_alt)
  qed
  show "q \<noteq> 0" using assms(2) by (auto simp: pd_index_def PROCESS_IDX_def)
qed

text \<open>The image holds a regular file \<open>A\<close> with the contents \<open>D\<close>.\<close>

definition data_file :: "filesystem \<Rightarrow> u8 list \<Rightarrow> u8 list \<Rightarrow> bool" where
  "data_file fs A D \<longleftrightarrow> A \<noteq> [] \<and> list_all (\<lambda>c. c \<noteq> SPACE \<and> c \<noteq> NUL) A \<and> length A < MAX_NAME_CHARACTERS \<and>
     (case List.find (\<lambda>e. entry_name fs e = A) [0..<MAX_ENTRIES] of
        None \<Rightarrow> False
      | Some e \<Rightarrow> let ino = unat (entry_inode_idx fs e)
          in entry_file_type fs e = 2 \<and> entry_inode_idx fs e < num_inodes fs \<and> sound_inode fs ino \<and> file_size fs ino < 2 ^ 30 \<and> contents fs ino = D)"

lemma data_file_lookup:
  assumes "data_file fs A D" "counts_ok fs"
  obtains d where "read_dentry_by_name fs (bytes_of A) d0 = (0, d)" "file_type d = 2" "inode_idx d < num_inodes fs"
    "sound_inode fs (unat (inode_idx d))" "file_size fs (unat (inode_idx d)) < 2 ^ 30" "contents fs (unat (inode_idx d)) = D"
proof -
  obtain e where e: "List.find (\<lambda>e. entry_name fs e = A) [0..<MAX_ENTRIES] = Some e"
    using assms(1) by (auto simp: data_file_def split: option.splits)
  have "given_name (bytes_of A) = run_of (bytes_of A) 0 (length A)"
    using assms(1) by (intro given_name_run) (auto simp: data_file_def bytes_of_def list_all_length)
  also have "\<dots> = A" by (simp add: run_of_eq_iff bytes_of_def)
  finally show thesis
    using assms(1) e lookup_eq [OF assms(2), of "bytes_of A" d0]
    by (intro that [of "fill_dentry fs e (length A) d0"]) (simp_all add: data_file_def Let_def fill_dentry_def)
qed

lemma session_same: "same_calls ((session_os img n 0)\<lparr>ubuf := q\<rparr>) q"
proof -
  have "(session_os img n 0)\<lparr>ubuf := q\<rparr> = session_os img n q" by (simp add: session_os_def)
  then show ?thesis by (simp add: same_calls_def session_calls)
qed

lemma cat_obeys:
  assumes "data_file fs A D" "counts_ok fs" "pd_index q = PROCESS_IDX"
  shows "obeys (session_os img n 0) fs (\<lambda>os. cat_main (os\<lparr>ubuf := q\<rparr>) buf) A D"
  unfolding obeys_def
proof (intro allI impI)
  fix es k assume k: "entered fs A k"
  have A: "A \<noteq> []" "list_all (\<lambda>c. c \<noteq> SPACE \<and> c \<noteq> NUL) A" "length A < 128" using assms(1) by (auto simp: data_file_def fs_consts)
  have fs: "k_fs k = fs" "fd_ready k" "free_fds (k_fds k) \<noteq> []" using k by (simp_all add: entered_def kernel_inv_def kernel_base_def)
  have "last A \<in> set A" using A(1) by simp
  then have n: "name_args (pcb_args (cur_pcb (k_proc k))) A" using k A by (auto simp: name_args_def entered_def list_all_iff)
  note q = entered_buffer [OF k assms(3)]
  obtain d where d: "read_dentry_by_name fs (bytes_of A) (stack_dentry k) = (0, d)" "file_type d = 2" "inode_idx d < num_inodes fs"
    "sound_inode fs (unat (inode_idx d))" "file_size fs (unat (inode_idx d)) < 2 ^ 30" "contents fs (unat (inode_idx d)) = D"
    by (rule data_file_lookup [OF assms(1,2)])
  show "\<exists>k'. cat_main ((session_os img n 0)\<lparr>ubuf := q\<rparr>) buf (es, k) = Some (0, es, k') \<and> framed k k' \<and> k_con k' = print_bytes D (cur_term k) (k_con k)"
    using cat_kernel [OF fs(2) q(2) fs(3) _ n q(1) _ d(2) _ _ _ session_same, of img n buf es] d assms(2) own_framed unfolding fs(1) by blast
qed

lemma ls_obeys:
  assumes "List.find (\<lambda>e. entry_name fs e = [46]) [0..<MAX_ENTRIES] = Some e" "entry_file_type fs e = 1"
    and "\<forall>i\<in>{0..<unat (num_entries fs)}. entry_name fs i \<noteq> []" "counts_ok fs" "pd_index q = PROCESS_IDX"
  shows "obeys (session_os img n 0) fs (\<lambda>os. ls_main (os\<lparr>ubuf := q\<rparr>) buf) A (listing (map (entry_name fs) [0..<unat (num_entries fs)]))"
  unfolding obeys_def
proof (intro allI impI)
  fix es k assume k: "entered fs A k"
  have fs: "k_fs k = fs" "fd_ready k" "free_fds (k_fds k) \<noteq> []" using k by (simp_all add: entered_def kernel_inv_def kernel_base_def)
  have g: "given_name (cstr ''.'') = [46]"
    using given_name_run [of 1 "cstr ''.''"] by (simp add: run_of_def fs_consts cstr_def byte_of_char_def of_char_def)
  have d: "read_dentry_by_name fs (cstr ''.'') (stack_dentry k) = (0, fill_dentry fs e 1 (stack_dentry k))"
    "file_type (fill_dentry fs e 1 (stack_dentry k)) = 1"
    using lookup_eq [OF assms(4), of "cstr ''.''" "stack_dentry k"] assms(1,2) by (simp_all add: g fill_dentry_def)
  show "\<exists>k'. ls_main ((session_os img n 0)\<lparr>ubuf := q\<rparr>) buf (es, k) = Some (0, es, k') \<and> framed k k' \<and>
      k_con k' = print_bytes (listing (map (entry_name fs) [0..<unat (num_entries fs)])) (cur_term k) (k_con k)"
    using ls_kernel [OF fs(2) entered_buffer(2) [OF k assms(5)] fs(3) _ d(2) _ session_same, of img n buf es] d(1) assms(3) own_framed unfolding fs(1) by blast
qed

text \<open>The processor runs \<open>main\<close> for the program with the contents \<open>C\<close>.\<close>

definition compiled :: "image \<Rightarrow> u8 list \<Rightarrow> code \<Rightarrow> bool" where
  "compiled img C main \<longleftrightarrow> (\<forall>m. (\<forall>j<length C. m j = C ! j) \<longrightarrow> img m (le32 (C ! 24) (C ! 25) (C ! 26) (C ! 27)) = main)"

lemma runs_compiled:
  assumes "names_program cmd w A" "program_file fs w C" "compiled img C main" "obeys (session_os img n 0) fs main A out"
  shows "runs img n fs cmd out"
  using assms unfolding runs_def compiled_def by metis

lemma with_arguments: "names_program cmd w A \<Longrightarrow> A \<noteq> [] \<Longrightarrow> cmd \<noteq> EXIT \<and> cmd \<noteq> []"
proof -
  assume "names_program cmd w A" "A \<noteq> []"
  then have "SPACE \<in> set cmd" by (auto simp: names_program_def command_line_def)
  then show ?thesis by (auto simp: EXIT_def)
qed

section \<open>The base shell\<close>

text \<open>When the shell at the base of a terminal returns, the kernel starts it again.\<close>

lemma base_shell_restarts:
  assumes "at_prompt p fs i (es, k)" "i < 3"
  obtains e k' where "start_code (\<lambda>os s. Some (r, s)) os (es, k) = Some (Enter_user e, es, k')" "at_prompt p fs i (es, k')"
    "line_state k' = line_state k" "shell_loaded fs e k'"
proof -
  have k: "kernel_inv fs k" "shell_ok fs" "current_process (k_proc k) (cur_term k) = i" using assms(1) by (simp_all add: at_prompt_def)
  obtain e k' where h: "halt (ucast r) k = Some (Enter_user e, k')" "kernel_inv fs k'" "cur_term k' = cur_term k"
    "current_process (k_proc k') = (current_process (k_proc k))(cur_term k := i)" "fd_ready k'"
    "in_use (k_proc k') = (in_use (k_proc k))(i := 1)" "exception_flag (k_proc k') = exception_flag (k_proc k)" "same_rest k k'" "shell_loaded fs e k'"
    using halt_base [OF k(1,2), of "ucast r"] assms(2) unfolding k(3) by blast
  have "\<exists>j\<in>{3..7}. in_use (k_proc k') j = 0" using assms by (auto simp: at_prompt_def h(6))
  then have "at_prompt p fs i (es, k')" "line_state k' = line_state k"
    using assms(1) h by (simp_all add: at_prompt_def tty_ok_def kernel_inv_def kernel_base_def same_rest_def line_state_def)
  moreover have "start_code (\<lambda>os s. Some (r, s)) os (es, k) = Some (Enter_user e, es, k')"
    using h(1) by (simp add: start_code_def syscall_handler_def leaving_def word_le_nat_alt)
  ultimately show thesis using that h(9) by simp
qed

text \<open>The state in which booting enters the shell.\<close>

lemma clear_buffers_line:
  "t \<le> u \<Longrightarrow> u < t + n \<Longrightarrow> typed u (clear_buffers b t n) = [] \<and> caps_shift_flag (clear_buffers b t n) u = 0"
proof (induction n arbitrary: b t)
  case (Suc n)
  have same: "u < t \<Longrightarrow> buffer_index (clear_buffers b t n) u = buffer_index b u \<and> caps_shift_flag (clear_buffers b t n) u = caps_shift_flag b u" for b t
    by (induction n arbitrary: b t) auto
  show ?case
  proof (cases "u = t")
    case True
    then show ?thesis using same [of "Suc t"] by (simp add: typed_def kbd_consts)
  qed (use Suc in auto)
qed simp

lemma clear_buffers_keys: "ctrl_flag (clear_buffers b t n) = ctrl_flag b" "alt_flag (clear_buffers b t n) = alt_flag b"
  by (induction n arbitrary: b t) auto

text \<open>A machine that can boot: what the loader promises, and zeroed variables of the keyboard and of the exception handlers.\<close>

definition bootable :: "u32 \<Rightarrow> machine \<Rightarrow> bool" where
  "bootable mbi m \<longleftrightarrow> (let k = mach_kernel m
     in boot_info_ok (k_ram k) mbi \<and> screen_ok (k_con k) \<and> cur_term k < MAX_TERMINAL \<and> keyboard_ok (k_kbd k) \<and> tables_ok (k_pg k) \<and>
        ctrl_flag (k_kbd k) = 0 \<and> alt_flag (k_kbd k) = 0 \<and> exception_flag (k_proc k) = 0)"

lemma boots_to_prompt:
  assumes "bootable mbi m" "p \<noteq> 0"
  obtains e m' where "entry l MULTIBOOT_BOOTLOADER_MAGIC mbi m = Some (Entered e, m')" "\<And>es. at_prompt p (k_fs (mach_kernel m')) 0 (es, mach_kernel m')"
    "line_state (mach_kernel m') = (0, [])" "shell_loaded (k_fs (mach_kernel m')) e (mach_kernel m')"
proof -
  note b = assms(1) [unfolded bootable_def Let_def]
  obtain k where k: "entry l MULTIBOOT_BOOTLOADER_MAGIC mbi m = start_system l (m\<lparr>mach_kernel := k\<rparr>)" "booting (mach_kernel m) k" "mounted k"
    using entry_boots [of m mbi l] b by blast
  obtain e m' where m': "start_system l (m\<lparr>mach_kernel := k\<rparr>) = Some (Entered e, m')" "shell_ok (k_fs (mach_kernel m'))"
    "kernel_inv (k_fs (mach_kernel m')) (mach_kernel m')" "cur_term (mach_kernel m') = 0" "current_process (k_proc (mach_kernel m')) 0 = 0"
    "fd_ready (mach_kernel m')" "k_kbd (mach_kernel m') = clear_buffers (k_kbd (mach_kernel m)) 0 MAX_TERMINAL"
    "exception_flag (k_proc (mach_kernel m')) = 0" "in_use (k_proc (mach_kernel m')) 0 = 1" "\<forall>i\<in>{3..7}. in_use (k_proc (mach_kernel m')) i = 0" "shell_loaded (k_fs (mach_kernel m')) e (mach_kernel m')"
    using start_system_shell [of "mach_kernel m" "m\<lparr>mach_kernel := k\<rparr>" l] k(2,3) b by auto
  have "tty_ok (mach_kernel m')"
    using m'(3) b by (simp add: tty_ok_def kernel_inv_def kernel_base_def m'(4,7) clear_buffers_keys con_consts)
  moreover have "in_use (k_proc (mach_kernel m')) 3 = 0" using m'(10) by simp
  then have "\<exists>j\<in>{3..7}. in_use (k_proc (mach_kernel m')) j = 0" by (intro bexI [of _ 3]) simp_all
  ultimately have "at_prompt p (k_fs (mach_kernel m')) 0 (es, mach_kernel m')" for es
    using m' assms(2) by (simp add: at_prompt_def)
  moreover have "line_state (mach_kernel m') = (0, [])"
    using clear_buffers_line [of 0 0 MAX_TERMINAL] by (simp add: line_state_def m'(4,7) con_consts)
  ultimately show thesis using that k(1) m'(1,11) by simp
qed

text \<open>A line that the shell can deal with: empty, a foreign word, or a command with a program behind it.\<close>

definition answerable :: "image \<Rightarrow> nat \<Rightarrow> filesystem \<Rightarrow> u8 list \<Rightarrow> bool" where
  "answerable img n fs x \<longleftrightarrow> x \<noteq> EXIT \<and> (x = [] \<or> unknown fs x \<or> (\<exists>out. runs img n fs x out))"

lemma base_shell_session:
  assumes "at_prompt p fs i (es, k)" "i < 3" "lines_of es (line_state k) = xss @ xs # ys" "chomp (line_result xs) = EXIT"
    and "\<forall>x\<in>set xss. answerable img n fs (chomp (line_result x))"
  obtains e es' k' where "start_code (\<lambda>os. shell_main (os\<lparr>ubuf := p\<rparr>) buf) (session_os img (Suc n) 0) (es, k) = Some (Enter_user e, es', k')"
    "at_prompt p fs i (es', k')" "lines_of es' (line_state k') = ys" "shell_loaded fs e k'"
proof -
  let ?os = "session_os img (Suc n) p" and ?msg = "line ''Starting 391 Shell''"
  have os: "(session_os img (Suc n) 0)\<lparr>ubuf := p\<rparr> = ?os" by (simp add: session_os_def)
  have pend: "k_pending (es, k) = xss @ xs # ys" using assms(3) by (simp add: k_pending_def)
  obtain s1 where s1: "puts_literal ?os ?msg (es, k) = Some s1" "at_prompt p fs i s1" "k_pending s1 = xss @ xs # ys"
    using kernel_session.literal [OF _ _ assms(1), of ?msg img n] pend by (auto simp: byte_of_char_def of_char_def line_def)
  obtain s2 where s2: "shell_loop ?os buf s1 = Some (0, s2)" "at_prompt p fs i s2" "k_pending s2 = ys"
    using kernel_session.session_ends [OF s1(2,3) assms(4), of img n buf] assms(5) by (auto simp: answerable_def)
  obtain es2 k2 where k2: "s2 = (es2, k2)" by (cases s2)
  obtain e k' where "start_code (\<lambda>os s. Some (0, s)) ?os (es2, k2) = Some (Enter_user e, es2, k')" "at_prompt p fs i (es2, k')"
    "line_state k' = line_state k2" "shell_loaded fs e k'"
    using base_shell_restarts [of p fs i es2 k2 0 ?os] s2(2) assms(2) unfolding k2 by metis
  then show thesis
    using that [of e es2 k'] s1(1) s2 by (simp add: start_code_def os shell_main_def k2 k_pending_def)
qed

text \<open>The lines of one session: all but the last can be answered, and the last is \<^verbatim>\<open>exit\<close>.\<close>

definition session_lines :: "image \<Rightarrow> nat \<Rightarrow> filesystem \<Rightarrow> u8 list list \<Rightarrow> bool" where
  "session_lines img n fs S \<longleftrightarrow> S \<noteq> [] \<and> chomp (line_result (last S)) = EXIT \<and> (\<forall>x\<in>set (butlast S). answerable img n fs (chomp (line_result x)))"

definition shell_code :: "image \<Rightarrow> filesystem \<Rightarrow> u32 \<Rightarrow> bytes \<Rightarrow> bool" where
  "shell_code img fs p buf \<longleftrightarrow> (\<forall>C. program_file fs (map byte_of_char ''shell'') C \<longrightarrow> compiled img C (\<lambda>os. shell_main (os\<lparr>ubuf := p\<rparr>) buf))"

lemma base_sessions_answered:
  assumes "at_prompt p fs i (es, k)" "i < 3" "shell_loaded fs e k" "shell_code img fs p buf"
    and "lines_of es (line_state k) = concat Ss @ ys" "\<forall>S\<in>set Ss. session_lines img n fs S"
  shows "\<exists>e' es' k'. base_sessions img (Suc n) (length Ss) e (es, k) = Some (e', es', k') \<and> at_prompt p fs i (es', k') \<and>
    shell_loaded fs e' k' \<and> lines_of es' (line_state k') = ys"
  using assms
proof (induction Ss arbitrary: es k e)
  case (Cons S Ss)
  obtain xss xs where S: "S = xss @ [xs]" "chomp (line_result xs) = EXIT" "\<forall>x\<in>set xss. answerable img n fs (chomp (line_result x))"
    using Cons.prems(6) by (cases S rule: rev_cases) (auto simp: session_lines_def)
  have l: "lines_of es (line_state k) = xss @ xs # (concat Ss @ ys)" using Cons.prems(5) S(1) by simp
  obtain C where C: "program_file fs (map byte_of_char ''shell'') C" "e = le32 (C ! 24) (C ! 25) (C ! 26) (C ! 27)"
    "\<forall>j<length C. view (get_phys k) (phys_of k PROGRAM_START) j = C ! j"
    using Cons.prems(3) by (auto simp: shell_loaded_def)
  then have main: "img (view (get_phys k) (phys_of k PROGRAM_START)) e = (\<lambda>os. shell_main (os\<lparr>ubuf := p\<rparr>) buf)"
    using Cons.prems(4) by (simp add: shell_code_def compiled_def)
  obtain e1 es1 k1 where "start_code (\<lambda>os. shell_main (os\<lparr>ubuf := p\<rparr>) buf) (session_os img (Suc n) 0) (es, k) = Some (Enter_user e1, es1, k1)"
    "at_prompt p fs i (es1, k1)" "lines_of es1 (line_state k1) = concat Ss @ ys" "shell_loaded fs e1 k1"
    by (rule base_shell_session [OF Cons.prems(1,2) l S(2,3), where buf = buf])
  then show ?case using Cons.IH [of es1 k1 e1] Cons.prems(2,4,6) main by simp
qed simp

section \<open>Properties\<close>

text \<open>
  C6. A command at the prompt does its work: when the line typed at the shell names a program of
  the image that is \<^verbatim>\<open>cat\<close> and a regular file, then one turn of the shell's loop reads the line,
  starts the program, which prints exactly the contents of the file, and comes back to the
  prompt: the same process waits there, the invariant of the kernel holds, and the lines that
  follow are still to be read.
\<close>

theorem shell_runs_cat:
  assumes "at_prompt p fs i (es, k)" "lines_of es (line_state k) = xs # ys" "names_program (chomp (line_result xs)) w A"
    and "program_file fs w C" "compiled img C (\<lambda>os. cat_main (os\<lparr>ubuf := q\<rparr>) cbuf)" "pd_index q = PROCESS_IDX" "data_file fs A D"
  shows "\<exists>s1 cnt b0 es1 k1 b es' k'. puts_literal (session_os img (Suc n) p) ''391OS> '' (es, k) = Some s1 \<and>
    ece391_read (session_os img (Suc n) p) 0 buf 1023 s1 = Some (cnt, b0, es1, k1) \<and>
    shell_command (session_os img (Suc n) p) buf (es, k) = Some (Inr b, es', k') \<and>
    k_con k' = print_bytes D (cur_term k1) (k_con k1) \<and> at_prompt p fs i (es', k') \<and> lines_of es' (line_state k') = ys"
proof -
  have "counts_ok fs" using assms(1) by (auto simp: at_prompt_def shell_ok_def)
  then have runs: "runs img n fs (chomp (line_result xs)) D" using runs_compiled [OF assms(3-5) cat_obeys [OF assms(7) _ assms(6)]] by blast
  have cmd: "chomp (line_result xs) \<noteq> EXIT" "chomp (line_result xs) \<noteq> []" using with_arguments [OF assms(3)] assms(7) by (auto simp: data_file_def)
  have pend: "k_pending (es, k) = xs # ys" using assms(2) by (simp add: k_pending_def)
  obtain b s1 cnt b0 s2 s' where s: "puts_literal (session_os img (Suc n) p) ''391OS> '' (es, k) = Some s1"
    "ece391_read (session_os img (Suc n) p) 0 buf 1023 s1 = Some (cnt, b0, s2)"
    "shell_command (session_os img (Suc n) p) buf (es, k) = Some (Inr b, s')" "at_prompt p fs i s'" "k_pending s' = ys" "k_screen s' = k_print D (k_screen s2)"
    by (rule kernel_session.shell_command_runs [OF assms(1) pend cmd runs])
  obtain es1 k1 es' k' where "s2 = (es1, k1)" "s' = (es', k')" by (cases s2, cases s')
  then show ?thesis using s by (auto simp: k_pending_def k_screen_def k_print_def)
qed

lemma program_data:
  "program_file fs w C \<Longrightarrow> list_all (\<lambda>c. c \<noteq> SPACE \<and> c \<noteq> NUL) w \<Longrightarrow> length w < 32 \<Longrightarrow> data_file fs w C"
  by (auto simp: program_file_def data_file_def Let_def fs_consts split: option.splits)

text \<open>The keys of the line \<^verbatim>\<open>shell shell\<close>, for an image in which that program is \<^verbatim>\<open>cat\<close>.\<close>

definition shell_keys :: "irq list" where
  "shell_keys = [Key 0x1F, Key 0x23, Key 0x12, Key 0x26, Key 0x26]"

definition cat_keys :: "irq list" where
  "cat_keys = shell_keys @ [Tick, Key 0x39] @ shell_keys @ [Key ENTER]"

definition cat_image :: image where
  "cat_image m e = (\<lambda>os. cat_main (os\<lparr>ubuf := 0x08100000\<rparr>) (\<lambda>_. 7))"

abbreviation "shell_name \<equiv> [115, 104, 101, 108, 108 :: u8]"

lemma cat_keys_lines: "lines_of cat_keys (0, []) = [shell_name @ [SPACE] @ shell_name]"
proof -
  have e: "edit 0x1F (0, xs) = (0, xs @ [115])" "edit 0x23 (0, xs) = (0, xs @ [104])" "edit 0x12 (0, xs) = (0, xs @ [101])"
    "edit 0x26 (0, xs) = (0, xs @ [108])" "edit 0x39 (0, xs) = (0, xs @ [SPACE])" if "length xs < 20" for xs
    using that by (simp_all add: edit_def scan_codes kbd_ascii_key_map_def keys_none_def kbd_consts)
  show ?thesis
    by (simp add: cat_keys_def shell_keys_def ENTER_def typing_def edit_irq_def edit_key_def scan_codes e)
qed

lemma shell_kernel_prompt: "at_prompt 4 shell_fs 0 (es, shell_kernel)" "line_state shell_kernel = (0, [])"
proof -
  have f: "k_proc shell_kernel = k_proc demo_kernel" "k_kbd shell_kernel = k_kbd demo_kernel" "k_con shell_kernel = k_con demo_kernel"
    by (simp_all add: shell_kernel_def)
  have p: "current_process (k_proc demo_kernel) 0 = 0" "exception_flag (k_proc demo_kernel) = 0" "in_use (k_proc demo_kernel) 0 = 1"
    "in_use (k_proc demo_kernel) 3 = 0" "cur_term shell_kernel = 0" "cur_term demo_kernel = 0"
    by (simp_all add: shell_kernel_def demo_kernel_def fops_table_init_def boot_procs_def cur_term_def)
  have "fd_ready shell_kernel" "tty_ok shell_kernel" using demo_fd_ready demo_tty(1) by (simp_all add: fd_ready_def tty_ok_def k_fds_def f p)
  moreover have "\<exists>j\<in>{3..7}. in_use (k_proc shell_kernel) j = 0" using p(4) by (intro bexI [of _ 3]) (simp_all add: f)
  ultimately show "at_prompt 4 shell_fs 0 (es, shell_kernel)" using shell_kernel_inv shell_fs_ok p by (simp add: at_prompt_def f)
  show "line_state shell_kernel = (0, [])" using demo_tty(2) by (simp add: line_state_def f p)
qed

theorem shell_runs_cat_witness:
  "\<exists>C s1 cnt b0 es1 k1 b es' k'. program_file shell_fs shell_name C \<and>
     ece391_read (session_os cat_image 1 4) 0 (\<lambda>_. 7) 1023 s1 = Some (cnt, b0, es1, k1) \<and>
     shell_command (session_os cat_image 1 4) (\<lambda>_. 7) (cat_keys, shell_kernel) = Some (Inr b, es', k') \<and>
     k_con k' = print_bytes C (cur_term k1) (k_con k1) \<and> at_prompt 4 shell_fs 0 (es', k')"
proof -
  let ?cmd = "shell_name @ [SPACE] @ shell_name"
  have name: "map byte_of_char ''shell'' = shell_name" by (simp add: byte_of_char_def of_char_def)
  obtain C where C: "program_file shell_fs shell_name C" using shell_fs_ok unfolding shell_ok_iff name by blast
  then have D: "data_file shell_fs shell_name C" by (rule program_data) simp_all
  have l: "lines_of cat_keys (line_state shell_kernel) = [?cmd]" using cat_keys_lines by (simp add: shell_kernel_prompt(2))
  have "chomp (line_result ?cmd) = ?cmd" by (simp add: chomp_def line_result_def stripped_def)
  moreover have "command_line shell_name 1 shell_name" "?cmd = shell_name @ replicate 1 SPACE @ shell_name" by (simp_all add: command_line_def)
  ultimately have n: "names_program (chomp (line_result ?cmd)) shell_name shell_name"
    by (simp add: names_program_def) (intro exI [of _ 1], simp)
  have c: "compiled cat_image C (\<lambda>os. cat_main (os\<lparr>ubuf := 0x08100000\<rparr>) (\<lambda>_. 7))" "pd_index 0x08100000 = PROCESS_IDX"
    by (simp_all add: compiled_def cat_image_def pd_index_def PROCESS_IDX_def)
  show ?thesis using shell_runs_cat [OF shell_kernel_prompt(1) l n C c D, of 0 "\<lambda>_. 7"] C by (simp add: numeral_eq_Suc) blast
qed

text \<open>
  C5. The system works from booting on: the machine that the boot loader leaves boots into the
  shell, and whatever keys are then typed, if the lines they make form sessions, in each of
  which the lines are empty, name no file, or run a program that keeps its contract, until one
  says \<^verbatim>\<open>exit\<close>, then each session is answered to its end, the kernel loads and enters a new shell
  after it, and after the last one the shell is at its prompt with the rest of the input.
\<close>

theorem booted_sessions:
  assumes "bootable mbi m" "p \<noteq> 0"
  shows "\<exists>e m'. entry l MULTIBOOT_BOOTLOADER_MAGIC mbi m = Some (Entered e, m') \<and>
    (\<forall>img n buf es Ss ys. let fs = k_fs (mach_kernel m')
       in shell_code img fs p buf \<longrightarrow> lines_of es (0, []) = concat Ss @ ys \<longrightarrow> (\<forall>S\<in>set Ss. session_lines img n fs S) \<longrightarrow>
          (\<exists>e' es' k'. base_sessions img (Suc n) (length Ss) e (es, mach_kernel m') = Some (e', es', k') \<and>
             at_prompt p fs 0 (es', k') \<and> lines_of es' (line_state k') = ys))"
proof -
  obtain e m' where b: "entry l MULTIBOOT_BOOTLOADER_MAGIC mbi m = Some (Entered e, m')" "\<And>es. at_prompt p (k_fs (mach_kernel m')) 0 (es, mach_kernel m')"
    "line_state (mach_kernel m') = (0, [])" "shell_loaded (k_fs (mach_kernel m')) e (mach_kernel m')"
    by (rule boots_to_prompt [OF assms, of l]) blast
  show ?thesis
    using b(1) base_sessions_answered [OF b(2) _ b(4)] unfolding b(3) Let_def by (intro exI [of _ e] exI [of _ m']) fastforce
qed

definition shell_only :: image where
  "shell_only m e = (\<lambda>os. shell_main (os\<lparr>ubuf := 4\<rparr>) (\<lambda>_. 7))"

definition exit_keys :: "irq list" where
  "exit_keys = [Key 0x12, Key 0x2D, Clock, Key 0x17, Key 0x14, Key ENTER]"

lemma exit_keys_lines: "lines_of (Key ENTER # exit_keys @ exit_keys) (0, []) = concat [[[], EXIT], [EXIT]]"
proof -
  have e: "edit 0x12 (0, []) = (0, [101])" "edit 0x2D (0, [101]) = (0, [101, 120])" "edit 0x17 (0, [101, 120]) = (0, [101, 120, 105])"
    "edit 0x14 (0, [101, 120, 105]) = (0, [101, 120, 105, 116])"
    by (simp_all add: edit_def scan_codes kbd_ascii_key_map_def keys_none_def kbd_consts)
  show ?thesis by (simp add: exit_keys_def EXIT_def ENTER_def typing_def edit_irq_def edit_key_def scan_codes e)
qed

lemma boot_machine_bootable: "bootable 0x9000 boot_machine"
proof -
  have "mach_kernel boot_machine = demo_kernel\<lparr>k_ram := boot_ram, k_pg := demo_paging\<rparr>" by (simp add: boot_machine_def)
  moreover have "exception_flag (k_proc demo_kernel) = 0" by (simp add: demo_kernel_def fops_table_init_def boot_procs_def)
  ultimately show ?thesis using boot_ram_ok demo_tty(1) demo_paging_ok by (simp add: bootable_def Let_def tty_ok_def cur_term_def)
qed

theorem booted_sessions_witness:
  "\<exists>e m' e' es' k'. entry \<lparr>handler_addr = (\<lambda>_. 0x400000), ldt_addr = 0x401000, ldt_size = 31, tss_addr = 0x402000, tss_size = 103\<rparr>
       MULTIBOOT_BOOTLOADER_MAGIC 0x9000 boot_machine = Some (Entered e, m') \<and>
     base_sessions shell_only 1 2 e (Key ENTER # exit_keys @ exit_keys, mach_kernel m') = Some (e', es', k') \<and> lines_of es' (line_state k') = []"
proof -
  have l: "lines_of (Key ENTER # exit_keys @ exit_keys) (0, []) = concat [[[], EXIT], [EXIT]] @ []" using exit_keys_lines by simp
  have c: "chomp (line_result []) = []" "chomp (line_result EXIT) = EXIT" by (simp_all add: chomp_def EXIT_def line_result_def stripped_def)
  have s: "\<forall>S\<in>set [[[], EXIT], [EXIT]]. session_lines shell_only 0 fs S" for fs using c by (simp add: session_lines_def answerable_def EXIT_def)
  have i: "shell_code shell_only fs 4 (\<lambda>_. 7)" for fs by (simp add: shell_code_def compiled_def shell_only_def)
  let ?l = "\<lparr>handler_addr = (\<lambda>_. 0x400000), ldt_addr = 0x401000, ldt_size = 31, tss_addr = 0x402000, tss_size = 103\<rparr>"
  obtain e m' where b: "entry ?l MULTIBOOT_BOOTLOADER_MAGIC 0x9000 boot_machine = Some (Entered e, m')"
    "\<And>img n buf es Ss ys. shell_code img (k_fs (mach_kernel m')) 4 buf \<Longrightarrow> lines_of es (0, []) = concat Ss @ ys \<Longrightarrow>
       \<forall>S\<in>set Ss. session_lines img n (k_fs (mach_kernel m')) S \<Longrightarrow>
       \<exists>e' es' k'. base_sessions img (Suc n) (length Ss) e (es, mach_kernel m') = Some (e', es', k') \<and> lines_of es' (line_state k') = ys"
    using booted_sessions [OF boot_machine_bootable, of 4 ?l] unfolding Let_def by (auto, blast)
  then show ?thesis using b(2) [OF i l s] by (auto simp: numeral_2_eq_2)
qed

end
