(* ===== verification/Syserr.thy ===== *)
theory Syserr
  imports Interactive Invariant
begin

text \<open>
  The repository's own error tests of the system calls, the program \<^verbatim>\<open>syserr\<close>. The tests are
  modelled on an arbitrary system; what such a system must promise for them to pass is a
  locale, and the kernel keeps that promise.
\<close>

section \<open>The tests\<close>

definition NEG_FD :: s32 where "NEG_FD = - 1073741823"
definition BIG_FD :: s32 where "BIG_FD = 1073741823"
definition BIG_NUM :: u32 where "BIG_NUM = 1073741823"
definition NEG_NUM :: u32 where "NEG_NUM = - 1073741823"

text \<open>The registers of \<^verbatim>\<open>call_sys\<close> but for the first hold what they held.\<close>

definition call_sys :: "'s os \<Rightarrow> u32 \<times> u32 \<times> u32 \<Rightarrow> u32 \<Rightarrow> 's \<Rightarrow> (s32 \<times> 's) option" where
  "call_sys os = (\<lambda>(ebx, ecx, edx) num s. Option.bind (int80 os num ebx ecx edx (\<lambda>_. NUL) s) (\<lambda>(r, b, s). Some (r, s)))"

text \<open>A result that should be -1: anything else is reported, and the test fails with 2.\<close>

definition expect_fail :: "'s os \<Rightarrow> string \<Rightarrow> s32 \<Rightarrow> s32 \<Rightarrow> 's \<Rightarrow> (s32 \<times> 's) option" where
  "expect_fail os msg r fail s =
     (if - 1 \<noteq> r then Option.bind (puts_literal os (line msg) s) (\<lambda>s. Some (2, s)) else Some (fail, s))"

definition verdict :: "'s os \<Rightarrow> string \<Rightarrow> s32 \<Rightarrow> 's \<Rightarrow> (s32 \<times> 's) option" where
  "verdict os name fail s =
     Option.bind (puts_literal os (line (name @ (if fail \<noteq> 0 then '': FAIL'' else '': PASS''))) s) (\<lambda>s. Some (fail, s))"

definition bad_fd_calls :: "'s os \<Rightarrow> s32 \<Rightarrow> bytes \<Rightarrow> 's \<Rightarrow> (s32 \<times> 's) option" where
  "bad_fd_calls os fd buf s =
     Option.bind (ece391_read os fd buf 31 s) (\<lambda>(r, buf, s).
     Option.bind (expect_fail os ''read fail'' r 0 s) (\<lambda>(fail, s).
     Option.bind (ece391_write os fd buf 31 s) (\<lambda>(r, s).
     Option.bind (expect_fail os ''write fail'' r fail s) (\<lambda>(fail, s).
     Option.bind (ece391_close os fd s) (\<lambda>(r, s). expect_fail os ''close fail'' r fail s)))))"

definition err_neg_fd :: "'s os \<Rightarrow> bytes \<Rightarrow> 's \<Rightarrow> (s32 \<times> 's) option" where
  "err_neg_fd os buf s = Option.bind (bad_fd_calls os NEG_FD buf s) (\<lambda>(fail, s). verdict os ''err_neg_fd'' fail s)"

definition err_big_fd :: "'s os \<Rightarrow> bytes \<Rightarrow> 's \<Rightarrow> (s32 \<times> 's) option" where
  "err_big_fd os buf s = Option.bind (bad_fd_calls os BIG_FD buf s) (\<lambda>(fail, s). verdict os ''err_big_fd'' fail s)"

fun open_lots :: "'s os \<Rightarrow> nat \<Rightarrow> nat \<Rightarrow> 's \<Rightarrow> (nat \<times> 's) option" where
  "open_lots os 0 cnt s = Some (cnt, s)"
| "open_lots os (Suc n) cnt s =
     Option.bind (ece391_open os (cstr ''.'') s) (\<lambda>(r, s). open_lots os n (if - 1 = r then Suc cnt else cnt) s)"

fun close_range :: "'s os \<Rightarrow> nat \<Rightarrow> nat \<Rightarrow> 's \<Rightarrow> 's option" where
  "close_range os i 0 s = Some s"
| "close_range os i (Suc n) s = Option.bind (ece391_close os (of_nat i) s) (\<lambda>(r, s). close_range os (Suc i) n s)"

definition err_open_lots :: "'s os \<Rightarrow> 's \<Rightarrow> (s32 \<times> 's) option" where
  "err_open_lots os s =
     Option.bind (open_lots os 7 0 s) (\<lambda>(cnt, s).
     Option.bind (close_range os 2 6 s) (\<lambda>s.
       if cnt = 1 then give_up os (line ''err_open_lots: PASS'') 0 s else give_up os (line ''err_open_lots: FAIL'') 2 s))"

definition err_open :: "'s os \<Rightarrow> 's \<Rightarrow> (s32 \<times> 's) option" where
  "err_open os s =
     Option.bind (ece391_open os (cstr ''helloo'') s) (\<lambda>(r, s).
     Option.bind (expect_fail os (CHR 0x27 # ''helloo'' @ CHR 0x27 # '' fail'') r 0 s) (\<lambda>(fail, s).
     Option.bind (ece391_open os (cstr ''shel'') s) (\<lambda>(r, s).
     Option.bind (expect_fail os (CHR 0x27 # ''shel'' @ CHR 0x27 # '' fail'') r fail s) (\<lambda>(fail, s).
     Option.bind (ece391_open os (cstr '''') s) (\<lambda>(r, s).
     Option.bind (expect_fail os ''empty string fail'' r fail s) (\<lambda>(fail, s). verdict os ''err_open'' fail s))))))"

text \<open>The three loops of \<^verbatim>\<open>err_unopened\<close>.\<close>

fun try_close :: "'s os \<Rightarrow> nat \<Rightarrow> nat \<Rightarrow> s32 \<Rightarrow> 's \<Rightarrow> (s32 \<times> 's) option" where
  "try_close os i 0 fail s = Some (fail, s)"
| "try_close os i (Suc n) fail s =
     Option.bind (ece391_close os (of_nat i) s) (\<lambda>(r, s).
     Option.bind (expect_fail os ''close unopened or invalid fd fail'' r fail s) (\<lambda>(fail, s). try_close os (Suc i) n fail s))"

fun try_read :: "'s os \<Rightarrow> nat \<Rightarrow> nat \<Rightarrow> bytes \<Rightarrow> s32 \<Rightarrow> 's \<Rightarrow> (s32 \<times> bytes \<times> 's) option" where
  "try_read os i 0 buf fail s = Some (fail, buf, s)"
| "try_read os i (Suc n) buf fail s =
     Option.bind (ece391_read os (of_nat i) buf 31 s) (\<lambda>(r, buf, s).
     Option.bind (expect_fail os ''read from unopened fd fail'' r fail s) (\<lambda>(fail, s). try_read os (Suc i) n buf fail s))"

fun try_write :: "'s os \<Rightarrow> nat \<Rightarrow> nat \<Rightarrow> bytes \<Rightarrow> s32 \<Rightarrow> 's \<Rightarrow> (s32 \<times> 's) option" where
  "try_write os i 0 buf fail s = Some (fail, s)"
| "try_write os i (Suc n) buf fail s =
     Option.bind (ece391_write os (of_nat i) buf 31 s) (\<lambda>(r, s).
     Option.bind (expect_fail os ''write to unopened fd fail'' r fail s) (\<lambda>(fail, s). try_write os (Suc i) n buf fail s))"

definition err_unopened :: "'s os \<Rightarrow> bytes \<Rightarrow> 's \<Rightarrow> (s32 \<times> 's) option" where
  "err_unopened os buf s =
     Option.bind (try_close os 0 8 0 s) (\<lambda>(fail, s).
     Option.bind (try_read os 2 6 buf fail s) (\<lambda>(fail, buf, s).
     Option.bind (try_write os 2 6 buf fail s) (\<lambda>(fail, s). verdict os ''err_unopened'' fail s)))"

definition err_vidmap :: "'s os \<Rightarrow> 's \<Rightarrow> (s32 \<times> 's) option" where
  "err_vidmap os s =
     Option.bind (ece391_vidmap os 0 s) (\<lambda>(r, s).
     Option.bind (expect_fail os ''Null pointer fail'' r 0 s) (\<lambda>(fail, s).
     Option.bind (ece391_vidmap os 0x400000 s) (\<lambda>(r, s).
     Option.bind (expect_fail os ''Kernel pointer fail fail'' r fail s) (\<lambda>(fail, s). verdict os ''err_vidmap'' fail s))))"

definition err_stdin_out :: "'s os \<Rightarrow> bytes \<Rightarrow> 's \<Rightarrow> (s32 \<times> 's) option" where
  "err_stdin_out os buf s =
     Option.bind (ece391_write os 0 buf 31 s) (\<lambda>(r, s).
     Option.bind (expect_fail os ''write to stdin fail'' r 0 s) (\<lambda>(fail, s).
     Option.bind (ece391_read os 1 buf 31 s) (\<lambda>(r, buf, s).
     Option.bind (expect_fail os ''read from stdout fail'' r fail s) (\<lambda>(fail, s). verdict os ''err_stdin_out'' fail s))))"

definition err_syscall_num :: "'s os \<Rightarrow> u32 \<times> u32 \<times> u32 \<Rightarrow> 's \<Rightarrow> (s32 \<times> 's) option" where
  "err_syscall_num os regs s =
     Option.bind (call_sys os regs BIG_NUM s) (\<lambda>(r, s).
     Option.bind (expect_fail os ''syscall 0 fail'' r 0 s) (\<lambda>(fail, s).
     Option.bind (call_sys os regs NEG_NUM s) (\<lambda>(r, s).
     Option.bind (expect_fail os ''big num syscall fail'' r fail s) (\<lambda>(fail, s).
     Option.bind (call_sys os regs 0 s) (\<lambda>(r, s).
     Option.bind (expect_fail os ''neg num syscall fail'' r fail s) (\<lambda>(fail, s). verdict os ''err_syscall_num'' fail s))))))"

text \<open>The tests by their numbers, with what their frames and registers happen to hold.\<close>

definition run_test :: "'s os \<Rightarrow> bytes \<Rightarrow> u32 \<times> u32 \<times> u32 \<Rightarrow> int \<Rightarrow> 's \<Rightarrow> (s32 \<times> 's) option" where
  "run_test os stk regs n s =
     (if n = 1 then err_neg_fd os stk s else if n = 2 then err_big_fd os stk s else if n = 3 then err_open_lots os s
      else if n = 4 then err_open os s else if n = 5 then err_unopened os stk s else if n = 6 then err_vidmap os s
      else if n = 7 then err_stdin_out os stk s else err_syscall_num os regs s)"

fun run_all :: "'s os \<Rightarrow> bytes \<Rightarrow> u32 \<times> u32 \<times> u32 \<Rightarrow> int list \<Rightarrow> s32 \<Rightarrow> 's \<Rightarrow> (s32 \<times> 's) option" where
  "run_all os stk regs [] fail s = Some (fail, s)"
| "run_all os stk regs (n # ns) fail s =
     Option.bind (run_test os stk regs n s) (\<lambda>(r, s). run_all os stk regs ns (fail + r) s)"

definition syserr_main :: "'s os \<Rightarrow> bytes \<Rightarrow> bytes \<Rightarrow> u32 \<times> u32 \<times> u32 \<Rightarrow> 's \<Rightarrow> (s32 \<times> 's) option" where
  "syserr_main os buf stk regs s =
     Option.bind (puts_literal os ''Choose from tests 1-8. 0 to run all: '' s) (\<lambda>s.
     Option.bind (ece391_read os 0 buf 127 s) (\<lambda>(cnt, buf, s).
       if - 1 = cnt then give_up os (line ''Can't read test #'') 2 s
       else let select = uint (buf 0) - 48
            in if select = 0
               then Option.bind (run_all os stk regs [1, 2, 3, 4, 5, 6, 7, 8] 0 s) (\<lambda>(fail, s).
                      give_up os (CHR 0x0A # line (if fail \<noteq> 0 then ''Overall Tests: FAIL'' else ''Overall Tests: PASS'')) fail s)
               else if 1 \<le> select \<and> select \<le> 8 then run_test os stk regs select s
               else give_up os ''Invalid test number. Choose from tests 1-8 or 0'' 0 s))"

section \<open>What the tests ask for\<close>

text \<open>
  \<open>opened\<close> are the descriptors from 2 on that are in use. A call on any other descriptor is
  refused (but for reading from 0 and writing to 1), as are opening a name that is not
  \<open>present\<close>, opening a seventh file, mapping video memory through an address below the
  program, and call numbers that do not exist; nothing is opened or closed by it.
\<close>

locale strict_os = keyboard_os +
  fixes opened :: "'s \<Rightarrow> nat set" and present :: "string \<Rightarrow> bool"
  assumes opened_rest: "rest s' = rest s \<Longrightarrow> opened s' = opened s"
    and opened_files: "files s' = files s \<Longrightarrow> opened s' = opened s"
    and read_refused: "ok s \<Longrightarrow> sint fd \<notin> int ` opened s \<Longrightarrow> fd \<noteq> 0 \<Longrightarrow>
      \<exists>b s'. ece391_read os fd buf n s = Some (- 1, b, s') \<and> ok s' \<and> pending s' = pending s \<and> opened s' = opened s"
    and write_refused: "ok s \<Longrightarrow> sint fd \<notin> int ` opened s \<Longrightarrow> fd \<noteq> 1 \<Longrightarrow>
      \<exists>s'. ece391_write os fd buf n s = Some (- 1, s') \<and> ok s' \<and> pending s' = pending s \<and> opened s' = opened s"
    and close_refused: "ok s \<Longrightarrow> sint fd \<notin> int ` opened s \<Longrightarrow>
      \<exists>s'. ece391_close os fd s = Some (- 1, s') \<and> ok s' \<and> pending s' = pending s \<and> opened s' = opened s"
    and open_refused: "ok s \<Longrightarrow> \<not> present name \<Longrightarrow>
      \<exists>s'. ece391_open os (cstr name) s = Some (- 1, s') \<and> ok s' \<and> pending s' = pending s \<and> opened s' = opened s"
    and open_full: "ok s \<Longrightarrow> opened s = {2..<8} \<Longrightarrow>
      \<exists>s'. ece391_open os (cstr ''.'') s = Some (- 1, s') \<and> ok s' \<and> pending s' = pending s \<and> opened s' = opened s"
    and open_dot: "ok s \<Longrightarrow> opened s \<subset> {2..<8} \<Longrightarrow>
      \<exists>j s'. j \<in> {2..<8} - opened s \<and> ece391_open os (cstr ''.'') s = Some (of_nat j, s') \<and> ok s' \<and> pending s' = pending s \<and>
        opened s' = insert j (opened s)"
    and close_opened: "ok s \<Longrightarrow> j \<in> opened s \<Longrightarrow>
      \<exists>r s'. ece391_close os (of_nat j) s = Some (r, s') \<and> ok s' \<and> pending s' = pending s \<and> opened s' = opened s - {j}"
    and vidmap_refused: "ok s \<Longrightarrow> q < 0x08000000 \<Longrightarrow>
      \<exists>s'. ece391_vidmap os q s = Some (- 1, s') \<and> ok s' \<and> pending s' = pending s \<and> opened s' = opened s"
    and number_refused: "ok s \<Longrightarrow> num = 0 \<or> 10 \<le> num \<Longrightarrow>
      \<exists>b s'. int80 os num ebx ecx edx buf s = Some (- 1, b, s') \<and> ok s' \<and> pending s' = pending s \<and> opened s' = opened s"
begin

text \<open>A state between two tests: nothing is open.\<close>

definition fresh :: "'s \<Rightarrow> u8 list list \<Rightarrow> bool" where
  "fresh s ys \<longleftrightarrow> ok s \<and> pending s = ys \<and> opened s = {}"

lemma text_fresh:
  assumes "fresh s ys" "NUL \<notin> set (map byte_of_char msg)" "length msg < 2 ^ 31"
  shows "\<exists>s'. puts_literal os msg s = Some s' \<and> fresh s' ys"
  using puts_literal_prints [of s msg] assms pending_rest opened_rest unfolding fresh_def by metis

lemma fails:
  "expect_fail os msg (- 1) fail s = Some (fail, s)"
  by (simp add: expect_fail_def)

lemma passes:
  assumes "fresh s ys" "NUL \<notin> set (map byte_of_char name)" "length name < 1000"
  shows "\<exists>s'. verdict os name 0 s = Some (0, s') \<and> fresh s' ys"
proof -
  have "\<exists>s'. puts_literal os (line (name @ '': PASS'')) s = Some s' \<and> fresh s' ys"
    by (rule text_fresh [OF assms(1)]) (use assms(2,3) in \<open>auto simp: line_def byte_of_char_def of_char_def\<close>)
  then show ?thesis by (auto simp: verdict_def)
qed

lemma refused_fresh:
  assumes "fresh s ys"
  shows "sint fd \<notin> {0, 1} \<Longrightarrow> \<exists>b s'. ece391_read os fd buf n s = Some (- 1, b, s') \<and> fresh s' ys"
    and "\<exists>b s'. ece391_read os 1 buf n s = Some (- 1, b, s') \<and> fresh s' ys"
    and "sint fd \<notin> {0, 1} \<Longrightarrow> \<exists>s'. ece391_write os fd buf n s = Some (- 1, s') \<and> fresh s' ys"
    and "\<exists>s'. ece391_write os 0 buf n s = Some (- 1, s') \<and> fresh s' ys"
    and "\<exists>s'. ece391_close os fd s = Some (- 1, s') \<and> fresh s' ys"
    and "\<not> present name \<Longrightarrow> \<exists>s'. ece391_open os (cstr name) s = Some (- 1, s') \<and> fresh s' ys"
    and "q < 0x08000000 \<Longrightarrow> \<exists>s'. ece391_vidmap os q s = Some (- 1, s') \<and> fresh s' ys"
    and "num = 0 \<or> 10 \<le> num \<Longrightarrow> \<exists>s'. call_sys os regs num s = Some (- 1, s') \<and> fresh s' ys"
proof -
  note f = assms [unfolded fresh_def]
  show "\<exists>b s'. ece391_read os fd buf n s = Some (- 1, b, s') \<and> fresh s' ys" if "sint fd \<notin> {0, 1}"
    using read_refused [of s fd buf n] f that unfolding fresh_def by force
  show "\<exists>b s'. ece391_read os 1 buf n s = Some (- 1, b, s') \<and> fresh s' ys" using read_refused [of s 1 buf n] f unfolding fresh_def by force
  show "\<exists>s'. ece391_write os fd buf n s = Some (- 1, s') \<and> fresh s' ys" if "sint fd \<notin> {0, 1}"
    using write_refused [of s fd buf n] f that unfolding fresh_def by force
  show "\<exists>s'. ece391_write os 0 buf n s = Some (- 1, s') \<and> fresh s' ys" using write_refused [of s 0 buf n] f unfolding fresh_def by force
  show "\<exists>s'. ece391_close os fd s = Some (- 1, s') \<and> fresh s' ys" using close_refused [of s fd] f unfolding fresh_def by force
  show "\<exists>s'. ece391_open os (cstr name) s = Some (- 1, s') \<and> fresh s' ys" if "\<not> present name"
    using open_refused [of s name] f that unfolding fresh_def by force
  show "\<exists>s'. ece391_vidmap os q s = Some (- 1, s') \<and> fresh s' ys" if "q < 0x08000000"
    using vidmap_refused [of s q] f that unfolding fresh_def by force
  obtain a b c where regs: "regs = (a, b, c)" by (cases regs)
  show "\<exists>s'. call_sys os regs num s = Some (- 1, s') \<and> fresh s' ys" if "num = 0 \<or> 10 \<le> num"
    using number_refused [of s num a b c "\<lambda>_. NUL"] f that unfolding fresh_def by (auto simp: call_sys_def regs)
qed

lemma bad_fd_pass:
  assumes "fresh s ys" "sint fd \<notin> {0, 1}"
  shows "\<exists>s'. bad_fd_calls os fd buf s = Some (0, s') \<and> fresh s' ys"
proof -
  obtain b s1 where s1: "ece391_read os fd buf 31 s = Some (- 1, b, s1)" "fresh s1 ys" using refused_fresh(1) [OF assms] by blast
  obtain s2 where s2: "ece391_write os fd b 31 s1 = Some (- 1, s2)" "fresh s2 ys" using refused_fresh(3) [OF s1(2) assms(2)] by blast
  obtain s3 where "ece391_close os fd s2 = Some (- 1, s3)" "fresh s3 ys" using refused_fresh(5) [OF s2(2)] by blast
  then show ?thesis using s1 s2 by (simp add: bad_fd_calls_def fails)
qed

lemma err_neg_fd_passes:
  assumes "fresh s ys"
  shows "\<exists>s'. err_neg_fd os buf s = Some (0, s') \<and> fresh s' ys"
proof -
  obtain s1 where s1: "bad_fd_calls os NEG_FD buf s = Some (0, s1)" "fresh s1 ys"
    using bad_fd_pass [OF assms, of NEG_FD buf] by (auto simp: NEG_FD_def)
  then show ?thesis using passes [OF s1(2), of "''err_neg_fd''"] by (simp add: err_neg_fd_def byte_of_char_def of_char_def)
qed

lemma err_big_fd_passes:
  assumes "fresh s ys"
  shows "\<exists>s'. err_big_fd os buf s = Some (0, s') \<and> fresh s' ys"
proof -
  obtain s1 where s1: "bad_fd_calls os BIG_FD buf s = Some (0, s1)" "fresh s1 ys"
    using bad_fd_pass [OF assms, of BIG_FD buf] by (auto simp: BIG_FD_def)
  then show ?thesis using passes [OF s1(2), of "''err_big_fd''"] by (simp add: err_big_fd_def byte_of_char_def of_char_def)
qed

text \<open>Opening until there are no more descriptors, and closing them all.\<close>

lemma open_lots_counts:
  assumes "ok s" "opened s \<subseteq> {2..<8}"
  shows "\<exists>s'. open_lots os n cnt s = Some (cnt + (n - (6 - card (opened s))), s') \<and> ok s' \<and> pending s' = pending s \<and>
    opened s' \<subseteq> {2..<8} \<and> (6 - card (opened s) \<le> n \<longrightarrow> opened s' = {2..<8})"
  using assms
proof (induction n arbitrary: s cnt)
  case 0
  have "card (opened s) \<le> 6" using card_mono [OF _ 0(2)] by simp
  then have "opened s = {2..<8}" if "6 - card (opened s) \<le> 0" using card_subset_eq [OF _ 0(2)] that by simp
  then show ?case using 0 by auto
next
  case (Suc n)
  have c: "card (opened s) \<le> 6" using card_mono [OF _ Suc.prems(2)] by simp
  show ?case
  proof (cases "opened s = {2..<8}")
    case True
    obtain s1 where s1: "ece391_open os (cstr ''.'') s = Some (- 1, s1)" "ok s1" "pending s1 = pending s" "opened s1 = opened s"
      using open_full [OF Suc.prems(1) True] by blast
    then show ?thesis using Suc.IH [of s1 "Suc cnt"] True by auto
  next
    case False
    obtain j s1 where s1: "j \<in> {2..<8} - opened s" "ece391_open os (cstr ''.'') s = Some (of_nat j, s1)" "ok s1" "pending s1 = pending s"
      "opened s1 = insert j (opened s)"
      using open_dot [OF Suc.prems(1)] Suc.prems(2) False by blast
    have fin: "finite (opened s)" using Suc.prems(2) by (rule finite_subset) simp
    have card: "card (opened s1) = Suc (card (opened s))" "opened s1 \<subseteq> {2..<8}" using s1(1,5) fin Suc.prems(2) by auto
    have "card (opened s1) \<le> 6" using card_mono [OF _ card(2)] by simp
    then have e: "Suc n - (6 - card (opened s)) = n - (6 - card (opened s1))" "6 - card (opened s) \<le> Suc n \<longleftrightarrow> 6 - card (opened s1) \<le> n"
      using card(1) by auto
    have "(of_nat j :: s32) \<noteq> - 1" using s1(1) small_not_fail [of j] by simp
    then have "open_lots os (Suc n) cnt s = open_lots os n cnt s1" using s1(2) by (simp add: eq_commute [of "- 1"])
    then show ?thesis using Suc.IH [OF s1(3) card(2), of cnt] s1(4) unfolding e by auto
  qed
qed

lemma close_range_closes:
  assumes "ok s" "{i..<i + n} \<subseteq> opened s"
  shows "\<exists>s'. close_range os i n s = Some s' \<and> ok s' \<and> pending s' = pending s \<and> opened s' = opened s - {i..<i + n}"
  using assms
proof (induction n arbitrary: s i)
  case (Suc n)
  have "i \<in> opened s" using Suc.prems(2) by auto
  then obtain r s1 where s1: "ece391_close os (of_nat i) s = Some (r, s1)" "ok s1" "pending s1 = pending s" "opened s1 = opened s - {i}"
    using close_opened [OF Suc.prems(1)] by blast
  have "{Suc i..<Suc i + n} \<subseteq> opened s1" using Suc.prems(2) s1(4) by auto
  then obtain s2 where "close_range os (Suc i) n s1 = Some s2" "ok s2" "pending s2 = pending s" "opened s2 = opened s1 - {Suc i..<Suc i + n}"
    using Suc.IH [OF s1(2)] s1(3) by metis
  moreover have "{i..<i + Suc n} = insert i {Suc i..<Suc i + n}" by auto
  ultimately show ?case using s1(1,4) by (simp add: Diff_insert2 [symmetric])
qed simp

lemma err_open_lots_passes:
  assumes "fresh s ys"
  shows "\<exists>s'. err_open_lots os s = Some (0, s') \<and> fresh s' ys"
proof -
  note f = assms [unfolded fresh_def]
  obtain s1 where s1: "open_lots os 7 0 s = Some (1, s1)" "ok s1" "pending s1 = ys" "opened s1 = {2..<8}"
    using open_lots_counts [of s 7 0] f by auto
  obtain s2 where s2: "close_range os 2 6 s1 = Some s2" "fresh s2 ys"
    using close_range_closes [of s1 2 6] s1 by (auto simp: fresh_def)
  show ?thesis
    using text_fresh [OF s2(2), of "line ''err_open_lots: PASS''"] s1(1) s2(1)
    by (auto simp: err_open_lots_def give_up_def byte_of_char_def of_char_def line_def)
qed

lemma err_open_passes:
  assumes "fresh s ys" "\<not> present ''helloo''" "\<not> present ''shel''" "\<not> present ''''"
  shows "\<exists>s'. err_open os s = Some (0, s') \<and> fresh s' ys"
proof -
  obtain s1 where s1: "ece391_open os (cstr ''helloo'') s = Some (- 1, s1)" "fresh s1 ys" using refused_fresh(6) [OF assms(1,2)] by blast
  obtain s2 where s2: "ece391_open os (cstr ''shel'') s1 = Some (- 1, s2)" "fresh s2 ys" using refused_fresh(6) [OF s1(2) assms(3)] by blast
  obtain s3 where s3: "ece391_open os (cstr '''') s2 = Some (- 1, s3)" "fresh s3 ys" using refused_fresh(6) [OF s2(2) assms(4)] by blast
  show ?thesis using s1 s2 s3 passes [OF s3(2), of "''err_open''"] by (simp add: err_open_def fails byte_of_char_def of_char_def)
qed

lemma try_loops_pass:
  assumes "fresh s ys"
  shows "\<exists>s'. try_close os i n 0 s = Some (0, s') \<and> fresh s' ys"
    and "2 \<le> i \<Longrightarrow> i + n < 100 \<Longrightarrow> \<exists>b s'. try_read os i n buf 0 s = Some (0, b, s') \<and> fresh s' ys"
    and "2 \<le> i \<Longrightarrow> i + n < 100 \<Longrightarrow> \<exists>s'. try_write os i n buf 0 s = Some (0, s') \<and> fresh s' ys"
proof -
  have fd: "sint (of_nat i :: s32) \<notin> {0, 1}" if "2 \<le> i" "i < 100" for i using that sint_small31 [of i] by simp
  show "\<exists>s'. try_close os i n 0 s = Some (0, s') \<and> fresh s' ys"
    using assms
  proof (induction n arbitrary: s i)
    case (Suc n)
    show ?case using refused_fresh(5) [OF Suc.prems, of "of_nat i"] Suc.IH by (auto simp: fails)
  qed simp
  show "2 \<le> i \<Longrightarrow> i + n < 100 \<Longrightarrow> \<exists>b s'. try_read os i n buf 0 s = Some (0, b, s') \<and> fresh s' ys"
    using assms
  proof (induction n arbitrary: s i buf)
    case (Suc n)
    then show ?case using refused_fresh(1) [OF Suc.prems(3) fd, of i buf 31] by (fastforce simp: fails)
  qed simp
  show "2 \<le> i \<Longrightarrow> i + n < 100 \<Longrightarrow> \<exists>s'. try_write os i n buf 0 s = Some (0, s') \<and> fresh s' ys"
    using assms
  proof (induction n arbitrary: s i)
    case (Suc n)
    then show ?case using refused_fresh(3) [OF Suc.prems(3) fd, of i buf 31] by (fastforce simp: fails)
  qed simp
qed

lemma err_unopened_passes:
  assumes "fresh s ys"
  shows "\<exists>s'. err_unopened os buf s = Some (0, s') \<and> fresh s' ys"
proof -
  obtain s1 where s1: "try_close os 0 8 0 s = Some (0, s1)" "fresh s1 ys" using try_loops_pass(1) [OF assms] by blast
  obtain b s2 where s2: "try_read os 2 6 buf 0 s1 = Some (0, b, s2)" "fresh s2 ys" using try_loops_pass(2) [OF s1(2), of 2 6 buf] by auto
  obtain s3 where s3: "try_write os 2 6 b 0 s2 = Some (0, s3)" "fresh s3 ys" using try_loops_pass(3) [OF s2(2), of 2 6 b] by auto
  show ?thesis using s1 s2 s3 passes [OF s3(2), of "''err_unopened''"] by (simp add: err_unopened_def byte_of_char_def of_char_def)
qed

lemma err_vidmap_passes:
  assumes "fresh s ys"
  shows "\<exists>s'. err_vidmap os s = Some (0, s') \<and> fresh s' ys"
proof -
  obtain s1 where s1: "ece391_vidmap os 0 s = Some (- 1, s1)" "fresh s1 ys" using refused_fresh(7) [OF assms, of 0] by auto
  obtain s2 where s2: "ece391_vidmap os 0x400000 s1 = Some (- 1, s2)" "fresh s2 ys"
    using refused_fresh(7) [OF s1(2), of "0x400000"] by (auto simp: word_less_nat_alt)
  show ?thesis using s1 s2 passes [OF s2(2), of "''err_vidmap''"] by (simp add: err_vidmap_def fails byte_of_char_def of_char_def)
qed

lemma err_stdin_out_passes:
  assumes "fresh s ys"
  shows "\<exists>s'. err_stdin_out os buf s = Some (0, s') \<and> fresh s' ys"
proof -
  obtain s1 where s1: "ece391_write os 0 buf 31 s = Some (- 1, s1)" "fresh s1 ys" using refused_fresh(4) [OF assms] by blast
  obtain b s2 where s2: "ece391_read os 1 buf 31 s1 = Some (- 1, b, s2)" "fresh s2 ys" using refused_fresh(2) [OF s1(2)] by blast
  show ?thesis using s1 s2 passes [OF s2(2), of "''err_stdin_out''"] by (simp add: err_stdin_out_def fails byte_of_char_def of_char_def)
qed

lemma err_syscall_num_passes:
  assumes "fresh s ys"
  shows "\<exists>s'. err_syscall_num os regs s = Some (0, s') \<and> fresh s' ys"
proof -
  have n: "10 \<le> BIG_NUM" "10 \<le> NEG_NUM" by (simp_all add: BIG_NUM_def NEG_NUM_def word_le_nat_alt)
  obtain s1 where s1: "call_sys os regs BIG_NUM s = Some (- 1, s1)" "fresh s1 ys" using refused_fresh(8) [OF assms] n by blast
  obtain s2 where s2: "call_sys os regs NEG_NUM s1 = Some (- 1, s2)" "fresh s2 ys" using refused_fresh(8) [OF s1(2)] n by blast
  obtain s3 where s3: "call_sys os regs 0 s2 = Some (- 1, s3)" "fresh s3 ys" using refused_fresh(8) [OF s2(2)] by blast
  show ?thesis using s1 s2 s3 passes [OF s3(2), of "''err_syscall_num''"] by (simp add: err_syscall_num_def fails byte_of_char_def of_char_def)
qed

lemmas each_passes = err_neg_fd_passes err_big_fd_passes err_open_lots_passes err_open_passes err_unopened_passes err_vidmap_passes
  err_stdin_out_passes err_syscall_num_passes

lemma run_test_passes:
  assumes "fresh s ys" "\<not> present ''helloo''" "\<not> present ''shel''" "\<not> present ''''"
  shows "\<exists>s'. run_test os stk regs n s = Some (0, s') \<and> fresh s' ys"
  using assms each_passes by (simp add: run_test_def)

lemma run_all_passes:
  assumes "fresh s ys" "\<not> present ''helloo''" "\<not> present ''shel''" "\<not> present ''''"
  shows "\<exists>s'. run_all os stk regs ns 0 s = Some (0, s') \<and> fresh s' ys"
  using assms(1)
proof (induction ns arbitrary: s)
  case (Cons n ns)
  then show ?case using run_test_passes [OF Cons.prems assms(2-4), of stk regs n] by auto
qed simp

text \<open>The whole program, when the user asks for all tests or for one of them.\<close>

lemma syserr_passes:
  assumes "fresh s (xs # ys)" "length xs < 127" "deliver xs \<noteq> []" "48 \<le> hd (deliver xs)" "hd (deliver xs) \<le> 56"
    and "\<not> present ''helloo''" "\<not> present ''shel''" "\<not> present ''''"
  shows "\<exists>s'. syserr_main os buf stk regs s = Some (0, s') \<and> fresh s' ys"
proof -
  obtain s1 where s1: "puts_literal os ''Choose from tests 1-8. 0 to run all: '' s = Some s1" "fresh s1 (xs # ys)"
    using text_fresh [OF assms(1), of "''Choose from tests 1-8. 0 to run all: ''"] by (auto simp: byte_of_char_def of_char_def)
  obtain b s2 where s2: "ece391_read os 0 buf 127 s1 = Some (of_nat (length (deliver xs)), b, s2)" "run_of b 0 (length (deliver xs)) = deliver xs"
    "ok s2" "pending s2 = ys" "files s2 = files s1" "(of_nat (length (deliver xs)) :: s32) \<noteq> - 1"
    using read_pending [of s1 xs ys 127 buf] s1(2) assms(2) by (auto simp: fresh_def)
  have f2: "fresh s2 ys" using s1(2) s2(3,4) opened_files [OF s2(5)] by (simp add: fresh_def)
  have "b 0 = hd (deliver xs)" using s2(2) assms(3) by (cases "deliver xs") (auto simp: run_of_Suc)
  then have b: "0 \<le> uint (b 0) - 48" "uint (b 0) - 48 \<le> 8" using assms(4,5) by (simp_all add: word_le_def)
  have ne: "- 1 \<noteq> (of_nat (length (deliver xs)) :: s32)" using s2(6) by simp
  show ?thesis
  proof (cases "uint (b 0) - 48 = 0")
    case True
    obtain s3 where s3: "run_all os stk regs [1, 2, 3, 4, 5, 6, 7, 8] 0 s2 = Some (0, s3)" "fresh s3 ys"
      using run_all_passes [OF f2 assms(6-8)] by blast
    obtain s4 where s4: "puts_literal os (CHR 0x0A # line ''Overall Tests: PASS'') s3 = Some s4" "fresh s4 ys"
      using text_fresh [OF s3(2), of "CHR 0x0A # line ''Overall Tests: PASS''"] by (auto simp: byte_of_char_def of_char_def line_def)
    have "syserr_main os buf stk regs s = Some (0, s4)"
      unfolding syserr_main_def using s1(1) s2(1) s3(1) s4(1) ne True by (simp add: give_up_def del: run_all.simps)
    then show ?thesis using s4(2) by blast
  next
    case False
    then have sel: "1 \<le> uint (b 0) - 48" "uint (b 0) - 48 \<le> 8" using b by auto
    then show ?thesis
      using run_test_passes [OF f2 assms(6-8), of stk regs "uint (b 0) - 48"] s1(1) s2(1) ne False by (simp add: syserr_main_def)
  qed
qed

end

section \<open>The kernel keeps the promise\<close>

definition k_opened :: "irq list \<times> kernel \<Rightarrow> nat set" where
  "k_opened = (\<lambda>(es, k). {j \<in> {2..<8}. flags (k_fds k (int j)) = FD_ON})"

definition dev_fds :: "fd_table_t \<Rightarrow> bool" where
  "dev_fds ft \<longleftrightarrow> (\<forall>j\<in>{2..7}. flags (ft j) = FD_ON \<longrightarrow> fd_jump (ft j) \<in> {rtc_ops_table, filesys_ops_table, dir_ops_table})"

definition dot_dir :: "filesystem \<Rightarrow> bool" where
  "dot_dir fs = (case List.find (\<lambda>i. entry_name fs i = [46]) [0..<MAX_ENTRIES] of None \<Rightarrow> False | Some i \<Rightarrow> entry_file_type fs i = 1)"

definition has_name :: "filesystem \<Rightarrow> string \<Rightarrow> bool" where
  "has_name fs name \<longleftrightarrow> given_name (cstr name) \<noteq> [] \<and> (\<exists>i\<in>{0..<MAX_ENTRIES}. entry_name fs i = given_name (cstr name))"

definition test_fs :: "filesystem \<Rightarrow> procs \<Rightarrow> filesystem \<Rightarrow> bool" where
  "test_fs fs p fs' \<longleftrightarrow> fs' = fs \<and> counts_ok fs \<and> dot_dir fs \<and> dev_fds (cur_fds p)"

lemma closed_invalid:
  assumes "fd_ready k" "sint fd \<notin> int ` k_opened (es, k)" "fd \<noteq> 0" "fd \<noteq> 1"
  shows "check_valid_fd fd (k_proc k) = 0"
proof (cases "bad_index fd")
  case False
  then have r: "0 \<le> sint fd" "sint fd < 8" by (simp_all add: bad_index_def fd_consts)
  have "sint fd \<noteq> sint (0 :: s32)" "sint fd \<noteq> sint (1 :: s32)" using assms(3,4) by (simp_all add: word_eq_iff_signed [symmetric] del: signed_0 signed_1)
  then have two: "2 \<le> sint fd" using r by simp
  then have "nat (sint fd) \<notin> k_opened (es, k)" using assms(2) r by (metis image_eqI int_nat_eq)
  then have "flags (k_fds k (sint fd)) \<noteq> FD_ON" using two r by (simp add: k_opened_def)
  moreover have "fd_entry_ok (k_fds k (sint fd))" using assms(1) r by (simp add: fd_ready_def fds_ok_def)
  ultimately show ?thesis using False by (simp add: check_valid_fd_def fd_entry_ok_def empty_fd_def k_fds_def fd_consts)
qed (simp add: check_valid_fd_def)

text \<open>A message of the kernel changes nothing but the screen.\<close>

lemma message_talks:
  assumes "talking p Q (es, k)"
  shows "talking p Q (es, say msg k)" "k_pending (es, say msg k) = k_pending (es, k)" "k_opened (es, say msg k) = k_opened (es, k)"
  using assms message_ok [of "k_con k" "cur_term k"]
  by (simp_all add: talking_def k_pending_def k_opened_def fd_ready_def k_fds_def tty_ok_def line_state_def say_def)

text \<open>The calls that are refused.\<close>

lemma fd_zero_one_cases:
  assumes "fd_ready k" "sint fd \<notin> int ` k_opened (es, k)"
  obtains (invalid) "check_valid_fd fd (k_proc k) = 0" | (zero) "fd = 0" | (one) "fd = 1"
  using closed_invalid [OF assms] by blast

lemma kernel_read_refused:
  assumes "talking p Q (es, k)" "sint fd \<notin> int ` k_opened (es, k)" "fd \<noteq> 0"
  shows "\<exists>b s'. ece391_read (kernel_os p) fd buf n (es, k) = Some (- 1, b, s') \<and> talking p Q s' \<and> k_pending s' = k_pending (es, k) \<and>
    k_opened s' = k_opened (es, k)"
proof -
  note t = assms(1) [unfolded talking_def prod.case]
  show ?thesis
    using conjunct1 [OF conjunct2 [OF t]] assms(2)
  proof (cases rule: fd_zero_one_cases)
    case invalid
    then show ?thesis using message_talks [OF assms(1)] by (simp add: kernel_calls sys_read_def)
  next
    case one
    define b where "b = snd (terminal_read 1 p buf n (cur_term k) (k_kbd k))"
    have "keyboard_ok b" "ctrl_flag b = 0" "alt_flag b = 0" "caps_shift_flag b = caps_shift_flag (k_kbd k)" "typed u b = typed u (k_kbd k)" for u
      using t by (simp_all add: b_def tty_ok_def terminal_read_ok) (simp_all add: terminal_read_def Let_def typed_def)
    moreover have "fst (terminal_read 1 p buf n (cur_term k) (k_kbd k)) = - 1" by (simp add: terminal_read_def Let_def)
    moreover have "cur_term (k\<lparr>k_kbd := b\<rparr>) = cur_term k" by (simp add: cur_term_def)
    ultimately show ?thesis
      using one fd_one [of k] t
      by (simp add: kernel_calls sys_read_def case_prod_beta b_def [symmetric] talking_def tty_ok_def k_pending_def k_opened_def line_state_def
          fd_ready_def k_fds_def)
  qed (use assms(3) in simp)
qed

lemma kernel_write_refused:
  assumes "talking p Q (es, k)" "sint fd \<notin> int ` k_opened (es, k)" "fd \<noteq> 1"
  shows "\<exists>s'. ece391_write (kernel_os p) fd buf n (es, k) = Some (- 1, s') \<and> talking p Q s' \<and> k_pending s' = k_pending (es, k) \<and>
    k_opened s' = k_opened (es, k)"
proof -
  note t = assms(1) [unfolded talking_def prod.case]
  show ?thesis
    using conjunct1 [OF conjunct2 [OF t]] assms(2)
  proof (cases rule: fd_zero_one_cases)
    case invalid
    then show ?thesis using message_talks [OF assms(1)] by (simp add: kernel_calls sys_write_def)
  next
    case zero
    then show ?thesis using fd_zero [of k] t assms(1) by (simp add: kernel_calls sys_write_def keyboard_write_def)
  qed (use assms(3) in simp)
qed

lemma kernel_close_refused:
  assumes "talking p Q (es, k)" "sint fd \<notin> int ` k_opened (es, k)"
  shows "\<exists>s'. ece391_close (kernel_os p) fd (es, k) = Some (- 1, s') \<and> talking p Q s' \<and> k_pending s' = k_pending (es, k) \<and>
    k_opened s' = k_opened (es, k)"
proof -
  note t = assms(1) [unfolded talking_def prod.case]
  have c: "op_close (jump_table 0 (k_proc k)) = Keyboard_close" "op_close (jump_table 1 (k_proc k)) = Terminal_close"
    using t by (auto simp: fd_ready_def k_fds_def fds_ok_def tables_ready_def jump_table_def)
  show ?thesis
    using conjunct1 [OF conjunct2 [OF t]] assms(2)
  proof (cases rule: fd_zero_one_cases)
    case invalid
    then show ?thesis using message_talks [OF assms(1)] by (simp add: kernel_calls sys_close_def)
  next
    case zero
    then show ?thesis using fd_zero [of k] t c assms(1) by (simp add: kernel_calls sys_close_def keyboard_close_def)
  next
    case one
    then show ?thesis using fd_one [of k] t c assms(1) by (simp add: kernel_calls sys_close_def terminal_close_def)
  qed
qed

lemma kernel_vidmap_refused:
  assumes "talking p Q (es, k)" "q < 0x08000000"
  shows "\<exists>s'. ece391_vidmap (kernel_os p) q (es, k) = Some (- 1, s') \<and> talking p Q s' \<and> k_pending s' = k_pending (es, k) \<and>
    k_opened s' = k_opened (es, k)"
  using message_talks [OF assms(1)] assms(2) by (simp add: kernel_calls vidmap_def PROGRAM_PAGE_def)

lemma kernel_number_refused:
  assumes "talking p Q (es, k)" "num = 0 \<or> 10 \<le> num"
  shows "\<exists>b s'. int80 (kernel_os p) num ebx ecx edx buf (es, k) = Some (- 1, b, s') \<and> talking p Q s' \<and> k_pending s' = k_pending (es, k) \<and>
    k_opened s' = k_opened (es, k)"
proof -
  have "num \<noteq> 7" using assms(2) by (auto simp: word_le_nat_alt)
  then show ?thesis using assms by (auto simp: kernel_os_def kernel_int80_def syscall_handler_def plain_def)
qed

text \<open>Opening the directory, and closing what is open.\<close>

lemma dot_lookup:
  assumes "counts_ok fs" "dot_dir fs"
  shows "\<exists>d'. read_dentry_by_name fs (cstr ''.'') d = (0, d') \<and> file_type d' = 1"
proof -
  have "cstr ''.'' 0 = 46" "cstr ''.'' 1 = NUL" by (simp_all add: cstr_def byte_of_char_def of_char_def)
  then have "given_name (cstr ''.'') = [46]" using given_name_run [of 1 "cstr ''.''"] by (simp add: run_of_def fs_consts)
  then show ?thesis using assms(2) by (auto simp: lookup_eq [OF assms(1)] dot_dir_def fill_dentry_def split: option.splits)
qed

lemma kernel_open_refused:
  assumes "talking p (test_fs fs) (es, k)" "\<not> has_name fs name"
  shows "ece391_open (kernel_os p) (cstr name) (es, k) = Some (- 1, es, k)"
proof -
  have t: "k_fs k = fs" "counts_ok fs" "p \<noteq> 0" using assms(1) by (simp_all add: talking_def test_fs_def)
  have "List.find (\<lambda>i. entry_name fs i = given_name (cstr name)) [0..<MAX_ENTRIES] = None \<or> given_name (cstr name) = []"
    using assms(2) by (auto simp: has_name_def find_None_iff)
  then have "fst (read_dentry_by_name fs (cstr name) d) = - 1" for d by (auto simp: lookup_eq [OF t(2)])
  then show ?thesis using t by (simp add: kernel_calls sys_open_def case_prod_beta)
qed

lemma kernel_open_dot:
  assumes "talking p (test_fs fs) (es, k)"
  shows "\<exists>s'. ece391_open (kernel_os p) (cstr ''.'') (es, k) =
      Some (case free_fds (k_fds k) of [] \<Rightarrow> - 1 | j # js \<Rightarrow> of_nat j, s') \<and> talking p (test_fs fs) s' \<and> k_pending s' = k_pending (es, k) \<and>
    k_opened s' = (case free_fds (k_fds k) of [] \<Rightarrow> k_opened (es, k) | j # js \<Rightarrow> insert j (k_opened (es, k)))"
proof -
  have t: "k_fs k = fs" "counts_ok fs" "p \<noteq> 0" "dot_dir fs" "fd_ready k" "dev_fds (k_fds k)" "tty_ok k"
    using assms by (simp_all add: talking_def test_fs_def k_fds_def)
  obtain d where d: "read_dentry_by_name (k_fs k) (cstr ''.'') (stack_dentry k) = (0, d)" "file_type d = 1"
    using dot_lookup [OF t(2,4)] t(1) by blast
  define k' where "k' = snd (dir_open (cstr ''.'') k)"
  have o: "sys_open p (cstr ''.'') k = Some (fst (install dir_info (k_fds k)), k')" "fd_ready k'" "k_fds k' = snd (install dir_info (k_fds k))"
    using sys_open_eq [OF t(5,3) d(1)] d(2) by (auto simp: opened_info_def k'_def prod_eq_iff)
  have fr: "k_fs k' = k_fs k" "k_kbd k' = k_kbd k" "cur_term k' = cur_term k" "screen_ok (k_con k')"
    using t(7) message_ok [of "k_con k" "cur_term k"] by (simp_all add: k'_def dir_open_def Let_def cur_term_def set_fd_info_def tty_ok_def say_def)
  then have u: "tty_ok k'" "line_state k' = line_state k" using t(7) by (simp_all add: tty_ok_def line_state_def)
  have i: "dev_fds (snd (install dir_info (k_fds k)))"
    using t(6) by (auto simp: install_def dev_fds_def dir_info_def split: list.split)
  have "j \<in> {2..<8}" if "free_fds (k_fds k) = j # js" for j js using free_fds_range [of j "k_fds k"] that by auto
  then have "k_opened (es, k') = (case free_fds (k_fds k) of [] \<Rightarrow> k_opened (es, k) | j # js \<Rightarrow> insert j (k_opened (es, k)))"
    unfolding k_opened_def prod.case o(3) by (auto simp: install_def dir_info_def split: list.split if_splits)
  moreover have "talking p (test_fs fs) (es, k')" using t o(2,3) u fr i by (simp add: talking_def test_fs_def k_fds_def)
  ultimately show ?thesis
    using o(1) u by (intro exI [of _ "(es, k')"]) (auto simp: kernel_calls k_pending_def install_def split: list.split)
qed

lemma kernel_close_opened:
  assumes "talking p (test_fs fs) (es, k)" "j \<in> k_opened (es, k)"
  shows "\<exists>r s'. ece391_close (kernel_os p) (of_nat j) (es, k) = Some (r, s') \<and> talking p (test_fs fs) s' \<and> k_pending s' = k_pending (es, k) \<and>
    k_opened s' = k_opened (es, k) - {j}"
proof -
  have t: "k_fs k = fs" "counts_ok fs" "p \<noteq> 0" "dot_dir fs" "fd_ready k" "dev_fds (k_fds k)" "tty_ok k"
    using assms(1) by (simp_all add: talking_def test_fs_def k_fds_def)
  have j: "2 \<le> j" "j < 8" "flags (k_fds k (int j)) = FD_ON" using assms(2) by (auto simp: k_opened_def)
  have fd: "sint (of_nat j :: s32) = int j" "\<not> bad_index (of_nat j)" using j sint_small [of j] by auto
  have dev: "fd_jump (k_fds k (int j)) \<in> {rtc_ops_table, filesys_ops_table, dir_ops_table}" using t(6) j by (auto simp: dev_fds_def)
  define k' where "k' = on_proc (close_fd (of_nat j)) k"
  have c: "sys_close (of_nat j) k = Some (0, k')"
    using dev t(5) fd j by (auto simp: sys_close_def check_valid_fd_def jump_table_def k_fds_def fd_ready_def tables_ready_def
        rtc_close_def file_close_def dir_close_def k'_def fd_consts)
  have f: "k_fds k' = (k_fds k)(int j := empty_fd)" using fd by (simp add: k'_def k_fds_def close_fd_def)
  have "fds_ok (k_fds k')" unfolding f using t(5) j by (auto simp: fd_ready_def fds_ok_def)
  then have "fd_ready k'" using t(5) by (simp add: fd_ready_def k'_def)
  moreover have "dev_fds (k_fds k')" unfolding f using t(6) by (auto simp: dev_fds_def empty_fd_def fd_consts)
  moreover have ct: "cur_term k' = cur_term k" by (simp add: k'_def cur_term_def close_fd_def)
  moreover have "tty_ok k'" "line_state k' = line_state k" using t(7) ct by (simp_all add: k'_def tty_ok_def line_state_def)
  ultimately have "talking p (test_fs fs) (es, k')" "k_pending (es, k') = k_pending (es, k)"
    using t by (simp_all add: talking_def test_fs_def k_fds_def k'_def k_pending_def)
  moreover have "k_opened (es, k') = k_opened (es, k) - {j}" by (auto simp: k_opened_def f empty_fd_def fd_consts)
  ultimately show ?thesis using c by (simp add: kernel_calls)
qed

lemma free_fds_iff:
  "free_fds ft = [2..<8] \<longleftrightarrow> (\<forall>j\<in>{2..<8}. flags (ft (int j)) = FD_OFF)" "free_fds ft = [] \<longleftrightarrow> (\<forall>j\<in>{2..<8}. flags (ft (int j)) \<noteq> FD_OFF)"
  unfolding free_fds_def FIRST_VALID_INDEX_def MAX_OPEN_FILES_def filter_id_conv filter_empty_conv set_upt by (rule refl)+

lemma set_free_fds: "set (free_fds ft) = {j \<in> {2..<8}. flags (ft (int j)) = FD_OFF}"
  unfolding free_fds_def FIRST_VALID_INDEX_def MAX_OPEN_FILES_def set_filter set_upt ..

lemma fd_on_or_off: "fd_ready k \<Longrightarrow> j < 8 \<Longrightarrow> flags (k_fds k (int j)) = FD_OFF \<longleftrightarrow> flags (k_fds k (int j)) \<noteq> FD_ON"
proof -
  assume "fd_ready k" "j < 8"
  then have "fd_entry_ok (k_fds k (int j))" by (simp add: fd_ready_def fds_ok_def)
  then show ?thesis by (fastforce simp: fd_entry_ok_def empty_fd_def fd_consts)
qed

interpretation kernel_strict: strict_os "kernel_os p" "talking p (test_fs fs)" k_screen k_print k_rest k_pending line_result "\<lambda>(es, k). k_proc k"
    k_opened "has_name fs" for p fs
proof
  fix s s' :: "irq list \<times> kernel"
  assume "k_rest s' = k_rest s"
  then have "k_proc (snd s') = k_proc (snd s)"
    by (auto simp: k_rest_def split: prod.splits dest: arg_cong [where f = k_proc])
  then show "k_opened s' = k_opened s" by (simp add: k_opened_def case_prod_beta k_fds_def)
next
  fix s :: "irq list \<times> kernel" and fd :: s32 and buf n
  assume "talking p (test_fs fs) s" "sint fd \<notin> int ` k_opened s" "fd \<noteq> 0"
  then show "\<exists>b s'. ece391_read (kernel_os p) fd buf n s = Some (- 1, b, s') \<and> talking p (test_fs fs) s' \<and> k_pending s' = k_pending s \<and> k_opened s' = k_opened s"
    using kernel_read_refused by (cases s) blast
next
  fix s :: "irq list \<times> kernel" and fd :: s32 and buf n
  assume "talking p (test_fs fs) s" "sint fd \<notin> int ` k_opened s" "fd \<noteq> 1"
  then show "\<exists>s'. ece391_write (kernel_os p) fd buf n s = Some (- 1, s') \<and> talking p (test_fs fs) s' \<and> k_pending s' = k_pending s \<and> k_opened s' = k_opened s"
    using kernel_write_refused by (cases s) blast
next
  fix s :: "irq list \<times> kernel" and fd :: s32
  assume "talking p (test_fs fs) s" "sint fd \<notin> int ` k_opened s"
  then show "\<exists>s'. ece391_close (kernel_os p) fd s = Some (- 1, s') \<and> talking p (test_fs fs) s' \<and> k_pending s' = k_pending s \<and> k_opened s' = k_opened s"
    using kernel_close_refused by (cases s) blast
next
  fix s :: "irq list \<times> kernel" and name
  assume "talking p (test_fs fs) s" "\<not> has_name fs name"
  then show "\<exists>s'. ece391_open (kernel_os p) (cstr name) s = Some (- 1, s') \<and> talking p (test_fs fs) s' \<and> k_pending s' = k_pending s \<and> k_opened s' = k_opened s"
    using kernel_open_refused by (cases s) blast
next
  fix s :: "irq list \<times> kernel"
  assume s: "talking p (test_fs fs) s" "k_opened s = {2..<8}"
  have "flags (k_fds (snd s) (int j)) = FD_ON" if "j \<in> {2..<8}" for j
    using that unfolding s(2) [symmetric] by (simp add: k_opened_def case_prod_beta)
  then have "free_fds (k_fds (snd s)) = []" unfolding free_fds_iff by (simp add: fd_consts)
  then show "\<exists>s'. ece391_open (kernel_os p) (cstr ''.'') s = Some (- 1, s') \<and> talking p (test_fs fs) s' \<and> k_pending s' = k_pending s \<and> k_opened s' = k_opened s"
    using kernel_open_dot [of p fs "fst s" "snd s"] s(1) by simp
next
  fix s :: "irq list \<times> kernel"
  assume s: "talking p (test_fs fs) s" "k_opened s \<subset> {2..<8}"
  then obtain i where i: "i \<in> {2..<8}" "i \<notin> k_opened s" by blast
  have "fd_ready (snd s)" using s(1) by (simp add: talking_def case_prod_beta)
  then have set: "set (free_fds (k_fds (snd s))) = {2..<8} - k_opened s"
    unfolding set_free_fds using fd_on_or_off [of "snd s"] by (auto simp: k_opened_def case_prod_beta)
  then have "i \<in> set (free_fds (k_fds (snd s)))" using i by simp
  then obtain j js where j: "free_fds (k_fds (snd s)) = j # js" by (cases "free_fds (k_fds (snd s))") auto
  then have "j \<in> set (free_fds (k_fds (snd s)))" by simp
  then have "j \<in> {2..<8} - k_opened s" unfolding set .
  then show "\<exists>j s'. j \<in> {2..<8} - k_opened s \<and> ece391_open (kernel_os p) (cstr ''.'') s = Some (of_nat j, s') \<and> talking p (test_fs fs) s' \<and>
      k_pending s' = k_pending s \<and> k_opened s' = insert j (k_opened s)"
    using kernel_open_dot [of p fs "fst s" "snd s"] s(1) j by auto
next
  fix s :: "irq list \<times> kernel" and j
  assume "talking p (test_fs fs) s" "j \<in> k_opened s"
  then show "\<exists>r s'. ece391_close (kernel_os p) (of_nat j) s = Some (r, s') \<and> talking p (test_fs fs) s' \<and> k_pending s' = k_pending s \<and>
      k_opened s' = k_opened s - {j}"
    using kernel_close_opened by (cases s) blast
next
  fix s :: "irq list \<times> kernel" and q :: u32
  assume "talking p (test_fs fs) s" "q < 0x08000000"
  then show "\<exists>s'. ece391_vidmap (kernel_os p) q s = Some (- 1, s') \<and> talking p (test_fs fs) s' \<and> k_pending s' = k_pending s \<and> k_opened s' = k_opened s"
    using kernel_vidmap_refused by (cases s) blast
next
  fix s :: "irq list \<times> kernel" and num ebx ecx edx :: u32 and buf
  assume "talking p (test_fs fs) s" "num = 0 \<or> 10 \<le> num"
  then show "\<exists>b s'. int80 (kernel_os p) num ebx ecx edx buf s = Some (- 1, b, s') \<and> talking p (test_fs fs) s' \<and> k_pending s' = k_pending s \<and> k_opened s' = k_opened s"
    using kernel_number_refused by (cases s) blast
qed (simp add: k_opened_def case_prod_beta k_fds_def)

lemma opened_none: "fd_ready k \<Longrightarrow> k_opened (es, k) = {} \<longleftrightarrow> free_fds (k_fds k) = [2..<8]"
  unfolding free_fds_iff using fd_on_or_off [of k] by (auto simp: k_opened_def)

section \<open>Properties\<close>

text \<open>
  C10. The repository's error tests pass on the kernel: with the directory \<^verbatim>\<open>.\<close> on the image, the
  names \<^verbatim>\<open>helloo\<close> and \<^verbatim>\<open>shel\<close> not on it, and no file open, the program \<^verbatim>\<open>syserr\<close> returns 0 whether
  the user asks for one of its tests or for all of them, whatever its buffers and registers
  hold and whatever interrupts come while the user types. Afterwards no file is open.
\<close>

theorem syserr_passes_on_kernel:
  assumes "fd_ready k" "tty_ok k" "p \<noteq> 0" "counts_ok (k_fs k)" "dot_dir (k_fs k)" "\<not> has_name (k_fs k) ''helloo''" "\<not> has_name (k_fs k) ''shel''"
    and "free_fds (k_fds k) = [2..<8]" "lines_of es (line_state k) = xs # ys" "length xs < 127" "48 \<le> hd (line_result xs)" "hd (line_result xs) \<le> 56"
  shows "\<exists>es' k'. syserr_main (kernel_os p) buf stk regs (es, k) = Some (0, es', k') \<and> lines_of es' (line_state k') = ys \<and>
    fd_ready k' \<and> free_fds (k_fds k') = [2..<8]"
proof -
  let ?Q = "test_fs (k_fs k)"
  have none: "k_opened (es, k) = {}" using opened_none [OF assms(1)] assms(8) by simp
  then have off: "flags (k_fds k (int j)) \<noteq> FD_ON" if "2 \<le> j" "j < 8" for j using that by (auto simp: k_opened_def)
  have "flags (k_fds k j) \<noteq> FD_ON" if "j \<in> {2..7}" for j using off [of "nat j"] that nat_mono [of 2 j] by (simp add: nat_less_iff)
  then have "dev_fds (k_fds k)" by (simp add: dev_fds_def)
  then have t: "talking p ?Q (es, k)" using assms by (simp add: talking_def test_fs_def k_fds_def)
  then have f: "kernel_strict.fresh p (k_fs k) (es, k) (xs # ys)"
    using none assms(9) by (simp add: kernel_strict.fresh_def, simp add: k_pending_def)
  have "\<not> has_name (k_fs k) ''''" by (simp add: has_name_def given_name_def cstr_def run_of_def upt_rec fs_consts)
  moreover have "line_result xs \<noteq> []" by (auto simp: line_result_def)
  ultimately obtain s' where s': "syserr_main (kernel_os p) buf stk regs (es, k) = Some (0, s')" "kernel_strict.fresh p (k_fs k) s' ys"
    using kernel_strict.syserr_passes [OF f assms(10) _ assms(11,12,6,7)] by blast
  obtain es' k' where e: "s' = (es', k')" by (cases s')
  have "talking p ?Q (es', k')" "k_pending (es', k') = ys" "k_opened (es', k') = {}"
    using s'(2) unfolding kernel_strict.fresh_def e by simp_all
  then have "fd_ready k'" "lines_of es' (line_state k') = ys" "free_fds (k_fds k') = [2..<8]"
    using opened_none [of k' es'] by (simp_all add: talking_def k_pending_def)
  then show ?thesis using s'(1) unfolding e by blast
qed

theorem syserr_passes_on_kernel_witness:
  "\<exists>es' k'. syserr_main (kernel_os 4) (\<lambda>_. 7) (\<lambda>_. 9) (1, 2, 3) ([Key 0x0B, Clock, Key ENTER], demo_program (\<lambda>_. 0) (\<lambda>_. 0)) = Some (0, es', k')"
proof -
  let ?k = "demo_program (\<lambda>_. 0) (\<lambda>_. 0)"
  have names: "\<not> has_name (demo_fs 127) name" if "length (given_name (cstr name)) > 2" for name
    using that by (auto simp: has_name_def demo_entry_name split: if_splits dest: arg_cong [where f = length])
  have g: "given_name (cstr ''helloo'') = map byte_of_char ''helloo''" "given_name (cstr ''shel'') = map byte_of_char ''shel''"
    by (simp_all add: given_name_def run_of_def upt_rec fs_consts cstr_def byte_of_char_def of_char_def)
  have "[0..<MAX_ENTRIES] = 0 # [1..<MAX_ENTRIES]" by (simp add: fs_consts upt_conv_Cons)
  then have dot: "dot_dir (demo_fs 127)" by (simp add: dot_dir_def demo_fs_names)
  have "edit 0x0B (0, []) = (0, [48])" by (simp add: edit_def scan_codes kbd_ascii_key_map_def keys_none_def kbd_consts)
  then have l: "lines_of [Key 0x0B, Clock, Key ENTER] (line_state ?k) = [48] # []"
    by (simp add: demo_talks typing_def edit_irq_def edit_key_def scan_codes)
  have "line_result [48] = [48, 10]" by (simp add: line_result_def stripped_def)
  then show ?thesis
    using syserr_passes_on_kernel [OF demo_program_ready(1) demo_talks(1) _ demo_talks(3) _ _ _ _ l, of 4 "\<lambda>_. 7" "\<lambda>_. 9" "(1, 2, 3)"]
      dot names g by (auto simp: demo_program_ready fd_table_init_free)
qed

end
