(* ===== verification/Grep.thy ===== *)
theory Grep
  imports Programs "HOL-Library.Sublist"
begin

text \<open>
  The program \<^verbatim>\<open>grep\<close>. It reads a file through a buffer of 1024 bytes, splits it into lines, and
  carries an incomplete line over to the next read by copying it to the front of the buffer.
  The result about \<^verbatim>\<open>do_one_file\<close> is that this prints exactly the matching lines of a text whose
  lines fit the buffer.
\<close>

section \<open>Definitions\<close>

text \<open>A pointer into a buffer: what it points to, and the buffer with what was written there.\<close>

definition from_offset :: "bytes \<Rightarrow> nat \<Rightarrow> bytes" where
  "from_offset b off = (\<lambda>i. b (off + i))"

definition into_offset :: "bytes \<Rightarrow> nat \<Rightarrow> bytes \<Rightarrow> bytes" where
  "into_offset b off c = (\<lambda>i. if i < off then b i else c (i - off))"

text \<open>\<^verbatim>\<open>ece391_strcpy (data, data + from)\<close>: source and destination are in the same buffer.\<close>

partial_function (option) copy_down :: "bytes \<Rightarrow> nat \<Rightarrow> nat \<Rightarrow> bytes option" where
  "copy_down b from i =
     (let b = b(i := b (from + i)) in if NUL \<noteq> b i then copy_down b from (Suc i) else Some b)"

text \<open>
  The search in one line: the first byte is compared as a signed character with an unsigned
  one, then \<^verbatim>\<open>ece391_strncmp\<close> compares the rest.
\<close>

fun line_matches :: "bytes \<Rightarrow> nat \<Rightarrow> bytes \<Rightarrow> nat \<Rightarrow> nat \<Rightarrow> bool" where
  "line_matches s s_len dat check 0 = False"
| "line_matches s s_len dat check (Suc n) =
     (if sint (s 0) = uint (dat check) \<and> 0 = ece391_strncmp (from_offset dat check) s s_len then True
      else line_matches s s_len dat (Suc check) n)"

definition print_match :: "'s os \<Rightarrow> bytes \<Rightarrow> bytes \<Rightarrow> nat \<Rightarrow> 's \<Rightarrow> 's option" where
  "print_match os fname dat line_start st =
     Option.bind (ece391_fdputs os 1 fname st) (\<lambda>st.
     Option.bind (puts_literal os '':'' st) (\<lambda>st.
     Option.bind (ece391_fdputs os 1 (from_offset dat line_start) st) (\<lambda>st. puts_literal os (line '''') st)))"

text \<open>The loop over the lines in the buffer; the result is the new \<^verbatim>\<open>last\<close>, the buffer and the state.\<close>

partial_function (option) grep_lines ::
    "'s os \<Rightarrow> bytes \<Rightarrow> nat \<Rightarrow> bytes \<Rightarrow> nat \<Rightarrow> s32 \<Rightarrow> bytes \<Rightarrow> nat \<Rightarrow> 's \<Rightarrow> (nat \<times> bytes \<times> 's) option" where
  "grep_lines os s s_len fname lst cnt dat line_start st =
     (let line_end = scan (\<lambda>i. NEWLINE \<noteq> dat i) line_start (lst - line_start)
      in if NEWLINE \<noteq> dat line_end \<and> 0 \<noteq> cnt \<and> line_start \<noteq> 0
         then Option.bind (copy_down (dat(line_end := NUL)) line_start 0) (\<lambda>dat. Some (lst - line_start, dat, st))
         else let dat = dat(line_end := NUL)
              in Option.bind (if line_matches s s_len dat line_start (line_end - line_start) then print_match os fname dat line_start st else Some st)
                   (\<lambda>st. if line_end + 1 \<ge> lst then Some (0, dat, st)
                         else grep_lines os s s_len fname lst cnt dat (line_end + 1) st))"

partial_function (option) grep_loop ::
    "'s os \<Rightarrow> bytes \<Rightarrow> nat \<Rightarrow> bytes \<Rightarrow> s32 \<Rightarrow> nat \<Rightarrow> bytes \<Rightarrow> 's \<Rightarrow> (s32 \<times> 's) option" where
  "grep_loop os s s_len fname fd lst dat st =
     Option.bind (ece391_read os fd (from_offset dat lst) (of_nat (BUFSIZE - lst)) st) (\<lambda>(cnt, b, st).
       let dat = into_offset dat lst b
       in if - 1 = cnt then give_up os (line ''file read failed'') (- 1) st
          else Option.bind (grep_lines os s s_len fname (lst + unat cnt) cnt dat 0 st) (\<lambda>(lst, dat, st).
                 if 0 = cnt
                 then Option.bind (ece391_close os fd st) (\<lambda>(r, st).
                        if - 1 = r then give_up os (line ''file close failed'') (- 1) st else Some (0, st))
                 else grep_loop os s s_len fname fd lst dat st))"

definition do_one_file :: "'s os \<Rightarrow> bytes \<Rightarrow> bytes \<Rightarrow> bytes \<Rightarrow> 's \<Rightarrow> (s32 \<times> 's) option" where
  "do_one_file os s fname dat st =
     Option.bind (ece391_strlen s) (\<lambda>s_len.
     Option.bind (ece391_open os fname st) (\<lambda>(fd, st).
       if - 1 = fd then give_up os (line ''file open failed'') (- 1) st else grep_loop os s s_len fname fd 0 dat st))"

text \<open>\<open>dat\<close> is what the frame of \<^verbatim>\<open>do_one_file\<close> holds when it is called.\<close>

partial_function (option) grep_dir :: "'s os \<Rightarrow> bytes \<Rightarrow> bytes \<Rightarrow> s32 \<Rightarrow> bytes \<Rightarrow> 's \<Rightarrow> (s32 \<times> 's) option" where
  "grep_dir os search dat fd buf st =
     Option.bind (ece391_read os fd buf (of_nat (SBUFSIZE - 1)) st) (\<lambda>(cnt, buf, st).
       if 0 \<noteq> cnt
       then if - 1 = cnt then give_up os (line ''directory entry read failed'') 3 st
            else if byte_of_char CHR ''.'' = buf 0 then grep_dir os search dat fd buf st
            else let buf = buf(unat cnt := NUL)
                 in Option.bind (do_one_file os search buf dat st) (\<lambda>(r, st). if 0 \<noteq> r then Some (3, st) else grep_dir os search dat fd buf st)
       else Some (0, st))"

definition grep_main :: "'s os \<Rightarrow> bytes \<Rightarrow> bytes \<Rightarrow> bytes \<Rightarrow> 's \<Rightarrow> (s32 \<times> 's) option" where
  "grep_main os buf search dat st =
     Option.bind (ece391_getargs os search (of_nat BUFSIZE) st) (\<lambda>(r, search, st).
       if 0 \<noteq> r then give_up os (line ''could not read argument'') 3 st
       else Option.bind (ece391_open os (cstr ''.'') st) (\<lambda>(fd, st).
              if - 1 = fd then give_up os (line ''directory open failed'') 2 st else grep_dir os search dat fd buf st))"

section \<open>The lines of a text\<close>

fun text_lines :: "u8 list \<Rightarrow> u8 list list" where
  "text_lines [] = [[]]"
| "text_lines (c # cs) = (if c = NEWLINE then [] # text_lines cs else (c # hd (text_lines cs)) # tl (text_lines cs))"

definition grep_output :: "u8 list \<Rightarrow> u8 list \<Rightarrow> u8 list \<Rightarrow> u8 list" where
  "grep_output S fname T = concat (map (\<lambda>l. fname @ [58] @ l @ [NEWLINE]) (filter (sublist S) (text_lines T)))"

lemma text_lines_nonempty [simp]: "text_lines T \<noteq> []"
  by (cases T) auto

lemma text_lines_plain: "NEWLINE \<notin> set L \<Longrightarrow> text_lines L = [L]"
  by (induction L) auto

lemma text_lines_append: "NEWLINE \<notin> set L \<Longrightarrow> text_lines (L @ NEWLINE # T) = L # text_lines T"
  by (induction L) auto

lemma output_plain: "NEWLINE \<notin> set L \<Longrightarrow> grep_output S f L = (if sublist S L then f @ [58] @ L @ [NEWLINE] else [])"
  by (simp add: grep_output_def text_lines_plain)

lemma output_line: "NEWLINE \<notin> set L \<Longrightarrow> grep_output S f (L @ NEWLINE # T) = grep_output S f L @ grep_output S f T"
  by (simp add: output_plain) (simp add: grep_output_def text_lines_append)

section \<open>Searching a line\<close>

lemma strncmp_pattern:
  assumes "\<And>j. j < n \<Longrightarrow> s j \<noteq> NUL"
  shows "ece391_strncmp b s n = 0 \<longleftrightarrow> run_of b 0 n = run_of s 0 n"
proof -
  have "ece391_strncmp_from b s i m = 0 \<longleftrightarrow> (\<forall>j<m. b (i + j) = s (i + j))" if "i + m \<le> n" for i m
    using that
  proof (induction m arbitrary: i)
    case (Suc m)
    have nz: "s i \<noteq> NUL" using assms [of i] Suc.prems by simp
    have split: "(\<forall>j<Suc m. b (i + j) = s (i + j)) \<longleftrightarrow> b i = s i \<and> (\<forall>j<m. b (Suc i + j) = s (Suc i + j))"
      by (auto simp: less_Suc_eq_0_disj)
    show ?case
      unfolding split using nz Suc.IH [of "Suc i"] Suc.prems by (cases m) (auto simp: word_uint_eq_iff)
  qed simp
  from this [of 0 n] show ?thesis by (auto simp: ece391_strncmp_def run_of_eq_iff)
qed

lemma line_matches_iff:
  "line_matches s k dat c n \<longleftrightarrow> (\<exists>i<n. sint (s 0) = uint (dat (c + i)) \<and> ece391_strncmp (from_offset dat (c + i)) s k = 0)"
proof (induction n arbitrary: c)
  case (Suc n)
  show ?case unfolding line_matches.simps Suc.IH by (auto simp: less_Suc_eq_0_disj)
qed simp

definition pattern_ok :: "bytes \<Rightarrow> u8 list \<Rightarrow> bool" where
  "pattern_ok s S \<longleftrightarrow> S \<noteq> [] \<and> NUL \<notin> set S \<and> uint (hd S) < 128 \<and> run_of s 0 (length S) = S \<and> s (length S) = NUL"

lemma sublist_iff_take: "S \<noteq> [] \<Longrightarrow> sublist S L \<longleftrightarrow> (\<exists>i<length L. take (length S) (drop i L) = S)"
proof
  assume S: "S \<noteq> []" and "sublist S L"
  then obtain us vs where "L = us @ S @ vs" by (auto simp: sublist_def)
  then have "length us < length L \<and> take (length S) (drop (length us) L) = S" using S by simp
  then show "\<exists>i<length L. take (length S) (drop i L) = S" by blast
next
  assume "\<exists>i<length L. take (length S) (drop i L) = S"
  then obtain i where "take (length S) (drop i L) = S" by blast
  then have "L = take i L @ S @ drop (length S) (drop i L)" by (metis append_take_drop_id)
  then show "sublist S L" by (auto simp: sublist_def)
qed

lemma line_matches_sublist:
  assumes "pattern_ok s S" "run_of dat ls (length L) = L" "dat (ls + length L) = NUL" "NUL \<notin> set L"
  shows "line_matches s (length S) dat ls (length L) \<longleftrightarrow> sublist S L"
proof -
  note p = assms(1) [unfolded pattern_ok_def]
  have sj: "s j = S ! j" if "j < length S" for j using p that by (metis add_0 nth_run_of)
  then have s: "s j \<noteq> NUL" if "j < length S" for j using p that by (metis nth_mem)
  have dj: "dat (ls + j) = L ! j" if "j < length L" for j using assms(2) that by (metis nth_run_of)
  have one: "(sint (s 0) = uint (dat (ls + i)) \<and> ece391_strncmp (from_offset dat (ls + i)) s (length S) = 0) \<longleftrightarrow> take (length S) (drop i L) = S"
    if i: "i < length L" for i
  proof -
    have "uint (s 0) < 128" using p sj [of 0] by (cases S) auto
    moreover have "- 128 \<le> uint (s 0)" by (rule order_trans [OF _ uint_ge_0]) simp
    ultimately have "sint (s 0) = uint (s 0)" by (simp add: sint_uint signed_take_bit_int_eq_self_iff)
    then have first: "sint (s 0) = uint (dat (ls + i)) \<longleftrightarrow> s 0 = L ! i" using dj [OF i] by (simp add: word_uint_eq_iff)
    have "run_of (from_offset dat (ls + i)) 0 (length S) = S \<longleftrightarrow> take (length S) (drop i L) = S"
    proof (cases "i + length S \<le> length L")
      case True
      then have "run_of (from_offset dat (ls + i)) 0 (length S) = take (length S) (drop i L)"
        by (intro nth_equalityI) (auto simp: from_offset_def dj add.assoc)
      then show ?thesis by simp
    next
      case False
      then have "length (take (length S) (drop i L)) \<noteq> length S" using i by simp
      moreover have "run_of (from_offset dat (ls + i)) 0 (length S) ! (length L - i) = NUL" "length L - i < length S"
        using False i assms(3) arg_cong [of "ls + i + (0 + (length L - i))" "ls + length L" dat] by (simp_all add: from_offset_def)
      then have "run_of (from_offset dat (ls + i)) 0 (length S) \<noteq> S" using p by (metis nth_mem)
      ultimately show ?thesis by metis
    qed
    moreover have "s 0 = L ! i" if "take (length S) (drop i L) = S"
    proof -
      have "S ! 0 = L ! i" using p i arg_cong [OF that, of "\<lambda>xs. xs ! 0"] by simp
      then show ?thesis using p sj [of 0] by simp
    qed
    ultimately show ?thesis using first strncmp_pattern [OF s, where b = "from_offset dat (ls + i)"] p by auto
  qed
  show ?thesis unfolding line_matches_iff sublist_iff_take [OF conjunct1 [OF p]] using one by auto
qed

section \<open>Copying down\<close>

lemma copy_down_run:
  assumes "0 < from" "run_of b from (length L) = L" "b (from + length L) = NUL" "NUL \<notin> set L"
  shows "\<exists>b'. copy_down b from 0 = Some b' \<and> run_of b' 0 (length L) = L \<and> (\<forall>i>length L. b' i = b i)"
proof -
  let ?n = "length L"
  have "\<exists>b'. copy_down c from i = Some b' \<and> run_of b' 0 ?n = L \<and> (\<forall>j>?n. b' j = c j)"
    if "i \<le> ?n" "\<forall>j<i. c j = L ! j" "\<forall>j. i \<le> j \<and> j < ?n \<longrightarrow> c (from + j) = L ! j" "c (from + ?n) = NUL" for i c
    using that
  proof (induction i arbitrary: c rule: inc_induct)
    case base
    then show ?case by (subst copy_down.simps) (auto simp: run_of_eq_iff fun_upd_def)
  next
    case (step i)
    let ?c = "c(i := c (from + i))"
    have ci: "c (from + i) = L ! i" using step.prems(2) step.hyps by simp
    then have "c (from + i) \<noteq> NUL" using assms(4) step.hyps by (metis nth_mem)
    then have "copy_down c from i = copy_down ?c from (Suc i)" by (subst copy_down.simps) (simp add: fun_upd_def)
    moreover have "\<exists>b'. copy_down ?c from (Suc i) = Some b' \<and> run_of b' 0 ?n = L \<and> (\<forall>j>?n. b' j = ?c j)"
      by (rule step.IH) (use step.prems step.hyps ci assms(1) in \<open>auto simp: less_Suc_eq\<close>)
    ultimately show ?case using step.hyps by auto
  qed
  from this [of 0 b] show ?thesis using assms(2,3) by (auto simp: run_of_eq_iff)
qed

section \<open>The loops\<close>

text \<open>A system whose file also can be closed, and whose reads leave the rest of the buffer alone.\<close>

locale text_os = stream_os +
  assumes read_frame: "ok s \<Longrightarrow> n < 2 ^ 30 \<Longrightarrow> ece391_read os fd buf (of_nat n) s = Some (r, buf', s') \<Longrightarrow> n \<le> i \<Longrightarrow> buf' i = buf i"
    and close_ends: "ok s \<Longrightarrow> \<exists>s'. ece391_close os fd s = Some (0, s') \<and> screen s' = screen s"

definition short_lines :: "u8 list \<Rightarrow> bool" where
  "short_lines T \<longleftrightarrow> (\<forall>l\<in>set (text_lines T). length l < BUFSIZE)"

lemma short_lines_simps [simp]:
  "short_lines []"
  "NEWLINE \<notin> set L \<Longrightarrow> short_lines (L @ NEWLINE # T) \<longleftrightarrow> length L < BUFSIZE \<and> short_lines T"
  by (simp_all add: short_lines_def text_lines_append BUFSIZE_def)

lemma short_lines_newline:
  assumes "short_lines (L @ T)" "BUFSIZE \<le> length L"
  shows "NEWLINE \<in> set L"
proof (rule ccontr)
  assume n: "NEWLINE \<notin> set L"
  then have "hd (text_lines (L @ T)) = L @ hd (text_lines T)" by (induction L) auto
  then have "L @ hd (text_lines T) \<in> set (text_lines (L @ T))" by (metis hd_in_set text_lines_nonempty)
  then show False using assms by (auto simp: short_lines_def)
qed

lemma line_end_newline:
  assumes "run_of dat ls (length (L @ NEWLINE # T)) = L @ NEWLINE # T" "NEWLINE \<notin> set L"
  shows "scan (\<lambda>i. NEWLINE \<noteq> dat i) ls (length (L @ NEWLINE # T)) = ls + length L" "dat (ls + length L) = NEWLINE"
proof -
  have d: "dat (ls + j) = (L @ NEWLINE # T) ! j" if "j < length (L @ NEWLINE # T)" for j using assms(1) that by (metis nth_run_of)
  show n: "dat (ls + length L) = NEWLINE" using d [of "length L"] by simp
  show "scan (\<lambda>i. NEWLINE \<noteq> dat i) ls (length (L @ NEWLINE # T)) = ls + length L"
  proof (rule scan_unique)
    fix j assume "ls \<le> j" "j < ls + length L"
    then have "dat j = L ! (j - ls)" "j - ls < length L" using d [of "j - ls"] by (auto simp: nth_append)
    then show "NEWLINE \<noteq> dat j" using assms(2) by (metis nth_mem)
  qed (use n in auto)
qed

lemma line_end_none:
  assumes "run_of dat ls (length T) = T" "NEWLINE \<notin> set T"
  shows "scan (\<lambda>i. NEWLINE \<noteq> dat i) ls (length T) = ls + length T"
proof (rule scan_unique)
  fix j assume j: "ls \<le> j" "j < ls + length T"
  then have "run_of dat ls (length T) ! (j - ls) = dat j" by (subst nth_run_of) auto
  moreover have "j - ls < length T" using j by auto
  ultimately show "NEWLINE \<noteq> dat j" using assms by (metis nth_mem)
qed auto

lemma grep_lines_copy:
  assumes "scan (\<lambda>i. NEWLINE \<noteq> dat i) ls (lst - ls) = le" "NEWLINE \<noteq> dat le \<and> 0 \<noteq> cnt \<and> ls \<noteq> 0" "copy_down (dat(le := NUL)) ls 0 = Some d"
  shows "grep_lines os s n fname lst cnt dat ls st = Some (lst - ls, d, st)"
  by (subst grep_lines.simps) (use assms in \<open>simp add: Let_def fun_upd_def\<close>)

lemma grep_lines_next:
  assumes "scan (\<lambda>i. NEWLINE \<noteq> dat i) ls (lst - ls) = le" "\<not> (NEWLINE \<noteq> dat le \<and> 0 \<noteq> cnt \<and> ls \<noteq> 0)" "d = dat(le := NUL)"
    and "(if line_matches s n d ls (le - ls) then print_match os fname d ls st else Some st) = Some st'"
  shows "grep_lines os s n fname lst cnt dat ls st = (if le + 1 \<ge> lst then Some (0, d, st') else grep_lines os s n fname lst cnt d (le + 1) st')"
  unfolding grep_lines.simps [of os s n fname lst cnt dat ls st] fun_upd_def [symmetric] Let_def assms(1) assms(3) [symmetric] assms(4)
  using assms(2) by auto

context text_os
begin

lemma print_match_prints:
  assumes "ok st" "is_cstring fname nf" "nf < 2 ^ 31" "is_cstring (from_offset dat ls) n" "n < 2 ^ 31"
  shows "\<exists>st'. print_match os fname dat ls st = Some st' \<and> ok st' \<and> rest st' = rest st \<and>
    screen st' = print (run_of fname 0 nf @ [58] @ run_of dat ls n @ [NEWLINE]) (screen st)"
proof -
  have m: "map byte_of_char '':'' = [58]" "map byte_of_char (line '''') = [NEWLINE]" by (simp_all add: byte_of_char_def of_char_def line_def)
  obtain s1 where s1: "ece391_fdputs os 1 fname st = Some s1" "ok s1" "screen s1 = print (run_of fname 0 nf) (screen st)" "rest s1 = rest st"
    using fdputs_prints [OF assms(1-3)] by blast
  obtain s2 where s2: "puts_literal os '':'' s1 = Some s2" "ok s2" "screen s2 = print [58] (screen s1)" "rest s2 = rest s1"
    using puts_literal_prints [OF s1(2), of "'':''"] m by auto
  obtain s3 where s3: "ece391_fdputs os 1 (from_offset dat ls) s2 = Some s3" "ok s3" "screen s3 = print (run_of (from_offset dat ls) 0 n) (screen s2)" "rest s3 = rest s2"
    using fdputs_prints [OF s2(2) assms(4,5)] by blast
  obtain s4 where s4: "puts_literal os (line '''') s3 = Some s4" "ok s4" "screen s4 = print [NEWLINE] (screen s3)" "rest s4 = rest s3"
    using puts_literal_prints [OF s3(2), of "line ''''"] m by (auto simp: line_def)
  have "run_of (from_offset dat ls) 0 n = run_of dat ls n" by (simp add: run_of_eq_iff from_offset_def)
  then show ?thesis using s1 s2 s3 s4 unfolding print_match_def by (simp add: print_append del: append_Cons append_Nil)
qed

text \<open>One complete line in the buffer.\<close>

lemma search_line:
  assumes "ok st" "is_cstring fname nf" "nf < 2 ^ 31" "pattern_ok s S"
    and "run_of dat ls (length L) = L" "dat (ls + length L) = NUL" "NUL \<notin> set L" "NEWLINE \<notin> set L" "length L < 2 ^ 31"
  shows "\<exists>st'. (if line_matches s (length S) dat ls (length L) then print_match os fname dat ls st else Some st) = Some st' \<and>
    ok st' \<and> rest st' = rest st \<and> screen st' = print (grep_output S (run_of fname 0 nf) L) (screen st)"
proof (cases "sublist S L")
  case True
  have c: "is_cstring (from_offset dat ls) (length L)"
    using is_cstring_list [of L "from_offset dat ls"] assms(5-7) by (simp add: from_offset_def run_of_eq_iff)
  show ?thesis
    using print_match_prints [OF assms(1-3) c assms(9)] True line_matches_sublist [OF assms(4-7)] assms(5,8) by (simp add: output_plain)
next
  case False
  then show ?thesis using line_matches_sublist [OF assms(4-7)] assms(1,8) by (simp add: output_plain print_nil)
qed

text \<open>A line with its end in the buffer is searched, and the loop goes on behind it.\<close>

lemma grep_lines_line:
  assumes "is_cstring fname nf" "nf < 2 ^ 31" "pattern_ok s S" "lst \<le> BUFSIZE" "ok st"
    and "run_of dat ls (length T) = T" "lst = ls + length T" "NUL \<notin> set T" "dat BUFSIZE \<noteq> NEWLINE" "T = L @ NEWLINE # T'" "NEWLINE \<notin> set L"
  obtains d s1 where "run_of d (ls + length L + 1) (length T') = T'" "d BUFSIZE \<noteq> NEWLINE" "ok s1" "rest s1 = rest st"
    "screen s1 = print (grep_output S (run_of fname 0 nf) L) (screen st)"
    "grep_lines os s (length S) fname lst cnt dat ls st =
      (if T' = [] then Some (0, d, s1) else grep_lines os s (length S) fname lst cnt d (ls + length L + 1) s1)"
proof -
  define le where "le = ls + length L"
  define d where "d = dat(le := NUL)"
  have le: "scan (\<lambda>i. NEWLINE \<noteq> dat i) ls (lst - ls) = le" "dat le = NEWLINE"
    using line_end_newline [of dat ls L T'] assms(6,7,10,11) by (simp_all add: le_def)
  have dj: "dat (ls + j) = T ! j" if "j < length T" for j using assms(6) that by (metis nth_run_of)
  have L: "run_of d ls (length L) = L" "d (ls + length L) = NUL" "NUL \<notin> set L" "length L < 2 ^ 31" "d BUFSIZE \<noteq> NEWLINE"
    using dj assms(4,7-10) by (auto simp: run_of_eq_iff d_def le_def nth_append BUFSIZE_def)
  obtain s1 where s1: "(if line_matches s (length S) d ls (le - ls) then print_match os fname d ls st else Some st) = Some s1" "ok s1" "rest s1 = rest st"
    "screen s1 = print (grep_output S (run_of fname 0 nf) L) (screen st)"
    using search_line [OF assms(5,1-3) L(1-3) assms(11) L(4)] by (auto simp: le_def)
  have "run_of d (le + 1) (length T') = T'"
    using dj [of "Suc (length L) + i" for i] assms(10) by (auto simp: run_of_eq_iff d_def le_def add.assoc nth_append)
  moreover have "grep_lines os s (length S) fname lst cnt dat ls st =
      (if T' = [] then Some (0, d, s1) else grep_lines os s (length S) fname lst cnt d (le + 1) s1)"
    using grep_lines_next [OF le(1) _ d_def s1(1)] le(2) assms(7,10) by (auto simp: le_def)
  ultimately show thesis using that s1 L(5) by (simp add: le_def)
qed

text \<open>The bytes behind the last newline: they are kept for the next read, or they are the last line of the file.\<close>

lemma grep_lines_rest:
  assumes "is_cstring fname nf" "nf < 2 ^ 31" "pattern_ok s S" "lst \<le> BUFSIZE" "lst < BUFSIZE \<longrightarrow> R = []" "ok st"
    and "run_of dat ls (length T) = T" "lst = ls + length T" "NUL \<notin> set T" "dat BUFSIZE \<noteq> NEWLINE" "lst = BUFSIZE \<longrightarrow> cnt \<noteq> 0 \<and> ls \<noteq> 0" "NEWLINE \<notin> set T"
  obtains D d s1 out where "grep_lines os s (length S) fname lst cnt dat ls st = Some (length D, d, s1)" "run_of d 0 (length D) = D" "D = T \<or> D = [] \<and> R = []"
    "length D < BUFSIZE" "cnt = 0 \<longrightarrow> D = []" "d BUFSIZE \<noteq> NEWLINE" "ok s1" "rest s1 = rest st" "screen s1 = print out (screen st)"
    "out @ grep_output S (run_of fname 0 nf) (D @ R) = grep_output S (run_of fname 0 nf) (T @ R)"
proof -
  define d where "d = dat(lst := NUL)"
  have le: "scan (\<lambda>i. NEWLINE \<noteq> dat i) ls (lst - ls) = lst" using line_end_none [OF assms(7,12)] assms(8) by simp
  have T: "run_of d ls (length T) = T" "d (ls + length T) = NUL" "d BUFSIZE \<noteq> NEWLINE"
    using assms(7,8,10) by (auto simp: run_of_eq_iff d_def)
  show thesis
  proof (cases "NEWLINE \<noteq> dat lst \<and> 0 \<noteq> cnt \<and> ls \<noteq> 0")
    case True
    obtain d' where d': "copy_down d ls 0 = Some d'" "run_of d' 0 (length T) = T" "\<forall>i>length T. d' i = d i"
      using copy_down_run [of ls d T] True T assms(9) by auto
    have "grep_lines os s (length S) fname lst cnt dat ls st = Some (length T, d', st)"
      using grep_lines_copy [OF le True, of d'] d'(1) assms(8) by (simp add: d_def)
    moreover have "length T < BUFSIZE" "d' BUFSIZE \<noteq> NEWLINE" using d'(3) T(3) True assms(4,8) by auto
    ultimately show thesis using that [of T d' st "[]"] d'(2) True assms(6) by (simp add: print_nil)
  next
    case last_line: False
    then have R: "R = []" using assms(4,5,10,11) by (cases "lst = BUFSIZE") auto
    obtain s1 where s1: "(if line_matches s (length S) d ls (lst - ls) then print_match os fname d ls st else Some st) = Some s1" "ok s1" "rest s1 = rest st"
      "screen s1 = print (grep_output S (run_of fname 0 nf) T) (screen st)"
      using search_line [OF assms(6,1-3) T(1,2) assms(9,12)] assms(4,8) by (auto simp: BUFSIZE_def)
    have "grep_lines os s (length S) fname lst cnt dat ls st = Some (0, d, s1)"
      using grep_lines_next [OF le last_line d_def s1(1)] by simp
    moreover have "grep_output S (run_of fname 0 nf) [] = []" using assms(3) by (simp add: output_plain pattern_ok_def)
    ultimately show thesis using that [of "[]" d s1] s1 R T(3) by (simp add: BUFSIZE_def)
  qed
qed

text \<open>
  The lines of the buffer from \<open>line_start\<close> on, with \<open>T\<close> the bytes there and \<open>R\<close> what the file
  still has: afterwards the buffer holds an incomplete line \<open>D\<close>, and what was printed and
  what the rest will give make up what was to be printed.
\<close>

lemma grep_lines_prints:
  assumes "is_cstring fname nf" "nf < 2 ^ 31" "pattern_ok s S" "lst \<le> BUFSIZE" "lst < BUFSIZE \<longrightarrow> R = []"
  shows "ok st \<Longrightarrow> run_of dat ls (length T) = T \<Longrightarrow> lst = ls + length T \<Longrightarrow> NUL \<notin> set T \<Longrightarrow> dat BUFSIZE \<noteq> NEWLINE \<Longrightarrow>
    lst = BUFSIZE \<longrightarrow> cnt \<noteq> 0 \<and> (ls \<noteq> 0 \<or> NEWLINE \<in> set T) \<Longrightarrow> short_lines (T @ R) \<Longrightarrow>
    \<exists>D dat' st' out. grep_lines os s (length S) fname lst cnt dat ls st = Some (length D, dat', st') \<and>
      run_of dat' 0 (length D) = D \<and> NUL \<notin> set D \<and> NEWLINE \<notin> set D \<and> length D < BUFSIZE \<and> (cnt = 0 \<longrightarrow> D = []) \<and> dat' BUFSIZE \<noteq> NEWLINE \<and>
      ok st' \<and> rest st' = rest st \<and> short_lines (D @ R) \<and> screen st' = print out (screen st) \<and>
      out @ grep_output S (run_of fname 0 nf) (D @ R) = grep_output S (run_of fname 0 nf) (T @ R)"
proof (induction "length T" arbitrary: T ls dat st rule: less_induct)
  case less
  let ?go = "grep_output S (run_of fname 0 nf)"
  show ?case
  proof (cases "NEWLINE \<in> set T")
    case True
    then obtain L T' where T: "T = L @ NEWLINE # T'" "NEWLINE \<notin> set L" by (metis split_list_first)
    from grep_lines_line [OF assms(1-4) less.prems(1-5) T, where cnt = cnt]
    obtain d s1 where T': "run_of d (ls + length L + 1) (length T') = T'" "d BUFSIZE \<noteq> NEWLINE"
      and s1: "ok s1" "rest s1 = rest st" "screen s1 = print (?go L) (screen st)"
      and step: "grep_lines os s (length S) fname lst cnt dat ls st =
        (if T' = [] then Some (0, d, s1) else grep_lines os s (length S) fname lst cnt d (ls + length L + 1) s1)" by blast
    have out: "?go (T @ R) = ?go L @ ?go (T' @ R)" using output_line [OF T(2), of S "run_of fname 0 nf" "T' @ R"] T(1) by simp
    have sh: "short_lines (T' @ R)" using less.prems(7) T by simp
    show ?thesis
    proof (cases "T' = []")
      case True
      then show ?thesis using step s1 out T'(2) sh by (intro exI [of _ "[]"]) (auto simp: BUFSIZE_def)
    next
      case False
      have "length T' < length T" "lst = ls + length L + 1 + length T'" "NUL \<notin> set T'"
        "lst = BUFSIZE \<longrightarrow> cnt \<noteq> 0 \<and> (ls + length L + 1 \<noteq> 0 \<or> NEWLINE \<in> set T')"
        using T less.prems(3,4,6) by auto
      from less.hyps [OF this(1) s1(1) T'(1) this(2,3) T'(2) this(4) sh]
      show ?thesis using False unfolding step out s1(2,3) print_append [symmetric] append_assoc by (simp only: if_False) (metis append_assoc)
    qed
  next
    case False
    then have "lst = BUFSIZE \<longrightarrow> cnt \<noteq> 0 \<and> ls \<noteq> 0" using less.prems(6) by simp
    from grep_lines_rest [OF assms less.prems(1-5) this False]
    obtain D d s1 out where r: "grep_lines os s (length S) fname lst cnt dat ls st = Some (length D, d, s1)" "run_of d 0 (length D) = D" "D = T \<or> D = [] \<and> R = []"
      "length D < BUFSIZE" "cnt = 0 \<longrightarrow> D = []" "d BUFSIZE \<noteq> NEWLINE" "ok s1" "rest s1 = rest st" "screen s1 = print out (screen st)"
      "out @ ?go (D @ R) = ?go (T @ R)" by blast
    have "NUL \<notin> set D" "NEWLINE \<notin> set D" "short_lines (D @ R)" using r(3) less.prems(4,7) False by auto
    then show ?thesis using r by blast
  qed
qed

lemma grep_loop_prints:
  assumes "is_cstring fname nf" "nf < 2 ^ 31" "pattern_ok s S"
  shows "ok st \<Longrightarrow> run_of dat 0 (length D) = D \<Longrightarrow> NUL \<notin> set D \<Longrightarrow> NUL \<notin> set (data st) \<Longrightarrow> length D < BUFSIZE \<Longrightarrow>
    dat BUFSIZE \<noteq> NEWLINE \<Longrightarrow> short_lines (D @ data st) \<Longrightarrow>
    \<exists>st'. grep_loop os s (length S) fname fd (length D) dat st = Some (0, st') \<and>
      screen st' = print (grep_output S (run_of fname 0 nf) (D @ data st)) (screen st)"
proof (induction "length (data st)" arbitrary: st D dat rule: less_induct)
  case less
  let ?go = "grep_output S (run_of fname 0 nf)"
  define n where "n = BUFSIZE - length D"
  define m where "m = min n (length (data st))"
  define T where "T = D @ take n (data st)"
  have n: "n < 2 ^ 30" "0 < n" "length D + n = BUFSIZE" using less.prems(5) by (simp_all add: n_def BUFSIZE_def)
  obtain b s1 where rd: "ece391_read os fd (from_offset dat (length D)) (of_nat n) st = Some (of_nat m, b, s1)" "run_of b 0 m = take n (data st)"
    "ok s1" "screen s1 = screen st" "data s1 = drop n (data st)"
    using read_gives [OF less.prems(1) n(1), of "from_offset dat (length D)"] unfolding m_def by blast
  have "m < 2 ^ 30" "m = 0 \<longleftrightarrow> data st = []" using n by (auto simp: m_def min_def)
  then have m: "unat (of_nat m :: s32) = m" "(of_nat m :: s32) \<noteq> - 1" "(of_nat m :: s32) = 0 \<longleftrightarrow> data st = []"
    using small_not_fail32 [of m] by (auto simp: unat_of_nat word_unat_eq_iff)
  define d where "d = into_offset dat (length D) b"
  have len: "length T = length D + m" by (simp add: T_def m_def min.commute)
  have "b j = take n (data st) ! j" if "j < m" for j using rd(2) that by (metis add_0 nth_run_of)
  moreover have "dat j = D ! j" if "j < length D" for j using less.prems(2) that by (metis add_0 nth_run_of)
  ultimately have T: "run_of d 0 (length T) = T" unfolding run_of_eq_iff len by (auto simp: d_def into_offset_def T_def nth_append)
  have dB: "d BUFSIZE \<noteq> NEWLINE"
    using read_frame [OF less.prems(1) n(1) rd(1), of n] n(3) less.prems(5,6) by (auto simp: d_def into_offset_def from_offset_def n_def)
  have sh: "short_lines (T @ data s1)" "T @ data s1 = D @ data st" using less.prems(7) rd(5) by (simp_all add: T_def)
  have hyp: "length T \<le> BUFSIZE" "length T < BUFSIZE \<longrightarrow> data s1 = []" "NUL \<notin> set T"
    using n len less.prems(3,4) rd(5) by (auto simp: m_def T_def dest: in_set_takeD)
  have full: "length T = BUFSIZE \<longrightarrow> (of_nat m :: s32) \<noteq> 0 \<and> (0 \<noteq> (0 :: nat) \<or> NEWLINE \<in> set T)"
    using short_lines_newline [OF sh(1)] len m(3) less.prems(5) by (auto simp: m_def)
  obtain D' d' s2 out where l: "grep_lines os s (length S) fname (length T) (of_nat m) d 0 s1 = Some (length D', d', s2)"
    "run_of d' 0 (length D') = D'" "NUL \<notin> set D'" "length D' < BUFSIZE" "(of_nat m :: s32) = 0 \<longrightarrow> D' = []" "d' BUFSIZE \<noteq> NEWLINE"
    "ok s2" "rest s2 = rest s1" "short_lines (D' @ data s1)" "screen s2 = print out (screen s1)" "out @ ?go (D' @ data s1) = ?go (T @ data s1)"
    using grep_lines_prints [OF assms hyp(1,2) rd(3) T _ hyp(3) dB full sh(1)] by auto
  have ds: "data s2 = drop n (data st)" using data_rest [OF l(8)] rd(5) by simp
  have step: "grep_loop os s (length S) fname fd (length D) dat st =
      (if (of_nat m :: s32) = 0 then Option.bind (ece391_close os fd s2) (\<lambda>(r, st). if - 1 = r then give_up os (line ''file close failed'') (- 1) st else Some (0, st))
       else grep_loop os s (length S) fname fd (length D') d' s2)"
    using rd(1) m(1,2) l(1)
    by (subst grep_loop.simps) (auto simp: n_def [symmetric] Let_def d_def [symmetric] len eq_commute [of "- 1 :: s32"])
  show ?case
  proof (cases "data st = []")
    case True
    then have "?go [] = []" "D' = []" "data s1 = []" using assms(3) m(3) l(5) rd(5) by (simp_all add: output_plain pattern_ok_def)
    then show ?thesis using step True m(3) close_ends [OF l(7)] l(10,11) rd(4) sh(2) by auto
  next
    case False
    have "length (data s2) < length (data st)" "NUL \<notin> set (data s2)" "short_lines (D' @ data s2)"
      using False n(2) less.prems(4) l(9) by (auto simp: ds rd(5) dest: in_set_dropD)
    then obtain s3 where "grep_loop os s (length S) fname fd (length D') d' s2 = Some (0, s3)" "screen s3 = print (?go (D' @ data s2)) (screen s2)"
      using less.hyps [of s2 d' D'] l by blast
    then show ?thesis using step False m(3) l(10,11) rd(4,5) ds sh(2) by (auto simp: print_append [symmetric])
  qed
qed

end

text \<open>The kernel is such a system, for a descriptor that is open on a file.\<close>

lemma kernel_close_file:
  assumes "file_ready fd k"
  shows "ece391_close (kernel_os p) fd (es, k) = Some (0, es, on_proc (close_fd fd) k)"
  using assms by (auto simp: kernel_calls sys_close_def check_valid_fd_def jump_table_def k_fds_def file_ready_def file_fd_ok_def fd_ready_def
      tables_ready_def file_close_def fd_consts)

interpretation kernel_text: text_os "kernel_os p" "\<lambda>(es, k). p \<noteq> 0 \<and> file_ready fd k \<and> own_fds k0 k" k_screen k_print k_rest fd "\<lambda>(es, k). file_rest fd k" for p k0 fd
proof
  fix s s' :: "irq list \<times> kernel" and n i buf buf' r
  assume s: "case s of (es, k) \<Rightarrow> p \<noteq> 0 \<and> file_ready fd k \<and> own_fds k0 k" "n < (2 :: nat) ^ 30"
    and r: "ece391_read (kernel_os p) fd buf (of_nat n) s = Some (r, buf', s')" "n \<le> i"
  obtain es k where k: "s = (es, k)" by fastforce
  have u: "unat (of_nat n :: u32) = n" using s(2) by (simp add: unat_of_nat)
  have "check_valid_fd fd (k_proc k) \<noteq> 0" "op_read (jump_table fd (k_proc k)) = File_read"
    using s(1) k by (auto simp: file_ready_def file_fd_ok_def check_valid_fd_def k_fds_def jump_table_def fd_ready_def tables_ready_def fd_consts)
  then have "buf' = snd (read_data (k_fs k) (get_inode_ptr fd (k_proc k)) (get_file_position fd (k_proc k)) buf (of_nat n))"
    using r(1) s(1) k by (simp add: kernel_calls sys_read_def file_read_def case_prod_beta)
  then show "buf' i = buf i" using read_data_bounds [of "of_nat n" i] u r(2) by simp
next
  fix s :: "irq list \<times> kernel"
  assume "case s of (es, k) \<Rightarrow> p \<noteq> 0 \<and> file_ready fd k \<and> own_fds k0 k"
  then show "\<exists>s'. ece391_close (kernel_os p) fd s = Some (0, s') \<and> k_screen s' = k_screen s"
    using kernel_close_file by (cases s) (auto simp: k_screen_def cur_term_def close_fd_def)
qed

section \<open>Properties\<close>

text \<open>
  C12. \<^verbatim>\<open>grep\<close> finds the lines: \<^verbatim>\<open>do_one_file\<close>, run by the kernel on a regular file of text whose
  lines are shorter than its buffer, returns 0, and what has appeared on the screen is one line
  \<open>name:text\<close> for every line of the file that contains the pattern, in their order. Where the
  file ends within a line and how its lines fall across the reads of 1024 bytes does not
  matter. The pattern must start with an ASCII character, and the byte behind the buffer,
  which the routine reads without having set it, must not be a newline.
\<close>

theorem grep_finds_lines:
  assumes "fd_ready k" "p \<noteq> 0" "free_fds (k_fds k) \<noteq> []"
    and "is_cstring fname nf" "nf < 2 ^ 31" "pattern_ok s S" "dat BUFSIZE \<noteq> NEWLINE"
    and "read_dentry_by_name (k_fs k) fname (stack_dentry k) = (0, d)" "file_type d = 2"
    and "inode_idx d < num_inodes (k_fs k)" "sound_inode (k_fs k) (unat (inode_idx d))" "file_size (k_fs k) (unat (inode_idx d)) < 2 ^ 30"
    and "NUL \<notin> set (contents (k_fs k) (unat (inode_idx d)))" "short_lines (contents (k_fs k) (unat (inode_idx d)))"
  shows "\<exists>k'. do_one_file (kernel_os p) s fname dat (es, k) = Some (0, es, k') \<and> cur_term k' = cur_term k \<and>
    k_con k' = print_bytes (grep_output S (run_of fname 0 nf) (contents (k_fs k) (unat (inode_idx d)))) (cur_term k) (k_con k)"
proof -
  have "is_cstring s (length S)"
    using is_cstring_list [of S s] assms(6) by (auto simp: pattern_ok_def run_of_eq_iff)
  then have len: "ece391_strlen s = Some (length S)" by (rule ece391_strlen_cstring)
  obtain fd k1 where o: "ece391_open (kernel_os p) fname (es, k) = Some (fd, es, k1)" "fd \<noteq> - 1" "file_ready fd k1"
    "file_rest fd k1 = contents (k_fs k) (unat (inode_idx d))" "cur_term k1 = cur_term k" "k_con k1 = k_con k"
    using open_file_ready [OF assms(1-3,8) _ _ assms(10-12), of es] assms(9) by auto
  obtain es' k2 where "grep_loop (kernel_os p) s (length S) fname fd 0 dat (es, k1) = Some (0, es', k2)"
    "k_screen (es', k2) = k_print (grep_output S (run_of fname 0 nf) (file_rest fd k1)) (k_screen (es, k1))"
    using kernel_text.grep_loop_prints [OF assms(4-6), of p fd k1 "(es, k1)" dat "[]"] assms(2,7,13,14) o(3,4) by (auto simp: BUFSIZE_def)
  then show ?thesis using o len by (simp add: do_one_file_def k_screen_def k_print_def)
qed

lemma demo_text: "\<exists>T. contents (demo_fs 10) 0 = NEWLINE # T \<and> NEWLINE \<notin> set T \<and> NUL \<notin> set T \<and> length T = 39 \<and> take 3 T = [69, 76, 70]"
proof -
  define T where "T = tl (contents (demo_fs 10) 0)"
  have h: "contents (demo_fs 10) 0 = NEWLINE # T"
    using demo_magic [of 10] demo_contents(2) [of 10] by (cases "contents (demo_fs 10) 0") (auto simp: T_def)
  have "T ! j = demo_image 10 (8193 + j)" if "j < 39" for j using demo_contents(1) [of "Suc j" 10] that h by simp
  moreover have len: "length T = 39" using demo_contents(2) [of 10] h by simp
  ultimately have "NEWLINE \<notin> set T" "NUL \<notin> set T" by (auto simp: in_set_conv_nth demo_image_def)
  moreover have "take 3 T = [69, 76, 70]" using demo_magic [of 10] h by (simp add: take_Cons')
  ultimately show ?thesis using h len by blast
qed

theorem grep_finds_lines_witness:
  "\<exists>k'. do_one_file (kernel_os 4) (bytes_of [69, 76]) (bytes_of [115, 104]) (\<lambda>_. 0) ([], (demo_program (\<lambda>_. 0) (\<lambda>_. 0))\<lparr>k_fs := demo_fs 10\<rparr>) = Some (0, [], k') \<and>
     k_con k' = print_bytes ([115, 104, 58] @ tl (contents (demo_fs 10) 0) @ [10]) 0 blank_console"
proof -
  let ?k = "(demo_program (\<lambda>_. 0) (\<lambda>_. 0))\<lparr>k_fs := demo_fs 10\<rparr>"
  obtain T where T: "contents (demo_fs 10) 0 = NEWLINE # T" "NEWLINE \<notin> set T" "NUL \<notin> set T" "length T = 39" "take 3 T = [69, 76, 70]"
    using demo_text by blast
  have "T = [] @ [69, 76] @ 70 # drop 3 T" using append_take_drop_id [of 3 T] T(5) by simp
  then have "sublist [69, 76] T" unfolding sublist_def by blast
  then have out: "grep_output [69, 76] [115, 104] (contents (demo_fs 10) 0) = [115, 104, 58] @ T @ [10]"
    using output_line [of "[]" "[69, 76]" "[115, 104]" T] T(1,2) by (simp add: output_plain)
  have sh: "short_lines (contents (demo_fs 10) 0)"
    using short_lines_simps(2) [of "[]" T] T by (simp add: short_lines_def text_lines_plain BUFSIZE_def)
  have "fd_ready (demo_program (\<lambda>_. 0) (\<lambda>_. 0))" by (rule demo_program_ready)
  then have rdy: "fd_ready ?k" "k_fds ?k = fd_table_init (\<lambda>_. empty_fd)" "cur_term ?k = 0" "k_con ?k = blank_console"
    using demo_program_ready(2,4,5) [of "\<lambda>_. 0" "\<lambda>_. 0"] by (simp_all add: fd_ready_def k_fds_def cur_term_def)
  have b: "bytes_of [115, 104] 0 = 115" "bytes_of [115, 104] 1 = 104" "bytes_of [115, 104] 2 = NUL" by (simp_all add: bytes_of_def)
  note look = demo_fs_lookup(1) [OF b, of 10 "stack_dentry ?k"] demo_fs_lookup(2,3) [OF b, of 10]
  have "is_cstring (bytes_of [115, 104]) (length [115, 104 :: u8])" by (rule is_cstring_list) (simp_all add: bytes_of_def)
  then have c: "is_cstring (bytes_of [115, 104]) 2" by (simp add: eval_nat_numeral)
  have p: "pattern_ok (bytes_of [69, 76]) [69, 76]" using run_of_bytes_of [of "[69, 76]"] by (simp add: pattern_ok_def bytes_of_def)
  have f: "run_of (bytes_of [115, 104]) 0 2 = [115, 104]" using run_of_bytes_of [of "[115, 104]"] by (simp add: eval_nat_numeral)
  show ?thesis
    using grep_finds_lines [OF rdy(1) _ _ c _ p, of 4 "\<lambda>_. 0" "fill_dentry (demo_fs 10) 1 2 (stack_dentry ?k)" "[]"] look T out sh f
    by (auto simp: rdy fd_table_init_free fill_dentry_def demo_fs_fields demo_fs_sound demo_fs_size)
qed

end
