(* ===== verification/Blink.thy ===== *)
theory Blink
  imports User
begin

text \<open>
  The blinking characters of the program \<^verbatim>\<open>fish\<close>: the list of \<^verbatim>\<open>fish/blink.S\<close> and its storage in
  \<^verbatim>\<open>fish/fish.c\<close>. The structures live in an array, linked through their \<^verbatim>\<open>next\<close> pointers; a
  slot is free when its location is zero. The operations are related to a list of cells
  without pointers; a locale states what a client relies on.
\<close>

section \<open>Definitions\<close>

text \<open>A pointer to a structure is its index in the array; \<^verbatim>\<open>NULL\<close> is \<open>None\<close>.\<close>

record mp1_blink_struct =
  location :: u16
  on_char :: u8
  off_char :: u8
  on_length :: u16
  off_length :: u16
  countdown :: u16
  blink_status :: u16
  blink_next :: "nat option"

text \<open>The array, the head of the list, and the page behind \<^verbatim>\<open>vmem_base_addr\<close>.\<close>

record blinker =
  blink_array :: "nat \<Rightarrow> mp1_blink_struct"
  mp1_list_head :: "nat option"
  vmem :: bytes

definition BLINKS :: nat where "BLINKS = 80 * 25"

definition zero_blink :: mp1_blink_struct where
  "zero_blink = \<lparr>location = 0, on_char = 0, off_char = 0, on_length = 0, off_length = 0, countdown = 0, blink_status = 0, blink_next = None\<rparr>"

definition set_blink :: "nat \<Rightarrow> mp1_blink_struct \<Rightarrow> blinker \<Rightarrow> blinker" where
  "set_blink i e b = b\<lparr>blink_array := (blink_array b)(i := e)\<rparr>"

definition mp1_poke :: "u8 \<Rightarrow> nat \<Rightarrow> blinker \<Rightarrow> blinker" where
  "mp1_poke cl eax b = b\<lparr>vmem := (vmem b)(eax := cl)\<rparr>"

definition mp1_malloc :: "blinker \<Rightarrow> nat option" where
  "mp1_malloc b = (let i = scan (\<lambda>i. location (blink_array b i) \<noteq> 0) 0 BLINKS in if i < BLINKS then Some i else None)"

definition mp1_free :: "nat \<Rightarrow> blinker \<Rightarrow> blinker" where
  "mp1_free i b = set_blink i zero_blink b"

text \<open>One element in \<^verbatim>\<open>mp1_rtc_tasklet\<close>; the counter is compared as a signed number.\<close>

definition tasklet_step :: "nat \<Rightarrow> blinker \<Rightarrow> blinker" where
  "tasklet_step x b =
     (let e = (blink_array b x)\<lparr>countdown := countdown (blink_array b x) - 1\<rparr>
      in if 0 < sint (countdown e) then set_blink x e b
         else let (cl, dx) = (if blink_status e AND 1 \<noteq> 0 then (off_char e, off_length e) else (on_char e, on_length e))
              in mp1_poke cl (2 * unat (location e)) (set_blink x (e\<lparr>countdown := dx, blink_status := blink_status e XOR 1\<rparr>) b))"

partial_function (option) tasklet_loop :: "nat option \<Rightarrow> blinker \<Rightarrow> blinker option" where
  "tasklet_loop p b =
     (case p of None \<Rightarrow> Some b | Some x \<Rightarrow> tasklet_loop (blink_next (blink_array (tasklet_step x b) x)) (tasklet_step x b))"

definition mp1_rtc_tasklet :: "blinker \<Rightarrow> blinker option" where
  "mp1_rtc_tasklet b = tasklet_loop (mp1_list_head b) b"

partial_function (option) find_loop :: "u16 \<Rightarrow> (nat \<Rightarrow> mp1_blink_struct) \<Rightarrow> nat option \<Rightarrow> nat option option" where
  "find_loop ax bs p =
     (case p of None \<Rightarrow> Some None | Some x \<Rightarrow> if location (bs x) = ax then Some (Some x) else find_loop ax bs (blink_next (bs x)))"

definition mp1_find_helper :: "u32 \<Rightarrow> blinker \<Rightarrow> nat option option" where
  "mp1_find_helper arg b = find_loop (ucast arg) (blink_array b) (mp1_list_head b)"

text \<open>\<^verbatim>\<open>mp1_ioctl_add\<close>: the structure behind the argument is copied, checked, and copied into a free slot.\<close>

definition mp1_ioctl_add :: "mp1_blink_struct \<Rightarrow> blinker \<Rightarrow> s32 \<times> blinker" where
  "mp1_ioctl_add e b =
     (if location e \<ge> 80 * 25 then (- 1, b)
      else let e = e\<lparr>blink_status := 1, countdown := on_length e\<rparr>
           in case mp1_malloc b of None \<Rightarrow> (- 1, b)
              | Some i \<Rightarrow>
                  let b = set_blink i e b;
                      b = set_blink i (e\<lparr>blink_next := mp1_list_head b\<rparr>) b;
                      b = b\<lparr>mp1_list_head := Some i\<rparr>
                  in (0, mp1_poke (on_char e) (2 * unat (location e)) b))"

text \<open>
  The search for the pointer to \<open>x\<close>: \<open>None\<close> is the head of the list, \<open>Some y\<close> the \<^verbatim>\<open>next\<close> field of
  \<open>y\<close>. It would follow a null pointer when \<open>x\<close> is not in the list.
\<close>

definition cell_at :: "nat option \<Rightarrow> blinker \<Rightarrow> nat option" where
  "cell_at c b = (case c of None \<Rightarrow> mp1_list_head b | Some y \<Rightarrow> blink_next (blink_array b y))"

definition set_cell :: "nat option \<Rightarrow> nat option \<Rightarrow> blinker \<Rightarrow> blinker" where
  "set_cell c p b = (case c of None \<Rightarrow> b\<lparr>mp1_list_head := p\<rparr> | Some y \<Rightarrow> set_blink y ((blink_array b y)\<lparr>blink_next := p\<rparr>) b)"

partial_function (option) remove_find_prev :: "nat \<Rightarrow> blinker \<Rightarrow> nat option \<Rightarrow> nat option option" where
  "remove_find_prev x b c =
     (case cell_at c b of None \<Rightarrow> None | Some y \<Rightarrow> if y = x then Some c else remove_find_prev x b (Some y))"

definition mp1_ioctl_remove :: "u32 \<Rightarrow> blinker \<Rightarrow> (s32 \<times> blinker) option" where
  "mp1_ioctl_remove arg b =
     Option.bind (mp1_find_helper arg b) (\<lambda>p.
       case p of None \<Rightarrow> Some (- 1, b)
       | Some x \<Rightarrow> Option.bind (remove_find_prev x b None) (\<lambda>c. Some (0, mp1_free x (set_cell c (blink_next (blink_array b x)) b))))"

text \<open>
  \<^verbatim>\<open>mp1_ioctl_sync\<close>. The character is chosen by a conditional move on the condition
  \<^verbatim>\<open>l\<close> (less, signed) after a test of bit 0 of the status byte.
\<close>

definition sync_char :: "mp1_blink_struct \<Rightarrow> u8" where
  "sync_char e = (if sint ((ucast (blink_status e) :: u8) AND 1) < 0 then on_char e else off_char e)"

definition mp1_ioctl_sync :: "u32 \<Rightarrow> blinker \<Rightarrow> (s32 \<times> blinker) option" where
  "mp1_ioctl_sync arg b =
     Option.bind (mp1_find_helper (drop_bit 16 arg) b) (\<lambda>p. case p of None \<Rightarrow> Some (- 1, b) | Some si \<Rightarrow>
     Option.bind (mp1_find_helper (arg AND 0xFFFF) b) (\<lambda>q. case q of None \<Rightarrow> Some (- 1, b) | Some di \<Rightarrow>
       let s = blink_array b si;
           e = (blink_array b di)\<lparr>on_length := on_length s, off_length := off_length s, countdown := countdown s, blink_status := blink_status s\<rparr>
       in Some (0, mp1_poke (sync_char e) (2 * unat (location e)) (set_blink di e b))))"

text \<open>\<^verbatim>\<open>mp1_ioctl_find\<close>: the structure behind the argument is overwritten with the one found.\<close>

definition mp1_ioctl_find :: "mp1_blink_struct \<Rightarrow> blinker \<Rightarrow> (s32 \<times> mp1_blink_struct) option" where
  "mp1_ioctl_find e b =
     Option.bind (mp1_find_helper (ucast (location e)) b) (\<lambda>p. case p of None \<Rightarrow> Some (- 1, e) | Some x \<Rightarrow> Some (0, blink_array b x))"

section \<open>Cells\<close>

text \<open>What the list stands for: its structures in order, without their pointers.\<close>

type_synonym cell = mp1_blink_struct

definition cell_of :: "mp1_blink_struct \<Rightarrow> cell" where
  "cell_of e = e\<lparr>blink_next := None\<rparr>"

fun linked :: "(nat \<Rightarrow> mp1_blink_struct) \<Rightarrow> nat option \<Rightarrow> nat list \<Rightarrow> bool" where
  "linked bs p [] \<longleftrightarrow> p = None"
| "linked bs p (x # xs) \<longleftrightarrow> p = Some x \<and> linked bs (blink_next (bs x)) xs"

definition used :: "blinker \<Rightarrow> nat set" where
  "used b = {i. i < BLINKS \<and> location (blink_array b i) \<noteq> 0}"

definition blinks_are :: "blinker \<Rightarrow> cell list \<Rightarrow> bool" where
  "blinks_are b cs \<longleftrightarrow> (\<exists>xs. linked (blink_array b) (mp1_list_head b) xs \<and> distinct xs \<and> set xs = used b \<and>
     cs = map (\<lambda>i. cell_of (blink_array b i)) xs \<and> (\<forall>c\<in>set cs. location c < 80 * 25))"

definition fresh_cell :: "mp1_blink_struct \<Rightarrow> cell" where
  "fresh_cell e = e\<lparr>blink_status := 1, countdown := on_length e, blink_next := None\<rparr>"

definition cell_tick :: "cell \<Rightarrow> cell" where
  "cell_tick c =
     (if 0 < sint (countdown c - 1) then c\<lparr>countdown := countdown c - 1\<rparr>
      else c\<lparr>countdown := (if blink_status c AND 1 \<noteq> 0 then off_length c else on_length c), blink_status := blink_status c XOR 1\<rparr>)"

definition char_of_cell :: "cell \<Rightarrow> u8" where
  "char_of_cell c = (if blink_status c AND 1 \<noteq> 0 then on_char c else off_char c)"

text \<open>The screen shows every cell.\<close>

definition shown :: "bytes \<Rightarrow> cell list \<Rightarrow> bool" where
  "shown v cs \<longleftrightarrow> distinct (map location cs) \<and> (\<forall>c\<in>set cs. v (2 * unat (location c)) = char_of_cell c)"

section \<open>The list in the array\<close>

lemma linked_cong: "(\<And>x. x \<in> set xs \<Longrightarrow> blink_next (bs x) = blink_next (bs' x)) \<Longrightarrow> linked bs p xs \<longleftrightarrow> linked bs' p xs"
  by (induction xs arbitrary: p) auto

lemma linked_unlink:
  "linked bs p (ys @ y # x # zs) \<Longrightarrow> distinct (ys @ y # x # zs) \<Longrightarrow>
   linked (bs(y := (bs y)\<lparr>blink_next := blink_next (bs x)\<rparr>)) p (ys @ y # zs)"
proof (induction ys arbitrary: p)
  case Nil
  then have "linked bs (blink_next (bs x)) zs" "y \<notin> set zs" by auto
  then have "linked (bs(y := (bs y)\<lparr>blink_next := blink_next (bs x)\<rparr>)) (blink_next (bs x)) zs" by (subst linked_cong [where bs' = bs]) auto
  then show ?case using Nil by (simp add: fun_upd_def)
qed auto

lemma find_loop_eq: "linked bs p xs \<Longrightarrow> find_loop ax bs p = Some (List.find (\<lambda>x. location (bs x) = ax) xs)"
proof (induction xs arbitrary: p)
  case (Cons x xs)
  then show ?case by (subst find_loop.simps) auto
qed (simp add: find_loop.simps)

lemma find_prev_eq:
  "linked (blink_array b) (cell_at c b) (ys @ x # zs) \<Longrightarrow> x \<notin> set ys \<Longrightarrow> remove_find_prev x b c = Some (if ys = [] then c else Some (last ys))"
proof (induction ys arbitrary: c)
  case Nil
  then show ?case by (subst remove_find_prev.simps) simp
next
  case (Cons y ys)
  then show ?case using Cons.IH [of "Some y"] by (subst remove_find_prev.simps) (auto simp: cell_at_def)
qed

lemma odd_status: "(s :: u16) AND 1 = 0 \<longleftrightarrow> even s" "even (s XOR 1) \<longleftrightarrow> odd s"
  by (simp_all add: and_one_eq even_xor_iff flip: even_iff_mod_2_eq_zero)

lemma tasklet_step_fields:
  "blink_array (tasklet_step x b) = (blink_array b)(x := cell_tick (blink_array b x))" "mp1_list_head (tasklet_step x b) = mp1_list_head b"
  "vmem (tasklet_step x b) = (if 0 < sint (countdown (blink_array b x) - 1) then vmem b
     else (vmem b)(2 * unat (location (blink_array b x)) := char_of_cell (cell_tick (blink_array b x))))"
  by (simp_all add: tasklet_step_def cell_tick_def Let_def set_blink_def mp1_poke_def char_of_cell_def odd_status)

lemma cell_tick_fields [simp]:
  "location (cell_tick c) = location c" "blink_next (cell_tick c) = blink_next c" "cell_of (cell_tick c) = cell_tick (cell_of c)"
  "on_length (cell_tick c) = on_length c" "off_length (cell_tick c) = off_length c" "on_char (cell_tick c) = on_char c" "off_char (cell_tick c) = off_char c"
  by (simp_all add: cell_tick_def cell_of_def)

lemma cell_of_fields [simp]:
  "location (cell_of e) = location e" "char_of_cell (cell_of e) = char_of_cell e" "cell_of (e\<lparr>blink_next := p\<rparr>) = cell_of e"
  "char_of_cell (cell_tick (cell_of e)) = char_of_cell (cell_tick e)"
  by (simp_all add: cell_of_def char_of_cell_def cell_tick_def)

lemma tick_same_char: "0 < sint (countdown c - 1) \<Longrightarrow> char_of_cell (cell_tick c) = char_of_cell c"
  by (simp add: cell_tick_def char_of_cell_def)

lemma tasklet_loop_eq: "linked (blink_array b) p xs \<Longrightarrow> distinct xs \<Longrightarrow> tasklet_loop p b = Some (fold tasklet_step xs b)"
proof (induction xs arbitrary: p b)
  case (Cons x xs)
  have "linked (blink_array (tasklet_step x b)) (blink_next (blink_array b x)) xs"
    using Cons.prems linked_cong [of xs "blink_array b" "blink_array (tasklet_step x b)"] by (auto simp: tasklet_step_fields)
  then have "tasklet_loop (blink_next (blink_array b x)) (tasklet_step x b) = Some (fold tasklet_step xs (tasklet_step x b))"
    using Cons.prems(2) by (intro Cons.IH) auto
  then show ?case using Cons.prems(1) by (subst tasklet_loop.simps) (simp add: tasklet_step_fields)
qed (simp add: tasklet_loop.simps)

lemma tasklet_fold_fields:
  "distinct xs \<Longrightarrow> blink_array (fold tasklet_step xs b) = (\<lambda>i. if i \<in> set xs then cell_tick (blink_array b i) else blink_array b i)"
  "mp1_list_head (fold tasklet_step xs b) = mp1_list_head b"
  by (induction xs arbitrary: b) (auto simp: tasklet_step_fields fun_eq_iff)

lemma tasklet_fold_vmem:
  "(\<And>x. x \<in> set xs \<Longrightarrow> p \<noteq> 2 * unat (location (blink_array b x))) \<Longrightarrow> vmem (fold tasklet_step xs b) p = vmem b p"
proof (induction xs arbitrary: b)
  case (Cons x xs)
  have "location (blink_array (tasklet_step x b) y) = location (blink_array b y)" for y by (simp add: tasklet_step_fields)
  then have "vmem (fold tasklet_step xs (tasklet_step x b)) p = vmem (tasklet_step x b) p" using Cons by (intro Cons.IH) auto
  then show ?case using Cons.prems [of x] by (simp add: tasklet_step_fields)
qed simp

lemma tasklet_fold_shown:
  "distinct xs \<Longrightarrow> shown (vmem b) (map (\<lambda>i. cell_of (blink_array b i)) xs) \<Longrightarrow>
   shown (vmem (fold tasklet_step xs b)) (map (\<lambda>i. cell_of (cell_tick (blink_array b i))) xs)"
proof (induction xs arbitrary: b)
  case (Cons x xs)
  let ?b = "tasklet_step x b"
  have loc: "location (blink_array b y) \<noteq> location (blink_array b x)" if "y \<in> set xs" for y
    using Cons.prems that by (auto simp: shown_def o_def rev_image_eqI)
  have arr: "blink_array ?b y = blink_array b y" if "y \<in> set xs" for y using Cons.prems(1) that by (auto simp: tasklet_step_fields)
  have "shown (vmem ?b) (map (\<lambda>i. cell_of (blink_array ?b i)) xs)"
    using Cons.prems loc arr by (auto simp: shown_def tasklet_step_fields o_def word_unat_eq_iff cong: map_cong)
  then have IH: "shown (vmem (fold tasklet_step xs ?b)) (map (\<lambda>i. cell_of (cell_tick (blink_array ?b i))) xs)"
    using Cons.prems(1) by (intro Cons.IH) auto
  have tail: "map (\<lambda>i. cell_of (cell_tick (blink_array ?b i))) xs = map (\<lambda>i. cell_of (cell_tick (blink_array b i))) xs"
    using arr by (intro map_cong) auto
  have "vmem (fold tasklet_step xs ?b) (2 * unat (location (blink_array b x))) = vmem ?b (2 * unat (location (blink_array b x)))"
    by (rule tasklet_fold_vmem) (use loc arr in \<open>metis mult_left_cancel unsigned_word_eqI zero_neq_numeral\<close>)
  also have "\<dots> = char_of_cell (cell_tick (blink_array b x))"
    using Cons.prems(2) by (auto simp: tasklet_step_fields shown_def tick_same_char)
  finally show ?case using IH Cons.prems(2) unfolding tail by (simp add: shown_def o_def)
qed (simp add: shown_def)

section \<open>The operations on cells\<close>

lemma malloc_free:
  assumes "mp1_malloc b = Some i"
  shows "i < BLINKS" "location (blink_array b i) = 0"
  using assms scan_stop [of "\<lambda>i. location (blink_array b i) \<noteq> 0" 0 BLINKS] by (auto simp: mp1_malloc_def Let_def split: if_splits)

lemma malloc_full: "mp1_malloc b = None \<Longrightarrow> used b = {..<BLINKS}"
proof -
  assume "mp1_malloc b = None"
  then have "BLINKS \<le> scan (\<lambda>i. location (blink_array b i) \<noteq> 0) 0 BLINKS" by (auto simp: mp1_malloc_def Let_def split: if_splits)
  then have "location (blink_array b i) \<noteq> 0" if "i < BLINKS" for i using scan_prefix [of 0 i "\<lambda>i. location (blink_array b i) \<noteq> 0" BLINKS] that by auto
  then show ?thesis by (auto simp: used_def)
qed

text \<open>Cells at different places on the screen never fill the array.\<close>

lemma malloc_succeeds:
  assumes "blinks_are b cs" "distinct (map location cs)"
  obtains i where "mp1_malloc b = Some i"
proof (cases "mp1_malloc b")
  case None
  obtain xs where xs: "distinct xs" "set xs = used b" "cs = map (\<lambda>i. cell_of (blink_array b i)) xs" "\<forall>c\<in>set cs. location c < 80 * 25"
    using assms(1) by (auto simp: blinks_are_def)
  have "length cs = card (used b)" using xs by (metis distinct_card length_map)
  then have len: "length cs = 2000" using malloc_full [OF None] by (simp add: BLINKS_def)
  have "unat (location c) \<in> {1..<2000}" if "c \<in> set cs" for c
  proof -
    have "location c \<noteq> 0" using that xs by (auto simp: used_def)
    then show ?thesis using xs(4) that by (auto simp: word_less_nat_alt unat_gt_0 Suc_le_eq)
  qed
  then have "set (map (\<lambda>c. unat (location c)) cs) \<subseteq> {1..<2000}" by auto
  then have "card (set (map (\<lambda>c. unat (location c)) cs)) \<le> 1999" using card_mono [of "{1..<2000 :: nat}"] by fastforce
  moreover have "distinct (map (\<lambda>c. unat (location c)) cs)"
    using assms(2) by (auto simp: distinct_map inj_on_def word_unat_eq_iff)
  then have "card (set (map (\<lambda>c. unat (location c)) cs)) = length cs" using distinct_card by fastforce
  ultimately show ?thesis using len by simp
qed

lemma add_refines:
  assumes "blinks_are b cs" "shown (vmem b) cs" "location e \<noteq> 0" "location e < 80 * 25" "location e \<notin> location ` set cs"
  shows "\<exists>b'. mp1_ioctl_add e b = (0, b') \<and> blinks_are b' (fresh_cell e # cs) \<and> shown (vmem b') (fresh_cell e # cs)"
proof -
  obtain xs where xs: "linked (blink_array b) (mp1_list_head b) xs" "distinct xs" "set xs = used b" "cs = map (\<lambda>i. cell_of (blink_array b i)) xs"
    "\<forall>c\<in>set cs. location c < 80 * 25"
    using assms(1) by (auto simp: blinks_are_def)
  obtain i where i: "mp1_malloc b = Some i" using malloc_succeeds assms(1,2) by (auto simp: shown_def)
  note free = malloc_free [OF i]
  define e1 where "e1 = e\<lparr>blink_status := 1, countdown := on_length e, blink_next := mp1_list_head b\<rparr>"
  define b1 where "b1 = b\<lparr>blink_array := (blink_array b)(i := e1), mp1_list_head := Some i, vmem := (vmem b)(2 * unat (location e) := on_char e)\<rparr>"
  have add: "mp1_ioctl_add e b = (0, b1)"
    using assms(4) i by (simp add: mp1_ioctl_add_def set_blink_def mp1_poke_def b1_def e1_def Let_def)
  have ix: "i \<notin> set xs" using xs(3) free by (auto simp: used_def)
  have "linked (blink_array b1) (mp1_list_head b) xs"
    using xs(1) ix by (subst linked_cong [where bs' = "blink_array b"]) (auto simp: b1_def)
  moreover have "set (i # xs) = used b1" using xs(3) free assms(3) by (auto simp: used_def b1_def e1_def)
  moreover have "fresh_cell e # cs = map (\<lambda>j. cell_of (blink_array b1 j)) (i # xs)"
    using xs(4) ix by (auto simp: b1_def e1_def fresh_cell_def cell_of_def)
  ultimately have "blinks_are b1 (fresh_cell e # cs)"
    unfolding blinks_are_def using xs(2,5) ix assms(4) by (intro exI [of _ "i # xs"]) (auto simp: b1_def e1_def fresh_cell_def)
  moreover have "2 * unat (location c) \<noteq> 2 * unat (location e)" if "c \<in> set cs" for c
    using assms(5) that by (metis imageI mult_left_cancel unsigned_word_eqI zero_neq_numeral)
  then have "shown (vmem b1) (fresh_cell e # cs)"
    using assms(2,5) by (auto simp: shown_def b1_def fresh_cell_def char_of_cell_def)
  ultimately show ?thesis using add by blast
qed

lemma tasklet_refines:
  assumes "blinks_are b cs" "shown (vmem b) cs"
  shows "\<exists>b'. mp1_rtc_tasklet b = Some b' \<and> blinks_are b' (map cell_tick cs) \<and> shown (vmem b') (map cell_tick cs)"
proof -
  obtain xs where xs: "linked (blink_array b) (mp1_list_head b) xs" "distinct xs" "set xs = used b" "cs = map (\<lambda>i. cell_of (blink_array b i)) xs"
    "\<forall>c\<in>set cs. location c < 80 * 25"
    using assms(1) by (auto simp: blinks_are_def)
  let ?b = "fold tasklet_step xs b"
  note f = tasklet_fold_fields(1) [OF xs(2), of b] tasklet_fold_fields(2) [of xs b]
  have "linked (blink_array ?b) (mp1_list_head ?b) xs" unfolding f using xs(1) by (subst linked_cong [where bs' = "blink_array b"]) auto
  moreover have "used ?b = used b" by (auto simp: used_def f)
  ultimately have "blinks_are ?b (map cell_tick cs)"
    unfolding blinks_are_def using xs by (intro exI [of _ xs]) (auto simp: f)
  moreover have "shown (vmem ?b) (map cell_tick cs)" using tasklet_fold_shown [OF xs(2), of b] assms(2) xs(4) by (simp add: o_def)
  ultimately show ?thesis using tasklet_loop_eq [OF xs(1,2)] by (auto simp: mp1_rtc_tasklet_def)
qed

text \<open>The first cell at a place, in the array and in the list.\<close>

lemma find_helper_none:
  assumes "blinks_are b cs" "ucast arg \<notin> location ` set cs"
  shows "mp1_find_helper arg b = Some None"
proof -
  obtain xs where xs: "linked (blink_array b) (mp1_list_head b) xs" "cs = map (\<lambda>i. cell_of (blink_array b i)) xs"
    using assms(1) by (auto simp: blinks_are_def)
  then show ?thesis using find_loop_eq [OF xs(1), of "ucast arg"] assms(2) by (auto simp: mp1_find_helper_def find_None_iff image_image rev_image_eqI)
qed

lemma find_helper_some:
  assumes "linked (blink_array b) (mp1_list_head b) (ys @ x # zs)" "location (blink_array b x) = ucast arg" "\<forall>y\<in>set ys. location (blink_array b y) \<noteq> ucast arg"
  shows "mp1_find_helper arg b = Some (Some x)"
proof -
  have "List.find (\<lambda>x. location (blink_array b x) = ucast arg) (ys @ x # zs) = Some x"
    using assms(2,3) by (induction ys) auto
  then show ?thesis using find_loop_eq [OF assms(1), of "ucast arg"] by (simp add: mp1_find_helper_def)
qed

lemma list_at:
  assumes "blinks_are b cs" "cs = cs1 @ c # cs2" "location c \<notin> location ` set cs1"
  obtains ys x zs where "linked (blink_array b) (mp1_list_head b) (ys @ x # zs)" "distinct (ys @ x # zs)" "set (ys @ x # zs) = used b"
    "cs1 = map (\<lambda>i. cell_of (blink_array b i)) ys" "c = cell_of (blink_array b x)" "cs2 = map (\<lambda>i. cell_of (blink_array b i)) zs"
    "\<forall>y\<in>set ys. location (blink_array b y) \<noteq> location c"
proof -
  obtain xs where xs: "linked (blink_array b) (mp1_list_head b) xs" "distinct xs" "set xs = used b" "cs = map (\<lambda>i. cell_of (blink_array b i)) xs"
    using assms(1) by (auto simp: blinks_are_def)
  obtain ys x zs where s: "xs = ys @ x # zs" "cs1 = map (\<lambda>i. cell_of (blink_array b i)) ys" "c = cell_of (blink_array b x)" "cs2 = map (\<lambda>i. cell_of (blink_array b i)) zs"
    using xs(4) assms(2) by (auto simp: append_eq_map_conv Cons_eq_map_conv)
  have "\<forall>y\<in>set ys. location (blink_array b y) \<noteq> location c" using assms(3) s(2) by (auto simp: image_image rev_image_eqI)
  then show thesis using that xs s by blast
qed

lemma remove_refines:
  assumes "blinks_are b cs" "cs = cs1 @ c # cs2" "location c = ucast arg" "location c \<notin> location ` set cs1"
  shows "\<exists>b'. mp1_ioctl_remove arg b = Some (0, b') \<and> blinks_are b' (cs1 @ cs2) \<and> vmem b' = vmem b"
proof -
  obtain ys x zs where l: "linked (blink_array b) (mp1_list_head b) (ys @ x # zs)" "distinct (ys @ x # zs)" "set (ys @ x # zs) = used b"
    "cs1 = map (\<lambda>i. cell_of (blink_array b i)) ys" "c = cell_of (blink_array b x)" "cs2 = map (\<lambda>i. cell_of (blink_array b i)) zs"
    "\<forall>y\<in>set ys. location (blink_array b y) \<noteq> location c"
    using list_at [OF assms(1,2,4)] by metis
  have f: "mp1_find_helper arg b = Some (Some x)" using find_helper_some [OF l(1)] l(5,7) assms(3) by simp
  define p where "p = (if ys = [] then None else Some (last ys))"
  have prev: "remove_find_prev x b None = Some p" using find_prev_eq [of b None ys x zs] l(1,2) by (simp add: cell_at_def p_def)
  define b1 where "b1 = set_cell p (blink_next (blink_array b x)) b"
  define b2 where "b2 = mp1_free x b1"
  have arr: "blink_array b2 = (\<lambda>i. if i = x then zero_blink else blink_array b1 i)" "mp1_list_head b2 = mp1_list_head b1" "vmem b2 = vmem b"
    by (auto simp: b2_def b1_def mp1_free_def set_blink_def set_cell_def split: option.splits)
  have same: "cell_of (blink_array b1 i) = cell_of (blink_array b i)" "location (blink_array b1 i) = location (blink_array b i)" for i
    by (auto simp: b1_def set_cell_def set_blink_def split: option.splits)
  have "linked (blink_array b1) (mp1_list_head b1) (ys @ zs)"
  proof (cases ys rule: rev_cases)
    case Nil
    then show ?thesis using l(1) by (simp add: b1_def p_def set_cell_def)
  next
    case (snoc vs y)
    then show ?thesis using linked_unlink [of "blink_array b" "mp1_list_head b" vs y x zs] l(1,2) by (simp add: b1_def p_def set_cell_def set_blink_def)
  qed
  then have lk: "linked (blink_array b2) (mp1_list_head b2) (ys @ zs)"
    using l(2) unfolding arr by (subst linked_cong [where bs' = "blink_array b1"]) auto
  have us: "set (ys @ zs) = used b2"
    using l(2,3) by (auto simp: used_def arr same zero_blink_def)
  have cells: "cs1 @ cs2 = map (\<lambda>i. cell_of (blink_array b2 i)) (ys @ zs)" using l(2,4,6) by (auto simp: arr same)
  have "\<forall>d\<in>set (cs1 @ cs2). location d < 80 * 25" using assms(1,2) by (auto simp: blinks_are_def)
  then have "blinks_are b2 (cs1 @ cs2)" unfolding blinks_are_def using lk us cells l(2) by (intro exI [of _ "ys @ zs"]) auto
  then show ?thesis using f prev arr(3) by (simp add: mp1_ioctl_remove_def b1_def b2_def)
qed

lemma find_refines:
  assumes "blinks_are b cs" "cs = cs1 @ c # cs2" "location c = location e" "location c \<notin> location ` set cs1"
  shows "\<exists>e'. mp1_ioctl_find e b = Some (0, e') \<and> cell_of e' = c"
proof -
  obtain ys x zs where l: "linked (blink_array b) (mp1_list_head b) (ys @ x # zs)" "c = cell_of (blink_array b x)"
    "\<forall>y\<in>set ys. location (blink_array b y) \<noteq> location c"
    using list_at [OF assms(1,2,4)] by metis
  have "(ucast (ucast (location e) :: u32) :: u16) = location e" by (simp add: ucast_up_ucast_id is_up)
  then have "mp1_find_helper (ucast (location e)) b = Some (Some x)"
    using find_helper_some [OF l(1), of "ucast (location e)"] l(2,3) assms(3) by simp
  then show ?thesis using l(2) by (simp add: mp1_ioctl_find_def)
qed

text \<open>The condition of the conditional move never holds.\<close>

lemma sync_char_off: "sync_char e = off_char e"
proof -
  have "\<not> sint ((x :: u8) AND 1) < 0" for x by (cases "even x") (simp_all add: and_one_eq even_iff_mod_2_eq_zero odd_iff_mod_2_eq_one)
  then show ?thesis by (simp add: sync_char_def)
qed

section \<open>The interface of the list\<close>

text \<open>A client's use of the list: a sequence of additions, removals and clock ticks.\<close>

datatype blink_op = Add_blink mp1_blink_struct | Remove_blink u32 | Tick

fun run_ops ::
    "(mp1_blink_struct \<Rightarrow> 'b \<Rightarrow> s32 \<times> 'b) \<Rightarrow> (u32 \<Rightarrow> 'b \<Rightarrow> (s32 \<times> 'b) option) \<Rightarrow> ('b \<Rightarrow> 'b option) \<Rightarrow> blink_op list \<Rightarrow> 'b \<Rightarrow> (s32 list \<times> 'b) option" where
  "run_ops add remove tick [] b = Some ([], b)"
| "run_ops add remove tick (Add_blink e # ops) b =
     (let (r, b) = add e b in Option.bind (run_ops add remove tick ops b) (\<lambda>(rs, b). Some (r # rs, b)))"
| "run_ops add remove tick (Remove_blink a # ops) b =
     Option.bind (remove a b) (\<lambda>(r, b). Option.bind (run_ops add remove tick ops b) (\<lambda>(rs, b). Some (r # rs, b)))"
| "run_ops add remove tick (Tick # ops) b = Option.bind (tick b) (run_ops add remove tick ops)"

text \<open>The same on cells. An addition is legal at a place other than 0 that has no cell yet.\<close>

fun cells_after :: "blink_op list \<Rightarrow> cell list \<Rightarrow> cell list" where
  "cells_after [] cs = cs"
| "cells_after (Add_blink e # ops) cs = cells_after ops (if location e < 80 * 25 then fresh_cell e # cs else cs)"
| "cells_after (Remove_blink a # ops) cs = cells_after ops (filter (\<lambda>c. location c \<noteq> ucast a) cs)"
| "cells_after (Tick # ops) cs = cells_after ops (map cell_tick cs)"

fun results :: "blink_op list \<Rightarrow> cell list \<Rightarrow> s32 list" where
  "results [] cs = []"
| "results (Add_blink e # ops) cs = (if location e < 80 * 25 then 0 # results ops (fresh_cell e # cs) else - 1 # results ops cs)"
| "results (Remove_blink a # ops) cs =
     (if ucast a \<in> location ` set cs then 0 else - 1) # results ops (filter (\<lambda>c. location c \<noteq> ucast a) cs)"
| "results (Tick # ops) cs = results ops (map cell_tick cs)"

fun legal :: "blink_op list \<Rightarrow> cell list \<Rightarrow> bool" where
  "legal [] cs \<longleftrightarrow> True"
| "legal (Add_blink e # ops) cs \<longleftrightarrow> location e \<noteq> 0 \<and> location e \<notin> location ` set cs \<and> legal ops (if location e < 80 * 25 then fresh_cell e # cs else cs)"
| "legal (Remove_blink a # ops) cs \<longleftrightarrow> legal ops (filter (\<lambda>c. location c \<noteq> ucast a) cs)"
| "legal (Tick # ops) cs \<longleftrightarrow> legal ops (map cell_tick cs)"

locale blink_list =
  fixes holds :: "'b \<Rightarrow> cell list \<Rightarrow> bool" and add :: "mp1_blink_struct \<Rightarrow> 'b \<Rightarrow> s32 \<times> 'b"
    and remove :: "u32 \<Rightarrow> 'b \<Rightarrow> (s32 \<times> 'b) option" and tick :: "'b \<Rightarrow> 'b option"
  assumes add_new: "holds b cs \<Longrightarrow> location e \<noteq> 0 \<Longrightarrow> location e < 80 * 25 \<Longrightarrow> location e \<notin> location ` set cs \<Longrightarrow>
      \<exists>b'. add e b = (0, b') \<and> holds b' (fresh_cell e # cs)"
    and add_outside: "80 * 25 \<le> location e \<Longrightarrow> add e b = (- 1, b)"
    and remove_there: "holds b cs \<Longrightarrow> ucast a \<in> location ` set cs \<Longrightarrow> \<exists>b'. remove a b = Some (0, b') \<and> holds b' (filter (\<lambda>c. location c \<noteq> ucast a) cs)"
    and remove_none: "holds b cs \<Longrightarrow> ucast a \<notin> location ` set cs \<Longrightarrow> remove a b = Some (- 1, b)"
    and tick_all: "holds b cs \<Longrightarrow> \<exists>b'. tick b = Some b' \<and> holds b' (map cell_tick cs)"
begin

lemma run_ops_refines:
  "holds b cs \<Longrightarrow> legal ops cs \<Longrightarrow> \<exists>b'. run_ops add remove tick ops b = Some (results ops cs, b') \<and> holds b' (cells_after ops cs)"
proof (induction ops arbitrary: b cs)
  case (Cons op ops)
  show ?case
  proof (cases op)
    case (Add_blink e)
    show ?thesis
    proof (cases "location e < 80 * 25")
      case True
      then obtain b1 where b1: "add e b = (0, b1)" "holds b1 (fresh_cell e # cs)"
        using add_new [OF Cons.prems(1)] Cons.prems(2) Add_blink by auto
      show ?thesis using Cons.IH [OF b1(2)] Cons.prems(2) b1(1) Add_blink True by auto
    next
      case False
      then show ?thesis using Cons.IH [OF Cons.prems(1)] Cons.prems(2) Add_blink add_outside [of e b] by auto
    qed
  next
    case (Remove_blink a)
    show ?thesis
    proof (cases "ucast a \<in> location ` set cs")
      case True
      then obtain b1 where b1: "remove a b = Some (0, b1)" "holds b1 (filter (\<lambda>c. location c \<noteq> ucast a) cs)"
        using remove_there [OF Cons.prems(1)] by auto
      show ?thesis using Cons.IH [OF b1(2)] Cons.prems(2) b1(1) Remove_blink True by auto
    next
      case False
      then have "filter (\<lambda>c. location c \<noteq> ucast a) cs = cs" by (metis (mono_tags, lifting) filter_True imageI)
      then show ?thesis using Cons.IH [OF Cons.prems(1)] Cons.prems Remove_blink False remove_none [OF Cons.prems(1) False] by auto
    qed
  next
    case Tick
    obtain b1 where b1: "tick b = Some b1" "holds b1 (map cell_tick cs)" using tick_all [OF Cons.prems(1)] by auto
    show ?thesis using Cons.IH [OF b1(2)] Cons.prems(2) b1(1) Tick by auto
  qed
qed simp

lemma add_all:
  assumes "distinct (map location es)" "\<forall>e\<in>set es. location e \<noteq> 0 \<and> location e < 80 * 25"
  shows "holds b cs \<Longrightarrow> location ` set es \<inter> location ` set cs = {} \<Longrightarrow>
    holds (foldl (\<lambda>b e. snd (add e b)) b es) (rev (map fresh_cell es) @ cs)"
  using assms
proof (induction es arbitrary: b cs)
  case (Cons e es)
  obtain b1 where b1: "add e b = (0, b1)" "holds b1 (fresh_cell e # cs)" using add_new [of b cs e] Cons.prems by auto
  have "holds (foldl (\<lambda>b e. snd (add e b)) b1 es) (rev (map fresh_cell es) @ fresh_cell e # cs)"
    using Cons.prems b1(2) by (intro Cons.IH) (auto simp: fresh_cell_def)
  then show ?case using b1(1) by simp
qed simp

end

lemma filter_place:
  assumes "distinct (map location cs)" "l \<in> location ` set cs"
  obtains cs1 c cs2 where "cs = cs1 @ c # cs2" "location c = l" "l \<notin> location ` set cs1" "filter (\<lambda>c. location c \<noteq> l) cs = cs1 @ cs2"
proof -
  obtain cs1 c cs2 where cs: "cs = cs1 @ c # cs2" "location c = l" using assms(2) by (metis imageE split_list)
  then have n: "l \<notin> location ` set cs1" "l \<notin> location ` set cs2" using assms(1) by auto
  then have "filter (\<lambda>c. location c \<noteq> l) cs1 = cs1" "filter (\<lambda>c. location c \<noteq> l) cs2 = cs2" by (auto intro!: filter_True)
  then show thesis using that cs n by simp
qed

interpretation blinks: blink_list "\<lambda>b cs. blinks_are b cs \<and> shown (vmem b) cs" mp1_ioctl_add mp1_ioctl_remove mp1_rtc_tasklet
proof
  fix b :: blinker and cs a
  assume b: "blinks_are b cs \<and> shown (vmem b) cs" and a: "ucast (a :: u32) \<in> location ` set cs"
  have "distinct (map location cs)" using b by (simp add: shown_def)
  then obtain cs1 c cs2 where cs: "cs = cs1 @ c # cs2" "location c = ucast a" "ucast a \<notin> location ` set cs1" "filter (\<lambda>c. location c \<noteq> ucast a) cs = cs1 @ cs2"
    using filter_place a by metis
  obtain b' where "mp1_ioctl_remove a b = Some (0, b')" "blinks_are b' (cs1 @ cs2)" "vmem b' = vmem b"
    using remove_refines [of b cs cs1 c cs2 a] b cs by auto
  then show "\<exists>b'. mp1_ioctl_remove a b = Some (0, b') \<and> blinks_are b' (filter (\<lambda>c. location c \<noteq> ucast a) cs) \<and> shown (vmem b') (filter (\<lambda>c. location c \<noteq> ucast a) cs)"
    using b cs by (auto simp: shown_def)
next
  fix b :: blinker and cs a
  assume "blinks_are b cs \<and> shown (vmem b) cs" "ucast (a :: u32) \<notin> location ` set cs"
  then show "mp1_ioctl_remove a b = Some (- 1, b)" using find_helper_none [of b cs a] by (simp add: mp1_ioctl_remove_def)
qed (use add_refines tasklet_refines in \<open>auto simp: mp1_ioctl_add_def\<close>)

text \<open>The list before anything was added.\<close>

definition no_blinks :: "bytes \<Rightarrow> blinker" where
  "no_blinks v = \<lparr>blink_array = (\<lambda>_. zero_blink), mp1_list_head = None, vmem = v\<rparr>"

lemma no_blinks_are: "blinks_are (no_blinks v) []" "shown v []"
  by (simp_all add: blinks_are_def no_blinks_def used_def zero_blink_def shown_def)

section \<open>Phases\<close>

text \<open>A cell \<open>k\<close> ticks after it was added: on for its first length, off for its second, and so on.\<close>

definition at_phase :: "nat \<Rightarrow> cell \<Rightarrow> cell" where
  "at_phase m c = c\<lparr>countdown := of_nat (if m < unat (on_length c) then unat (on_length c) - m else unat (on_length c) + unat (off_length c) - m),
     blink_status := (if m < unat (on_length c) then 1 else 0)\<rparr>"

lemma sint_pred: "0 < n \<Longrightarrow> n < 2 ^ 15 \<Longrightarrow> 0 < sint ((of_nat n :: u16) - 1) \<longleftrightarrow> 2 \<le> n"
proof -
  assume n: "0 < n" "n < 2 ^ 15"
  have "(of_nat n :: u16) - 1 = of_nat (n - 1)" using n by simp
  moreover have "sint (of_nat j :: u16) = int j" if "j < 2 ^ 15" for j using that by (simp add: signed_of_nat signed_take_bit_int_eq_self)
  ultimately show ?thesis using n by (simp only:) auto
qed

lemma tick_phase:
  assumes "0 < unat (on_length c)" "0 < unat (off_length c)" "unat (on_length c) < 2 ^ 15" "unat (off_length c) < 2 ^ 15"
    and "m < unat (on_length c) + unat (off_length c)"
  shows "cell_tick (at_phase m c) = at_phase (Suc m mod (unat (on_length c) + unat (off_length c))) c"
proof -
  let ?a = "unat (on_length c)" and ?b = "unat (off_length c)"
  define n where "n = (if m < ?a then ?a - m else ?a + ?b - m)"
  have n: "0 < n" "n < 2 ^ 15" using assms by (auto simp: n_def)
  have cd: "countdown (at_phase m c) = of_nat n" by (simp add: at_phase_def n_def)
  have pred: "(of_nat n :: u16) - 1 = of_nat (n - 1)" using n(1) by simp
  show ?thesis
  proof (cases "2 \<le> n")
    case True
    then have "Suc m < ?a + ?b" "(Suc m < ?a) = (m < ?a)" "n - 1 = (if Suc m < ?a then ?a - Suc m else ?a + ?b - Suc m)"
      using assms(5) by (auto simp: n_def split: if_splits)
    then show ?thesis using sint_pred [OF n] True pred by (simp add: cell_tick_def cd) (simp add: at_phase_def)
  next
    case False
    then have "n = 1" using n by simp
    then have s: "Suc m = ?a \<and> m < ?a \<or> Suc m = ?a + ?b \<and> \<not> m < ?a" by (auto simp: n_def split: if_splits)
    then show ?thesis using sint_pred [OF n] False assms(1,2) by (auto simp: cell_tick_def cd) (auto simp: at_phase_def)
  qed
qed

lemma ticks_phase:
  assumes "0 < unat (on_length e)" "0 < unat (off_length e)" "unat (on_length e) < 2 ^ 15" "unat (off_length e) < 2 ^ 15"
  shows "(cell_tick ^^ k) (fresh_cell e) = at_phase (k mod (unat (on_length e) + unat (off_length e))) (fresh_cell e)"
proof (induction k)
  case 0
  then show ?case using assms by (simp add: at_phase_def fresh_cell_def)
next
  case (Suc k)
  have "k mod (unat (on_length e) + unat (off_length e)) < unat (on_length e) + unat (off_length e)" using assms by simp
  then show ?case using Suc tick_phase [of "fresh_cell e"] assms by (simp add: fresh_cell_def mod_Suc_eq)
qed

lemma ticks_after: "cells_after (replicate n Tick) cs = map (cell_tick ^^ n) cs" "legal (replicate n Tick) cs"
  by (induction n arbitrary: cs) (simp_all add: funpow_swap1 comp_def)

text \<open>Synchronising: the second cell takes over the timing of the first.\<close>

definition synced :: "cell \<Rightarrow> cell \<Rightarrow> cell" where
  "synced s c = c\<lparr>on_length := on_length s, off_length := off_length s, countdown := countdown s, blink_status := blink_status s\<rparr>"

lemma place_index:
  assumes "blinks_are b cs" "shown v cs" "c \<in> set cs" "location c = ucast arg"
  obtains x where "mp1_find_helper arg b = Some (Some x)" "x \<in> used b" "c = cell_of (blink_array b x)"
proof -
  have d: "distinct (map location cs)" using assms(2) by (simp add: shown_def)
  then obtain cs1 c' cs2 where cs: "cs = cs1 @ c' # cs2" "location c' = ucast arg" "ucast arg \<notin> location ` set cs1"
    using filter_place [OF d, of "ucast arg"] assms(3,4) by (metis imageI)
  obtain ys x zs where l: "linked (blink_array b) (mp1_list_head b) (ys @ x # zs)" "set (ys @ x # zs) = used b" "c' = cell_of (blink_array b x)"
    "\<forall>y\<in>set ys. location (blink_array b y) \<noteq> location c'"
    using list_at [OF assms(1) cs(1)] cs(2,3) by metis
  have "c = c'" using d assms(3,4) cs(1,2) by (metis distinct_map in_set_conv_decomp inj_onD)
  then show thesis using that find_helper_some [OF l(1)] l cs(2) by auto
qed

lemma sync_refines:
  assumes "blinks_are b cs" "shown (vmem b) cs" "s \<in> set cs" "t \<in> set cs" "location s = ucast (drop_bit 16 arg)" "location t = ucast (arg AND 0xFFFF)"
  shows "\<exists>b'. mp1_ioctl_sync arg b = Some (0, b') \<and> blinks_are b' (map (\<lambda>c. if location c = location t then synced s c else c) cs) \<and>
    vmem b' = (vmem b)(2 * unat (location t) := off_char t)"
proof -
  obtain x where x: "mp1_find_helper (drop_bit 16 arg) b = Some (Some x)" "s = cell_of (blink_array b x)" using place_index [OF assms(1,2,3,5)] by metis
  obtain y where y: "mp1_find_helper (arg AND 0xFFFF) b = Some (Some y)" "y \<in> used b" "t = cell_of (blink_array b y)" using place_index [OF assms(1,2,4,6)] by metis
  define e where "e = synced (blink_array b x) (blink_array b y)"
  define b1 where "b1 = b\<lparr>blink_array := (blink_array b)(y := e), vmem := (vmem b)(2 * unat (location t) := off_char t)\<rparr>"
  have r: "mp1_ioctl_sync arg b = Some (0, b1)"
    using x y by (simp add: mp1_ioctl_sync_def sync_char_off b1_def e_def synced_def set_blink_def mp1_poke_def cell_of_def Let_def)
  obtain xs where xs: "linked (blink_array b) (mp1_list_head b) xs" "distinct xs" "set xs = used b" "cs = map (\<lambda>i. cell_of (blink_array b i)) xs"
    "\<forall>c\<in>set cs. location c < 80 * 25"
    using assms(1) by (auto simp: blinks_are_def)
  have loc: "location (blink_array b i) = location t \<longleftrightarrow> i = y" if "i \<in> set xs" for i
  proof -
    have "inj_on (\<lambda>i. location (blink_array b i)) (set xs)" using assms(2) xs(2,4) by (simp add: shown_def o_def distinct_map)
    then show ?thesis using that y(2,3) xs(3) by (auto dest: inj_onD)
  qed
  have "linked (blink_array b1) (mp1_list_head b1) xs"
    using xs(1) by (subst linked_cong [where bs' = "blink_array b"]) (auto simp: b1_def e_def synced_def)
  moreover have "used b1 = used b" by (auto simp: used_def b1_def e_def synced_def)
  moreover have "map (\<lambda>c. if location c = location t then synced s c else c) cs = map (\<lambda>i. cell_of (blink_array b1 i)) xs"
    unfolding xs(4) map_map by (rule map_cong) (use loc x(2) in \<open>auto simp: b1_def e_def synced_def cell_of_def\<close>)
  moreover have "\<forall>c\<in>set (map (\<lambda>c. if location c = location t then synced s c else c) cs). location c < 80 * 25"
    using xs(5) by (auto simp: synced_def)
  ultimately have "blinks_are b1 (map (\<lambda>c. if location c = location t then synced s c else c) cs)"
    unfolding blinks_are_def using xs(2,3) by (intro exI [of _ xs]) metis
  then show ?thesis using r by (simp add: b1_def)
qed

text \<open>A list that leads back to its head is walked for ever.\<close>

lemma tasklet_self_loop:
  assumes "blink_next (blink_array b i) = Some i"
  shows "tasklet_loop (Some i) b = None"
proof -
  have "p = Some i \<longrightarrow> blink_next (blink_array b i) \<noteq> Some i" if t: "tasklet_loop p b = Some r" for p b r
  proof (rule tasklet_loop.raw_induct [OF _ t])
    fix loop p b r
    assume IH: "\<And>p b r. loop p b = Some r \<Longrightarrow> p = Some i \<longrightarrow> blink_next (blink_array b i) \<noteq> Some i"
      and l: "(case p of None \<Rightarrow> Some b | Some x \<Rightarrow> loop (blink_next (blink_array (tasklet_step x b) x)) (tasklet_step x b)) = Some r"
    show "p = Some i \<longrightarrow> blink_next (blink_array b i) \<noteq> Some i"
      using IH [of "blink_next (blink_array (tasklet_step i b) i)" "tasklet_step i b" r] l by (auto simp: tasklet_step_fields)
  qed
  then show ?thesis using assms by (cases "tasklet_loop (Some i) b") auto
qed

section \<open>Properties\<close>

text \<open>
  C14. The list of blinking characters does what a list of cells does: for every sequence of
  additions, removals and clock ticks in which a character is added only at a place other than
  0 that has none yet, each operation returns, with the result the cells give; the linked
  structures in the array stand for exactly the cells; and the screen shows at the place of every
  cell the character of its current phase. The array never runs out of slots.
\<close>

theorem blink_refines:
  assumes "blinks_are b cs" "shown (vmem b) cs" "legal ops cs"
  shows "\<exists>b'. run_ops mp1_ioctl_add mp1_ioctl_remove mp1_rtc_tasklet ops b = Some (results ops cs, b') \<and>
    blinks_are b' (cells_after ops cs) \<and> shown (vmem b') (cells_after ops cs)"
  using blinks.run_ops_refines [of b cs ops] assms by simp

definition demo_blink :: mp1_blink_struct where
  "demo_blink = \<lparr>location = 540, on_char = 73, off_char = 77, on_length = 7, off_length = 6, countdown = 0, blink_status = 0, blink_next = None\<rparr>"

theorem blink_refines_witness:
  "\<exists>b. run_ops mp1_ioctl_add mp1_ioctl_remove mp1_rtc_tasklet [Add_blink demo_blink, Tick, Remove_blink 540, Remove_blink 200] (no_blinks (\<lambda>_. 32)) = Some ([0, 0, - 1], b) \<and> blinks_are b []"
proof -
  let ?ops = "[Add_blink demo_blink, Tick, Remove_blink 540, Remove_blink 200]"
  have "results ?ops [] = [0, 0, - 1]" "cells_after ?ops [] = []" "legal ?ops []" "shown (vmem (no_blinks (\<lambda>_. 32))) []"
    by (simp_all add: demo_blink_def fresh_cell_def no_blinks_def no_blinks_are)
  then show ?thesis using blink_refines [OF no_blinks_are(1), of "\<lambda>_. 32" ?ops] by auto
qed

text \<open>
  A character blinks with its two lengths: added to the list and left alone for \<open>n\<close> clock ticks, it
  is on the screen as its first character when \<open>n\<close> modulo the sum of the lengths is below the first
  length, and as its second character otherwise.
\<close>

theorem blink_phase:
  assumes "blinks_are b cs" "shown (vmem b) cs" "location e \<noteq> 0" "location e < 80 * 25" "location e \<notin> location ` set cs"
    and "0 < unat (on_length e)" "0 < unat (off_length e)" "unat (on_length e) < 2 ^ 15" "unat (off_length e) < 2 ^ 15"
  shows "\<exists>rs b'. run_ops mp1_ioctl_add mp1_ioctl_remove mp1_rtc_tasklet (Add_blink e # replicate n Tick) b = Some (rs, b') \<and>
    vmem b' (2 * unat (location e)) = (if n mod (unat (on_length e) + unat (off_length e)) < unat (on_length e) then on_char e else off_char e)"
proof -
  let ?cs = "map (cell_tick ^^ n) (fresh_cell e # cs)"
  obtain b' where b': "run_ops mp1_ioctl_add mp1_ioctl_remove mp1_rtc_tasklet (Add_blink e # replicate n Tick) b =
      Some (results (Add_blink e # replicate n Tick) cs, b')" "shown (vmem b') ?cs"
    using blinks.run_ops_refines [of b cs "Add_blink e # replicate n Tick"] assms(1-5) by (auto simp: ticks_after)
  have loc: "location ((cell_tick ^^ n) (fresh_cell e)) = location e" by (induction n) (simp_all add: fresh_cell_def)
  have "vmem b' (2 * unat (location e)) = char_of_cell ((cell_tick ^^ n) (fresh_cell e))"
    using b'(2) loc by (auto simp: shown_def)
  also have "\<dots> = (if n mod (unat (on_length e) + unat (off_length e)) < unat (on_length e) then on_char e else off_char e)"
    unfolding ticks_phase [OF assms(6-9)] by (simp add: at_phase_def char_of_cell_def fresh_cell_def)
  finally show ?thesis using b'(1) by blast
qed

theorem blink_phase_witness:
  "\<exists>rs b. run_ops mp1_ioctl_add mp1_ioctl_remove mp1_rtc_tasklet (Add_blink demo_blink # replicate 200 Tick) (no_blinks (\<lambda>_. 32)) = Some (rs, b) \<and> vmem b 1080 = 73"
proof -
  have d: "location demo_blink = 540" "on_length demo_blink = 7" "off_length demo_blink = 6" "on_char demo_blink = 73" by (simp_all add: demo_blink_def)
  have "shown (vmem (no_blinks (\<lambda>_. 32))) []" by (simp add: no_blinks_def no_blinks_are)
  then show ?thesis using blink_phase [OF no_blinks_are(1), of "\<lambda>_. 32" demo_blink 200] unfolding d by auto
qed

text \<open>
  C20. Place 0 is not usable: the allocator takes a slot with location 0 for a free one. A character at
  place 0 followed by another one makes the list point to itself, and the next clock tick never
  returns.
\<close>

theorem place_zero_hangs:
  assumes "location e = 0" "location f < 80 * 25" "mp1_ioctl_add e b = (0, b1)" "mp1_ioctl_add f b1 = (0, b2)"
  shows "mp1_rtc_tasklet b2 = None"
proof -
  obtain i where i: "mp1_malloc b = Some i"
    and b1: "b1 = b\<lparr>blink_array := (blink_array b)(i := e\<lparr>blink_status := 1, countdown := on_length e, blink_next := mp1_list_head b\<rparr>), mp1_list_head := Some i, vmem := (vmem b)(0 := on_char e)\<rparr>"
    using assms(1,3) by (auto simp: mp1_ioctl_add_def Let_def set_blink_def mp1_poke_def split: option.splits if_splits)
  have "(location (blink_array b1 j) \<noteq> 0) = (location (blink_array b j) \<noteq> 0)" for j
    using malloc_free(2) [OF i] assms(1) by (simp add: b1)
  then have m: "mp1_malloc b1 = Some i" "mp1_list_head b1 = Some i" using i by (simp_all add: mp1_malloc_def b1)
  have "\<not> 80 * 25 \<le> location f" using assms(2) by (simp add: not_le)
  then have "blink_next (blink_array b2 i) = Some i" "mp1_list_head b2 = Some i"
    using assms(4) m by (auto simp: mp1_ioctl_add_def Let_def set_blink_def mp1_poke_def)
  then show ?thesis using tasklet_self_loop by (simp add: mp1_rtc_tasklet_def)
qed

theorem place_zero_hangs_witness:
  "\<exists>b1 b2. mp1_ioctl_add (demo_blink\<lparr>location := 0\<rparr>) (no_blinks (\<lambda>_. 32)) = (0, b1) \<and> mp1_ioctl_add demo_blink b1 = (0, b2) \<and> mp1_rtc_tasklet b2 = None"
proof -
  have m: "mp1_malloc b = Some 0" if "location (blink_array b 0) = 0" for b
    using scan_unique [of 0 0 BLINKS "\<lambda>i. location (blink_array b i) \<noteq> 0"] that by (simp add: mp1_malloc_def BLINKS_def)
  let ?e = "demo_blink\<lparr>location := 0\<rparr>"
  obtain b1 where b1: "mp1_ioctl_add ?e (no_blinks (\<lambda>_. 32)) = (0, b1)" "location (blink_array b1 0) = 0"
    using m [of "no_blinks (\<lambda>_. 32)"] by (simp add: mp1_ioctl_add_def no_blinks_def zero_blink_def set_blink_def mp1_poke_def Let_def demo_blink_def)
  obtain b2 where b2: "mp1_ioctl_add demo_blink b1 = (0, b2)"
    using m [OF b1(2)] by (simp add: mp1_ioctl_add_def demo_blink_def Let_def)
  show ?thesis using place_zero_hangs [of ?e demo_blink, OF _ _ b1(1) b2] b1(1) b2 by (simp add: demo_blink_def)
qed

text \<open>
  Synchronising draws the wrong character: when the first of the two cells is on, the second cell
  is on afterwards, but the screen shows its second character, since the condition of the
  conditional move that should choose the first one cannot hold.
\<close>

theorem sync_shows_off:
  assumes "blinks_are b cs" "shown (vmem b) cs" "s \<in> set cs" "t \<in> set cs" "location s = ucast (drop_bit 16 arg)" "location t = ucast (arg AND 0xFFFF)"
    and "char_of_cell s = on_char s" "on_char s \<noteq> off_char s"
  shows "\<exists>b' cs'. mp1_ioctl_sync arg b = Some (0, b') \<and> blinks_are b' cs' \<and> synced s t \<in> set cs' \<and> char_of_cell (synced s t) = on_char t \<and>
    vmem b' (2 * unat (location t)) = off_char t"
proof -
  have "char_of_cell (synced s t) = on_char t" using assms(7,8) by (auto simp: char_of_cell_def synced_def split: if_splits)
  moreover have "synced s t \<in> set (map (\<lambda>c. if location c = location t then synced s c else c) cs)" using assms(4) by (auto intro!: image_eqI [of _ _ t])
  ultimately show ?thesis using sync_refines [OF assms(1-6)] by force
qed

theorem sync_shows_off_witness:
  "\<exists>rs b b'. run_ops mp1_ioctl_add mp1_ioctl_remove mp1_rtc_tasklet [Add_blink (demo_blink\<lparr>location := 40\<rparr>), Add_blink demo_blink] (no_blinks (\<lambda>_. 32)) = Some (rs, b) \<and>
     mp1_ioctl_sync (40 * 65536 + 540) b = Some (0, b') \<and> vmem b 1080 = 73 \<and> vmem b' 1080 = 77"
proof -
  let ?s = "demo_blink\<lparr>location := 40\<rparr>"
  let ?ops = "[Add_blink ?s, Add_blink demo_blink]"
  have "legal ?ops []" "shown (vmem (no_blinks (\<lambda>_. 32))) []" by (simp_all add: demo_blink_def fresh_cell_def no_blinks_def no_blinks_are)
  then obtain b where b: "run_ops mp1_ioctl_add mp1_ioctl_remove mp1_rtc_tasklet ?ops (no_blinks (\<lambda>_. 32)) = Some (results ?ops [], b)"
    "blinks_are b [fresh_cell demo_blink, fresh_cell ?s]" "shown (vmem b) [fresh_cell demo_blink, fresh_cell ?s]"
    using blinks.run_ops_refines [of "no_blinks (\<lambda>_. 32)" "[]" ?ops] no_blinks_are(1) by (auto simp: demo_blink_def)
  have v: "vmem b 1080 = 73" using b(3) by (simp add: shown_def char_of_cell_def fresh_cell_def demo_blink_def)
  have "\<exists>b'. mp1_ioctl_sync (40 * 65536 + 540) b = Some (0, b') \<and> vmem b' (2 * unat (location (fresh_cell demo_blink))) = off_char (fresh_cell demo_blink)"
    using sync_shows_off [OF b(2,3), of "fresh_cell ?s" "fresh_cell demo_blink" "40 * 65536 + 540"]
    by (auto simp: fresh_cell_def demo_blink_def char_of_cell_def)
  then show ?thesis using b(1) v by (auto simp: fresh_cell_def demo_blink_def)
qed

end
