(* ===== verification/Fish.thy ===== *)
theory Fish
  imports Grep Blink
begin

text \<open>
  The program \<^verbatim>\<open>fish\<close>: it reads two pictures from files, byte by byte and side by side, and makes every
  place where they are not both blank blink between the two; then it lets the clock run.
  The result about \<^verbatim>\<open>add_frames\<close> is that the list of blinking characters is the picture.
\<close>

section \<open>Definitions\<close>

definition WAIT :: nat where "WAIT = 200"

text \<open>The next byte of a frame, unless its row has ended; the end of the file ends the row.\<close>

definition next_char :: "'s os \<Rightarrow> s32 \<Rightarrow> u8 \<Rightarrow> bool \<Rightarrow> 's \<Rightarrow> (u8 \<times> bool \<times> 's) option" where
  "next_char os fd c eof st =
     (if c \<noteq> NEWLINE
      then Option.bind (ece391_read os fd (\<lambda>_. c) 1 st) (\<lambda>(num_bytes, b, st). if num_bytes = 0 then Some (NEWLINE, True, st) else Some (b 0, eof, st))
      else Some (c, eof, st))"

text \<open>The structure for a place; \<open>e\<close> holds the fields that \<^verbatim>\<open>add_frames\<close> does not set.\<close>

definition frame_blink :: "mp1_blink_struct \<Rightarrow> nat \<Rightarrow> nat \<Rightarrow> u8 \<Rightarrow> u8 \<Rightarrow> mp1_blink_struct" where
  "frame_blink e rw cl c0 c1 =
     e\<lparr>on_length := 15, off_length := 15, on_char := (if c0 = NEWLINE then SPACE else c0), off_char := (if c1 = NEWLINE then SPACE else c1),
       location := of_nat (rw * 80 + cl + 40)\<rparr>"

partial_function (option) add_row ::
    "'s os \<Rightarrow> s32 \<Rightarrow> s32 \<Rightarrow> mp1_blink_struct \<Rightarrow> nat \<Rightarrow> nat \<Rightarrow> u8 \<Rightarrow> u8 \<Rightarrow> bool \<Rightarrow> bool \<Rightarrow> 's \<Rightarrow> blinker \<Rightarrow> (bool \<times> bool \<times> 's \<times> blinker) option" where
  "add_row os fd0 fd1 e rw cl c0 c1 eof0 eof1 st b =
     Option.bind (next_char os fd0 c0 eof0 st) (\<lambda>(c0, eof0, st).
     Option.bind (next_char os fd1 c1 eof1 st) (\<lambda>(c1, eof1, st).
       if c0 = NEWLINE \<and> c1 = NEWLINE then Some (eof0, eof1, st, b)
       else let b = (if c0 \<noteq> SPACE \<and> c0 \<noteq> NEWLINE \<or> c1 \<noteq> SPACE \<and> c1 \<noteq> NEWLINE then snd (mp1_ioctl_add (frame_blink e rw cl c0 c1) b) else b)
            in add_row os fd0 fd1 e rw (Suc cl) c0 c1 eof0 eof1 st b))"

definition next_row :: "'s os \<Rightarrow> s32 \<Rightarrow> bool \<Rightarrow> 's \<Rightarrow> (u8 \<times> 's) option" where
  "next_row os fd eof st =
     (if eof then Option.bind (ece391_close os fd st) (\<lambda>(r, st). Some (NEWLINE, st)) else Some (byte_of_char CHR ''0'', st))"

partial_function (option) add_rows ::
    "'s os \<Rightarrow> s32 \<Rightarrow> s32 \<Rightarrow> mp1_blink_struct \<Rightarrow> nat \<Rightarrow> u8 \<Rightarrow> u8 \<Rightarrow> bool \<Rightarrow> bool \<Rightarrow> 's \<Rightarrow> blinker \<Rightarrow> ('s \<times> blinker) option" where
  "add_rows os fd0 fd1 e rw c0 c1 eof0 eof1 st b =
     (if \<not> eof0 \<or> \<not> eof1
      then Option.bind (add_row os fd0 fd1 e rw 0 c0 c1 eof0 eof1 st b) (\<lambda>(eof0, eof1, st, b).
           Option.bind (next_row os fd0 eof0 st) (\<lambda>(c0, st).
           Option.bind (next_row os fd1 eof1 st) (\<lambda>(c1, st). add_rows os fd0 fd1 e (Suc rw) c0 c1 eof0 eof1 st b)))
      else Some (st, b))"

text \<open>\<open>Inl\<close> is the program halted with a status.\<close>

definition add_frames :: "'s os \<Rightarrow> mp1_blink_struct \<Rightarrow> bytes \<Rightarrow> bytes \<Rightarrow> 's \<Rightarrow> blinker \<Rightarrow> ((u8 \<times> 's, 's \<times> blinker) sum) option" where
  "add_frames os e f0 f1 st b =
     Option.bind (ece391_open os f0 st) (\<lambda>(fd0, st).
       if sint fd0 < 0 then Some (Inl (- 1, st))
       else Option.bind (ece391_open os f1 st) (\<lambda>(fd1, st).
              if sint fd1 < 0 then Some (Inl (- 1, st))
              else Option.bind (add_rows os fd0 fd1 e 0 (byte_of_char CHR ''0'') (byte_of_char CHR ''0'') False False st b) (\<lambda>(st, b). Some (Inr (st, b)))))"

text \<open>The program's own memory routines; their buffers do not overlap.\<close>

fun fish_memset :: "bytes \<Rightarrow> u8 \<Rightarrow> nat \<Rightarrow> bytes" where
  "fish_memset mem c 0 = mem"
| "fish_memset mem c (Suc n) = (fish_memset mem c n)(n := c)"

fun fish_memcpy :: "bytes \<Rightarrow> bytes \<Rightarrow> nat \<Rightarrow> s32 \<times> bytes" where
  "fish_memcpy d s 0 = (0, d)"
| "fish_memcpy d s (Suc n) = (0, (snd (fish_memcpy d s n))(n := s n))"

lemma fish_memory_routines:
  "fish_memset mem c n = (\<lambda>i. if i < n then c else mem i)" "fish_memcpy d s n = (0, \<lambda>i. if i < n then s i else d i)"
  by (induction n) auto

text \<open>A wait for the clock and a step of the animation, \<open>n\<close> times.\<close>

fun run_clock :: "'s os \<Rightarrow> s32 \<Rightarrow> nat \<Rightarrow> 's \<Rightarrow> blinker \<Rightarrow> ('s \<times> blinker) option" where
  "run_clock os rtc_fd 0 st b = Some (st, b)"
| "run_clock os rtc_fd (Suc n) st b =
     Option.bind (ece391_read os rtc_fd (\<lambda>_. 0) 4 st) (\<lambda>(r, g, st). Option.bind (mp1_rtc_tasklet b) (\<lambda>b. run_clock os rtc_fd n st b))"

text \<open>
  The main function. \<open>base\<close> reads \<^verbatim>\<open>vmem_base_addr\<close>, whose address is \<open>vp\<close>, out of the program's memory; \<open>b\<close> is
  the state of the list at the start, \<open>e\<close> what the stack holds where the structures are.
\<close>

definition I_blink :: "mp1_blink_struct \<Rightarrow> mp1_blink_struct" where
  "I_blink e = e\<lparr>on_char := byte_of_char CHR ''I'', off_char := byte_of_char CHR ''M'', on_length := 7, off_length := 6, location := 6 * 80 + 60\<rparr>"

definition mp1_set_video_mode :: "'s os \<Rightarrow> u32 \<Rightarrow> ('s \<Rightarrow> u32) \<Rightarrow> 's \<Rightarrow> (u32 \<times> 's) option" where
  "mp1_set_video_mode os vp base st = Option.bind (ece391_vidmap os vp st) (\<lambda>(r, st). Some (if r = - 1 then 0 else base st, st))"

definition fish_main :: "'s os \<Rightarrow> u32 \<Rightarrow> ('s \<Rightarrow> u32) \<Rightarrow> mp1_blink_struct \<Rightarrow> 's \<Rightarrow> blinker \<Rightarrow> (s32 \<times> 's \<times> blinker) option" where
  "fish_main os vp base e st b =
     (let b = b\<lparr>blink_array := (\<lambda>i. if i < BLINKS then zero_blink else blink_array b i)\<rparr>
      in Option.bind (mp1_set_video_mode os vp base st) (\<lambda>(a, st).
           if a = 0 then Some (- 1, st, b)
           else Option.bind (ece391_open os (cstr ''rtc'') st) (\<lambda>(rtc_fd, st).
                Option.bind (add_frames os e (cstr ''frame0.txt'') (cstr ''frame1.txt'') st b) (\<lambda>res.
                case res of Inl (status, st) \<Rightarrow> Some (ucast status, st, b)
                | Inr (st, b) \<Rightarrow>
                    Option.bind (ece391_write os rtc_fd (bytes_of [32, 0, 0, 0]) 4 st) (\<lambda>(r, st).
                    Option.bind (run_clock os rtc_fd WAIT st b) (\<lambda>(st, b).
                    Option.bind (run_clock os rtc_fd WAIT st (snd (mp1_ioctl_add (I_blink e) b))) (\<lambda>(st, b).
                    Option.bind (mp1_ioctl_sync (push_bit 16 40 OR (6 * 80 + 60)) b) (\<lambda>(r, b).
                    Option.bind (run_clock os rtc_fd WAIT st b) (\<lambda>(st, b).
                    Option.bind (mp1_ioctl_remove (of_nat WAIT) b) (\<lambda>(r, b).
                    Option.bind (run_clock os rtc_fd (80 * 25) st b) (\<lambda>(st, b).
                    Option.bind (ece391_close os rtc_fd st) (\<lambda>(r, st). Some (0, st, b)))))))))))))"

section \<open>The picture\<close>

fun row_blinks :: "mp1_blink_struct \<Rightarrow> nat \<Rightarrow> nat \<Rightarrow> u8 list \<Rightarrow> u8 list \<Rightarrow> mp1_blink_struct list" where
  "row_blinks e rw cl [] [] = []"
| "row_blinks e rw cl (x # xs) [] = (if x \<noteq> SPACE then [frame_blink e rw cl x SPACE] else []) @ row_blinks e rw (Suc cl) xs []"
| "row_blinks e rw cl [] (y # ys) = (if y \<noteq> SPACE then [frame_blink e rw cl SPACE y] else []) @ row_blinks e rw (Suc cl) [] ys"
| "row_blinks e rw cl (x # xs) (y # ys) = (if x \<noteq> SPACE \<or> y \<noteq> SPACE then [frame_blink e rw cl x y] else []) @ row_blinks e rw (Suc cl) xs ys"

fun frame_blinks :: "mp1_blink_struct \<Rightarrow> nat \<Rightarrow> u8 list list \<Rightarrow> u8 list list \<Rightarrow> mp1_blink_struct list" where
  "frame_blinks e rw [] [] = []"
| "frame_blinks e rw (l # ls) [] = row_blinks e rw 0 l [] @ frame_blinks e (Suc rw) ls []"
| "frame_blinks e rw [] (m # ms) = row_blinks e rw 0 [] m @ frame_blinks e (Suc rw) [] ms"
| "frame_blinks e rw (l # ls) (m # ms) = row_blinks e rw 0 l m @ frame_blinks e (Suc rw) ls ms"

section \<open>Reading the frames\<close>

text \<open>A system with files that are read byte by byte, independently of each other.\<close>

locale files_os =
  fixes os :: "'s os" and ok :: "'s \<Rightarrow> bool" and opn :: "'s \<Rightarrow> s32 \<Rightarrow> bool" and remaining :: "'s \<Rightarrow> s32 \<Rightarrow> u8 list"
  assumes read_byte: "ok s \<Longrightarrow> opn s fd \<Longrightarrow>
      \<exists>b s'. ece391_read os fd buf 1 s = Some (if remaining s fd = [] then 0 else 1, b, s') \<and> (remaining s fd \<noteq> [] \<longrightarrow> b 0 = hd (remaining s fd)) \<and>
        ok s' \<and> opn s' fd \<and> remaining s' fd = tl (remaining s fd) \<and> (\<forall>g. g \<noteq> fd \<longrightarrow> opn s g \<longrightarrow> opn s' g \<and> remaining s' g = remaining s g)"
    and close_any: "ok s \<Longrightarrow> \<exists>r s'. ece391_close os fd s = Some (r, s') \<and> ok s' \<and> (\<forall>g. g \<noteq> fd \<longrightarrow> opn s g \<longrightarrow> opn s' g \<and> remaining s' g = remaining s g)"

text \<open>What is left of a row and of its file, given the last byte read.\<close>

definition row_left :: "u8 \<Rightarrow> u8 list \<Rightarrow> u8 list" where
  "row_left c t = (if c = NEWLINE then [] else takeWhile (\<lambda>x. x \<noteq> NEWLINE) t)"

definition file_left :: "u8 \<Rightarrow> u8 list \<Rightarrow> u8 list" where
  "file_left c t = (if c = NEWLINE then t else drop (Suc (length (row_left c t))) t)"

definition hits_end :: "u8 \<Rightarrow> u8 list \<Rightarrow> bool" where
  "hits_end c t \<longleftrightarrow> c \<noteq> NEWLINE \<and> NEWLINE \<notin> set t"

lemma text_lines_rec:
  "c \<noteq> NEWLINE \<Longrightarrow> text_lines t = row_left c t # (if hits_end c t then [] else text_lines (file_left c t))"
  by (induction t) (auto simp: row_left_def file_left_def hits_end_def)

lemma row_blinks_step:
  assumes "row_left c0 t0 = (if c0' = NEWLINE then [] else c0' # row_left c0' t0')" "row_left c1 t1 = (if c1' = NEWLINE then [] else c1' # row_left c1' t1')"
    and "\<not> (c0' = NEWLINE \<and> c1' = NEWLINE)"
  shows "row_blinks e rw cl (row_left c0 t0) (row_left c1 t1) =
    (if c0' \<noteq> SPACE \<and> c0' \<noteq> NEWLINE \<or> c1' \<noteq> SPACE \<and> c1' \<noteq> NEWLINE then [frame_blink e rw cl c0' c1'] else []) @
    row_blinks e rw (Suc cl) (row_left c0' t0') (row_left c1' t1')"
  using assms by (cases "c0' = NEWLINE"; cases "c1' = NEWLINE") (auto simp: row_left_def [of NEWLINE] frame_blink_def)

context files_os
begin

lemma next_char_gives:
  assumes "ok s" "c \<noteq> NEWLINE \<longrightarrow> opn s fd"
  obtains c' eof' s' t' where "next_char os fd c eof s = Some (c', eof', s')" "ok s'"
    "row_left c (remaining s fd) = (if c' = NEWLINE then [] else c' # row_left c' t')" "file_left c (remaining s fd) = file_left c' t'"
    "(eof \<or> hits_end c (remaining s fd)) = (eof' \<or> hits_end c' t')" "c' \<noteq> NEWLINE \<longrightarrow> opn s fd"
    "opn s fd \<longrightarrow> opn s' fd \<and> remaining s' fd = t'" "\<forall>g. g \<noteq> fd \<longrightarrow> opn s g \<longrightarrow> opn s' g \<and> remaining s' g = remaining s g"
proof (cases "c = NEWLINE")
  case True
  then show thesis using that [of c eof s "remaining s fd"] assms(1) by (auto simp: next_char_def row_left_def)
next
  case False
  let ?t = "remaining s fd"
  obtain b s' where r: "ece391_read os fd (\<lambda>_. c) 1 s = Some (if ?t = [] then 0 else 1, b, s')" "?t \<noteq> [] \<longrightarrow> b 0 = hd ?t" "ok s'" "opn s' fd"
    "remaining s' fd = tl ?t" "\<forall>g. g \<noteq> fd \<longrightarrow> opn s g \<longrightarrow> opn s' g \<and> remaining s' g = remaining s g"
    using read_byte [OF assms(1), of fd] assms(2) False by metis
  show thesis
  proof (cases ?t)
    case Nil
    then show thesis using that [of NEWLINE True s' "[]"] r False by (auto simp: next_char_def row_left_def file_left_def hits_end_def)
  next
    case (Cons x t)
    then show thesis using that [of x eof s' t] r False assms(2) by (auto simp: next_char_def row_left_def file_left_def hits_end_def)
  qed
qed

lemma add_row_adds:
  assumes "fd0 \<noteq> fd1"
  shows "ok s \<Longrightarrow> c0 \<noteq> NEWLINE \<longrightarrow> opn s fd0 \<Longrightarrow> c1 \<noteq> NEWLINE \<longrightarrow> opn s fd1 \<Longrightarrow>
    \<exists>s'. add_row os fd0 fd1 e rw cl c0 c1 eof0 eof1 s b =
        Some (eof0 \<or> hits_end c0 (remaining s fd0), eof1 \<or> hits_end c1 (remaining s fd1), s',
          foldl (\<lambda>b e. snd (mp1_ioctl_add e b)) b (row_blinks e rw cl (row_left c0 (remaining s fd0)) (row_left c1 (remaining s fd1)))) \<and>
      ok s' \<and> (opn s fd0 \<longrightarrow> opn s' fd0 \<and> remaining s' fd0 = file_left c0 (remaining s fd0)) \<and>
      (opn s fd1 \<longrightarrow> opn s' fd1 \<and> remaining s' fd1 = file_left c1 (remaining s fd1))"
proof (induction "length (row_left c0 (remaining s fd0)) + length (row_left c1 (remaining s fd1))" arbitrary: s c0 c1 eof0 eof1 cl b rule: less_induct)
  case less
  obtain d0 e0 s1 t0 where 0: "next_char os fd0 c0 eof0 s = Some (d0, e0, s1)" "ok s1"
    "row_left c0 (remaining s fd0) = (if d0 = NEWLINE then [] else d0 # row_left d0 t0)" "file_left c0 (remaining s fd0) = file_left d0 t0"
    "(eof0 \<or> hits_end c0 (remaining s fd0)) = (e0 \<or> hits_end d0 t0)" "d0 \<noteq> NEWLINE \<longrightarrow> opn s fd0"
    "opn s fd0 \<longrightarrow> opn s1 fd0 \<and> remaining s1 fd0 = t0" "\<forall>g. g \<noteq> fd0 \<longrightarrow> opn s g \<longrightarrow> opn s1 g \<and> remaining s1 g = remaining s g"
    by (rule next_char_gives [OF less.prems(1,2), of eof0])
  have o1: "opn s fd1 \<longrightarrow> opn s1 fd1 \<and> remaining s1 fd1 = remaining s fd1" using 0(8) assms by simp
  then have "c1 \<noteq> NEWLINE \<longrightarrow> opn s1 fd1" using less.prems(3) by simp
  from next_char_gives [OF 0(2) this, of eof1]
  obtain d1 e1 s2 t1 where 1: "next_char os fd1 c1 eof1 s1 = Some (d1, e1, s2)" "ok s2"
    "row_left c1 (remaining s1 fd1) = (if d1 = NEWLINE then [] else d1 # row_left d1 t1)" "file_left c1 (remaining s1 fd1) = file_left d1 t1"
    "(eof1 \<or> hits_end c1 (remaining s1 fd1)) = (e1 \<or> hits_end d1 t1)" "d1 \<noteq> NEWLINE \<longrightarrow> opn s1 fd1"
    "opn s1 fd1 \<longrightarrow> opn s2 fd1 \<and> remaining s2 fd1 = t1" "\<forall>g. g \<noteq> fd1 \<longrightarrow> opn s1 g \<longrightarrow> opn s2 g \<and> remaining s2 g = remaining s1 g"
    by blast
  let ?t0 = "remaining s fd0" and ?t1 = "remaining s fd1"
  have nl: "row_left NEWLINE t = []" "hits_end NEWLINE t = False" "file_left NEWLINE t = t" for t by (simp_all add: row_left_def hits_end_def file_left_def)
  have one: "row_left c1 (remaining s1 fd1) = row_left c1 ?t1" "hits_end c1 (remaining s1 fd1) = hits_end c1 ?t1"
    using o1 less.prems(3) nl by (cases "c1 = NEWLINE"; simp)+
  have same: "row_left d0 (remaining s2 fd0) = row_left d0 t0" "hits_end d0 (remaining s2 fd0) = hits_end d0 t0"
    "row_left d1 (remaining s2 fd1) = row_left d1 t1" "hits_end d1 (remaining s2 fd1) = hits_end d1 t1"
    using 0(6,7) 1(6,7,8) assms nl by (cases "d0 = NEWLINE"; cases "d1 = NEWLINE"; simp)+
  show ?case
  proof (cases "d0 = NEWLINE \<and> d1 = NEWLINE")
    case True
    then have "add_row os fd0 fd1 e rw cl c0 c1 eof0 eof1 s b = Some (e0, e1, s2, b)" using 0(1) 1(1) by (subst add_row.simps) simp
    then show ?thesis using True 0(3-5,7) 1(2-5,7,8) one o1 nl assms by auto
  next
    case False
    define b1 where "b1 = (if d0 \<noteq> SPACE \<and> d0 \<noteq> NEWLINE \<or> d1 \<noteq> SPACE \<and> d1 \<noteq> NEWLINE then snd (mp1_ioctl_add (frame_blink e rw cl d0 d1) b) else b)"
    have step: "add_row os fd0 fd1 e rw cl c0 c1 eof0 eof1 s b = add_row os fd0 fd1 e rw (Suc cl) d0 d1 e0 e1 s2 b1"
      using 0(1) 1(1) False by (subst add_row.simps) (auto simp: b1_def)
    have blinks: "foldl (\<lambda>b e. snd (mp1_ioctl_add e b)) b (row_blinks e rw cl (row_left c0 ?t0) (row_left c1 ?t1)) =
        foldl (\<lambda>b e. snd (mp1_ioctl_add e b)) b1 (row_blinks e rw (Suc cl) (row_left d0 t0) (row_left d1 t1))"
      unfolding row_blinks_step [OF 0(3) 1(3) [unfolded one] False] by (simp add: b1_def)
    have "length (row_left d0 (remaining s2 fd0)) + length (row_left d1 (remaining s2 fd1)) < length (row_left c0 ?t0) + length (row_left c1 ?t1)"
      using False 0(3) 1(3) same nl unfolding one by (auto split: if_splits)
    moreover have "d0 \<noteq> NEWLINE \<longrightarrow> opn s2 fd0" "d1 \<noteq> NEWLINE \<longrightarrow> opn s2 fd1" using 0(6,7) 1(6,7,8) assms by auto
    ultimately obtain s3 where s3: "add_row os fd0 fd1 e rw (Suc cl) d0 d1 e0 e1 s2 b1 =
        Some (e0 \<or> hits_end d0 t0, e1 \<or> hits_end d1 t1, s3,
          foldl (\<lambda>b e. snd (mp1_ioctl_add e b)) b1 (row_blinks e rw (Suc cl) (row_left d0 t0) (row_left d1 t1)))" "ok s3"
        "opn s2 fd0 \<longrightarrow> opn s3 fd0 \<and> remaining s3 fd0 = file_left d0 (remaining s2 fd0)"
        "opn s2 fd1 \<longrightarrow> opn s3 fd1 \<and> remaining s3 fd1 = file_left d1 (remaining s2 fd1)"
      using less.hyps [OF _ 1(2), of d0 d1] unfolding same by blast
    have "opn s fd0 \<longrightarrow> opn s3 fd0 \<and> remaining s3 fd0 = file_left c0 ?t0" using s3(3) 0(4,7) 1(8) assms by auto
    moreover have "opn s fd1 \<longrightarrow> opn s3 fd1 \<and> remaining s3 fd1 = file_left c1 ?t1" using s3(4) o1 1(4,7) by auto
    ultimately show ?thesis using s3(1,2) step blinks 0(5) 1(5) one by auto
  qed
qed

lemma next_row_gives:
  assumes "ok s"
  obtains s' where "next_row os fd eof s = Some (if eof then NEWLINE else 48, s')" "ok s'" "\<forall>g. opn s g \<and> (eof \<longrightarrow> g \<noteq> fd) \<longrightarrow> opn s' g \<and> remaining s' g = remaining s g"
proof (cases eof)
  case True
  obtain r s' where "ece391_close os fd s = Some (r, s')" "ok s'" "\<forall>g. g \<noteq> fd \<longrightarrow> opn s g \<longrightarrow> opn s' g \<and> remaining s' g = remaining s g"
    using close_any [OF assms] by blast
  then show thesis using that [of s'] True by (auto simp: next_row_def)
qed (use that [of s] assms in \<open>auto simp: next_row_def byte_of_char_def of_char_def\<close>)

text \<open>A file between two rows: its lines still to come, none when its end has been seen.\<close>

definition at_row :: "'s \<Rightarrow> s32 \<Rightarrow> u8 \<Rightarrow> bool \<Rightarrow> u8 list list \<Rightarrow> bool" where
  "at_row s fd c eof L \<longleftrightarrow> (if eof then c = NEWLINE \<and> L = [] else c \<noteq> NEWLINE \<and> opn s fd \<and> text_lines (remaining s fd) = L)"

lemma at_row_next:
  assumes "at_row s fd c eof L" "opn s fd \<longrightarrow> opn s' fd \<and> remaining s' fd = file_left c (remaining s fd)" "eof' = (eof \<or> hits_end c (remaining s fd))"
    and "\<not> eof' \<longrightarrow> opn s' fd \<longrightarrow> opn s'' fd \<and> remaining s'' fd = remaining s' fd"
  shows "at_row s'' fd (if eof' then NEWLINE else 48) eof' (tl L)" "row_left c (remaining s fd) = (case L of [] \<Rightarrow> [] | l # ls \<Rightarrow> l)"
proof -
  have "eof = (L = [])" using assms(1) by (auto simp: at_row_def split: if_splits)
  then show "at_row s'' fd (if eof' then NEWLINE else 48) eof' (tl L)" "row_left c (remaining s fd) = (case L of [] \<Rightarrow> [] | l # ls \<Rightarrow> l)"
    using assms text_lines_rec [of c "remaining s fd"] by (auto simp: at_row_def row_left_def [of NEWLINE] split: if_splits)
qed

lemma frame_blinks_rec:
  "L0 \<noteq> [] \<or> L1 \<noteq> [] \<Longrightarrow> frame_blinks e rw L0 L1 =
    row_blinks e rw 0 (case L0 of [] \<Rightarrow> [] | l # ls \<Rightarrow> l) (case L1 of [] \<Rightarrow> [] | l # ls \<Rightarrow> l) @ frame_blinks e (Suc rw) (tl L0) (tl L1)"
  by (cases L0; cases L1) auto

lemma add_rows_adds:
  assumes "fd0 \<noteq> fd1"
  shows "ok s \<Longrightarrow> at_row s fd0 c0 eof0 L0 \<Longrightarrow> at_row s fd1 c1 eof1 L1 \<Longrightarrow>
    \<exists>s'. add_rows os fd0 fd1 e rw c0 c1 eof0 eof1 s b = Some (s', foldl (\<lambda>b e. snd (mp1_ioctl_add e b)) b (frame_blinks e rw L0 L1)) \<and> ok s'"
proof (induction "length L0 + length L1" arbitrary: s c0 c1 eof0 eof1 L0 L1 rw b rule: less_induct)
  case less
  have eof: "eof0 = (L0 = [])" "eof1 = (L1 = [])" using less.prems(2,3) by (auto simp: at_row_def split: if_splits)
  show ?case
  proof (cases "eof0 \<and> eof1")
    case True
    then show ?thesis using eof less.prems(1) by (subst add_rows.simps) simp
  next
    case False
    let ?e0 = "eof0 \<or> hits_end c0 (remaining s fd0)" and ?e1 = "eof1 \<or> hits_end c1 (remaining s fd1)"
    let ?add = "foldl (\<lambda>b e. snd (mp1_ioctl_add e b))"
    define b1 where "b1 = ?add b (row_blinks e rw 0 (row_left c0 (remaining s fd0)) (row_left c1 (remaining s fd1)))"
    have "c0 \<noteq> NEWLINE \<longrightarrow> opn s fd0" "c1 \<noteq> NEWLINE \<longrightarrow> opn s fd1" using less.prems(2,3) by (auto simp: at_row_def split: if_splits)
    from add_row_adds [OF assms less.prems(1) this, of e rw 0 eof0 eof1 b]
    obtain s1 where s1: "add_row os fd0 fd1 e rw 0 c0 c1 eof0 eof1 s b = Some (?e0, ?e1, s1, b1)" "ok s1"
      "opn s fd0 \<longrightarrow> opn s1 fd0 \<and> remaining s1 fd0 = file_left c0 (remaining s fd0)" "opn s fd1 \<longrightarrow> opn s1 fd1 \<and> remaining s1 fd1 = file_left c1 (remaining s fd1)"
      unfolding b1_def by blast
    obtain s2 where s2: "next_row os fd0 ?e0 s1 = Some (if ?e0 then NEWLINE else 48, s2)" "ok s2"
      "\<forall>g. opn s1 g \<and> (?e0 \<longrightarrow> g \<noteq> fd0) \<longrightarrow> opn s2 g \<and> remaining s2 g = remaining s1 g" by (rule next_row_gives [OF s1(2)])
    obtain s3 where s3: "next_row os fd1 ?e1 s2 = Some (if ?e1 then NEWLINE else 48, s3)" "ok s3"
      "\<forall>g. opn s2 g \<and> (?e1 \<longrightarrow> g \<noteq> fd1) \<longrightarrow> opn s3 g \<and> remaining s3 g = remaining s2 g" by (rule next_row_gives [OF s2(2)])
    have "\<not> ?e0 \<longrightarrow> opn s1 fd0 \<longrightarrow> opn s3 fd0 \<and> remaining s3 fd0 = remaining s1 fd0" "\<not> ?e1 \<longrightarrow> opn s1 fd1 \<longrightarrow> opn s3 fd1 \<and> remaining s3 fd1 = remaining s1 fd1"
      using s2(3) s3(3) assms by auto
    note n0 = at_row_next [OF less.prems(2) s1(3) refl this(1)] and n1 = at_row_next [OF less.prems(3) s1(4) refl this(2)]
    have ne: "L0 \<noteq> [] \<or> L1 \<noteq> []" using False eof by blast
    then have "length (tl L0) + length (tl L1) < length L0 + length L1" by (cases L0; cases L1) auto
    from less.hyps [OF this s3(2) n0(1) n1(1), of "Suc rw" b1]
    obtain s4 where s4: "add_rows os fd0 fd1 e (Suc rw) (if ?e0 then NEWLINE else 48) (if ?e1 then NEWLINE else 48) ?e0 ?e1 s3 b1 =
        Some (s4, ?add b1 (frame_blinks e (Suc rw) (tl L0) (tl L1)))" "ok s4" by blast
    have "add_rows os fd0 fd1 e rw c0 c1 eof0 eof1 s b = Some (s4, ?add b1 (frame_blinks e (Suc rw) (tl L0) (tl L1)))"
      unfolding add_rows.simps [of os fd0 fd1 e rw c0 c1 eof0 eof1 s b] using False s1(1) s2(1) s3(1) s4(1) by simp
    then show ?thesis using s4(2) frame_blinks_rec [OF ne, of e rw] n0(2) n1(2) by (simp add: b1_def)
  qed
qed

end

section \<open>The kernel's files\<close>

lemma other_file:
  assumes "file_ready g k" "fd_ready k'" "k_fs k' = k_fs k" "k_fds k' (sint g) = k_fds k (sint g)"
  shows "file_ready g k' \<and> file_rest g k' = file_rest g k"
proof -
  have "get_inode_ptr g (k_proc k') = get_inode_ptr g (k_proc k)" "get_file_position g (k_proc k') = get_file_position g (k_proc k)"
    using assms(4) by (simp_all add: get_inode_ptr_def get_file_position_def k_fds_def)
  then show ?thesis using assms by (simp add: file_ready_def file_fd_ok_def file_rest_def)
qed

lemma sint_differs: "g \<noteq> fd \<Longrightarrow> sint (g :: s32) \<noteq> sint fd"
  using word_eq_iff_signed by blast

lemma kernel_read_effect:
  assumes "file_ready fd k" "p \<noteq> 0" "n < 2 ^ 30" "ece391_read (kernel_os p) fd buf (of_nat n) (es, k) = Some (r, b, es', k')"
  shows "k_fs k' = k_fs k \<and> (\<forall>i. i \<noteq> sint fd \<longrightarrow> k_fds k' i = k_fds k i)"
proof -
  have ok: "file_fd_ok fd k" "\<not> bad_index fd" using assms(1) by (simp_all add: file_ready_def file_fd_ok_def)
  have "check_valid_fd fd (k_proc k) \<noteq> 0" "op_read (jump_table fd (k_proc k)) = File_read"
    using assms(1) ok(2) by (auto simp: file_ready_def check_valid_fd_def k_fds_def jump_table_def fd_ready_def tables_ready_def fd_consts)
  then have "k' = snd (snd (file_read fd buf (of_nat n) k))" using assms(2,4) by (simp add: kernel_calls sys_read_def case_prod_beta)
  then show ?thesis using file_read_sound(2) [OF ok(1) assms(3)] ok(2) by (simp add: k_fds_def add_offset_def Let_def)
qed

interpretation kernel_files: files_os "kernel_os p" "\<lambda>(es, k). p \<noteq> 0 \<and> fd_ready k" "\<lambda>(es, k) fd. file_ready fd k" "\<lambda>(es, k) fd. file_rest fd k" for p
proof
  fix s :: "irq list \<times> kernel" and fd buf
  assume s: "case s of (es, k) \<Rightarrow> p \<noteq> 0 \<and> fd_ready k" "(case s of (es, k) \<Rightarrow> \<lambda>fd. file_ready fd k) fd"
  obtain es k where k: "s = (es, k)" by fastforce
  then have ready: "p \<noteq> 0" "file_ready fd k" using s by auto
  let ?T = "file_rest fd k"
  obtain b k' where r: "ece391_read (kernel_os p) fd buf (of_nat 1) (es, k) = Some (of_nat (min 1 (length ?T)), b, es, k')"
    "run_of b 0 (min 1 (length ?T)) = take 1 ?T" "file_ready fd k'" "file_rest fd k' = drop 1 ?T"
    using kernel_read_file [OF ready(2,1), of 1 buf es] by auto
  have "file_ready g k' \<and> file_rest g k' = file_rest g k" if "g \<noteq> fd" "file_ready g k" for g
    using other_file [OF that(2), of k'] kernel_read_effect [OF ready(2,1) _ r(1)] r(3) sint_differs [OF that(1)] by (simp add: file_ready_def)
  moreover have "?T \<noteq> [] \<longrightarrow> b 0 = hd ?T" using r(2) by (cases ?T) (auto simp: run_of_def)
  ultimately show "\<exists>b s'. ece391_read (kernel_os p) fd buf 1 s = Some (if (case s of (es, k) \<Rightarrow> \<lambda>fd. file_rest fd k) fd = [] then 0 else 1, b, s') \<and>
      ((case s of (es, k) \<Rightarrow> \<lambda>fd. file_rest fd k) fd \<noteq> [] \<longrightarrow> b 0 = hd ((case s of (es, k) \<Rightarrow> \<lambda>fd. file_rest fd k) fd)) \<and>
      (case s' of (es, k) \<Rightarrow> p \<noteq> 0 \<and> fd_ready k) \<and> (case s' of (es, k) \<Rightarrow> \<lambda>fd. file_ready fd k) fd \<and>
      (case s' of (es, k) \<Rightarrow> \<lambda>fd. file_rest fd k) fd = tl ((case s of (es, k) \<Rightarrow> \<lambda>fd. file_rest fd k) fd) \<and>
      (\<forall>g. g \<noteq> fd \<longrightarrow> (case s of (es, k) \<Rightarrow> \<lambda>fd. file_ready fd k) g \<longrightarrow> (case s' of (es, k) \<Rightarrow> \<lambda>fd. file_ready fd k) g \<and>
        (case s' of (es, k) \<Rightarrow> \<lambda>fd. file_rest fd k) g = (case s of (es, k) \<Rightarrow> \<lambda>fd. file_rest fd k) g)"
    using k r ready(1) by (cases ?T) (auto simp: file_ready_def drop_Suc)
next
  fix s :: "irq list \<times> kernel" and fd
  assume s: "case s of (es, k) \<Rightarrow> p \<noteq> 0 \<and> fd_ready k"
  obtain es k where k: "s = (es, k)" by fastforce
  obtain r k' where c: "sys_close fd k = Some (r, k')" "fd_ready k'" "k_fs k' = k_fs k" "\<forall>i. i \<noteq> sint fd \<longrightarrow> k_fds k' i = k_fds k i"
    using close_keeps_ready [of k fd] s k by auto
  then have "file_ready g k' \<and> file_rest g k' = file_rest g k" if "g \<noteq> fd" "file_ready g k" for g
    using other_file [OF that(2), of k'] sint_differs [OF that(1)] by simp
  then show "\<exists>r s'. ece391_close (kernel_os p) fd s = Some (r, s') \<and> (case s' of (es, k) \<Rightarrow> p \<noteq> 0 \<and> fd_ready k) \<and>
      (\<forall>g. g \<noteq> fd \<longrightarrow> (case s of (es, k) \<Rightarrow> \<lambda>fd. file_ready fd k) g \<longrightarrow> (case s' of (es, k) \<Rightarrow> \<lambda>fd. file_ready fd k) g \<and>
        (case s' of (es, k) \<Rightarrow> \<lambda>fd. file_rest fd k) g = (case s of (es, k) \<Rightarrow> \<lambda>fd. file_rest fd k) g)"
    using k c s by (auto simp: kernel_calls)
qed

section \<open>Where the characters are\<close>

text \<open>The places of a picture, from left to right and from top to bottom.\<close>

definition in_order :: "nat \<Rightarrow> nat \<Rightarrow> mp1_blink_struct list \<Rightarrow> bool" where
  "in_order lo hi es \<longleftrightarrow> sorted_wrt (<) (map (\<lambda>e. unat (location e)) es) \<and> (\<forall>e\<in>set es. lo \<le> unat (location e) \<and> unat (location e) < hi)"

lemma in_order_append: "in_order lo mid xs \<Longrightarrow> in_order mid hi ys \<Longrightarrow> lo \<le> mid \<Longrightarrow> mid \<le> hi \<Longrightarrow> in_order lo hi (xs @ ys)"
  by (fastforce simp: in_order_def sorted_wrt_append)

lemma frame_place: "rw * 80 + cl + 40 < 2 ^ 16 \<Longrightarrow> unat (location (frame_blink e rw cl x y)) = rw * 80 + cl + 40"
proof -
  assume "rw * 80 + cl + 40 < 2 ^ 16"
  then have "unat (of_nat (rw * 80 + cl + 40) :: u16) = rw * 80 + cl + 40" by (subst unat_of_nat) simp
  then show ?thesis by (simp add: frame_blink_def)
qed

lemma row_in_order_step:
  assumes "in_order (rw * 80 + Suc cl + 40) (Suc rw * 80 + 40) es" "rw < 24" "cl < 80"
  shows "in_order (rw * 80 + cl + 40) (Suc rw * 80 + 40) ((if P then [frame_blink e rw cl x y] else []) @ es)"
proof (rule in_order_append [OF _ assms(1)])
  show "in_order (rw * 80 + cl + 40) (rw * 80 + Suc cl + 40) (if P then [frame_blink e rw cl x y] else [])"
    using assms(2,3) by (simp add: in_order_def frame_place)
qed (use assms(3) in auto)

lemma row_in_order:
  "length xs \<le> 80 - cl \<Longrightarrow> length ys \<le> 80 - cl \<Longrightarrow> cl \<le> 80 \<Longrightarrow> rw < 24 \<Longrightarrow>
   in_order (rw * 80 + cl + 40) (Suc rw * 80 + 40) (row_blinks e rw cl xs ys)"
proof (induction e rw cl xs ys rule: row_blinks.induct)
  case (1 e rw cl)
  then show ?case by (simp add: in_order_def)
next
  case (2 e rw cl x xs)
  then show ?case unfolding row_blinks.simps by (intro row_in_order_step) auto
next
  case (3 e rw cl y ys)
  then show ?case unfolding row_blinks.simps by (intro row_in_order_step) auto
next
  case (4 e rw cl x xs y ys)
  then show ?case unfolding row_blinks.simps by (intro row_in_order_step) auto
qed

text \<open>A picture that fits: at most 24 rows of at most 80 characters.\<close>

definition fits :: "u8 list list \<Rightarrow> bool" where
  "fits L \<longleftrightarrow> length L \<le> 24 \<and> (\<forall>l\<in>set L. length l \<le> 80)"

lemma frame_in_order:
  "(\<forall>l\<in>set L0. length l \<le> 80) \<Longrightarrow> (\<forall>l\<in>set L1. length l \<le> 80) \<Longrightarrow> rw + length L0 \<le> 24 \<Longrightarrow> rw + length L1 \<le> 24 \<Longrightarrow>
   in_order (rw * 80 + 40) (24 * 80 + 40) (frame_blinks e rw L0 L1)"
proof (induction e rw L0 L1 rule: frame_blinks.induct)
  case (1 e rw)
  then show ?case by (simp add: in_order_def)
next
  case (2 e rw l ls)
  then show ?case unfolding frame_blinks.simps using row_in_order [of l 0 "[]" rw e] by (intro in_order_append [of _ "Suc rw * 80 + 40"]) auto
next
  case (3 e rw m ms)
  then show ?case unfolding frame_blinks.simps using row_in_order [of "[]" 0 m rw e] by (intro in_order_append [of _ "Suc rw * 80 + 40"]) auto
next
  case (4 e rw l ls m ms)
  then show ?case unfolding frame_blinks.simps using row_in_order [of l 0 m rw e] by (intro in_order_append [of _ "Suc rw * 80 + 40"]) auto
qed

lemma frame_places:
  assumes "fits L0" "fits L1"
  shows "distinct (map location (frame_blinks e 0 L0 L1))" "\<forall>b\<in>set (frame_blinks e 0 L0 L1). location b \<noteq> 0 \<and> location b < 80 * 25"
proof -
  have o: "in_order 40 1960 (frame_blinks e 0 L0 L1)" using frame_in_order [of L0 L1 0 e] assms by (simp add: fits_def)
  then have "distinct (map unat (map location (frame_blinks e 0 L0 L1)))"
    by (simp add: in_order_def o_def strict_sorted_iff)
  then show "distinct (map location (frame_blinks e 0 L0 L1))" unfolding distinct_map [of unat] by blast
  show "\<forall>b\<in>set (frame_blinks e 0 L0 L1). location b \<noteq> 0 \<and> location b < 80 * 25"
    using o by (fastforce simp: in_order_def word_less_nat_alt word_unat_eq_iff)
qed

section \<open>Opening the two files\<close>

lemma open_file_effect:
  assumes "fd_ready k" "p \<noteq> 0" "free_fds (k_fds k) = j # js" "read_dentry_by_name (k_fs k) name (stack_dentry k) = (0, d)" "file_type d = 2"
    and "ece391_open (kernel_os p) name (es, k) = Some (fd, es', k')"
  shows "fd = of_nat j" "k_fs k' = k_fs k" "stack_dentry k' = stack_dentry k" "free_fds (k_fds k') = js" "\<forall>i. i \<noteq> int j \<longrightarrow> k_fds k' i = k_fds k i" "fd_ready k'"
proof -
  let ?i = "opened_info name d k"
  have i: "?i = file_info name k" using assms(5) by (simp add: opened_info_def)
  have o: "sys_open p name k = Some (fst (install ?i (k_fds k)), k')" "fd_ready k'" "k_fds k' = snd (install ?i (k_fds k))" "sys_open p name k = Some (file_open name k)"
    "fd = fst (install ?i (k_fds k))"
    using sys_open_eq [OF assms(1,2,4)] assms(5,6) by (auto simp: kernel_calls)
  then show "fd = of_nat j" "fd_ready k'" "\<forall>i. i \<noteq> int j \<longrightarrow> k_fds k' i = k_fds k i" using assms(3) by (simp_all add: install_def)
  have "k' = snd (file_open name k)" using o(1,4) by auto
  then show "k_fs k' = k_fs k" "stack_dentry k' = stack_dentry k" by (simp_all add: file_open_def Let_def say_def on_con_def)
  show "free_fds (k_fds k') = js" unfolding o(3) using install_free [OF assms(3), of ?i] i by (simp add: file_info_def)
qed

text \<open>A name of a regular file with the given contents.\<close>

definition names_file :: "kernel \<Rightarrow> bytes \<Rightarrow> u8 list \<Rightarrow> bool" where
  "names_file k name T \<longleftrightarrow> (\<exists>d. read_dentry_by_name (k_fs k) name (stack_dentry k) = (0, d) \<and> file_type d = 2 \<and> inode_idx d < num_inodes (k_fs k) \<and>
     sound_inode (k_fs k) (unat (inode_idx d)) \<and> file_size (k_fs k) (unat (inode_idx d)) < 2 ^ 30 \<and> T = contents (k_fs k) (unat (inode_idx d)))"

lemma open_named_file:
  assumes "fd_ready k" "p \<noteq> 0" "free_fds (k_fds k) = j # js" "names_file k name T"
  obtains k' where "ece391_open (kernel_os p) name (es, k) = Some (of_nat j, es, k')" "file_ready (of_nat j) k'" "file_rest (of_nat j) k' = T"
    "k_fs k' = k_fs k" "stack_dentry k' = stack_dentry k" "free_fds (k_fds k') = js" "\<forall>i. i \<noteq> int j \<longrightarrow> k_fds k' i = k_fds k i" "fd_ready k'"
proof -
  obtain d where d: "read_dentry_by_name (k_fs k) name (stack_dentry k) = (0, d)" "file_type d = 2" "inode_idx d < num_inodes (k_fs k)"
    "sound_inode (k_fs k) (unat (inode_idx d))" "file_size (k_fs k) (unat (inode_idx d)) < 2 ^ 30" "T = contents (k_fs k) (unat (inode_idx d))"
    using assms(4) by (auto simp: names_file_def)
  obtain fd k' where o: "ece391_open (kernel_os p) name (es, k) = Some (fd, es, k')" "file_ready fd k'" "file_rest fd k' = T"
    using open_file_ready [OF assms(1,2) _ d(1) _ _ d(3-5), of es] assms(3) d(2,6) by auto
  note f = open_file_effect [OF assms(1-3) d(1,2) o(1)]
  show thesis using that o f by blast
qed

section \<open>Properties\<close>

text \<open>
  C13. The frames become the animation: run by the kernel on two text files of at most 24 rows of at most
  80 characters, \<^verbatim>\<open>add_frames\<close> returns, whatever the numbers and lengths of their rows, and the list of
  blinking characters is exactly the picture: one cell for every place where the two files are not both
  blank, with the two characters there, and all of them are on the screen.
\<close>

theorem fish_draws_frames:
  assumes "fd_ready k" "p \<noteq> 0" "2 \<le> length (free_fds (k_fds k))" "names_file k f0 T0" "names_file k f1 T1"
    and "fits (text_lines T0)" "fits (text_lines T1)" "blinks_are b []"
  shows "\<exists>s' b'. add_frames (kernel_os p) e f0 f1 (es, k) b = Some (Inr (s', b')) \<and>
    blinks_are b' (rev (map fresh_cell (frame_blinks e 0 (text_lines T0) (text_lines T1)))) \<and>
    shown (vmem b') (rev (map fresh_cell (frame_blinks e 0 (text_lines T0) (text_lines T1))))"
proof -
  obtain i j js where fds: "free_fds (k_fds k) = i # j # js" using assms(3) by (cases "free_fds (k_fds k)" rule: list.exhaust; cases "tl (free_fds (k_fds k))") auto
  have "distinct (free_fds (k_fds k))" by (simp add: free_fds_def)
  then have ij: "i < 8" "j < 8" "i \<noteq> j" using free_fds_range [of i "k_fds k"] free_fds_range [of j "k_fds k"] fds by auto
  then have w: "sint (of_nat i :: s32) = int i" "sint (of_nat j :: s32) = int j" "(of_nat i :: s32) \<noteq> of_nat j"
    using sint_small [of i] sint_small [of j] by (auto dest: arg_cong [where f = sint])
  obtain k1 where k1: "ece391_open (kernel_os p) f0 (es, k) = Some (of_nat i, es, k1)" "file_ready (of_nat i) k1" "file_rest (of_nat i) k1 = T0"
    "k_fs k1 = k_fs k" "stack_dentry k1 = stack_dentry k" "free_fds (k_fds k1) = j # js" "fd_ready k1"
    using open_named_file [OF assms(1,2) fds assms(4), of es] by metis
  have "names_file k1 f1 T1" using assms(5) k1(4,5) by (simp add: names_file_def)
  then obtain k2 where k2: "ece391_open (kernel_os p) f1 (es, k1) = Some (of_nat j, es, k2)" "file_ready (of_nat j) k2" "file_rest (of_nat j) k2 = T1"
    "k_fs k2 = k_fs k1" "\<forall>i. i \<noteq> int j \<longrightarrow> k_fds k2 i = k_fds k1 i" "fd_ready k2"
    using open_named_file [OF k1(7) assms(2) k1(6), of f1 T1 es] by metis
  have i2: "file_ready (of_nat i) k2 \<and> file_rest (of_nat i) k2 = T0"
    using other_file [OF k1(2) k2(6,4)] k2(5) w ij(3) k1(3) by simp
  have "\<exists>s'. add_rows (kernel_os p) (of_nat i) (of_nat j) e 0 48 48 False False (es, k2) b =
      Some (s', foldl (\<lambda>b e. snd (mp1_ioctl_add e b)) b (frame_blinks e 0 (text_lines T0) (text_lines T1)))"
    using kernel_files.add_rows_adds [OF w(3), of p "(es, k2)" 48 False "text_lines T0" 48 False "text_lines T1" e 0 b] assms(2) k2 i2
    by (auto simp: kernel_files.at_row_def)
  moreover have "blinks_are (foldl (\<lambda>b e. snd (mp1_ioctl_add e b)) b (frame_blinks e 0 (text_lines T0) (text_lines T1)))
      (rev (map fresh_cell (frame_blinks e 0 (text_lines T0) (text_lines T1)))) \<and>
    shown (vmem (foldl (\<lambda>b e. snd (mp1_ioctl_add e b)) b (frame_blinks e 0 (text_lines T0) (text_lines T1))))
      (rev (map fresh_cell (frame_blinks e 0 (text_lines T0) (text_lines T1))))"
    using blinks.add_all [OF frame_places [OF assms(6,7)], of b "[]" e] assms(8) by (simp add: shown_def)
  ultimately show ?thesis using k1(1) k2(1) w(1,2) by (auto simp: add_frames_def byte_of_char_def of_char_def)
qed

theorem fish_draws_frames_witness:
  "\<exists>s' b'. add_frames (kernel_os 4) demo_blink (bytes_of [115, 104]) (bytes_of [115, 104])
       ([], (demo_program (\<lambda>_. 0) (\<lambda>_. 0))\<lparr>k_fs := demo_fs 10\<rparr>) (no_blinks (\<lambda>_. 32)) = Some (Inr (s', b')) \<and> vmem b' 240 = 69"
proof -
  let ?k = "(demo_program (\<lambda>_. 0) (\<lambda>_. 0))\<lparr>k_fs := demo_fs 10\<rparr>"
  obtain T where T: "contents (demo_fs 10) 0 = NEWLINE # T" "NEWLINE \<notin> set T" "length T = 39" "take 3 T = [69, 76, 70]"
    using demo_text by blast
  have t: "text_lines (contents (demo_fs 10) 0) = [[], T]" using T(1,2) by (simp add: text_lines_plain)
  have "fd_ready (demo_program (\<lambda>_. 0) (\<lambda>_. 0))" by (rule demo_program_ready)
  then have rdy: "fd_ready ?k" "k_fds ?k = fd_table_init (\<lambda>_. empty_fd)"
    using demo_program_ready(2) [of "\<lambda>_. 0" "\<lambda>_. 0"] by (simp_all add: fd_ready_def k_fds_def)
  have b: "bytes_of [115, 104] 0 = 115" "bytes_of [115, 104] 1 = 104" "bytes_of [115, 104] 2 = NUL" by (simp_all add: bytes_of_def)
  have n: "names_file ?k (bytes_of [115, 104]) (contents (demo_fs 10) 0)"
    using demo_fs_lookup(1) [OF b, of 10 "stack_dentry ?k"] demo_fs_lookup(2,3) [OF b, of 10]
    by (auto simp: names_file_def fill_dentry_def demo_fs_fields demo_fs_sound demo_fs_size)
  have fit: "fits (text_lines (contents (demo_fs 10) 0))" using t T(3) by (simp add: fits_def)
  obtain s' b' where r: "add_frames (kernel_os 4) demo_blink (bytes_of [115, 104]) (bytes_of [115, 104]) ([], ?k) (no_blinks (\<lambda>_. 32)) = Some (Inr (s', b'))"
    "shown (vmem b') (rev (map fresh_cell (frame_blinks demo_blink 0 [[], T] [[], T])))"
    using fish_draws_frames [OF rdy(1) _ _ n n fit fit no_blinks_are(1) [of "\<lambda>_. 32"], of 4 demo_blink "[]"] rdy(2) t by (auto simp: fd_table_init_free)
  obtain T' where "T = 69 # T'" using T(4) by (cases T) auto
  then have "frame_blink demo_blink 1 0 69 69 \<in> set (frame_blinks demo_blink 0 [[], T] [[], T])" by simp
  then have "vmem b' (2 * unat (location (fresh_cell (frame_blink demo_blink 1 0 69 69)))) = char_of_cell (fresh_cell (frame_blink demo_blink 1 0 69 69))"
    using r(2) by (auto simp: shown_def)
  then show ?thesis using r(1) by (simp add: fresh_cell_def frame_blink_def char_of_cell_def)
qed

end
