(* ===== verification/Emulate.thy ===== *)
theory Emulate
  imports Grep
begin

text \<open>
  The emulation of the system calls on the host system (\<^verbatim>\<open>ece391emulate.c\<close>), with which the
  repository's programs run under Linux. What the host does is a parameter. The results
  are about the command line: how \<^verbatim>\<open>execute\<close> splits it, how \<^verbatim>\<open>getargs\<close> of the started program
  puts it together again, and what a directory read delivers.
\<close>

section \<open>Definitions\<close>

text \<open>How a child of the emulator ended: \<^verbatim>\<open>WEXITSTATUS\<close> or \<^verbatim>\<open>WTERMSIG\<close>.\<close>

datatype wait_status = Exited u8 | Signalled nat

text \<open>
  The host: a system call with its number, its first and third argument and the bytes behind
  the second; \<^verbatim>\<open>fork\<close>, \<^verbatim>\<open>execv\<close> and \<^verbatim>\<open>wait\<close> together, on the strings of the argument vector; the directory
  routines of its library; \<^verbatim>\<open>open\<close> of a device and \<^verbatim>\<open>mmap\<close> of low memory.
\<close>

record 's host =
  host_call :: "u32 \<Rightarrow> u32 \<Rightarrow> u32 \<Rightarrow> bytes \<Rightarrow> 's \<Rightarrow> u32 \<times> bytes \<times> 's"
  host_run :: "bytes list \<Rightarrow> 's \<Rightarrow> wait_status \<times> 's"
  host_opendir :: "'s \<Rightarrow> bool \<times> 's"
  host_readdir :: "'s \<Rightarrow> bytes option \<times> 's"
  host_closedir :: "'s \<Rightarrow> 's"
  host_device :: "string \<Rightarrow> 's \<Rightarrow> s32 \<times> 's"
  host_close :: "s32 \<Rightarrow> 's \<Rightarrow> 's"
  host_mmap :: "s32 \<Rightarrow> 's \<Rightarrow> u32 option \<times> 's"

text \<open>The static variables; \<open>em_dir\<close> says whether \<^verbatim>\<open>dir\<close> is not \<^verbatim>\<open>NULL\<close>.\<close>

record emulator =
  em_dir_fd :: s32
  em_dir :: bool
  em_mem_fd :: s32

text \<open>\<^verbatim>\<open>DO_CALL\<close>: the error numbers of the host become \<open>-1\<close>.\<close>

definition do_call :: "'s host \<Rightarrow> u32 \<Rightarrow> u32 \<Rightarrow> u32 \<Rightarrow> bytes \<Rightarrow> 's \<Rightarrow> s32 \<times> bytes \<times> 's" where
  "do_call h num fd n b s = (let (eax, b, s) = host_call h num fd n b s in (if eax \<le> 0xFFFFC000 then eax else - 1, b, s))"

text \<open>The three characters that end a word, and the loops of \<^verbatim>\<open>ece391_execute\<close>.\<close>

definition ends_word :: "u8 \<Rightarrow> bool" where
  "ends_word c \<longleftrightarrow> c = NUL \<or> c = SPACE \<or> c = NEWLINE"

partial_function (option) word_end :: "bytes \<Rightarrow> nat \<Rightarrow> nat option" where
  "word_end b i = (if \<not> ends_word (b i) then word_end b (Suc i) else Some i)"

partial_function (option) skip_spaces :: "bytes \<Rightarrow> nat \<Rightarrow> nat option" where
  "skip_spaces b i = (if SPACE = b i then skip_spaces b (Suc i) else Some i)"

partial_function (option) parse_arguments :: "bytes \<Rightarrow> nat \<Rightarrow> nat list \<Rightarrow> (bytes \<times> nat list) option" where
  "parse_arguments b i args =
     Option.bind (skip_spaces b i) (\<lambda>i.
       if b i = NUL \<or> b i = NEWLINE then Some (b(i := NUL), args)
       else Option.bind (word_end b i) (\<lambda>j.
              if b j \<noteq> NUL then parse_arguments (b(j := NUL)) (Suc j) (args @ [i]) else parse_arguments b j (args @ [i])))"

text \<open>The buffer with \<^verbatim>\<open>./\<close> and the command, and the positions of the arguments in it; \<open>b\<close> is what the stack held.\<close>

definition split_command :: "bytes \<Rightarrow> bytes \<Rightarrow> (bytes \<times> nat list) option" where
  "split_command b cmd =
     (let b = b(0 := byte_of_char CHR ''.'', 1 := byte_of_char CHR ''/'')
      in Option.bind (ece391_strcpy (from_offset b 2) cmd) (\<lambda>c.
           let b = into_offset b 2 c
           in Option.bind (word_end b 2) (\<lambda>i.
                if b i \<noteq> NUL then parse_arguments (b(i := NUL)) (Suc i) [0] else Some (b, [0]))))"

definition em_execute :: "'s host \<Rightarrow> bytes \<Rightarrow> bytes \<Rightarrow> 's \<Rightarrow> (s32 \<times> 's) option" where
  "em_execute h b cmd s =
     Option.bind (ece391_strlen cmd) (\<lambda>n.
       if 1023 < n then Some (- 1, s)
       else Option.bind (split_command b cmd) (\<lambda>(b, args).
              let (st, s) = host_run h (map (from_offset b) args) s
              in Some (case st of Exited c \<Rightarrow> ucast c | Signalled sig \<Rightarrow> if sig = 9 then - 1 else 256, s)))"

definition em_open :: "'s host \<Rightarrow> bytes \<Rightarrow> emulator \<Rightarrow> 's \<Rightarrow> (s32 \<times> emulator \<times> 's) option" where
  "em_open h name em s =
     Option.bind (ece391_strcmp name (cstr ''.'')) (\<lambda>d.
       if d = 0
       then let (opened, s) = host_opendir h s; (fd, s) = host_device h ''/dev/null'' s in Some (fd, em\<lparr>em_dir := opened, em_dir_fd := fd\<rparr>, s)
       else let (rval, b, s) = host_call h 5 0 0 name s in Some (if rval > 0xFFFFC000 then - 1 else rval, em, s))"

text \<open>\<^verbatim>\<open>ece391_getargs\<close> on the argument vector; \<open>p\<close> is how far \<^verbatim>\<open>buf\<close> has moved.\<close>

fun getargs_loop :: "bytes list \<Rightarrow> bytes \<Rightarrow> nat \<Rightarrow> int \<Rightarrow> (s32 \<times> bytes) option" where
  "getargs_loop [] buf p nbytes = Some (if nbytes < 1 then (- 1, buf) else (0, buf(p := NUL)))"
| "getargs_loop (a # as) buf p nbytes =
     Option.bind (ece391_strlen a) (\<lambda>len.
       if int len > nbytes then Some (- 1, buf)
       else Option.bind (ece391_strcpy (from_offset buf p) a) (\<lambda>c.
              let buf = into_offset buf p c; p = p + len; nbytes = nbytes - int len
              in if as = [] then getargs_loop [] buf p nbytes
                 else if nbytes < 1 then Some (- 1, buf)
                 else getargs_loop as (buf(p := SPACE)) (Suc p) (nbytes - 1)))"

definition em_getargs :: "bytes list \<Rightarrow> bytes \<Rightarrow> s32 \<Rightarrow> (s32 \<times> bytes) option" where
  "em_getargs argv buf nbytes = getargs_loop (tl argv) buf 0 (sint nbytes)"

definition em_vidmap :: "'s host \<Rightarrow> emulator \<Rightarrow> 's \<Rightarrow> (s32 \<times> u32 option) \<times> emulator \<times> 's" where
  "em_vidmap h em s =
     (let (em, s) = (if em_mem_fd em = - 1 then let (fd, s) = host_device h ''/dev/mem'' s in (em\<lparr>em_mem_fd := fd\<rparr>, s) else (em, s));
          (m, s) = host_mmap h (em_mem_fd em) s
      in case m of None \<Rightarrow> ((- 1, None), em, s) | Some a \<Rightarrow> ((0, Some (a + 0xb8000)), em, s))"

text \<open>The copy of a directory name: at most \<open>nbytes\<close> and at most 32 bytes, then zeros.\<close>

function copy_name :: "bytes \<Rightarrow> bytes \<Rightarrow> s32 \<Rightarrow> nat \<Rightarrow> (nat + nat) \<times> bytes" where
  "copy_name name buf nbytes copied =
     (if 32 \<le> copied then (Inl 32, buf)
      else if NUL \<noteq> name copied
      then let buf = buf(copied := name copied); copied = Suc copied
           in if (of_nat copied :: s32) = nbytes then (Inl copied, buf) else if 32 = copied then (Inl 32, buf) else copy_name name buf nbytes copied
      else (Inr copied, buf))"
  by pat_completeness auto
termination
  by (relation "measure (\<lambda>(name, buf, nbytes, copied). 32 - copied)") auto

declare copy_name.simps [simp del]

fun pad_name :: "bytes \<Rightarrow> int \<Rightarrow> nat \<Rightarrow> nat \<Rightarrow> nat \<times> bytes" where
  "pad_name buf nbytes copied 0 = (copied, buf)"
| "pad_name buf nbytes copied (Suc k) =
     (if nbytes > int copied then pad_name (buf(copied := NUL)) nbytes (Suc copied) k else (copied, buf))"

definition em_read :: "'s host \<Rightarrow> s32 \<Rightarrow> bytes \<Rightarrow> s32 \<Rightarrow> emulator \<Rightarrow> 's \<Rightarrow> s32 \<times> bytes \<times> 's" where
  "em_read h fd buf nbytes em s =
     (if \<not> em_dir em \<or> em_dir_fd em \<noteq> fd then do_call h 3 fd nbytes buf s
      else let (de, s) = host_readdir h s
           in case de of None \<Rightarrow> (0, buf, s)
              | Some name \<Rightarrow>
                  (case copy_name name buf nbytes 0 of
                     (Inl n, buf) \<Rightarrow> (of_nat n, buf, s)
                   | (Inr n, buf) \<Rightarrow> let (n, buf) = pad_name buf (sint nbytes) n (32 - n) in (of_nat n, buf, s)))"

definition em_write :: "'s host \<Rightarrow> s32 \<Rightarrow> bytes \<Rightarrow> s32 \<Rightarrow> emulator \<Rightarrow> 's \<Rightarrow> s32 \<times> 's" where
  "em_write h fd buf nbytes em s =
     (if \<not> em_dir em \<or> em_dir_fd em \<noteq> fd then let (r, b, s) = do_call h 4 fd nbytes buf s in (r, s) else (- 1, s))"

definition em_close :: "'s host \<Rightarrow> s32 \<Rightarrow> emulator \<Rightarrow> 's \<Rightarrow> s32 \<times> emulator \<times> 's" where
  "em_close h fd em s =
     (if \<not> em_dir em \<or> em_dir_fd em \<noteq> fd then let (r, b, s) = do_call h 6 fd 0 (\<lambda>_. NUL) s in (r, em, s)
      else let s = host_closedir h s; s = host_close h (em_dir_fd em) s in (0, em\<lparr>em_dir := False, em_dir_fd := - 1\<rparr>, s))"

section \<open>Words\<close>

text \<open>The words of a command line: separated by blanks; a newline ends the line where a word could start.\<close>

function words :: "u8 list \<Rightarrow> u8 list list" where
  "words xs =
     (case dropWhile (\<lambda>c. c = SPACE) xs of [] \<Rightarrow> []
      | x # ys \<Rightarrow>
          if x = NEWLINE then []
          else takeWhile (\<lambda>c. \<not> ends_word c) (x # ys) #
               (case dropWhile (\<lambda>c. \<not> ends_word c) (x # ys) of [] \<Rightarrow> [] | _ # r \<Rightarrow> words r))"
  by pat_completeness auto
termination
proof (relation "measure length")
  fix xs x ys z r
  assume "dropWhile (\<lambda>c. c = SPACE) xs = x # ys" "dropWhile (\<lambda>c. \<not> ends_word c) (x # ys) = z # r"
  then have "length (x # ys) \<le> length xs" "length (z # r) \<le> length (x # ys)" by (metis length_dropWhile_le)+
  then show "(r, xs) \<in> measure length" by simp
qed simp

declare words.simps [simp del]

fun joined :: "u8 list list \<Rightarrow> u8 list" where
  "joined [] = []"
| "joined [w] = w"
| "joined (w # ws) = w @ SPACE # joined ws"

definition is_word :: "u8 list \<Rightarrow> bool" where
  "is_word w \<longleftrightarrow> w \<noteq> [] \<and> (\<forall>c\<in>set w. \<not> ends_word c)"

lemma words_end: "dropWhile (\<lambda>c. c = SPACE) xs = [] \<or> (\<exists>ys. dropWhile (\<lambda>c. c = SPACE) xs = NEWLINE # ys) \<Longrightarrow> words xs = []"
  unfolding words.simps [of xs] by (elim disjE exE) (simp_all del: dropWhile_eq_Nil_conv)

lemma words_Cons:
  "dropWhile (\<lambda>c. c = SPACE) xs = x # ys \<Longrightarrow> x \<noteq> NEWLINE \<Longrightarrow> words xs = takeWhile (\<lambda>c. \<not> ends_word c) (x # ys) #
     (case dropWhile (\<lambda>c. \<not> ends_word c) (x # ys) of [] \<Rightarrow> [] | _ # r \<Rightarrow> words r)"
  unfolding words.simps [of xs] by simp

text \<open>The cases of the recursion: no word, or a first word that starts with \<open>x\<close>.\<close>

lemma words_induct [case_names end_line word]:
  assumes "\<And>xs. words xs = [] \<Longrightarrow> dropWhile (\<lambda>c. c = SPACE) xs = [] \<or> (\<exists>ys. dropWhile (\<lambda>c. c = SPACE) xs = NEWLINE # ys) \<Longrightarrow> P xs"
    and "\<And>xs x ys. dropWhile (\<lambda>c. c = SPACE) xs = x # ys \<Longrightarrow> x \<noteq> SPACE \<Longrightarrow> x \<noteq> NEWLINE \<Longrightarrow> (\<And>zs. length zs < length xs \<Longrightarrow> P zs) \<Longrightarrow> P xs"
  shows "P xs"
proof (induction xs rule: length_induct)
  case (1 xs)
  show ?case
  proof (cases "dropWhile (\<lambda>c. c = SPACE) xs = [] \<or> (\<exists>ys. dropWhile (\<lambda>c. c = SPACE) xs = NEWLINE # ys)")
    case True
    then show ?thesis using assms(1) words_end by blast
  next
    case False
    then obtain x ys where d: "dropWhile (\<lambda>c. c = SPACE) xs = x # ys" "x \<noteq> NEWLINE" by (cases "dropWhile (\<lambda>c. c = SPACE) xs") auto
    then have "x \<noteq> SPACE" using hd_dropWhile [of "\<lambda>c. c = SPACE" xs] by simp
    then show ?thesis using assms(2) [OF d(1)] d(2) 1 by blast
  qed
qed

lemma words_words: "NUL \<notin> set xs \<Longrightarrow> \<forall>w\<in>set (words xs). is_word w"
proof (induction xs rule: words_induct)
  case (word xs x ys)
  have sub: "set (x # ys) \<subseteq> set xs" using word(1) by (metis set_dropWhileD subsetI)
  then have e: "\<not> ends_word x" using word(2,3,5) by (auto simp: ends_word_def)
  then have first: "is_word (takeWhile (\<lambda>c. \<not> ends_word c) (x # ys))" by (auto simp: is_word_def dest: set_takeWhileD)
  have len: "length (x # ys) \<le> length xs" using word(1) by (metis length_dropWhile_le)
  show ?case
  proof (cases "dropWhile (\<lambda>c. \<not> ends_word c) (x # ys)")
    case Nil
    then show ?thesis unfolding words_Cons [OF word(1,3)] using first by simp
  next
    case (Cons z r)
    have "length (z # r) \<le> length (x # ys)" "set (z # r) \<subseteq> set (x # ys)" using Cons by (metis length_dropWhile_le, metis set_dropWhileD subsetI)
    then have "\<forall>w\<in>set (words r). is_word w" using word(4) [of r] word(5) len sub by auto
    then show ?thesis unfolding words_Cons [OF word(1,3)] Cons using first by simp
  qed
qed simp

lemma words_first: "is_word w \<Longrightarrow> words w = [w]" "is_word w \<Longrightarrow> words (w @ SPACE # xs) = w # words xs"
proof -
  assume w: "is_word w"
  then obtain x ys where c: "w = x # ys" by (cases w) (auto simp: is_word_def)
  have x: "x \<noteq> SPACE" "x \<noteq> NEWLINE" using w c by (auto simp: is_word_def ends_word_def)
  have t: "takeWhile (\<lambda>c. \<not> ends_word c) w = w" "dropWhile (\<lambda>c. \<not> ends_word c) w = []" using w by (auto simp: is_word_def)
  show "words w = [w]" using words_Cons [of w x ys] x t unfolding c by simp
  have "takeWhile (\<lambda>c. \<not> ends_word c) (w @ SPACE # xs) = w" "dropWhile (\<lambda>c. \<not> ends_word c) (w @ SPACE # xs) = SPACE # xs"
    using w by (simp_all add: is_word_def takeWhile_append2 dropWhile_append2 ends_word_def)
  then show "words (w @ SPACE # xs) = w # words xs" using words_Cons [of "w @ SPACE # xs" x "ys @ SPACE # xs"] x unfolding c by simp
qed

lemma words_joined: "\<forall>w\<in>set ws. is_word w \<Longrightarrow> words (joined ws) = ws"
proof (induction ws rule: joined.induct)
  case 1
  then show ?case by (simp add: words.simps)
qed (simp_all add: words_first)

section \<open>Splitting\<close>

text \<open>A string in a buffer.\<close>

definition str_at :: "bytes \<Rightarrow> nat \<Rightarrow> u8 list \<Rightarrow> bool" where
  "str_at b p w \<longleftrightarrow> run_of b p (length w) = w \<and> b (p + length w) = NUL"

lemma str_at_nth: "str_at b p w \<Longrightarrow> j < length w \<Longrightarrow> b (p + j) = w ! j"
  by (metis nth_run_of str_at_def)

lemma str_at_cstring: "str_at b p w \<Longrightarrow> NUL \<notin> set w \<Longrightarrow> is_cstring (from_offset b p) (length w) \<and> run_of (from_offset b p) 0 (length w) = w"
proof
  assume s: "str_at b p w" "NUL \<notin> set w"
  then show "is_cstring (from_offset b p) (length w)"
    by (intro is_cstring_list) (auto simp: from_offset_def str_at_nth, simp add: str_at_def)
  show "run_of (from_offset b p) 0 (length w) = w" using str_at_nth [OF s(1)] by (simp add: run_of_eq_iff from_offset_def)
qed

lemma str_at_drop: "str_at b p xs \<Longrightarrow> k \<le> length xs \<Longrightarrow> str_at b (p + k) (drop k xs)"
  by (auto simp: str_at_def run_of_eq_iff add.assoc)

lemma word_end_eq:
  assumes "str_at b i xs"
  shows "word_end b i = Some (i + length (takeWhile (\<lambda>c. \<not> ends_word c) xs))"
  using assms
proof (induction xs arbitrary: i)
  case Nil
  then show ?case by (subst word_end.simps) (simp add: str_at_def ends_word_def)
next
  case (Cons x xs)
  have "b i = x" using str_at_nth [OF Cons.prems, of 0] by simp
  moreover have "str_at b (Suc i) xs" using str_at_drop [OF Cons.prems, of 1] by simp
  ultimately show ?case using Cons.IH [of "Suc i"] by (subst word_end.simps) simp
qed

lemma skip_spaces_eq:
  assumes "str_at b i xs"
  shows "skip_spaces b i = Some (i + length (takeWhile (\<lambda>c. c = SPACE) xs))"
  using assms
proof (induction xs arbitrary: i)
  case Nil
  then show ?case by (subst skip_spaces.simps) (simp add: str_at_def)
next
  case (Cons x xs)
  have "b i = x" using str_at_nth [OF Cons.prems, of 0] by simp
  moreover have "str_at b (Suc i) xs" using str_at_drop [OF Cons.prems, of 1] by simp
  ultimately show ?case using Cons.IH [of "Suc i"] by (subst skip_spaces.simps) simp
qed

text \<open>One round of the loop: the next word is found at \<open>k\<close> and ended, and the rest \<open>zs\<close> starts at \<open>l\<close>.\<close>

lemma parse_arguments_next:
  assumes "str_at b i xs" "NUL \<notin> set xs" "dropWhile (\<lambda>c. c = SPACE) xs = x # ys" "x \<noteq> NEWLINE"
    and "w = takeWhile (\<lambda>c. \<not> ends_word c) (x # ys)" "k = i + length (takeWhile (\<lambda>c. c = SPACE) xs)"
  obtains l zs where "parse_arguments b i args = parse_arguments (b(k + length w := NUL)) l (args @ [k])" "str_at (b(k + length w := NUL)) l zs"
    "NUL \<notin> set zs" "length zs < length xs" "k + length w \<le> l" "words xs = w # words zs" "run_of b k (length w) = w"
proof -
  define j where "j = k + length w"
  have s: "skip_spaces b i = Some k" using skip_spaces_eq [OF assms(1)] by (simp add: assms(6))
  have k: "str_at b k (x # ys)"
    using str_at_drop [OF assms(1), of "length (takeWhile (\<lambda>c. c = SPACE) xs)"] by (simp add: assms(6) dropWhile_eq_drop [symmetric] assms(3) length_takeWhile_le)
  have e: "word_end b k = Some j" using word_end_eq [OF k] by (simp only: j_def assms(5))
  have sub: "set (x # ys) \<subseteq> set xs" "length (x # ys) \<le> length xs" using assms(3) by (metis set_dropWhileD subsetI, metis length_dropWhile_le)
  have bk: "b k = x" "x \<noteq> NUL" using str_at_nth [OF k, of 0] sub(1) assms(2) by auto
  have tail: "str_at b j (dropWhile (\<lambda>c. \<not> ends_word c) (x # ys))"
    using str_at_drop [OF k, of "length w"] by (simp only: j_def assms(5) dropWhile_eq_drop length_takeWhile_le)
  have "b (k + m) = w ! m" if "m < length w" for m
    using str_at_nth [OF k, of m] takeWhile_nth [of m "\<lambda>c. \<not> ends_word c" "x # ys"] length_takeWhile_le [of "\<lambda>c. \<not> ends_word c" "x # ys"] that
    unfolding assms(5) by simp
  then have w: "run_of b k (length w) = w" by (simp add: run_of_eq_iff)
  show thesis
  proof (cases "dropWhile (\<lambda>c. \<not> ends_word c) (x # ys)")
    case Nil
    then have bj: "b j = NUL" using tail by (simp add: str_at_def)
    then have "b(j := NUL) = b" by auto
    moreover have "words xs = w # words []" unfolding words_Cons [OF assms(3,4)] Nil assms(5) by (simp add: words.simps)
    moreover have "parse_arguments b i args = parse_arguments b j (args @ [k])"
      using s e bk assms(4) bj by (subst parse_arguments.simps) auto
    ultimately show thesis using that [of j "[]"] bj sub(2) w by (cases xs) (auto simp: str_at_def j_def)
  next
    case (Cons z r)
    have "set (z # r) \<subseteq> set (x # ys)" "length (z # r) \<le> length (x # ys)" using Cons by (metis set_dropWhileD subsetI, metis length_dropWhile_le)
    then have z: "b j = z" "z \<noteq> NUL" "NUL \<notin> set r" "length r < length xs"
      using str_at_nth [OF tail [unfolded Cons], of 0] sub assms(2) by auto
    have "str_at b (Suc j) r" using str_at_drop [OF tail, of 1] Cons by (simp del: dropWhile.simps)
    then have "str_at (b(j := NUL)) (Suc j) r" by (simp add: str_at_def run_of_eq_iff)
    moreover have "words xs = w # words r" unfolding words_Cons [OF assms(3,4)] Cons assms(5) by simp
    moreover have "parse_arguments b i args = parse_arguments (b(j := NUL)) (Suc j) (args @ [k])"
      using s e bk assms(4) z by (subst parse_arguments.simps) (auto simp: fun_upd_def)
    ultimately show thesis using that [of "Suc j" r] z w by (simp add: j_def)
  qed
qed

lemma parse_arguments_words:
  "str_at b i xs \<Longrightarrow> NUL \<notin> set xs \<Longrightarrow>
   \<exists>b' ps. parse_arguments b i args = Some (b', args @ ps) \<and> list_all2 (str_at b') ps (words xs) \<and> (\<forall>j<i. b' j = b j) \<and> (\<forall>q. b' q = b q \<or> b' q = NUL)"
proof (induction xs arbitrary: b i args rule: words_induct)
  case (end_line xs)
  define k where "k = i + length (takeWhile (\<lambda>c. c = SPACE) xs)"
  have s: "skip_spaces b i = Some k" using skip_spaces_eq [OF end_line(3)] by (simp add: k_def)
  have "str_at b k (dropWhile (\<lambda>c. c = SPACE) xs)"
    using str_at_drop [OF end_line(3), of "length (takeWhile (\<lambda>c. c = SPACE) xs)"] by (simp add: k_def dropWhile_eq_drop length_takeWhile_le)
  then have "b k = NUL \<or> b k = NEWLINE" using end_line(2) str_at_nth [of b k _ 0] by (auto simp del: dropWhile_eq_Nil_conv simp: str_at_def run_of_Suc)
  then have "parse_arguments b i args = Some (b(k := NUL), args)" using s by (subst parse_arguments.simps) (auto simp: fun_upd_def)
  then show ?case using end_line(1) by (auto simp: k_def)
next
  case (word xs x ys)
  define k where "k = i + length (takeWhile (\<lambda>c. c = SPACE) xs)"
  define w where "w = takeWhile (\<lambda>c. \<not> ends_word c) (x # ys)"
  define b1 where "b1 = b(k + length w := NUL)"
  obtain l zs where n: "parse_arguments b i args = parse_arguments b1 l (args @ [k])" "str_at b1 l zs"
    "NUL \<notin> set zs" "length zs < length xs" "k + length w \<le> l" "words xs = w # words zs" "run_of b k (length w) = w"
    unfolding b1_def by (rule parse_arguments_next [OF word(5,6,1,3) w_def k_def, of args])
  obtain b' ps where r: "parse_arguments b1 l (args @ [k]) = Some (b', (args @ [k]) @ ps)" "list_all2 (str_at b') ps (words zs)" "\<forall>q<l. b' q = b1 q" "\<forall>q. b' q = b1 q \<or> b' q = NUL"
    using word(4) [OF n(4,2,3), of "args @ [k]"] by blast
  have "b' (k + length w) = NUL" using r(4) by (metis b1_def fun_upd_same)
  then have "str_at b' k w" using r(3) n(5,7) by (simp add: str_at_def run_of_eq_iff b1_def)
  then have "list_all2 (str_at b') (k # ps) (words xs)" using r(2) n(6) by simp
  moreover have "\<forall>q<i. b' q = b q" using r(3) n(5) by (simp add: k_def b1_def)
  moreover have "\<forall>q. b' q = b q \<or> b' q = NUL" using r(4) by (metis b1_def fun_upd_other fun_upd_same)
  ultimately show ?case using r(1) n(1) by (intro exI [of _ b'] exI [of _ "k # ps"]) simp
qed

text \<open>The first word, and what follows its terminator.\<close>

definition first_word :: "u8 list \<Rightarrow> u8 list" where
  "first_word xs = takeWhile (\<lambda>c. \<not> ends_word c) xs"

definition after_first :: "u8 list \<Rightarrow> u8 list" where
  "after_first xs = drop (Suc (length (first_word xs))) xs"

lemma split_command_words:
  assumes "is_cstring cmd (length xs)" "run_of cmd 0 (length xs) = xs" "NUL \<notin> set xs"
  shows "\<exists>b' ps. split_command b cmd = Some (b', 0 # ps) \<and> str_at b' 0 ([46, 47] @ first_word xs) \<and> list_all2 (str_at b') ps (words (after_first xs))"
proof -
  define b0 where "b0 = b(0 := 46, 1 := 47)"
  define c where "c = (\<lambda>j. if j < length xs then cmd j else if j = length xs then NUL else from_offset b0 2 j)"
  define b1 where "b1 = into_offset b0 2 c"
  define i where "i = 2 + length (first_word xs)"
  have cp: "ece391_strcpy (from_offset b0 2) cmd = Some c"
    using ece391_strcpy_cstring [OF assms(1)] strcpy_cstring [OF assms(1)] by (simp add: c_def)
  have cj: "cmd j = xs ! j" if "j < length xs" for j using assms(2) that by (metis add_0 nth_run_of)
  then have s: "str_at b1 2 xs" by (simp add: str_at_def run_of_eq_iff b1_def into_offset_def c_def)
  have b01: "b1 0 = 46" "b1 1 = 47" by (simp_all add: b1_def into_offset_def b0_def)
  have e: "word_end b1 2 = Some i" using word_end_eq [OF s] by (simp add: i_def first_word_def)
  have le: "length (first_word xs) \<le> length xs" by (simp add: first_word_def length_takeWhile_le)
  have tail: "str_at b1 i (drop (length (first_word xs)) xs)" using str_at_drop [OF s le] by (simp add: i_def)
  have fw: "b1 (2 + m) = first_word xs ! m" if "m < length (first_word xs)" for m
    using str_at_nth [OF s, of m] that le by (simp add: first_word_def takeWhile_nth)
  have at0: "str_at b' 0 ([46, 47] @ first_word xs)" if "\<forall>q<i. b' q = b1 q" "b' i = NUL" for b'
    using that b01 fw by (auto simp: str_at_def run_of_eq_iff i_def nth_Cons numeral_2_eq_2 split: nat.splits)
  have step: "split_command b cmd = (if b1 i \<noteq> NUL then parse_arguments (b1(i := NUL)) (Suc i) [0] else Some (b1, [0]))"
  proof -
    have "b(0 := byte_of_char CHR ''.'', 1 := byte_of_char CHR ''/'') = b0" by (simp add: b0_def byte_of_char_def of_char_def)
    then show ?thesis using e cp unfolding split_command_def b1_def by (simp add: Let_def)
  qed
  show ?thesis
  proof (cases "length (first_word xs) = length xs")
    case True
    then have "b1 i = NUL" using s by (simp add: str_at_def i_def)
    moreover have "words (after_first xs) = []" using True by (simp add: after_first_def words.simps)
    ultimately show ?thesis using step at0 [of b1] by auto
  next
    case False
    then have lt: "length (first_word xs) < length xs" using le by simp
    have "b1 i = xs ! length (first_word xs)" using str_at_nth [OF s lt] by (simp add: i_def)
    then have nz: "b1 i \<noteq> NUL" using assms(3) lt by (metis nth_mem)
    have "str_at b1 (Suc i) (after_first xs)" using str_at_drop [OF tail, of 1] lt by (simp add: after_first_def)
    then have r: "str_at (b1(i := NUL)) (Suc i) (after_first xs)" by (simp add: str_at_def run_of_eq_iff)
    have "NUL \<notin> set (after_first xs)" using assms(3) by (auto simp: after_first_def dest: in_set_dropD)
    then obtain b' ps where "parse_arguments (b1(i := NUL)) (Suc i) [0] = Some (b', [0] @ ps)" "list_all2 (str_at b') ps (words (after_first xs))"
      "\<forall>j<Suc i. b' j = (b1(i := NUL)) j"
      using parse_arguments_words [OF r] by blast
    then show ?thesis using step nz at0 [of b'] by auto
  qed
qed

lemma after_first_joined:
  assumes "\<forall>v\<in>set (w # ws). is_word v"
  shows "words (after_first (joined (w # ws))) = ws"
proof -
  have w: "\<forall>c\<in>set w. \<not> ends_word c" using assms by (simp add: is_word_def)
  show ?thesis
  proof (cases ws)
    case Nil
    then have "first_word (joined (w # ws)) = w" using w by (simp add: first_word_def)
    then show ?thesis using Nil by (simp add: after_first_def words.simps)
  next
    case (Cons v vs)
    then have j: "joined (w # ws) = w @ SPACE # joined ws" by simp
    then have "first_word (joined (w # ws)) = w" using w by (simp add: first_word_def takeWhile_append2 ends_word_def)
    then have "after_first (joined (w # ws)) = joined ws" using j by (simp add: after_first_def)
    then show ?thesis using words_joined [of ws] assms by simp
  qed
qed

section \<open>Joining\<close>

lemma getargs_joins:
  assumes "list_all2 (\<lambda>a w. is_cstring a (length w) \<and> run_of a 0 (length w) = w) as ws" "[] \<notin> set ws"
  shows "\<exists>buf'. getargs_loop as buf p n = Some (if int (length (joined ws)) < n then 0 else - 1, buf') \<and>
    (int (length (joined ws)) < n \<longrightarrow> str_at buf' p (joined ws) \<and> (\<forall>j<p. buf' j = buf j))"
  using assms
proof (induction as ws arbitrary: buf p n rule: list_all2_induct)
  case Nil
  then show ?case by (auto simp: str_at_def)
next
  case (Cons a as w ws)
  define c where "c = (\<lambda>j. if j < length w then a j else if j = length w then NUL else from_offset buf p j)"
  define b1 where "b1 = into_offset buf p c"
  have l: "ece391_strlen a = Some (length w)" using ece391_strlen_cstring Cons.hyps(1) by blast
  have cp: "ece391_strcpy (from_offset buf p) a = Some c"
    using ece391_strcpy_cstring [of a "length w"] strcpy_cstring [of a "length w"] Cons.hyps(1) by (simp add: c_def)
  have aj: "a j = w ! j" if "j < length w" for j using Cons.hyps(1) that by (metis add_0 nth_run_of)
  then have b1: "str_at b1 p w" "\<forall>j<p. b1 j = buf j" by (simp_all add: str_at_def run_of_eq_iff b1_def into_offset_def c_def)
  show ?case
  proof (cases "ws = []")
    case True
    then have "as = []" using Cons.hyps(2) by simp
    then show ?thesis using True l cp b1 by (auto simp: b1_def [symmetric] Let_def str_at_def run_of_eq_iff)
  next
    case False
    then have ne: "as \<noteq> []" "joined (w # ws) = w @ SPACE # joined ws" using Cons.hyps(2) by (auto, cases ws) auto
    define b2 where "b2 = b1(p + length w := SPACE)"
    obtain b' where r: "getargs_loop as b2 (Suc (p + length w)) (n - int (length w) - 1) = Some (if int (length (joined ws)) < n - int (length w) - 1 then 0 else - 1, b')"
      "int (length (joined ws)) < n - int (length w) - 1 \<longrightarrow> str_at b' (Suc (p + length w)) (joined ws) \<and> (\<forall>j<Suc (p + length w). b' j = b2 j)"
      using Cons.IH [of b2 "Suc (p + length w)" "n - int (length w) - 1"] Cons.prems by auto
    have step: "getargs_loop (a # as) buf p n =
        (if int (length w) > n then Some (- 1, buf) else if n - int (length w) < 1 then Some (- 1, b1) else getargs_loop as b2 (Suc (p + length w)) (n - int (length w) - 1))"
      using l cp ne(1) by (simp add: b1_def [symmetric] b2_def Let_def)
    have "str_at b' p (w @ SPACE # joined ws) \<and> (\<forall>j<p. b' j = buf j)" if "int (length (joined ws)) < n - int (length w) - 1"
    proof -
      have s: "str_at b' (Suc (p + length w)) (joined ws)" "\<forall>j<Suc (p + length w). b' j = b2 j" using r(2) that by auto
      have "b' (p + j) = (w @ SPACE # joined ws) ! j" if "j < length (w @ SPACE # joined ws)" for j
        using s(2) str_at_nth [OF b1(1), of j] str_at_nth [OF s(1), of "j - Suc (length w)"] that
        by (cases "j < length w"; cases "j = length w") (auto simp: b2_def nth_append nth_Cons')
      then show ?thesis using s b1(2) by (auto simp: str_at_def run_of_eq_iff b2_def add.assoc)
    qed
    then show ?thesis unfolding step ne(2) using r(1) by auto
  qed
qed

section \<open>A directory name\<close>

lemma copy_name_eq:
  assumes "is_cstring name n" "c \<le> n" "c < 32" "c < m" "m < 2 ^ 31"
  shows "copy_name name buf (of_nat m) c =
    (if m \<le> n \<and> m \<le> 32 then (Inl m, \<lambda>j. if c \<le> j \<and> j < m then name j else buf j)
     else if 32 \<le> n then (Inl 32, \<lambda>j. if c \<le> j \<and> j < 32 then name j else buf j)
     else (Inr n, \<lambda>j. if c \<le> j \<and> j < n then name j else buf j))"
  using assms(2-4)
proof (induction "32 - c" arbitrary: c buf)
  case (Suc d)
  show ?case
  proof (cases "c = n")
    case True
    then show ?thesis using assms(1) Suc.prems by (subst copy_name.simps) (auto simp: is_cstring_def fun_eq_iff)
  next
    case False
    then have nz: "name c \<noteq> NUL" using assms(1) Suc.prems by (simp add: is_cstring_def)
    have m: "(of_nat (Suc c) :: s32) = of_nat m \<longleftrightarrow> Suc c = m"
    proof -
      have "unat (of_nat (Suc c) :: s32) = Suc c" "unat (of_nat m :: s32) = m" using Suc.prems assms(5) by (simp_all only: unat_of_nat) simp_all
      then show ?thesis by metis
    qed
    have step: "copy_name name buf (of_nat m) c =
        (if Suc c = m then (Inl (Suc c), buf(c := name c)) else if 32 = Suc c then (Inl 32, buf(c := name c)) else copy_name name (buf(c := name c)) (of_nat m) (Suc c))"
      using nz Suc.prems m by (subst copy_name.simps) (simp add: Let_def del: of_nat_Suc)
    show ?thesis
    proof (cases "Suc c = m \<or> 32 = Suc c")
      case True
      then show ?thesis unfolding step using False Suc.prems by (auto simp: fun_eq_iff less_Suc_eq)
    next
      case go: False
      have "copy_name name (buf(c := name c)) (of_nat m) (Suc c) =
          (if m \<le> n \<and> m \<le> 32 then (Inl m, \<lambda>j. if Suc c \<le> j \<and> j < m then name j else (buf(c := name c)) j)
           else if 32 \<le> n then (Inl 32, \<lambda>j. if Suc c \<le> j \<and> j < 32 then name j else (buf(c := name c)) j)
           else (Inr n, \<lambda>j. if Suc c \<le> j \<and> j < n then name j else (buf(c := name c)) j))"
        using Suc.hyps(2) Suc.prems False go by (intro Suc.hyps(1)) auto
      then show ?thesis unfolding step using go False Suc.prems by (auto simp: fun_eq_iff)
    qed
  qed
qed simp

lemma pad_name_eq: "pad_name buf m c k = (max c (min (nat m) (c + k)), \<lambda>j. if c \<le> j \<and> int j < m \<and> j < c + k then NUL else buf j)"
  by (induction k arbitrary: buf c) (auto simp: fun_eq_iff)

section \<open>Properties\<close>

text \<open>
  C16. The emulated command line comes back: the argument vector that the emulated \<^verbatim>\<open>execute\<close> builds
  from a command, handed to \<^verbatim>\<open>getargs\<close> of the started program, gives the words behind the first one,
  joined by single spaces, when they fit, and \<open>-1\<close> otherwise. So the arguments that are words
  joined by single spaces are passed on unchanged.
\<close>

theorem emulated_args_roundtrip:
  assumes "is_cstring cmd (length xs)" "run_of cmd 0 (length xs) = xs" "NUL \<notin> set xs"
  shows "\<exists>b' args buf'. split_command b cmd = Some (b', args) \<and>
    em_getargs (map (from_offset b') args) buf n = Some (if int (length (joined (words (after_first xs)))) < sint n then 0 else - 1, buf') \<and>
    (int (length (joined (words (after_first xs)))) < sint n \<longrightarrow> str_at buf' 0 (joined (words (after_first xs)))) \<and>
    (\<forall>w ws. xs = joined (w # ws) \<and> (\<forall>v\<in>set (w # ws). is_word v) \<longrightarrow> words (after_first xs) = ws)"
proof -
  obtain b' ps where s: "split_command b cmd = Some (b', 0 # ps)" "list_all2 (str_at b') ps (words (after_first xs))"
    using split_command_words [OF assms] by blast
  have nz: "NUL \<notin> set (after_first xs)" using assms(3) by (auto simp: after_first_def dest: in_set_dropD)
  then have w: "\<forall>w\<in>set (words (after_first xs)). is_word w" by (rule words_words)
  then have nul: "NUL \<notin> set w" if "w \<in> set (words (after_first xs))" for w using that by (auto simp: is_word_def ends_word_def)
  have "list_all2 (\<lambda>a w. is_cstring a (length w) \<and> run_of a 0 (length w) = w) (map (from_offset b') ps) (words (after_first xs))"
    using s(2) nul str_at_cstring by (auto simp: list_all2_conv_all_nth)
  moreover have "[] \<notin> set (words (after_first xs))" using w by (auto simp: is_word_def)
  ultimately obtain buf' where g: "getargs_loop (map (from_offset b') ps) buf 0 (sint n) = Some (if int (length (joined (words (after_first xs)))) < sint n then 0 else - 1, buf')"
    "int (length (joined (words (after_first xs)))) < sint n \<longrightarrow> str_at buf' 0 (joined (words (after_first xs)))"
    using getargs_joins [of "map (from_offset b') ps" "words (after_first xs)" buf 0 "sint n"] by blast
  then show ?thesis using s(1) g after_first_joined by (auto simp: em_getargs_def)
qed

theorem emulated_args_roundtrip_witness:
  "\<exists>b' args buf'. split_command (\<lambda>_. 7) (bytes_of [108, 115, 32, 97, 32, 98]) = Some (b', args) \<and>
     em_getargs (map (from_offset b') args) (\<lambda>_. 9) 1024 = Some (0, buf') \<and> str_at buf' 0 [97, 32, 98]"
proof -
  let ?xs = "[108, 115, 32, 97, 32, 98 :: u8]"
  have c: "is_cstring (bytes_of ?xs) (length ?xs)" by (rule is_cstring_list) (simp_all add: bytes_of_def)
  have "words (after_first (joined [[108, 115], [97], [98]])) = [[97], [98]]"
    by (rule after_first_joined) (simp add: is_word_def ends_word_def)
  then have w: "words (after_first ?xs) = [[97], [98]]" by simp
  have n: "NUL \<notin> set ?xs" by simp
  show ?thesis using emulated_args_roundtrip [OF c run_of_bytes_of n, of "\<lambda>_. 7" "\<lambda>_. 9" 1024] unfolding w by auto
qed

text \<open>
  The emulated \<^verbatim>\<open>getargs\<close> overruns its buffer: for an argument of exactly \<open>nbytes\<close> bytes it refuses, but only
  after it has written the terminator behind the end of the buffer.
\<close>

theorem emulated_getargs_overrun:
  assumes "is_cstring a n" "n < 2 ^ 31"
  shows "\<exists>buf'. em_getargs [prog, a] buf (of_nat n) = Some (- 1, buf') \<and> buf' n = NUL"
proof -
  have "sint (of_nat n :: s32) = int n" using assms(2) by (simp add: signed_of_nat signed_take_bit_int_eq_self)
  then show ?thesis
    using ece391_strlen_cstring [OF assms(1)] ece391_strcpy_cstring [OF assms(1)] strcpy_cstring [OF assms(1)]
    by (simp add: em_getargs_def Let_def into_offset_def)
qed

theorem emulated_getargs_overrun_witness:
  "\<exists>buf'. em_getargs [cstr ''./ls'', cstr ''ab''] (\<lambda>_. 7) 2 = Some (- 1, buf') \<and> buf' 2 = NUL"
proof -
  have "is_cstring (cstr ''ab'') (length (map byte_of_char ''ab''))" by (rule is_cstring_list) (simp_all add: cstr_def byte_of_char_def of_char_def nth_Cons split: nat.splits)
  then have "is_cstring (cstr ''ab'') 2" by (simp add: numeral_2_eq_2)
  then show ?thesis using emulated_getargs_overrun [of "cstr ''ab''" 2 "cstr ''./ls''" "\<lambda>_. 7"] by simp
qed

text \<open>
  A directory read of the emulation delivers the name padded with zeros and returns the size of the
  field (32, or the size of a smaller buffer), whatever the length of the name, and touches nothing
  behind. (The kernel's own directory read returns the length of the name.)
\<close>

theorem emulated_dir_read:
  assumes "em_dir em" "em_dir_fd em = fd" "host_readdir h s = (Some name, s')" "is_cstring name k" "0 < m" "m < 2 ^ 31"
  shows "\<exists>b. em_read h fd buf (of_nat m) em s = (of_nat (min m 32), b, s') \<and> (\<forall>j. b j = (if j < min m 32 then if j < k then name j else NUL else buf j))"
proof -
  have m: "sint (of_nat m :: s32) = int m" using assms(6) by (simp add: signed_of_nat signed_take_bit_int_eq_self)
  note c = copy_name_eq [OF assms(4), of 0 m buf]
  show ?thesis
    using c assms(1-3,5,6) m by (auto simp: em_read_def pad_name_eq Let_def min_def max_def)
qed

theorem emulated_dir_read_witness:
  "\<exists>h :: unit host. \<exists>b. em_read h 3 (\<lambda>_. 7) 33 \<lparr>em_dir_fd = 3, em_dir = True, em_mem_fd = - 1\<rparr> () = (32, b, ()) \<and> b 0 = 115 \<and> b 2 = NUL \<and> b 32 = 7"
proof -
  let ?h = "\<lparr>host_call = (\<lambda>n f c b s. (0, b, s)), host_run = (\<lambda>a s. (Exited 0, s)), host_opendir = (\<lambda>s. (True, s)), host_readdir = (\<lambda>s. (Some (bytes_of [115, 104]), s)),
     host_closedir = (\<lambda>s. s), host_device = (\<lambda>n s. (3, s)), host_close = (\<lambda>f s. s), host_mmap = (\<lambda>f s. (None, s))\<rparr> :: unit host"
  have "is_cstring (bytes_of [115, 104]) (length [115, 104 :: u8])" by (rule is_cstring_list) (simp_all add: bytes_of_def)
  then have c: "is_cstring (bytes_of [115, 104]) 2" by (simp add: eval_nat_numeral)
  show ?thesis
    using emulated_dir_read [of "\<lparr>em_dir_fd = 3, em_dir = True, em_mem_fd = - 1\<rparr>" 3 ?h "()" "bytes_of [115, 104]" "()" 2 33 "\<lambda>_. 7"] c
    by (auto simp: bytes_of_def intro!: exI [of _ ?h])
qed

end
