(* ===== verification/Pingpong.thy ===== *)
theory Pingpong
  imports Programs
begin

text \<open>
  Two more programs. \<^verbatim>\<open>pingpong\<close> moves a letter over the screen, one frame for every tick of the
  clock, for ever; the result is which frames appear. \<^verbatim>\<open>sigtest\<close> installs signal handlers and writes
  through a null pointer; what the system does then is a parameter.
\<close>

section \<open>Definitions: pingpong\<close>

definition SCREENWIDTH :: nat where "SCREENWIDTH = 79"
definition ENDING :: nat where "ENDING = 2"
definition BUFMAX :: nat where "BUFMAX = SCREENWIDTH + ENDING"
definition START :: nat where "START = 1"
definition STARTLOOP :: nat where "STARTLOOP = START + 1"
definition LOOPMAX :: nat where "LOOPMAX = SCREENWIDTH + ENDING - ENDING - 1"

lemmas pp_consts = SCREENWIDTH_def ENDING_def BUFMAX_def START_def STARTLOOP_def LOOPMAX_def

definition fill_blanks :: "nat list \<Rightarrow> bytes \<Rightarrow> bytes" where
  "fill_blanks js buf = fold (\<lambda>i b. b(i := SPACE)) js buf"

definition walls :: "bytes \<Rightarrow> bytes" where
  "walls buf = (fill_blanks [0..<BUFMAX] buf)(BUFMAX - 1 := NUL, BUFMAX - 2 := NEWLINE, BUFMAX - 3 := byte_of_char CHR ''|'', START := byte_of_char CHR ''|'')"

text \<open>One frame: the letter at \<open>j\<close>, and a wait for the clock.\<close>

definition pp_frame :: "'s os \<Rightarrow> s32 \<Rightarrow> u8 \<Rightarrow> nat \<Rightarrow> bytes \<times> 's \<Rightarrow> (bytes \<times> 's) option" where
  "pp_frame os rtc_fd curchar j = (\<lambda>(buf, st).
     let buf = fill_blanks [STARTLOOP..<LOOPMAX] buf; buf = buf(j := curchar)
     in Option.bind (ece391_fdputs os 1 buf st) (\<lambda>st. Option.bind (ece391_read os rtc_fd (\<lambda>_. 0) 4 st) (\<lambda>(r, g, st). Some (buf, st))))"

fun pp_frames :: "'s os \<Rightarrow> s32 \<Rightarrow> u8 \<Rightarrow> nat list \<Rightarrow> bytes \<times> 's \<Rightarrow> (bytes \<times> 's) option" where
  "pp_frames os rtc_fd curchar [] w = Some w"
| "pp_frames os rtc_fd curchar (j # js) w = Option.bind (pp_frame os rtc_fd curchar j w) (pp_frames os rtc_fd curchar js)"

definition pp_round :: "'s os \<Rightarrow> s32 \<Rightarrow> u8 \<Rightarrow> bytes \<times> 's \<Rightarrow> (bytes \<times> 's) option" where
  "pp_round os rtc_fd curchar w =
     Option.bind (pp_frames os rtc_fd curchar [STARTLOOP..<LOOPMAX] w) (pp_frames os rtc_fd curchar (rev [STARTLOOP..<LOOPMAX]))"

definition next_curchar :: "u8 \<Rightarrow> u8" where
  "next_curchar c = (if c = byte_of_char CHR ''Z'' then byte_of_char CHR ''A'' else c + 1)"

partial_function (option) pp_loop :: "'s os \<Rightarrow> s32 \<Rightarrow> u8 \<Rightarrow> bytes \<times> 's \<Rightarrow> (s32 \<times> 's) option" where
  "pp_loop os rtc_fd curchar w = Option.bind (pp_round os rtc_fd curchar w) (\<lambda>w. pp_loop os rtc_fd (next_curchar curchar) w)"

text \<open>The first \<open>n\<close> rounds of that loop.\<close>

fun pp_rounds :: "'s os \<Rightarrow> s32 \<Rightarrow> nat \<Rightarrow> u8 \<Rightarrow> bytes \<times> 's \<Rightarrow> (bytes \<times> 's) option" where
  "pp_rounds os rtc_fd 0 curchar w = Some w"
| "pp_rounds os rtc_fd (Suc n) curchar w = Option.bind (pp_round os rtc_fd curchar w) (\<lambda>w. pp_rounds os rtc_fd n (next_curchar curchar) w)"

definition pp_start :: "'s os \<Rightarrow> bytes \<Rightarrow> 's \<Rightarrow> (s32 \<times> bytes \<times> 's) option" where
  "pp_start os buf st =
     Option.bind (ece391_open os (cstr ''rtc'') st) (\<lambda>(rtc_fd, st).
     Option.bind (ece391_write os rtc_fd (bytes_of [32, 0, 0, 0]) 4 st) (\<lambda>(r, st). Some (rtc_fd, walls buf, st)))"

definition pingpong_main :: "'s os \<Rightarrow> bytes \<Rightarrow> 's \<Rightarrow> (s32 \<times> 's) option" where
  "pingpong_main os buf st = Option.bind (pp_start os buf st) (\<lambda>(rtc_fd, w). pp_loop os rtc_fd (byte_of_char CHR ''A'') w)"

section \<open>Definitions: sigtest\<close>

definition ece391_set_handler :: "'s os \<Rightarrow> s32 \<Rightarrow> u32 \<Rightarrow> 's \<Rightarrow> (s32 \<times> 's) option" where
  "ece391_set_handler os signum handler s = Option.bind (int80 os 9 signum handler 0 (\<lambda>_. NUL) s) (\<lambda>(r, b, s). Some (r, s))"

definition put_signum :: "'s os \<Rightarrow> s32 \<Rightarrow> 's \<Rightarrow> 's option" where
  "put_signum os signum st =
     puts_literal os (if signum = 0 then line ''0'' else if signum = 1 then line ''1'' else if signum = 2 then line ''2''
       else if signum = 3 then line ''3'' else line ''invalid'') st"

definition alarm_sighandler :: "'s os \<Rightarrow> s32 \<Rightarrow> 's \<Rightarrow> 's option" where
  "alarm_sighandler os signum st = Option.bind (puts_literal os ''Alarm signal handler called, signum: '' st) (put_signum os signum)"

text \<open>The handler redirects \<^verbatim>\<open>badbuf\<close>, and the saved register of the interrupted code, to \<^verbatim>\<open>charbuf\<close>: the result is that state.\<close>

definition segfault_sighandler :: "'s os \<Rightarrow> s32 \<Rightarrow> 's \<Rightarrow> 's option" where
  "segfault_sighandler os signum st =
     Option.bind (puts_literal os ''Segfault signal handler called, signum: '' st) (\<lambda>st.
     Option.bind (put_signum os signum st) (\<lambda>st.
     Option.bind (puts_literal os (line ''Press enter to continue...'') st) (\<lambda>st.
     Option.bind (ece391_read os 0 (\<lambda>_. 0) 1 st) (\<lambda>(r, b, st). puts_literal os (line ''Signal handler returning'') st))))"

text \<open>
  The main function. \<open>fault\<close> is what the system does about the store through the null pointer:
  \<open>None\<close> when it ends the program, else whether the store, restarted, reached \<^verbatim>\<open>charbuf\<close>. \<open>h1\<close> and \<open>h2\<close> are the
  addresses of the two handlers, \<open>charbuf\<close> the variable's value at the start.
\<close>

definition sigtest_main :: "'s os \<Rightarrow> ('s \<Rightarrow> (bool \<times> 's) option) \<Rightarrow> u32 \<Rightarrow> u32 \<Rightarrow> u8 \<Rightarrow> bytes \<Rightarrow> 's \<Rightarrow> (s32 \<times> 's) option" where
  "sigtest_main os fault h1 h2 charbuf buf st =
     Option.bind (ece391_getargs os buf 1024 st) (\<lambda>(r, buf, st).
       if 0 \<noteq> r then give_up os (line ''could not read argument'') 3 st
       else Option.bind
         (if buf 0 = byte_of_char CHR ''1''
          then Option.bind (puts_literal os (line ''Installing signal handlers'') st) (\<lambda>st.
               Option.bind (ece391_set_handler os 1 h1 st) (\<lambda>(r, st).
               Option.bind (ece391_set_handler os 3 h2 st) (\<lambda>(r, st). Some st)))
          else Some st) (\<lambda>st.
         Option.bind (puts_literal os ''Hi, what's your name? '' st) (\<lambda>st.
         Option.bind (ece391_read os 0 buf 1023 st) (\<lambda>(cnt, buf, st).
           if - 1 = cnt then give_up os (line ''Can't read name from keyboard.'') 3 st
           else Option.bind (fault st) (\<lambda>(hit, st).
                let charbuf = (if hit then 1 else charbuf); buf = buf(unat cnt := NUL)
                in Option.bind (puts_literal os ''Hello, '' st) (\<lambda>st.
                   Option.bind (ece391_fdputs os 1 buf st) (\<lambda>st.
                   Option.bind (puts_literal os (if charbuf = 1 then line ''success'' else line ''failure'') st) (\<lambda>st. Some (0, st)))))))))"

section \<open>The frames\<close>

definition picture :: "u8 \<Rightarrow> nat \<Rightarrow> u8 list" where
  "picture c j = [SPACE, 124] @ replicate (j - 2) SPACE @ [c] @ replicate (77 - j) SPACE @ [124, NEWLINE]"

text \<open>The columns between the walls.\<close>

definition columns :: "nat list" where
  "columns = [2..<78]"

definition round_output :: "u8 \<Rightarrow> u8 list" where
  "round_output c = concat (map (picture c) (columns @ rev columns))"

lemma columns: "[STARTLOOP..<LOOPMAX] = columns" "set columns = {2..<78}" "length columns = 76"
proof -
  have "STARTLOOP = 2" "LOOPMAX = 78" by (simp_all add: pp_consts)
  then show "[STARTLOOP..<LOOPMAX] = columns" unfolding columns_def by (simp only:)
  show "set columns = {2..<78}" unfolding columns_def by (rule set_upt)
  show "length columns = 76" unfolding columns_def by (subst length_upt) simp
qed

text \<open>The letters A to Z, again and again.\<close>

definition letter :: "nat \<Rightarrow> u8" where
  "letter n = of_nat (65 + n mod 26)"

lemma fill_blanks_eq: "fill_blanks js buf = (\<lambda>i. if i \<in> set js then SPACE else buf i)"
  unfolding fill_blanks_def by (induction js arbitrary: buf) auto

definition has_walls :: "bytes \<Rightarrow> bool" where
  "has_walls buf \<longleftrightarrow> buf 0 = SPACE \<and> buf 1 = 124 \<and> buf 78 = 124 \<and> buf 79 = NEWLINE \<and> buf 80 = NUL"

lemma walls_walls: "has_walls (walls buf)"
  by (simp add: has_walls_def walls_def fill_blanks_eq pp_consts byte_of_char_def of_char_def)

lemma frame_buffer:
  assumes "has_walls buf" "2 \<le> j" "j < 78" "c \<noteq> NUL"
  defines "b \<equiv> (fill_blanks [STARTLOOP..<LOOPMAX] buf)(j := c)"
  shows "has_walls b" "is_cstring b 80" "run_of b 0 80 = picture c j"
proof -
  have bi: "b i = (if i = j then c else if i \<in> {2..<78} then SPACE else buf i)" for i
    unfolding b_def fill_blanks_eq columns by simp
  show w: "has_walls b" using assms(1-3) by (simp add: has_walls_def bi)
  have len: "length (picture c j) = 80" using assms(2,3) by (simp add: picture_def)
  have "picture c j ! i = b i" if "i < 80" for i
  proof -
    have "i = 0 \<or> i = 1 \<or> 2 \<le> i \<and> i < j \<or> i = j \<or> j < i \<and> i < 78 \<or> i = 78 \<or> i = 79" using that by presburger
    then show ?thesis
      using assms(1-3) by (elim disjE) (auto simp: picture_def bi has_walls_def nth_append nth_Cons')
  qed
  then show p: "run_of b 0 80 = picture c j" using len by (simp add: run_of_eq_iff)
  have "NUL \<notin> set (picture c j)" using assms(4) by (auto simp: picture_def)
  then show "is_cstring b 80"
    using is_cstring_list [of "picture c j" b] p w len by (auto simp: run_of_eq_iff has_walls_def)
qed

lemma letter_step: "next_curchar (letter n) = letter (Suc n)" "letter n \<noteq> NUL" "letter 0 = byte_of_char CHR ''A''"
proof -
  have l: "n mod 26 < 26" by simp
  then have u: "unat (letter n) = 65 + n mod 26" unfolding letter_def by (subst unat_of_nat) simp
  then show "letter n \<noteq> NUL" by (auto simp: word_unat_eq_iff)
  show "letter 0 = byte_of_char CHR ''A''" by (simp add: letter_def byte_of_char_def of_char_def)
  have z: "letter n = byte_of_char CHR ''Z'' \<longleftrightarrow> n mod 26 = 25" using u by (auto simp: word_unat_eq_iff byte_of_char_def of_char_def)
  show "next_curchar (letter n) = letter (Suc n)"
    unfolding next_curchar_def z by (auto simp: letter_def mod_Suc byte_of_char_def of_char_def)
qed

text \<open>A system with a clock: a read of its descriptor waits for one of the ticks to come.\<close>

locale ticking_os = screen_os +
  fixes fd :: s32 and ticks :: "'s \<Rightarrow> nat"
  assumes read_waits: "ok s \<Longrightarrow> 0 < ticks s \<Longrightarrow> \<exists>b s'. ece391_read os fd buf 4 s = Some (0, b, s') \<and> ok s' \<and> screen s' = screen s \<and> ticks s' = ticks s - 1"
    and ticks_rest: "rest s' = rest s \<Longrightarrow> ticks s' = ticks s"
begin

lemma frames_appear:
  assumes "\<forall>j\<in>set js. 2 \<le> j \<and> j < 78" "c \<noteq> NUL"
  shows "ok s \<Longrightarrow> has_walls buf \<Longrightarrow> length js \<le> ticks s \<Longrightarrow>
    \<exists>buf' s'. pp_frames os fd c js (buf, s) = Some (buf', s') \<and> ok s' \<and> has_walls buf' \<and> ticks s' = ticks s - length js \<and>
      screen s' = print (concat (map (picture c) js)) (screen s)"
  using assms(1)
proof (induction js arbitrary: buf s)
  case (Cons j js)
  define b where "b = (fill_blanks [STARTLOOP..<LOOPMAX] buf)(j := c)"
  have j: "2 \<le> j" "j < 78" using Cons.prems(4) by auto
  note b = frame_buffer [OF Cons.prems(2) j assms(2), folded b_def]
  obtain s1 where s1: "ece391_fdputs os 1 b s = Some s1" "ok s1" "screen s1 = print (picture c j) (screen s)" "rest s1 = rest s"
    using fdputs_prints [OF Cons.prems(1) b(2)] b(3) by auto
  have t: "ticks s1 = ticks s" using ticks_rest [OF s1(4)] .
  obtain g s2 where s2: "ece391_read os fd (\<lambda>_. 0) 4 s1 = Some (0, g, s2)" "ok s2" "screen s2 = screen s1" "ticks s2 = ticks s1 - 1"
    using read_waits [OF s1(2), of "\<lambda>_. 0"] t Cons.prems(3) by auto
  obtain buf' s3 where s3: "pp_frames os fd c js (b, s2) = Some (buf', s3)" "ok s3" "has_walls buf'" "ticks s3 = ticks s2 - length js"
    "screen s3 = print (concat (map (picture c) js)) (screen s2)"
  proof -
    have "length js \<le> ticks s2" using Cons.prems(3) t s2(4) by simp
    then show thesis using Cons.IH [OF s2(2) b(1)] Cons.prems(4) that by auto
  qed
  have "pp_frame os fd c j (buf, s) = Some (b, s2)" using s1(1) s2(1) by (simp add: pp_frame_def b_def [symmetric])
  then show ?case using s3 s2 s1 t by (auto simp: print_append)
qed (simp add: print_nil)

lemma rounds_appear:
  "ok s \<Longrightarrow> has_walls buf \<Longrightarrow> n * 152 \<le> ticks s \<Longrightarrow>
    \<exists>buf' s'. pp_rounds os fd n (letter m) (buf, s) = Some (buf', s') \<and> ok s' \<and> ticks s' = ticks s - n * 152 \<and>
      screen s' = print (concat (map (\<lambda>i. round_output (letter i)) [m..<m + n])) (screen s)"
proof (induction n arbitrary: m buf s)
  case 0
  then show ?case by (simp add: print_nil)
next
  case (Suc n)
  obtain b1 s1 where s1: "pp_frames os fd (letter m) columns (buf, s) = Some (b1, s1)" "ok s1" "has_walls b1" "ticks s1 = ticks s - 76"
    "screen s1 = print (concat (map (picture (letter m)) columns)) (screen s)"
    using frames_appear [of columns "letter m" s buf] letter_step(2) Suc.prems columns by auto
  obtain b2 s2 where s2: "pp_frames os fd (letter m) (rev columns) (b1, s1) = Some (b2, s2)" "ok s2" "has_walls b2" "ticks s2 = ticks s1 - 76"
    "screen s2 = print (concat (map (picture (letter m)) (rev columns))) (screen s1)"
  proof -
    have "length (rev columns) \<le> ticks s1" "\<forall>j\<in>set (rev columns). 2 \<le> j \<and> j < 78" using Suc.prems(3) s1(4) columns by auto
    then show thesis using frames_appear [OF _ letter_step(2) s1(2,3)] that columns(3) by (metis length_rev)
  qed
  have r: "pp_round os fd (letter m) (buf, s) = Some (b2, s2)" using s1(1) s2(1) unfolding pp_round_def columns by simp
  have sc: "screen s2 = print (round_output (letter m)) (screen s)"
    using s1(5) s2(5) unfolding round_output_def map_append concat_append print_append by simp
  have t: "ticks s2 = ticks s - 152" using s1(4) s2(4) by simp
  obtain b3 s3 where s3: "pp_rounds os fd n (letter (Suc m)) (b2, s2) = Some (b3, s3)" "ok s3" "ticks s3 = ticks s2 - n * 152"
    "screen s3 = print (concat (map (\<lambda>i. round_output (letter i)) [Suc m..<Suc m + n])) (screen s2)"
  proof -
    have "n * 152 \<le> ticks s2" using t Suc.prems(3) by simp
    then show thesis using Suc.IH [OF s2(2,3), of "Suc m"] that by blast
  qed
  have "[m..<m + Suc n] = m # [Suc m..<Suc m + n]" by (simp add: upt_rec)
  then show ?case using r s3 sc t letter_step(1) [of m] by (simp add: print_append)
qed

end

lemma pp_loop_never: "pp_loop os fd c w = None"
proof -
  have False if "pp_loop os fd c w = Some r" for c w r
    using that by (rule pp_loop.raw_induct [rotated]) (auto split: Option.bind_splits)
  then show ?thesis by (cases "pp_loop os fd c w") blast+
qed

section \<open>The kernel's clock\<close>

text \<open>Interrupts without keys, and how many of them are from the clock.\<close>

definition quiet :: "irq list \<Rightarrow> bool" where
  "quiet es \<longleftrightarrow> (\<forall>e\<in>set es. e = Clock \<or> e = Tick)"

definition clocks :: "irq list \<Rightarrow> nat" where
  "clocks es = length (filter (\<lambda>e. e = Clock) es)"

definition rtc_ready :: "s32 \<Rightarrow> kernel \<Rightarrow> bool" where
  "rtc_ready fd k \<longleftrightarrow> fd_ready k \<and> \<not> bad_index fd \<and> flags (k_fds k (sint fd)) = FD_ON \<and> fd_jump (k_fds k (sint fd)) = rtc_ops_table"

lemma interrupt_screen:
  "\<exists>k'. interrupt Clock k = Some (Return 0, k') \<and> k_con k' = k_con k \<and> k_proc k' = k_proc k \<and> interrupt_flag (k_rtc k') = 1"
  "\<exists>k'. interrupt Tick k = Some (Return 0, k') \<and> k_con k' = k_con k \<and> k_proc k' = k_proc k \<and> k_rtc k' = k_rtc k"
  by (simp_all add: interrupt_def case_prod_beta keep_def rtc_handler_flag)

lemma spin_clock:
  "quiet es \<Longrightarrow> 0 < clocks es \<Longrightarrow> interrupt_flag (k_rtc k) = 0 \<Longrightarrow>
   \<exists>es' k'. spin (\<lambda>k. interrupt_flag (k_rtc k) \<noteq> 0) es k = Some (Return 0, es', k') \<and> quiet es' \<and> clocks es' = clocks es - 1 \<and> k_con k' = k_con k \<and> k_proc k' = k_proc k"
proof (induction es arbitrary: k)
  case (Cons e es)
  show ?case
  proof (cases "e = Clock")
    case True
    obtain k1 where k1: "interrupt Clock k = Some (Return 0, k1)" "k_con k1 = k_con k" "k_proc k1 = k_proc k" "interrupt_flag (k_rtc k1) = 1"
      using interrupt_screen(1) by blast
    then have "spin (\<lambda>k. interrupt_flag (k_rtc k) \<noteq> 0) (e # es) k = Some (Return 0, es, k1)" using Cons.prems(3) True by (cases es) simp_all
    then show ?thesis using k1 Cons.prems(1) True by (auto simp: quiet_def clocks_def)
  next
    case False
    then have e: "e = Tick" using Cons.prems(1) by (auto simp: quiet_def)
    obtain k1 where k1: "interrupt Tick k = Some (Return 0, k1)" "k_con k1 = k_con k" "k_proc k1 = k_proc k" "k_rtc k1 = k_rtc k"
      using interrupt_screen(2) by blast
    have "quiet es" "0 < clocks es" using Cons.prems e by (simp_all add: quiet_def clocks_def)
    then show ?thesis using Cons.IH [of k1] k1 Cons.prems(3) e by (simp add: clocks_def)
  qed
qed (simp add: clocks_def)

lemma kernel_read_clock:
  assumes "rtc_ready fd k" "p \<noteq> 0" "quiet es" "0 < clocks es"
  shows "\<exists>es' k'. ece391_read (kernel_os p) fd buf 4 (es, k) = Some (0, buf, es', k') \<and> quiet es' \<and> clocks es' = clocks es - 1 \<and> k_con k' = k_con k \<and> k_proc k' = k_proc k"
proof -
  have "check_valid_fd fd (k_proc k) \<noteq> 0" "op_read (jump_table fd (k_proc k)) = Rtc_read"
    using assms(1) by (auto simp: rtc_ready_def check_valid_fd_def k_fds_def jump_table_def fd_ready_def tables_ready_def fd_consts)
  moreover obtain es' k' where "rtc_read fd es k = Some (Return 0, es', k')" "quiet es'" "clocks es' = clocks es - 1" "k_con k' = k_con k" "k_proc k' = k_proc k"
    using spin_clock [OF assms(3,4), of "on_rtc (\<lambda>r. r\<lparr>interrupt_flag := 0\<rparr>) k"] by (auto simp: rtc_read_def on_rtc_def)
  ultimately show ?thesis using assms(2) by (simp add: kernel_calls sys_read_def)
qed

definition k_display :: "irq list \<times> kernel \<Rightarrow> nat \<times> console" where
  "k_display = (\<lambda>(es, k). (cur_term k, k_con k))"

interpretation kernel_ticking: ticking_os "kernel_os p" "\<lambda>(es, k). p \<noteq> 0 \<and> rtc_ready fd k \<and> quiet es" k_display "\<lambda>xs (t, c). (t, print_bytes xs t c)" k_rest
  fd "\<lambda>(es, k). clocks es" for p fd
proof
  have r: "rtc_ready fd (on_con f k) = rtc_ready fd k" for f k by (simp add: rtc_ready_def fd_ready_def k_fds_def)
  fix s :: "irq list \<times> kernel" and n buf
  assume "case s of (es, k) \<Rightarrow> p \<noteq> 0 \<and> rtc_ready fd k \<and> quiet es" "n < (2 :: nat) ^ 31"
  then show "\<exists>s'. ece391_write (kernel_os p) 1 buf (of_nat n) s = Some (of_nat n, s') \<and> (case s' of (es, k) \<Rightarrow> p \<noteq> 0 \<and> rtc_ready fd k \<and> quiet es) \<and>
      k_display s' = (case k_display s of (t, c) \<Rightarrow> (t, print_bytes (run_of buf 0 n) t c)) \<and> k_rest s' = k_rest s"
    using kernel_write_prints [of "snd s" p n buf "fst s"] r [of "print_bytes (run_of buf 0 n)" "snd s"]
    by (cases s) (auto simp: rtc_ready_def k_display_def k_rest_def on_con_def cur_term_def)
next
  fix s :: "irq list \<times> kernel" and buf
  assume s: "case s of (es, k) \<Rightarrow> p \<noteq> 0 \<and> rtc_ready fd k \<and> quiet es" "0 < (case s of (es, k) \<Rightarrow> clocks es)"
  obtain es k where k: "s = (es, k)" by fastforce
  obtain es' k' where r: "ece391_read (kernel_os p) fd buf 4 (es, k) = Some (0, buf, es', k')" "quiet es'" "clocks es' = clocks es - 1" "k_con k' = k_con k" "k_proc k' = k_proc k"
    using kernel_read_clock [of fd k p es buf] s k by auto
  then have "rtc_ready fd k'" using s(1) k by (simp add: rtc_ready_def fd_ready_def k_fds_def)
  then show "\<exists>b s'. ece391_read (kernel_os p) fd buf 4 s = Some (0, b, s') \<and> (case s' of (es, k) \<Rightarrow> p \<noteq> 0 \<and> rtc_ready fd k \<and> quiet es) \<and>
      k_display s' = k_display s \<and> (case s' of (es, k) \<Rightarrow> clocks es) = (case s of (es, k) \<Rightarrow> clocks es) - 1"
    using r s(1) k by (auto simp: k_display_def cur_term_def)
qed (auto simp: k_rest_def case_prod_beta print_bytes_append prod_eq_iff)

text \<open>The start: the clock opened and its frequency set.\<close>

lemma kernel_pp_start:
  assumes "fd_ready k" "p \<noteq> 0" "free_fds (k_fds k) = j # js"
    and "read_dentry_by_name (k_fs k) (cstr ''rtc'') (stack_dentry k) = (0, d)" "file_type d = 0"
  shows "\<exists>k'. pp_start (kernel_os p) buf (es, k) = Some (of_nat j, walls buf, es, k') \<and> rtc_ready (of_nat j) k' \<and> cur_term k' = cur_term k \<and> k_con k' = k_con k"
proof -
  have jr: "2 \<le> j" "j < 8" using free_fds_range [of j "k_fds k"] assms(3) by auto
  have fd: "sint (of_nat j :: s32) = int j" "\<not> bad_index (of_nat j)" using jr sint_small [of j] by auto
  define k1 where "k1 = snd (rtc_open (cstr ''rtc'') k)"
  have o: "sys_open p (cstr ''rtc'') k = Some (of_nat j, k1)" "fd_ready k1" "k_fds k1 = (k_fds k)(int j := rtc_info)"
    using sys_open_eq [OF assms(1,2,4)] assms(3,5) by (auto simp: opened_info_def install_def k1_def prod_eq_iff)
  have fr: "cur_term k1 = cur_term k" "k_con k1 = k_con k"
    using rtc_dev.opn_fails_iff [of "cstr ''rtc''" k] assms(3) by (auto simp: k1_def rtc_open_def Let_def cur_term_def set_fd_info_def on_rtc_def)
  have ready: "rtc_ready (of_nat j) k1" using o fd by (simp add: rtc_ready_def rtc_info_def fd_consts)
  have "check_valid_fd (of_nat j) (k_proc k1) \<noteq> 0" "op_write (jump_table (of_nat j) (k_proc k1)) = Rtc_write"
    using ready by (auto simp: rtc_ready_def check_valid_fd_def k_fds_def jump_table_def fd_ready_def tables_ready_def fd_consts)
  then have w: "sys_write (of_nat j) p (bytes_of [32, 0, 0, 0]) 4 k1 = Some (0, on_rtc (set_frequency 32) k1)"
    using assms(2) by (simp add: sys_write_def rtc_write_def u32_at_def le32_def bytes_of_def)
  define k2 where "k2 = on_rtc (set_frequency 32) k1"
  have "rtc_ready (of_nat j) k2" "cur_term k2 = cur_term k" "k_con k2 = k_con k"
    using ready fr by (simp_all add: k2_def on_rtc_def rtc_ready_def fd_ready_def k_fds_def cur_term_def)
  then show ?thesis using o(1) w by (simp add: pp_start_def kernel_calls k2_def)
qed

section \<open>Properties\<close>

text \<open>
  C15. \<^verbatim>\<open>pingpong\<close> plays: run by the kernel with the clock in the directory, it gets through its first
  \<open>n\<close> rounds whenever \<open>152 n\<close> clock interrupts come (and no keys), and what has appeared on the screen is
  one line for every interrupt: the letter moving from the left wall to the right one and back, the
  letters going through the alphabet round after round. The program itself never ends.
\<close>

theorem pingpong_plays:
  assumes "fd_ready k" "p \<noteq> 0" "free_fds (k_fds k) \<noteq> []" "quiet es" "n * 152 \<le> clocks es"
    and "read_dentry_by_name (k_fs k) (cstr ''rtc'') (stack_dentry k) = (0, d)" "file_type d = 0"
  shows "pingpong_main (kernel_os p) buf (es, k) = None \<and>
    (\<exists>fd w b' es' k'. pp_start (kernel_os p) buf (es, k) = Some (fd, w) \<and> pp_rounds (kernel_os p) fd n (byte_of_char CHR ''A'') w = Some (b', es', k') \<and>
      clocks es' = clocks es - n * 152 \<and> cur_term k' = cur_term k \<and>
      k_con k' = print_bytes (concat (map (\<lambda>i. round_output (letter i)) [0..<n])) (cur_term k) (k_con k))"
proof -
  obtain j js where j: "free_fds (k_fds k) = j # js" using assms(3) by (cases "free_fds (k_fds k)") auto
  obtain k1 where k1: "pp_start (kernel_os p) buf (es, k) = Some (of_nat j, walls buf, es, k1)" "rtc_ready (of_nat j) k1" "cur_term k1 = cur_term k" "k_con k1 = k_con k"
    using kernel_pp_start [OF assms(1,2) j assms(6,7)] by blast
  obtain b' es' k' where "pp_rounds (kernel_os p) (of_nat j) n (letter 0) (walls buf, es, k1) = Some (b', es', k')" "clocks es' = clocks es - n * 152"
    "k_display (es', k') = (cur_term k1, print_bytes (concat (map (\<lambda>i. round_output (letter i)) [0..<n])) (cur_term k1) (k_con k1))"
    using kernel_ticking.rounds_appear [of p "of_nat j" "(es, k1)" "walls buf" n 0] k1(2) assms(2,4,5) walls_walls by (auto simp: k_display_def)
  moreover have "pingpong_main (kernel_os p) buf (es, k) = None" using k1(1) by (simp add: pingpong_main_def pp_loop_never)
  ultimately show ?thesis using k1 by (auto simp: k_display_def letter_step(3))
qed

text \<open>An image whose first entry is the clock.\<close>

definition clock_fs :: filesystem where
  "clock_fs = filesystem_init (\<lambda>a. if a = 64 then 114 else if a = 65 then 116 else if a = 66 then 99 else if a = 96 then 0 else demo_image 127 a)"

lemma clock_fs_lookup: "read_dentry_by_name clock_fs (cstr ''rtc'') d = (0, fill_dentry clock_fs 0 3 d)" "entry_file_type clock_fs 0 = 0"
proof -
  have f: "entries clock_fs = 64" "boot_block clock_fs = (\<lambda>a. if a = 64 then 114 else if a = 65 then 116 else if a = 66 then 99 else if a = 96 then 0 else demo_image 127 a)"
    by (simp_all add: clock_fs_def filesystem_init_def create_char_count_def char_count_loop_eq Let_def)
  have three: "run_of b 0 3 = [b 0, b 1, b 2]" for b by (simp add: run_of_def upt_rec numeral_3_eq_3 numeral_2_eq_2)
  have less3: "j = 0 \<or> j = 1 \<or> j = 2" if "j < 3" for j :: nat using that by linarith
  have c: "cstr ''rtc'' 0 = 114" "cstr ''rtc'' 1 = 116" "cstr ''rtc'' 2 = 99" "cstr ''rtc'' 3 = NUL"
    by (simp_all add: cstr_def byte_of_char_def of_char_def)
  have "cstr ''rtc'' j \<noteq> SPACE \<and> cstr ''rtc'' j \<noteq> NUL" if "j < 3" for j using less3 [OF that] c by auto
  then have g: "given_name (cstr ''rtc'') = [114, 116, 99]" using given_name_run [of 3 "cstr ''rtc''"] c by (simp add: three fs_consts)
  have n: "entry_file_name clock_fs 0 0 = 114" "entry_file_name clock_fs 0 1 = 116" "entry_file_name clock_fs 0 2 = 99" "entry_file_name clock_fs 0 3 = NUL"
    by (simp_all add: entry_file_name_def f demo_image_def)
  have "entry_file_name clock_fs 0 j \<noteq> NUL" if "j < 3" for j using less3 [OF that] n by auto
  then have e: "entry_name clock_fs 0 = [114, 116, 99]" using entry_name_run [of 3 clock_fs 0] n by (simp add: three fs_consts)
  have "[0..<MAX_ENTRIES] = 0 # [1..<MAX_ENTRIES]" by (simp add: fs_consts upt_conv_Cons)
  moreover have "counts_ok clock_fs" unfolding clock_fs_def by (rule counts_ok_init)
  ultimately show "read_dentry_by_name clock_fs (cstr ''rtc'') d = (0, fill_dentry clock_fs 0 3 d)"
    using lookup_eq [of clock_fs "cstr ''rtc''" d] by (simp add: g e numeral_3_eq_3)
  show "entry_file_type clock_fs 0 = 0" by (simp add: entry_file_type_def f fs_consts u32_at_def le32_def demo_image_def)
qed

theorem pingpong_plays_witness:
  "\<exists>fd w b' es' k'. pp_start (kernel_os 4) (\<lambda>_. 7) (replicate 152 Clock, (demo_program (\<lambda>_. 0) (\<lambda>_. 0))\<lparr>k_fs := clock_fs\<rparr>) = Some (fd, w) \<and>
     pp_rounds (kernel_os 4) fd 1 (byte_of_char CHR ''A'') w = Some (b', es', k') \<and> k_con k' = print_bytes (round_output 65) 0 blank_console"
proof -
  let ?k = "(demo_program (\<lambda>_. 0) (\<lambda>_. 0))\<lparr>k_fs := clock_fs\<rparr>"
  have "fd_ready (demo_program (\<lambda>_. 0) (\<lambda>_. 0))" by (rule demo_program_ready)
  then have rdy: "fd_ready ?k" "k_fds ?k = fd_table_init (\<lambda>_. empty_fd)" "cur_term ?k = 0" "k_con ?k = blank_console"
    using demo_program_ready(2,4,5) [of "\<lambda>_. 0" "\<lambda>_. 0"] by (simp_all add: fd_ready_def k_fds_def cur_term_def)
  have q: "quiet (replicate 152 Clock)" "1 * 152 \<le> clocks (replicate 152 Clock)" by (simp_all add: quiet_def clocks_def filter_replicate)
  have "read_dentry_by_name (k_fs ?k) (cstr ''rtc'') (stack_dentry ?k) = (0, fill_dentry clock_fs 0 3 (stack_dentry ?k))"
    "file_type (fill_dentry clock_fs 0 3 (stack_dentry ?k)) = 0"
    using clock_fs_lookup by (simp_all add: fill_dentry_def)
  note play = pingpong_plays [OF rdy(1) _ _ q this, of 4 "\<lambda>_. 7"]
  have "concat (map (\<lambda>i. round_output (letter i)) [0..<1]) = round_output 65" by (simp add: letter_def)
  then show ?thesis using play unfolding rdy(2-4) by (auto simp: fd_table_init_free)
qed

text \<open>Without signals the last message is never reached.\<close>

lemma sigtest_never_succeeds:
  assumes "sigtest_main os (\<lambda>_. None) h1 h2 charbuf buf st = Some (r, st')"
  shows "r = 3"
  using assms by (auto simp: sigtest_main_def give_up_def Let_def split: Option.bind_splits if_splits)

end
