(* ===== verification/Spec2Isabelle.thy ===== *)
theory Spec2Isabelle
  imports Modes Commands Syserr Fish Emulate Pingpong
begin

text \<open>
  A verification library for a small 32-bit x86 kernel (\<^verbatim>\<open>student-distrib/\<close>) and the user programs
  that come with it (\<^verbatim>\<open>syscalls/\<close>, \<^verbatim>\<open>fish/\<close>).

  The program. The boot loader enters \<^verbatim>\<open>kernel.c\<close>, which reads the loader's information, mounts
  the read-only file system placed in memory, builds the segment descriptors, initialises the
  interrupt controllers, the descriptor table, the keyboard, the clock, the timer and paging,
  and executes a shell. There are three terminals, each with a stack of processes, a screen
  and a line of input. A program enters the kernel through a trap; the dispatcher of \<^verbatim>\<open>wrapper.S\<close>
  calls one of nine system calls (its table has a tenth, \<^verbatim>\<open>sigreturn\<close>, which its test refuses); they
  reach files, the directory, the clock and the terminal through a jump table in the
  descriptor. Interrupts of the keyboard and the clock end the two calls that wait. There is no preemption: the timer's handler only acknowledges its interrupt.

  Theories, bottom up, with the code each of them models.
    \<^item> \<open>Prelude\<close>: the machine types of \<^verbatim>\<open>types.h\<close> as words, byte arrays, memory, and the lemmas and
      collections the components share.
    \<^item> \<open>LibString\<close>, \<open>Console\<close>, \<open>Printf\<close> (\<^verbatim>\<open>lib.c\<close>): string and memory routines, among them those in inline
      assembly; \<^verbatim>\<open>putc\<close>, \<^verbatim>\<open>clear\<close>, scrolling, backspace and the cursor ports on video memory; \<^verbatim>\<open>printf\<close>.
      \<^verbatim>\<open>putc\<close> refines an abstract screen of 25 rows and 80 columns and never writes outside of it;
      \<^verbatim>\<open>printf\<close> prints what its format denotes; the digits of \<^verbatim>\<open>itoa\<close> denote the value.
    \<^item> \<open>Filesystem\<close> (the routines of \<^verbatim>\<open>filesystem.c\<close> on an image): the lookups find the first entry, \<^verbatim>\<open>read_data\<close>
      delivers exactly the bytes asked for and never leaves the caller's buffer, whatever the image.
    \<^item> \<open>FdTable\<close> (\<^verbatim>\<open>fd_table.c\<close>, the process controller's data of \<^verbatim>\<open>syscall.h\<close>): descriptors and the process array.
    \<^item> \<open>Paging\<close> (\<^verbatim>\<open>paging.c\<close>): page directory and tables against the processor's page walk; what is mapped
      after the initialisation, and that processes share no physical memory.
    \<^item> \<open>Pic\<close> (\<^verbatim>\<open>i8259.c\<close>, \<^verbatim>\<open>sched.c\<close>), \<open>Idt\<close> (\<^verbatim>\<open>idt.c\<close>, the descriptors of \<^verbatim>\<open>x86_desc.h\<close>), \<open>Rtc\<close> (\<^verbatim>\<open>rtc.c\<close>), \<open>Keyboard\<close>
      (tables, modifiers and line buffers of \<^verbatim>\<open>keyboard.c\<close> and \<^verbatim>\<open>terminal.c\<close>): devices and their
      tables, with the device side of the interrupt controllers' protocol, and the polling of the
      calendar on the sequence of register contents the chip shows.
    \<^item> \<open>Modes\<close> (\<^verbatim>\<open>x86_desc.S\<close>, \<^verbatim>\<open>boot.S\<close>, \<^verbatim>\<open>wrapper.S\<close>): the segment table, the start of the kernel, the switch to a
      program and the wrappers, on a model of the processor's registers, stack and privilege levels.
      Interrupts and system calls give the interrupted code its registers back; a program is
      entered in ring 3 with interrupts enabled.
    \<^item> \<open>Kernel\<close>: the state of the whole kernel, one field for each component, and how a call can end.
    \<^item> \<open>Drivers\<close> (the open, read, write and close routines of \<^verbatim>\<open>filesystem.c\<close>, \<^verbatim>\<open>rtc.c\<close>, \<^verbatim>\<open>terminal.c\<close> and \<^verbatim>\<open>keyboard.c\<close>;
      \<^verbatim>\<open>testcases3_2.c\<close>), \<open>Process\<close> (\<^verbatim>\<open>execute\<close> and \<^verbatim>\<open>halt\<close> of \<^verbatim>\<open>syscall.c\<close>, \<^verbatim>\<open>exceptions.c\<close>), \<open>Terminal\<close> (\<^verbatim>\<open>terminal_switch\<close>),
      \<open>Tty\<close> (the keyboard's interrupt handler, the reads that wait), \<open>Syscall\<close> (the other calls and the
      dispatcher), \<open>Args\<close> (a command line from \<^verbatim>\<open>execute\<close> to \<^verbatim>\<open>getargs\<close>).
    \<^item> \<open>Invariant\<close> and \<open>Running\<close>: the invariant of the running kernel, and the step relation \<open>kstep\<close> of
      interrupts, faults, system calls and stores of the program, under which it is preserved.
    \<^item> \<open>Boot\<close> (\<^verbatim>\<open>entry\<close> of \<^verbatim>\<open>kernel.c\<close>, \<^verbatim>\<open>multiboot.h\<close>): booting establishes the invariant and enters the shell.
    \<^item> \<open>User\<close> (the user library \<^verbatim>\<open>ece391support.c\<close> and the stubs of \<^verbatim>\<open>ece391syscall.S\<close>), \<open>Programs\<close> (\<^verbatim>\<open>cat\<close>, \<^verbatim>\<open>ls\<close>,
      \<^verbatim>\<open>hello\<close>, \<^verbatim>\<open>testprint\<close>, \<^verbatim>\<open>counter\<close>, \<^verbatim>\<open>shell\<close>), \<open>Interactive\<close> (the sessions of those that read lines), \<open>Syserr\<close> (the
      error tests), \<open>Grep\<close>, \<open>Pingpong\<close> (\<^verbatim>\<open>pingpong\<close> and \<^verbatim>\<open>sigtest\<close>), \<open>Blink\<close> and \<open>Fish\<close> (\<^verbatim>\<open>fish/blink.S\<close>, \<^verbatim>\<open>fish/fish.c\<close>),
      \<open>Emulate\<close> (\<^verbatim>\<open>ece391emulate.c\<close>, which runs the programs on a host system).
    \<^item> \<open>Session\<close> and \<open>Commands\<close> (\<^verbatim>\<open>_start\<close> of \<^verbatim>\<open>ece391syscall.S\<close>, the suspended \<^verbatim>\<open>execute\<close>): programs that start programs.
      A command prints what its program prints and leaves the shell as it was; the system
      answers session after session from booting on.

  State and operations. A structure is a record with the fields of the code, an array a function
  of its index, integers are words of the code's width. Operations take the state and return it;
  pointers that the code follows are addresses, so an access outside an array is an access of
  the model and not excluded by it. A function that leaves by switching stacks (\<^verbatim>\<open>execute\<close>, \<^verbatim>\<open>halt\<close>,
  \<^verbatim>\<open>terminal_switch\<close>) returns how it left as a value of a type of its own. Loops without a bound of
  their own are \<open>partial_function (option)\<close>, and \<open>None\<close> is a loop that never ends; the theorems
  show \<open>Some\<close> where the loop ends. There is no fuel. The calls that wait take the finite list of
  the interrupts that arrive, and the rounds of the endless \<^verbatim>\<open>pingpong\<close> are counted by an
  arbitrary number.

  A user program is a definition over an arbitrary system, the record \<open>os\<close> that answers a trap, and
  the program's theorem is proved in a locale that states what it relies on. \<open>kernel_os\<close> is the
  modelled kernel as such a system, and every locale is interpreted with it:
    \<^item> \<open>screen_os\<close> (output), \<open>stream_os\<close> (a file is read as a stream), \<open>text_os\<close> (with room for a line), \<open>files_os\<close>
      (two files at once), \<open>keyboard_os\<close>, \<open>shell_os\<close> and \<open>session_shell\<close> (lines that the user types; commands that
      are not found; commands that run a program), \<open>ticking_os\<close> (the clock), \<open>strict_os\<close> (the errors of the calls).
    \<^item> Inside the kernel: \<open>char_device\<close> (the console), \<open>fd_opener\<close> (opening a directory, a file, the
      clock), \<open>stream_reader\<close> (files), \<open>waiter\<close> (reads that wait for a line or a tick).
    \<^item> \<open>blink_list\<close>: the list of blinking characters as its client \<^verbatim>\<open>fish\<close> sees it.

  What the theorems show of the whole: every reachable state keeps the invariant; booting
  reaches it; in it the calls that do not wait return, and a terminal whose last program
  halts gets a new shell. On this kernel, \<^verbatim>\<open>cat\<close>, \<^verbatim>\<open>ls\<close>, \<^verbatim>\<open>grep\<close>, \<^verbatim>\<open>fish\<close> and \<^verbatim>\<open>pingpong\<close> show what they
  should and the error tests pass. From the boot loader on, the shell answers every line up to
  \<^verbatim>\<open>exit\<close>, starts the programs that the lines name, and is started again after it. The other
  properties are those of the components. Some are about what the code does against its
  intent: \<^verbatim>\<open>getargs\<close> without arguments writes below the buffer, \<^verbatim>\<open>counter\<close> refuses every
  line, a blinking character at place 0 makes the list cyclic.

  Parameters. What the processor runs for the bytes of a program (\<open>image\<close>: the compiler's side of
  the programs), the compiled handlers under the wrappers, addresses chosen by the linker, the contents of uninitialised locals, what the boot
  loader left in memory, the host under \<^verbatim>\<open>ece391emulate.c\<close>, and what the system does about the faulting
  store of \<^verbatim>\<open>sigtest\<close>. Hypotheses about them are named in the theorems and met by their witnesses. The
  file system image is arbitrary; the kernel's invariant asks of it that it has a program \<^verbatim>\<open>shell\<close>.

  Not modelled. The macros of \<^verbatim>\<open>debug.h\<close> (compiled out), the host tools \<^verbatim>\<open>createfs\<close>, \<^verbatim>\<open>elfconvert\<close> and
  \<^verbatim>\<open>fsdir\<close> and the disk images (binaries and data). The copies of the user library under \<^verbatim>\<open>fish/\<close> are
  those of \<^verbatim>\<open>syscalls/\<close>. A program's machine code is not executed: the programs are related to the
  kernel through their system calls, and a store of a program is a step of \<open>kstep\<close>. \<open>Modes\<close> and
  \<open>Kernel\<close> meet in the control values: \<open>Enter_user\<close> stands for \<^verbatim>\<open>user_context_switch\<close>, \<open>Return\<close> for the way
  back through the wrapper. The depth to which programs start programs is an argument of
  \<open>session_os\<close>; the theorems hold for every depth of at least one. The page that
  \<^verbatim>\<open>fish\<close> gets from \<^verbatim>\<open>vidmap\<close> is a memory of its own there; that it is video memory is the property of
  \<^verbatim>\<open>vidmap\<close>.
\<close>

end
